(* ===== verification/Prelude.thy ===== *)
theory Prelude
  imports Main "HOL-Library.Word" "HOL-Library.Finite_Map"
begin

text \<open>
  The layer every component shares: the integer types of the source, the outcome type of a Rust
  function (a value, an error, or a panic), Rust's checked, saturating and plain arithmetic on
  unsigned words, and the generic lemmas on outcomes, lists and finite maps that the component
  theories use.

  Plain \<open>+\<close>, \<open>-\<close> and \<open>*\<close> on integers panic on overflow in a build with overflow checks (the
  debug and test profiles) and wrap around in a build without (the release profile).  The functions
  that use them where an overflow can be reached take the setting as an argument \<open>chk\<close>.
\<close>

section \<open>Machine integers\<close>

type_synonym u8 = "8 word"
type_synonym u16 = "16 word"
type_synonym u32 = "32 word"
type_synonym u64 = "64 word"

text \<open>\<open>usize\<close> values are lengths, indices and block heights; they are kept as naturals.\<close>

type_synonym usize = nat

text \<open>The 32-byte and 64-byte arrays of the source are read as big-endian numbers throughout.\<close>

type_synonym buf32 = "256 word"
type_synonym buf64 = "512 word"

section \<open>Outcomes: a value, an error, or a panic\<close>

datatype ('a, 'e) result = Ok 'a | Err 'e | Panic

primrec bind_res :: "('a, 'e) result \<Rightarrow> ('a \<Rightarrow> ('b, 'e) result) \<Rightarrow> ('b, 'e) result" where
  "bind_res (Ok x) f = f x"
| "bind_res (Err e) f = Err e"
| "bind_res Panic f = Panic"

primrec map_err :: "('e \<Rightarrow> 'f) \<Rightarrow> ('a, 'e) result \<Rightarrow> ('a, 'f) result" where
  "map_err f (Ok x) = Ok x"
| "map_err f (Err e) = Err (f e)"
| "map_err f Panic = Panic"

definition ok_or :: "'a option \<Rightarrow> 'e \<Rightarrow> ('a, 'e) result" where
  "ok_or x e = (case x of Some v \<Rightarrow> Ok v | None \<Rightarrow> Err e)"

definition expect :: "'a option \<Rightarrow> ('a, 'e) result" where
  "expect x = (case x of Some v \<Rightarrow> Ok v | None \<Rightarrow> Panic)"

definition guard_res :: "bool \<Rightarrow> 'e \<Rightarrow> (unit, 'e) result" where
  "guard_res b e = (if b then Ok () else Err e)"

primrec is_ok :: "('a, 'e) result \<Rightarrow> bool" where
  "is_ok (Ok x) = True"
| "is_ok (Err e) = False"
| "is_ok Panic = False"

text \<open>A loop over a list that stops at the first error or panic.\<close>

fun for_each :: "('a \<Rightarrow> 's \<Rightarrow> ('s, 'e) result) \<Rightarrow> 'a list \<Rightarrow> 's \<Rightarrow> ('s, 'e) result" where
  "for_each f [] s = Ok s"
| "for_each f (x # xs) s = bind_res (f x s) (for_each f xs)"

named_theorems res_simps "facts that open an outcome in a hypothesis"

lemma bind_res_Ok_iff [res_simps]: "bind_res r f = Ok y \<longleftrightarrow> (\<exists>x. r = Ok x \<and> f x = Ok y)"
  by (cases r) auto

lemma bind_res_Err_iff [res_simps]:
  "bind_res r f = Err e \<longleftrightarrow> r = Err e \<or> (\<exists>x. r = Ok x \<and> f x = Err e)"
  by (cases r) auto

lemma bind_res_Panic_iff [res_simps]:
  "bind_res r f = Panic \<longleftrightarrow> r = Panic \<or> (\<exists>x. r = Ok x \<and> f x = Panic)"
  by (cases r) auto

lemma map_err_Ok_iff [res_simps]: "map_err f r = Ok y \<longleftrightarrow> r = Ok y"
  by (cases r) auto

lemma map_err_Err_iff [res_simps]: "map_err f r = Err y \<longleftrightarrow> (\<exists>e. r = Err e \<and> y = f e)"
  by (cases r) auto

lemma map_err_Panic_iff [res_simps]: "map_err f r = Panic \<longleftrightarrow> r = Panic"
  by (cases r) auto

lemma ok_or_Ok_iff [res_simps]: "ok_or x e = Ok v \<longleftrightarrow> x = Some v"
  by (auto simp: ok_or_def split: option.splits)

lemma ok_or_Err_iff [res_simps]: "ok_or x e = Err d \<longleftrightarrow> x = None \<and> d = e"
  by (auto simp: ok_or_def split: option.splits)

lemma ok_or_not_Panic [res_simps, simp]: "ok_or x e \<noteq> Panic"
  by (auto simp: ok_or_def split: option.splits)

lemma ok_or_simps [simp]: "ok_or (Some v) e = Ok v" "ok_or None e = Err e"
  by (auto simp: ok_or_def)

lemma expect_Ok_iff [res_simps]: "expect x = Ok v \<longleftrightarrow> x = Some v"
  by (auto simp: expect_def split: option.splits)

lemma expect_not_Err [res_simps, simp]: "expect x \<noteq> Err e"
  by (auto simp: expect_def split: option.splits)

lemma expect_Panic_iff [res_simps]: "expect x = Panic \<longleftrightarrow> x = None"
  by (auto simp: expect_def split: option.splits)

lemma expect_simps [simp]: "expect (Some v) = Ok v" "expect None = Panic"
  by (auto simp: expect_def)

lemma guard_res_Ok_iff [res_simps]: "guard_res b e = Ok u \<longleftrightarrow> b"
  by (auto simp: guard_res_def)

lemma guard_res_Err_iff [res_simps]: "guard_res b e = Err d \<longleftrightarrow> \<not> b \<and> d = e"
  by (auto simp: guard_res_def)

lemma guard_res_not_Panic [res_simps, simp]: "guard_res b e \<noteq> Panic"
  by (auto simp: guard_res_def)

lemma guard_res_simps [simp]: "guard_res True e = Ok ()" "guard_res False e = Err e"
  by (auto simp: guard_res_def)

lemma for_each_append:
  "for_each f (xs @ ys) s = bind_res (for_each f xs s) (for_each f ys)"
proof (induction xs arbitrary: s)
  case (Cons x xs)
  then show ?case by (cases "f x s") auto
qed simp

text \<open>A step that keeps an invariant keeps it through the loop.\<close>

lemma for_each_inv:
  assumes "for_each f xs s = Ok t" and "P s"
    and "\<And>x s t. x \<in> set xs \<Longrightarrow> f x s = Ok t \<Longrightarrow> P s \<Longrightarrow> P t"
  shows "P t"
  using assms
proof (induction xs arbitrary: s)
  case (Cons x xs)
  from Cons.prems(1) obtain s' where s': "f x s = Ok s'" "for_each f xs s' = Ok t"
    by (auto simp: res_simps)
  with Cons.prems have "P s'" by (meson list.set_intros(1))
  with s' Cons show ?case by (meson list.set_intros(2))
qed simp

text \<open>
  The same for operations that change a state: an error or a panic leaves the state as it was when
  it happened, and nothing is rolled back.
\<close>

type_synonym ('a, 'e, 's) run = "('a, 'e) result \<times> 's"

definition bind_run :: "('a, 'e, 's) run \<Rightarrow> ('a \<Rightarrow> 's \<Rightarrow> ('b, 'e, 's) run) \<Rightarrow> ('b, 'e, 's) run" where
  "bind_run m f = (case m of (Ok x, s) \<Rightarrow> f x s | (Err e, s) \<Rightarrow> (Err e, s) | (Panic, s) \<Rightarrow> (Panic, s))"

lemma bind_run_simps [simp]:
  "bind_run (Ok x, s) f = f x s" "bind_run (Err e, s) f = (Err e, s)"
  "bind_run (Panic, s) f = (Panic, s)"
  by (simp_all add: bind_run_def)

lemma bind_run_Ok_iff [res_simps]:
  "bind_run m f = (Ok y, t) \<longleftrightarrow> (\<exists>x s. m = (Ok x, s) \<and> f x s = (Ok y, t))"
  by (auto simp: bind_run_def split: prod.splits result.splits)

lemma bind_run_Err_iff [res_simps]:
  "bind_run m f = (Err e, t) \<longleftrightarrow> m = (Err e, t) \<or> (\<exists>x s. m = (Ok x, s) \<and> f x s = (Err e, t))"
  by (auto simp: bind_run_def split: prod.splits result.splits)

lemma bind_run_Panic_iff [res_simps]:
  "bind_run m f = (Panic, t) \<longleftrightarrow> m = (Panic, t) \<or> (\<exists>x s. m = (Ok x, s) \<and> f x s = (Panic, t))"
  by (auto simp: bind_run_def split: prod.splits result.splits)

section \<open>Unsigned arithmetic\<close>

lemma unat_lt: "unat w < 2 ^ LENGTH('a)" for w :: "'a::len word"
  by (rule unsigned_less)

lemma word_unat_eqI: "unat v = unat w \<Longrightarrow> v = w"
  by (simp add: word_unat_eq_iff)

definition checked_add :: "'a::len word \<Rightarrow> 'a word \<Rightarrow> 'a word option" where
  "checked_add a b = (if unat a + unat b < 2 ^ LENGTH('a) then Some (a + b) else None)"

definition saturating_sub :: "'a::len word \<Rightarrow> 'a word \<Rightarrow> 'a word" where
  "saturating_sub a b = (if b \<le> a then a - b else 0)"

text \<open>Plain operators: \<open>chk\<close> tells whether the build has overflow checks.\<close>

definition add_u :: "bool \<Rightarrow> 'a::len word \<Rightarrow> 'a word \<Rightarrow> ('a word, 'e) result" where
  "add_u chk a b = (if chk \<and> checked_add a b = None then Panic else Ok (a + b))"

definition sub_u :: "bool \<Rightarrow> 'a::len word \<Rightarrow> 'a word \<Rightarrow> ('a word, 'e) result" where
  "sub_u chk a b = (if chk \<and> a < b then Panic else Ok (a - b))"

definition mul_u :: "bool \<Rightarrow> 'a::len word \<Rightarrow> 'a word \<Rightarrow> ('a word, 'e) result" where
  "mul_u chk a b = (if chk \<and> 2 ^ LENGTH('a) \<le> unat a * unat b then Panic else Ok (a * b))"

text \<open>\<open>-\<close> on \<open>usize\<close> values.\<close>

definition sub_usize :: "bool \<Rightarrow> usize \<Rightarrow> usize \<Rightarrow> (usize, 'e) result" where
  "sub_usize chk a b = (if b \<le> a then Ok (a - b) else if chk then Panic else Ok (a + 2 ^ 64 - b))"

lemma sub_usize_no_underflow [simp]: "b \<le> a \<Longrightarrow> sub_usize chk a b = Ok (a - b)"
  by (simp add: sub_usize_def)

lemma checked_add_Some:
  "checked_add a b = Some c \<longleftrightarrow> unat a + unat b < 2 ^ LENGTH('a) \<and> c = a + b"
  for a b :: "'a::len word"
  by (auto simp: checked_add_def)

lemma checked_add_unat: "checked_add a b = Some c \<Longrightarrow> unat c = unat a + unat b"
  for a b :: "'a::len word"
  by (simp add: checked_add_Some unat_word_ariths)

text \<open>Checked additions in a row succeed when, and only when, the whole sum fits.\<close>

lemma checked_add_chain:
  "(\<exists>t. checked_add s a = Some t \<and> unat r = unat t + n) \<longleftrightarrow> unat r = unat s + (unat a + n)"
  for s a r :: "'a::len word"
proof
  assume "unat r = unat s + (unat a + n)"
  then have "checked_add s a = Some (s + a)" using unat_lt [of r] by (simp add: checked_add_def)
  then show "\<exists>t. checked_add s a = Some t \<and> unat r = unat t + n"
    using \<open>unat r = _\<close> checked_add_unat by fastforce
qed (auto dest: checked_add_unat)

lemma add_u_no_overflow [simp]:
  "unat a + unat b < 2 ^ LENGTH('a) \<Longrightarrow> add_u chk a b = Ok (a + b)" for a b :: "'a::len word"
  by (simp add: add_u_def checked_add_def)

lemma add_u_release [simp]: "add_u False a b = Ok (a + b)"
  by (simp add: add_u_def)

lemma sub_u_release [simp]: "sub_u False a b = Ok (a - b)"
  by (simp add: sub_u_def)

lemma sub_u_no_underflow [simp]: "b \<le> a \<Longrightarrow> sub_u chk a b = Ok (a - b)"
  by (simp add: sub_u_def not_less)

lemma mul_u_release [simp]: "mul_u False a b = Ok (a * b)"
  by (simp add: mul_u_def)

lemma unat_add_no_overflow:
  "unat a + unat b < 2 ^ LENGTH('a) \<Longrightarrow> unat (a + b) = unat a + unat b" for a b :: "'a::len word"
  by (simp add: unat_word_ariths)

lemma unat_saturating_sub: "unat (saturating_sub a b) = unat a - unat b"
  by (auto simp: saturating_sub_def word_le_nat_alt unat_sub)

section \<open>Lists and finite maps\<close>

text \<open>The first entry that a predicate accepts, as \<open>Iterator::position\<close> finds it.\<close>

fun position :: "('a \<Rightarrow> bool) \<Rightarrow> 'a list \<Rightarrow> nat option" where
  "position P [] = None"
| "position P (x # xs) = (if P x then Some 0 else map_option Suc (position P xs))"

lemma position_Some: "position P xs = Some i \<Longrightarrow> i < length xs \<and> P (xs ! i)"
  by (induction xs arbitrary: i) (auto split: if_splits)

lemma position_None: "position P xs = None \<longleftrightarrow> (\<forall>x \<in> set xs. \<not> P x)"
  by (induction xs) auto

lemma find_distinct_key: "distinct (map f xs) \<Longrightarrow> e \<in> set xs \<Longrightarrow> find (\<lambda>x. f x = f e) xs = Some e"
  by (induction xs) auto

lemma in_map_filter: "y \<in> set (List.map_filter f xs) \<longleftrightarrow> (\<exists>x \<in> set xs. f x = Some y)"
  by (induction xs) (auto simp: List.map_filter_simps split: option.splits)

text \<open>The pairs that \<open>enumerate\<close> yields.\<close>

definition enumerate_list :: "'a list \<Rightarrow> (nat \<times> 'a) list" where
  "enumerate_list xs = zip [0..<length xs] xs"

lemma set_enumerate_list: "set (enumerate_list xs) = {(i, xs ! i) | i. i < length xs}"
  by (force simp: enumerate_list_def set_zip)

lemma enumerate_list_fst: "map fst (enumerate_list xs) = [0..<length xs]"
  by (simp add: enumerate_list_def)

lemma enumerate_list_snd: "map snd (enumerate_list xs) = xs"
  by (simp add: enumerate_list_def)

lemma sum_list_update_nat:
  "i < length xs \<Longrightarrow> sum_list (xs[i := y]) + xs ! i = sum_list xs + (y :: nat)"
proof (induction xs arbitrary: i)
  case (Cons x xs)
  then show ?case by (cases i) (auto simp: add.commute add.left_commute)
qed simp

text \<open>Sums over the entries of a finite map, in no particular order.\<close>

definition fmap_sum :: "('k \<Rightarrow> 'v \<Rightarrow> nat) \<Rightarrow> ('k, 'v) fmap \<Rightarrow> nat" where
  "fmap_sum f m = (\<Sum>k \<in> fmdom' m. f k (the (fmlookup m k)))"

lemma fmap_sum_empty [simp]: "fmap_sum f fmempty = 0"
  by (simp add: fmap_sum_def)

lemma fmap_sum_remove:
  "fmlookup m k = Some v \<Longrightarrow> fmap_sum f m = f k v + fmap_sum f (fmdrop k m)"
  by (auto simp: fmap_sum_def sum.remove[of _ k] fmdom'I intro!: sum.cong)

lemma fmap_sum_drop [simp]: "fmlookup m k = None \<Longrightarrow> fmap_sum f (fmdrop k m) = fmap_sum f m"
  by (simp add: fmdrop_idle' fmdom'_notI)

lemma fmap_sum_upd: "fmap_sum f (fmupd k v m) = f k v + fmap_sum f (fmdrop k m)"
proof -
  have "fmlookup (fmupd k v m) k = Some v" by simp
  moreover have "fmdrop k (fmupd k v m) = fmdrop k m" by (rule fmap_ext) auto
  ultimately show ?thesis by (metis fmap_sum_remove)
qed

lemma fmap_sum_list:
  "fmap_sum f m = sum_list (map (\<lambda>(k, v). f k v) (sorted_list_of_fmap m))"
proof -
  have "distinct (sorted_list_of_fset (fmdom m))"
    by (simp add: sorted_list_of_fset.rep_eq)
  moreover have "set (sorted_list_of_fset (fmdom m)) = fmdom' m"
    by (simp add: fmdom'_alt_def)
  ultimately show ?thesis
    by (simp add: fmap_sum_def sorted_list_of_fmap_def comp_def sum_list_distinct_conv_sum_set)
qed

lemma set_sorted_list_of_fmap:
  "set (sorted_list_of_fmap m) = {(k, v). fmlookup m k = Some v}"
  by (auto simp: sorted_list_of_fmap_def fmlookup_dom_iff image_iff)

lemma distinct_sorted_list_of_fmap: "distinct (map fst (sorted_list_of_fmap m))"
  by (simp add: sorted_list_of_fmap_def comp_def sorted_list_of_fset.rep_eq)

end
