(* ===== verification/Bytes.thy ===== *)
theory Bytes
  imports Prelude "HOL-Library.Char_ord" "HOL-Library.List_Lexorder"
begin

text \<open>
  Unbounded unsigned integers and their positional notations.  The source holds targets and
  hashes as \<open>BigUint\<close> values while it computes with them; here they are naturals, and the
  conversions are the positional ones that \<open>BigUint\<close> documents: big-endian bytes and digits of
  radix 36.  The theory also has the fixed-width conversions \<open>to_be_bytes\<close> and \<open>from_be_bytes\<close> of
  Rust's integers, the base-36 parser of the keys and hashes (\<open>bytes_from_base36\<close>, the body that
  \<open>Hash\<close>, \<open>Signature\<close>, \<open>Public\<close> and \<open>Private\<close> repeat), and \<open>biguint_to_32_bytes\<close> of
  \<open>core/difficulty.rs\<close>.
\<close>

section \<open>Big-endian bytes\<close>

definition from_bytes_be :: "u8 list \<Rightarrow> nat" where
  "from_bytes_be bs = foldl (\<lambda>a b. a * 256 + unat b) 0 bs"

text \<open>The \<open>k\<close> low-order bytes of a number, most significant first.\<close>

fun be_bytes :: "nat \<Rightarrow> nat \<Rightarrow> u8 list" where
  "be_bytes 0 n = []"
| "be_bytes (Suc k) n = be_bytes k (n div 256) @ [word_of_nat (n mod 256)]"

text \<open>The shortest big-endian notation; zero is the single byte 0.\<close>

fun to_bytes_be :: "nat \<Rightarrow> u8 list" where
  "to_bytes_be n =
     (if n < 256 then [word_of_nat n] else to_bytes_be (n div 256) @ [word_of_nat (n mod 256)])"

declare to_bytes_be.simps [simp del]

lemma from_bytes_be_Nil [simp]: "from_bytes_be [] = 0"
  by (simp add: from_bytes_be_def)

lemma from_bytes_be_snoc [simp]: "from_bytes_be (bs @ [b]) = from_bytes_be bs * 256 + unat b"
  by (simp add: from_bytes_be_def)

lemma from_bytes_be_append:
  "from_bytes_be (xs @ ys) = from_bytes_be xs * 256 ^ length ys + from_bytes_be ys"
proof (induction ys rule: rev_induct)
  case (snoc y ys)
  then show ?case
    by (simp only: append_assoc [symmetric] from_bytes_be_snoc) (simp add: algebra_simps)
qed simp

lemma from_bytes_be_zeros [simp]: "from_bytes_be (replicate k 0) = 0"
proof (induction k)
  case (Suc k)
  have "replicate (Suc k) 0 = replicate k 0 @ [0 :: u8]" by (simp add: replicate_append_same)
  with Suc show ?case by (simp only: from_bytes_be_snoc) simp
qed simp

lemma from_bytes_be_pad [simp]: "from_bytes_be (replicate k 0 @ bs) = from_bytes_be bs"
  by (simp add: from_bytes_be_append)

lemma unat_byte_lt: "unat (b :: u8) < 256"
  using unat_lt [of b] by simp

lemma from_bytes_be_bound: "from_bytes_be bs < 256 ^ length bs"
proof (induction bs rule: rev_induct)
  case (snoc b bs)
  then have "from_bytes_be bs * 256 + unat b < (from_bytes_be bs + 1) * 256"
    using unat_byte_lt [of b] by simp
  also have "\<dots> \<le> 256 ^ length bs * 256"
    using snoc by (intro mult_le_mono1) simp
  finally show ?case by (simp add: mult.commute)
qed simp

lemma unat_byte_of_nat: "n < 256 \<Longrightarrow> unat (word_of_nat n :: u8) = n"
  by (simp add: unat_of_nat take_bit_eq_mod)

lemma from_bytes_be_to_bytes_be [simp]: "from_bytes_be (to_bytes_be n) = n"
proof (induction n rule: to_bytes_be.induct)
  case (1 n)
  show ?case
  proof (cases "n < 256")
    case True
    then have "to_bytes_be n = [] @ [word_of_nat n]" by (simp add: to_bytes_be.simps)
    with True show ?thesis by (simp only: from_bytes_be_snoc) (simp add: unat_byte_of_nat)
  next
    case False
    with "1" show ?thesis by (subst to_bytes_be.simps) (simp add: unat_byte_of_nat)
  qed
qed

lemma to_bytes_be_nonempty [simp]: "to_bytes_be n \<noteq> []"
  by (subst to_bytes_be.simps) simp

lemma length_to_bytes_be:
  assumes "0 < k" shows "length (to_bytes_be n) \<le> k \<longleftrightarrow> n < 256 ^ k"
  using assms
proof (induction n arbitrary: k rule: to_bytes_be.induct)
  case (1 n)
  obtain j where k: "k = Suc j" using "1.prems" by (cases k) auto
  show ?case
  proof (cases "n < 256")
    case True
    moreover have "(256 :: nat) \<le> 256 ^ k" unfolding k by simp
    ultimately have "n < 256 ^ k" by linarith
    with True show ?thesis by (simp add: to_bytes_be.simps k)
  next
    case False
    show ?thesis
    proof (cases "j = 0")
      case True
      with False k show ?thesis
        by (subst to_bytes_be.simps) (simp add: length_greater_0_conv [symmetric] not_le del: length_greater_0_conv)
    next
      case j: False
      with "1.IH" False have "length (to_bytes_be (n div 256)) \<le> j \<longleftrightarrow> n div 256 < 256 ^ j" by simp
      also have "\<dots> \<longleftrightarrow> n < 256 ^ k" by (simp add: k div_less_iff_less_mult mult.commute)
      finally show ?thesis using False k by (subst to_bytes_be.simps) simp
    qed
  qed
qed

lemma length_be_bytes [simp]: "length (be_bytes k n) = k"
  by (induction k arbitrary: n) auto

lemma from_bytes_be_be_bytes: "from_bytes_be (be_bytes k n) = n mod 256 ^ k"
proof (induction k arbitrary: n)
  case (Suc k)
  have "n mod (256 * 256 ^ k) = 256 * (n div 256 mod 256 ^ k) + n mod 256"
    by (rule mod_mult2_eq)
  then show ?case by (simp add: Suc unat_byte_of_nat mult.commute)
qed simp

lemma be_bytes_from_bytes_be [simp]: "be_bytes (length bs) (from_bytes_be bs) = bs"
proof (induction bs rule: rev_induct)
  case (snoc b bs)
  then show ?case using unat_byte_lt [of b] by simp
qed simp

section \<open>Fixed-width words as bytes\<close>

text \<open>\<open>to_be_bytes\<close> and \<open>from_be_bytes\<close> of an integer type of \<open>k\<close> bytes, and the array types.\<close>

definition word_to_be_bytes :: "nat \<Rightarrow> 'a::len word \<Rightarrow> u8 list" where
  "word_to_be_bytes k w = be_bytes k (unat w)"

definition word_from_be_bytes :: "u8 list \<Rightarrow> 'a::len word" where
  "word_from_be_bytes bs = word_of_nat (from_bytes_be bs)"

lemma length_word_to_be_bytes [simp]: "length (word_to_be_bytes k w) = k"
  by (simp add: word_to_be_bytes_def)

lemma word_be_bytes_inverse:
  assumes "LENGTH('a) = 8 * k"
  shows "word_from_be_bytes (word_to_be_bytes k w) = (w :: 'a::len word)"
proof -
  have "(256 :: nat) ^ k = 2 ^ LENGTH('a)" by (simp add: assms power_mult)
  then show ?thesis
    using unat_lt [of w]
    by (simp add: word_from_be_bytes_def word_to_be_bytes_def from_bytes_be_be_bytes)
qed

lemma unat_word_from_be_bytes:
  assumes "LENGTH('a) = 8 * length bs"
  shows "unat (word_from_be_bytes bs :: 'a::len word) = from_bytes_be bs"
proof -
  have "(256 :: nat) ^ length bs = 2 ^ LENGTH('a)" by (simp add: assms power_mult)
  then show ?thesis
    using from_bytes_be_bound [of bs]
    by (simp add: word_from_be_bytes_def unat_of_nat take_bit_eq_mod)
qed

lemma word_to_be_bytes_inverse:
  assumes "LENGTH('a) = 8 * length bs"
  shows "word_to_be_bytes (length bs) (word_from_be_bytes bs :: 'a::len word) = bs"
  by (simp add: word_to_be_bytes_def unat_word_from_be_bytes [OF assms])

section \<open>The number a difficulty or hash array stands for\<close>

definition biguint_of :: "buf32 \<Rightarrow> nat" where
  "biguint_of b = from_bytes_be (word_to_be_bytes 32 b)"

lemma biguint_of_unat [simp]: "biguint_of b = unat b"
  using unat_lt [of b]
  by (simp add: biguint_of_def word_to_be_bytes_def from_bytes_be_be_bytes)

text \<open>\<open>core/difficulty.rs\<close>: left padding, or the last 32 bytes of a longer notation.\<close>

definition biguint_to_32_bytes :: "nat \<Rightarrow> buf32" where
  "biguint_to_32_bytes value =
     (let bytes = to_bytes_be value;
          bytes = (if length bytes < 32 then replicate (32 - length bytes) 0 @ bytes
                   else if 32 < length bytes then drop (length bytes - 32) bytes
                   else bytes)
      in word_from_be_bytes bytes)"

lemma from_bytes_be_drop:
  "from_bytes_be (drop k bs) = from_bytes_be bs mod 256 ^ (length bs - k)"
proof -
  have "from_bytes_be bs
      = from_bytes_be (take k bs) * 256 ^ (length bs - k) + from_bytes_be (drop k bs)"
    using from_bytes_be_append [of "take k bs" "drop k bs"] by simp
  moreover have "from_bytes_be (drop k bs) < 256 ^ (length bs - k)"
    using from_bytes_be_bound [of "drop k bs"] by simp
  ultimately show ?thesis by simp
qed

lemma biguint_to_32_bytes_eq: "biguint_to_32_bytes value = word_of_nat value"
proof -
  have "(256 :: nat) ^ 32 = 2 ^ 256" by (simp flip: power_mult [of 2 8 32, simplified])
  then have "(word_of_nat (value mod 256 ^ 32) :: buf32) = word_of_nat value"
    by (simp add: word_of_nat_eq_iff take_bit_eq_mod)
  then show ?thesis
    by (auto simp: biguint_to_32_bytes_def Let_def word_from_be_bytes_def from_bytes_be_drop)
qed

lemma unat_biguint_to_32_bytes: "unat (biguint_to_32_bytes value) = value mod 2 ^ 256"
  by (simp add: biguint_to_32_bytes_eq unat_of_nat take_bit_eq_mod)

section \<open>Radix 36\<close>

definition digit36 :: "nat \<Rightarrow> char" where
  "digit36 d = char_of (if d < 10 then 48 + d else 87 + d)"

definition value36 :: "char \<Rightarrow> nat option" where
  "value36 c =
     (let n = of_char c :: nat
      in if 48 \<le> n \<and> n \<le> 57 then Some (n - 48)
         else if 97 \<le> n \<and> n \<le> 122 then Some (n - 87)
         else if 65 \<le> n \<and> n \<le> 90 then Some (n - 55)
         else None)"

fun to_str_radix36 :: "nat \<Rightarrow> string" where
  "to_str_radix36 n =
     (if n < 36 then [digit36 n] else to_str_radix36 (n div 36) @ [digit36 (n mod 36)])"

declare to_str_radix36.simps [simp del]

fun parse36_from :: "nat \<Rightarrow> string \<Rightarrow> nat option" where
  "parse36_from a [] = Some a"
| "parse36_from a (c # cs) =
     (case value36 c of None \<Rightarrow> None | Some d \<Rightarrow> parse36_from (a * 36 + d) cs)"

definition parse_bytes36 :: "string \<Rightarrow> nat option" where
  "parse_bytes36 s = (if s = [] then None else parse36_from 0 s)"

lemma value36_digit36 [simp]: "d < 36 \<Longrightarrow> value36 (digit36 d) = Some d"
  by (auto simp: value36_def digit36_def Let_def)

lemma parse36_from_append:
  "parse36_from a (xs @ ys) = (case parse36_from a xs of None \<Rightarrow> None | Some b \<Rightarrow> parse36_from b ys)"
  by (induction xs arbitrary: a) (auto split: option.splits)

lemma parse36_from_str: "parse36_from 0 (to_str_radix36 n) = Some n"
proof (induction n rule: to_str_radix36.induct)
  case (1 n)
  then show ?case by (subst to_str_radix36.simps) (simp add: parse36_from_append)
qed

lemma parse_bytes36_str [simp]: "parse_bytes36 (to_str_radix36 n) = Some n"
proof -
  have "to_str_radix36 n \<noteq> []" by (subst to_str_radix36.simps) simp
  then show ?thesis by (simp add: parse_bytes36_def parse36_from_str)
qed

lemma to_str_radix36_inject [simp]: "to_str_radix36 m = to_str_radix36 n \<longleftrightarrow> m = n"
  by (metis option.inject parse_bytes36_str)

section \<open>Decimal numbers, as \<open>format!\<close> prints them\<close>

fun dec :: "nat \<Rightarrow> string" where
  "dec n = (if n < 10 then [char_of (48 + n)] else dec (n div 10) @ [char_of (48 + n mod 10)])"

declare dec.simps [simp del]

fun dec_value :: "nat \<Rightarrow> string \<Rightarrow> nat" where
  "dec_value a [] = a"
| "dec_value a (c # cs) = dec_value (a * 10 + (of_char c - 48)) cs"

lemma dec_value_append: "dec_value a (xs @ ys) = dec_value (dec_value a xs) ys"
  by (induction xs arbitrary: a) auto

lemma dec_value_dec [simp]: "dec_value 0 (dec n) = n"
proof (induction n rule: dec.induct)
  case (1 n)
  then show ?case by (subst dec.simps) (auto simp: dec_value_append)
qed

lemma dec_inject [simp]: "dec m = dec n \<longleftrightarrow> m = n"
  by (metis dec_value_dec)

lemma dec_digits: "c \<in> set (dec n) \<Longrightarrow> (of_char c :: nat) \<in> {48..57}"
proof (induction n rule: dec.induct)
  case (1 n)
  show ?case
  proof (cases "n < 10")
    case True
    with "1.prems" show ?thesis by (auto simp: dec.simps [of n])
  next
    case False
    with "1.prems" "1.IH" show ?thesis by (auto simp: dec.simps [of n])
  qed
qed

lemma dec_nonempty [simp]: "dec n \<noteq> []"
  by (subst dec.simps) simp

section \<open>Fixed-length buffers from base 36\<close>

text \<open>
  The shared body of \<open>new_from_base36\<close>: parse, reject a notation that is too long, pad a short one
  with zeros at the front, and convert to an array of \<open>len\<close> bytes.
\<close>

definition bytes_from_base36 :: "nat \<Rightarrow> string \<Rightarrow> u8 list option" where
  "bytes_from_base36 len s =
     (case parse_bytes36 s of
        None \<Rightarrow> None
      | Some big_int \<Rightarrow>
          let buf = to_bytes_be big_int
          in if len < length buf then None
             else let buf = (if length buf < len then replicate (len - length buf) 0 @ buf else buf)
                  in if length buf = len then Some buf else None)"

lemma bytes_from_base36_Some:
  "bytes_from_base36 len s = Some buf \<Longrightarrow>
     length buf = len \<and> parse_bytes36 s = Some (from_bytes_be buf)"
  by (auto simp: bytes_from_base36_def Let_def split: option.splits if_splits)
    (metis from_bytes_be_pad from_bytes_be_to_bytes_be)+

lemma bytes_from_base36_dump:
  assumes "length buf = len" and "0 < len"
  shows "bytes_from_base36 len (to_str_radix36 (from_bytes_be buf)) = Some buf"
proof -
  let ?b = "to_bytes_be (from_bytes_be buf)"
  let ?p = "replicate (len - length ?b) 0 @ ?b"
  have le: "length ?b \<le> len"
    using assms from_bytes_be_bound [of buf] by (simp add: length_to_bytes_be)
  then have len: "length ?p = len" by simp
  have "be_bytes (length ?p) (from_bytes_be ?p) = ?p" by (rule be_bytes_from_bytes_be)
  moreover have "be_bytes (length buf) (from_bytes_be buf) = buf" by simp
  ultimately have "?p = buf" using len assms(1) by simp
  with le len show ?thesis by (auto simp: bytes_from_base36_def Let_def)
qed

lemma bytes_from_base36_too_long:
  assumes "parse_bytes36 s = Some n" and "256 ^ len \<le> n" and "0 < len"
  shows "bytes_from_base36 len s = None"
  using assms length_to_bytes_be [of len n] by (simp add: bytes_from_base36_def Let_def)

end
