(* ===== verification/Float64.thy ===== *)
theory Float64
  imports Prelude Complex_Main "HOL-Library.Log_Nat"
begin

text \<open>
  The \<open>f64\<close> arithmetic of the source.  A finite \<open>f64\<close> is a rational number, and every operation of
  IEEE 754 binary64 returns the exact result rounded to the nearest number with a 53-bit
  significand, ties to even.  The model keeps that rule and leaves the exponent unbounded: the
  values the code computes with lie between \<open>1e-9\<close> and \<open>1e20\<close>, far from overflow and subnormal
  numbers, and it never divides by zero.
\<close>

type_synonym f64 = rat

definition round_half_even :: "rat \<Rightarrow> int" where
  "round_half_even x =
     (let n = \<lfloor>x\<rfloor>; r = x - of_int n
      in if r < 1 / 2 then n else if 1 / 2 < r then n + 1 else if even n then n else n + 1)"

text \<open>The exponent of the leading bit of a positive number.\<close>

definition ilog2 :: "rat \<Rightarrow> int" where
  "ilog2 x =
     (let (p, q) = quotient_of x; e = bitlen p - bitlen q
      in if (2 :: rat) powi e \<le> x then e else e - 1)"

definition fl :: "rat \<Rightarrow> f64" where
  "fl x =
     (if x = 0 then 0
      else let u = 2 powi (ilog2 \<bar>x\<bar> - 52)
           in sgn x * (of_int (round_half_even (\<bar>x\<bar> / u)) * u))"

definition fadd :: "f64 \<Rightarrow> f64 \<Rightarrow> f64" where "fadd x y = fl (x + y)"
definition fsub :: "f64 \<Rightarrow> f64 \<Rightarrow> f64" where "fsub x y = fl (x - y)"
definition fmul :: "f64 \<Rightarrow> f64 \<Rightarrow> f64" where "fmul x y = fl (x * y)"
definition fdiv :: "f64 \<Rightarrow> f64 \<Rightarrow> f64" where "fdiv x y = fl (x / y)"

text \<open>\<open>as f64\<close> of an unsigned integer, and the saturating \<open>as u64\<close> and \<open>as usize\<close> back.\<close>

definition f64_of_nat :: "nat \<Rightarrow> f64" where "f64_of_nat n = fl (of_nat n)"

definition f64_as_nat :: "nat \<Rightarrow> f64 \<Rightarrow> nat" where
  "f64_as_nat bits x = min (nat \<lfloor>x\<rfloor>) (2 ^ bits - 1)"

definition f64_clamp :: "f64 \<Rightarrow> f64 \<Rightarrow> f64 \<Rightarrow> f64" where
  "f64_clamp x lo hi = (if x < lo then lo else if hi < x then hi else x)"

section \<open>Rounding to an integer\<close>

lemma round_half_even_of_int [simp]: "round_half_even (of_int n) = n"
  by (simp add: round_half_even_def)

lemma round_half_even_bounds: "\<lfloor>x\<rfloor> \<le> round_half_even x" "round_half_even x \<le> \<lfloor>x\<rfloor> + 1"
  by (auto simp: round_half_even_def Let_def)

lemma round_half_even_error: "\<bar>of_int (round_half_even x) - x\<bar> \<le> 1 / 2"
proof -
  have "of_int \<lfloor>x\<rfloor> \<le> x" "x < of_int \<lfloor>x\<rfloor> + 1" by linarith+
  then show ?thesis by (auto simp: round_half_even_def Let_def abs_le_iff field_simps)
qed

lemma round_half_even_mono:
  assumes "x \<le> y" shows "round_half_even x \<le> round_half_even y"
proof (cases "\<lfloor>x\<rfloor> = \<lfloor>y\<rfloor>")
  case True
  with assms show ?thesis by (auto simp: round_half_even_def Let_def)
next
  case False
  with assms floor_mono [OF assms] have "\<lfloor>x\<rfloor> + 1 \<le> \<lfloor>y\<rfloor>" by linarith
  with round_half_even_bounds [of x] round_half_even_bounds [of y] show ?thesis by linarith
qed

lemma round_half_even_le: "x \<le> of_int n \<Longrightarrow> round_half_even x \<le> n"
  using round_half_even_mono [of x "of_int n"] by simp

lemma round_half_even_ge: "of_int n \<le> x \<Longrightarrow> n \<le> round_half_even x"
  using round_half_even_mono [of "of_int n" x] by simp

section \<open>The exponent\<close>

lemma ilog2_bounds:
  assumes "0 < x"
  shows "2 powi ilog2 x \<le> x" and "x < 2 powi (ilog2 x + 1)"
proof -
  obtain p q where pq: "quotient_of x = (p, q)" by (cases "quotient_of x")
  then have x: "x = of_int p / of_int q" and q: "0 < q"
    by (auto dest: quotient_of_div quotient_of_denom_pos)
  with assms have p: "0 < p" by (simp add: zero_less_divide_iff)
  define a b where "a = bitlen p" and "b = bitlen q"
  have bl: "0 < a" "0 < b"
    using p q by (simp_all add: a_def b_def bitlen_alt_def add_pos_nonneg)
  have pow: "(2 :: rat) powi n = of_int (2 ^ nat n)" if "0 \<le> n" for n
    using that by (simp add: power_int_def)
  have P: "2 powi (a - 1) \<le> (of_int p :: rat)" "(of_int p :: rat) < 2 powi a"
    using bitlen_bounds [OF p] bl by (simp_all add: pow a_def flip: of_int_le_iff of_int_less_iff)
  have Q: "2 powi (b - 1) \<le> (of_int q :: rat)" "(of_int q :: rat) < 2 powi b"
    using bitlen_bounds [OF q] bl by (simp_all add: pow b_def flip: of_int_le_iff of_int_less_iff)
  have "x < 2 powi a / 2 powi (b - 1)"
    unfolding x using P Q q p by (intro frac_less) auto
  also have "\<dots> = 2 powi (a - b + 1)"
    by (subst power_int_diff [symmetric]) (auto simp: algebra_simps)
  finally have up: "x < 2 powi (a - b + 1)" .
  have "2 powi (a - b - 1) = (2 powi (a - 1) / 2 powi b :: rat)"
    by (subst power_int_diff [symmetric]) (auto simp: algebra_simps)
  also have "\<dots> \<le> x" unfolding x using P Q q p by (intro frac_le) auto
  finally have lo: "2 powi (a - b - 1) \<le> x" .
  have e: "ilog2 x = (if 2 powi (a - b) \<le> x then a - b else a - b - 1)"
    by (simp add: ilog2_def pq a_def b_def Let_def)
  show "2 powi ilog2 x \<le> x" "x < 2 powi (ilog2 x + 1)"
    using up lo by (auto simp: e)
qed

lemma powi2_mono: "i \<le> j \<Longrightarrow> (2 :: rat) powi i \<le> 2 powi j"
  by (rule power_int_increasing) auto

lemma powi2_strict_mono: "i < j \<Longrightarrow> (2 :: rat) powi i < 2 powi j"
  by (rule power_int_strict_increasing) auto

lemma powi2_less_iff: "(2 :: rat) powi i < 2 powi j \<longleftrightarrow> i < j"
  using powi2_mono powi2_strict_mono by (meson not_less)

lemma ilog2_unique:
  assumes "2 powi e \<le> x" and "x < 2 powi (e + 1)"
  shows "ilog2 x = e"
proof -
  have x: "0 < x" using assms(1) by (meson less_le_trans zero_less_numeral zero_less_power_int)
  have "(2 :: rat) powi e < 2 powi (ilog2 x + 1)" "(2 :: rat) powi ilog2 x < 2 powi (e + 1)"
    using ilog2_bounds [OF x] assms by linarith+
  then show ?thesis by (simp add: powi2_less_iff)
qed

lemma ilog2_mono:
  assumes "0 < x" and "x \<le> y" shows "ilog2 x \<le> ilog2 y"
proof -
  have "(2 :: rat) powi ilog2 x < 2 powi (ilog2 y + 1)"
    using ilog2_bounds [of x] ilog2_bounds [of y] assms by linarith
  then show ?thesis by (simp add: powi2_less_iff)
qed

section \<open>Rounding to 53 bits\<close>

lemma fl_0 [simp]: "fl 0 = 0"
  by (simp add: fl_def)

lemma fl_minus [simp]: "fl (- x) = - fl x"
  by (simp add: fl_def Let_def sgn_minus)

lemma fl_pos:
  "0 < x \<Longrightarrow> fl x = of_int (round_half_even (x / 2 powi (ilog2 x - 52))) * 2 powi (ilog2 x - 52)"
  by (simp add: fl_def Let_def)

lemma fl_in_binade:
  assumes "0 < x" shows "2 powi ilog2 x \<le> fl x" and "fl x \<le> 2 powi (ilog2 x + 1)"
proof -
  define u :: rat where "u = 2 powi (ilog2 x - 52)"
  have u: "0 < u" by (simp add: u_def)
  have lo: "2 powi ilog2 x = of_int (2 ^ 52) * u" and hi: "2 powi (ilog2 x + 1) = of_int (2 ^ 53) * u"
    by (simp_all add: u_def power_int_diff power_int_add)
  have "of_int (2 ^ 52) \<le> x / u" "x / u \<le> of_int (2 ^ 53)"
    using ilog2_bounds [OF assms] u by (simp_all only: lo hi pos_le_divide_eq pos_divide_le_eq less_imp_le)
  then have "2 ^ 52 \<le> round_half_even (x / u)" "round_half_even (x / u) \<le> 2 ^ 53"
    by (blast intro: round_half_even_ge round_half_even_le)+
  then have "of_int (2 ^ 52) * u \<le> of_int (round_half_even (x / u)) * u"
    "of_int (round_half_even (x / u)) * u \<le> of_int (2 ^ 53) * u"
    using u by (simp_all only: mult_le_cancel_right_pos of_int_le_iff)
  then show "2 powi ilog2 x \<le> fl x" "fl x \<le> 2 powi (ilog2 x + 1)"
    by (simp_all only: lo hi fl_pos [OF assms] u_def [symmetric])
qed

lemma fl_pos_mono:
  assumes "0 < x" and "x \<le> y" shows "fl x \<le> fl y"
proof (cases "ilog2 x = ilog2 y")
  case True
  have "round_half_even (x / 2 powi (ilog2 x - 52)) \<le> round_half_even (y / 2 powi (ilog2 x - 52))"
    using assms by (intro round_half_even_mono divide_right_mono) auto
  with assms True show ?thesis by (simp add: fl_pos)
next
  case False
  with ilog2_mono [OF assms] have "ilog2 x + 1 \<le> ilog2 y" by linarith
  then have "(2 :: rat) powi (ilog2 x + 1) \<le> 2 powi ilog2 y" by (rule powi2_mono)
  with fl_in_binade [of x] fl_in_binade [of y] assms show ?thesis by linarith
qed

lemma fl_nonneg: "0 \<le> x \<Longrightarrow> 0 \<le> fl x"
proof (cases "x = 0")
  case False
  assume "0 \<le> x"
  with False have "2 powi ilog2 x \<le> fl x" by (intro fl_in_binade) simp
  moreover have "(0 :: rat) < 2 powi ilog2 x" by simp
  ultimately show ?thesis by linarith
qed simp

lemma fl_mono: assumes "x \<le> y" shows "fl x \<le> fl y"
proof (cases "0 < x")
  case True
  then show ?thesis using assms by (rule fl_pos_mono)
next
  case False
  show ?thesis
  proof (cases "0 \<le> y")
    case True
    with False fl_nonneg [of y] fl_nonneg [of "- x"] show ?thesis by simp
  next
    case y: False
    with assms fl_pos_mono [of "- y" "- x"] show ?thesis by simp
  qed
qed

lemma fl_gt_0: "0 < x \<Longrightarrow> 0 < fl x"
proof -
  assume "0 < x"
  then have "2 powi ilog2 x \<le> fl x" by (rule fl_in_binade)
  moreover have "(0 :: rat) < 2 powi ilog2 x" by simp
  ultimately show "0 < fl x" by linarith
qed

text \<open>Numbers that a 53-bit significand represents are not changed.\<close>

lemma fl_representable:
  assumes "x = of_int m * 2 powi k" and "\<bar>m\<bar> < 2 ^ 53"
  shows "fl x = x"
proof -
  have pos: "fl (of_int m * 2 powi k) = of_int m * 2 powi k" if m: "0 < m" "m < 2 ^ 53" for m
  proof -
    define x :: rat where "x = of_int m * 2 powi k"
    have x: "0 < x" using m by (simp add: x_def)
    have "x < of_int (2 ^ 53) * 2 powi k"
      unfolding x_def using m by (intro mult_strict_right_mono) (auto simp only: of_int_less_iff, simp)
    also have "\<dots> = 2 powi (k + 53)" by (simp add: power_int_add)
    finally have "(2 :: rat) powi ilog2 x < 2 powi (k + 53)" using ilog2_bounds [OF x] by linarith
    then have k: "ilog2 x - 52 \<le> k" by (simp add: powi2_less_iff)
    have "x / 2 powi (ilog2 x - 52) = of_int m * 2 powi (k - (ilog2 x - 52))"
      by (simp add: x_def power_int_diff)
    also have "\<dots> = of_int (m * 2 ^ nat (k - (ilog2 x - 52)))"
      using k by (simp add: power_int_def)
    finally have "of_int (round_half_even (x / 2 powi (ilog2 x - 52))) = x / 2 powi (ilog2 x - 52)"
      by (simp only: round_half_even_of_int)
    then have "fl x = x" by (simp add: fl_pos [OF x])
    then show ?thesis by (simp add: x_def)
  qed
  consider "m = 0" | "0 < m" | "m < 0" by linarith
  then show ?thesis
  proof cases
    case 3
    with assms pos [of "- m"] show ?thesis by simp
  qed (use assms pos [of m] in simp_all)
qed

lemma fl_of_int: "\<bar>n\<bar> < 2 ^ 53 \<Longrightarrow> fl (of_int n) = of_int n"
  by (rule fl_representable [where k = 0]) auto

lemma f64_of_nat_exact: "n < 2 ^ 53 \<Longrightarrow> f64_of_nat n = of_nat n"
  using fl_of_int [of "int n"] by (simp add: f64_of_nat_def)

lemma fl_numeral: "(numeral n :: int) < 2 ^ 53 \<Longrightarrow> fl (numeral n) = numeral n"
  using fl_of_int [of "numeral n"] by simp

lemma fl_1 [simp]: "fl 1 = 1"
  using fl_of_int [of 1] by simp

text \<open>
  Evaluation: \<open>fl x\<close> is \<open>m / 2 ^ j\<close> when \<open>m\<close> is a full significand and \<open>x\<close> is less than half a
  unit away from it, or half a unit when \<open>m\<close> is even.
\<close>

lemma fl_nearest:
  assumes m: "2 ^ 52 < m" "m < 2 ^ 53"
    and near: "\<bar>x * 2 ^ j - of_int m\<bar> \<le> 1 / 2"
    and tie: "even m \<or> \<bar>x * 2 ^ j - of_int m\<bar> < 1 / 2"
  shows "fl x = of_int m / 2 ^ j"
proof -
  define u :: rat where "u = 2 powi (- int j)"
  have u: "0 < u" "x * 2 ^ j = x / u" "of_int m / 2 ^ j = of_int m * u"
    by (simp_all add: u_def power_int_def divide_simps)
  have "of_int (2 ^ 52 + 1) \<le> (of_int m :: rat)" "(of_int m :: rat) \<le> of_int (2 ^ 53 - 1)"
    unfolding of_int_le_iff using m by linarith+
  then have "of_int (2 ^ 52) + 1 \<le> (of_int m :: rat)" "(of_int m :: rat) \<le> of_int (2 ^ 53) - 1"
    by simp_all
  with near have "of_int (2 ^ 52) \<le> x / u" "x / u < of_int (2 ^ 53)"
    unfolding u(2) [symmetric] by linarith+
  then have "of_int (2 ^ 52) * u \<le> x" "x < of_int (2 ^ 53) * u"
    using u(1) by (simp_all add: pos_le_divide_eq pos_divide_less_eq)
  moreover have "of_int (2 ^ 52) * u = 2 powi (52 - int j)" "of_int (2 ^ 53) * u = 2 powi (52 - int j + 1)"
    by (simp_all add: u_def power_int_diff power_int_add power_int_minus divide_inverse)
  ultimately have e: "ilog2 x = 52 - int j" and x: "0 < x"
    using u(1) by (auto intro!: ilog2_unique elim!: less_le_trans [rotated])
  have "round_half_even (x / u) = m"
  proof -
    consider "\<lfloor>x / u\<rfloor> = m" | "\<lfloor>x / u\<rfloor> = m - 1" using near unfolding u(2) by linarith
    then show ?thesis
    proof cases
      case 1
      then have "x / u - of_int m \<le> 1 / 2" using near unfolding u(2) by linarith
      with 1 tie show ?thesis unfolding u(2) by (auto simp: round_half_even_def Let_def)
    next
      case 2
      have "1 / 2 \<le> x / u - of_int m + 1" using near unfolding u(2) by linarith
      then have "1 / 2 \<le> x / u - of_int (m - 1)" by simp
      moreover have "even m \<or> 1 / 2 < x / u - of_int (m - 1)"
      proof (rule disjE [OF tie [unfolded u(2)]])
        assume "\<bar>x / u - of_int m\<bar> < 1 / 2"
        then have "1 / 2 < x / u - of_int m + 1" by linarith
        then show ?thesis by simp
      qed simp
      ultimately show ?thesis using 2 by (auto simp: round_half_even_def Let_def)
    qed
  qed
  then show ?thesis by (simp add: fl_pos [OF x] e u(3) u_def)
qed

section \<open>Casts and clamping\<close>

lemma f64_as_nat_mono: "x \<le> y \<Longrightarrow> f64_as_nat b x \<le> f64_as_nat b y"
  unfolding f64_as_nat_def by (intro min.mono nat_mono floor_mono) auto

lemma f64_as_nat_of_nat: "n < 2 ^ b \<Longrightarrow> f64_as_nat b (of_nat n) = n"
  by (auto simp: f64_as_nat_def)

lemma f64_as_nat_bound: "f64_as_nat b x < 2 ^ b"
  by (auto simp: f64_as_nat_def min_less_iff_disj)

lemma f64_as_nat_between:
  assumes "of_nat lo \<le> x" and "x \<le> of_nat hi" and "hi < 2 ^ b"
  shows "lo \<le> f64_as_nat b x" and "f64_as_nat b x \<le> hi"
proof -
  have "(of_nat lo :: rat) \<le> of_nat hi" using assms by linarith
  then have "lo < 2 ^ b" using assms(3) by simp
  with assms f64_as_nat_mono [OF assms(1), of b] f64_as_nat_mono [OF assms(2), of b]
  show "lo \<le> f64_as_nat b x" "f64_as_nat b x \<le> hi" by (simp_all add: f64_as_nat_of_nat)
qed

lemma f64_clamp_bounds: "lo \<le> hi \<Longrightarrow> lo \<le> f64_clamp x lo hi \<and> f64_clamp x lo hi \<le> hi"
  by (auto simp: f64_clamp_def)

lemma f64_clamp_mono: "lo \<le> hi \<Longrightarrow> x \<le> y \<Longrightarrow> f64_clamp x lo hi \<le> f64_clamp y lo hi"
  by (auto simp: f64_clamp_def)

lemma f64_of_nat_mono: "m \<le> n \<Longrightarrow> f64_of_nat m \<le> f64_of_nat n"
  by (simp add: f64_of_nat_def fl_mono)

end
