(* ===== verification/Crypto.thy ===== *)
theory Crypto
  imports Bytes Float64
begin

text \<open>
  \<open>crypto/mod.rs\<close> and \<open>crypto/keys.rs\<close>: the newtypes \<open>Hash\<close>, \<open>Signature\<close>, \<open>Public\<close> and
  \<open>Private\<close>, their conversions from and to base 36 and raw buffers, hashing and the signature
  checks.  RandomX, SHA-256 and ed25519 are packages outside the repository: their operations are
  the fields of the record \<open>crypto\<close>, an argument of every function that reaches them.  The record
  also holds the platform's logarithm and the build's overflow-check setting.
\<close>

section \<open>The operations the code imports\<close>

record crypto =
  randomx :: "u8 list \<Rightarrow> buf32"                    \<comment> \<open>the RandomX virtual machine's hash\<close>
  sha256 :: "u8 list \<Rightarrow> buf32"                     \<comment> \<open>a \<open>Sha256\<close> hasher fed the whole input\<close>
  key_valid :: "buf32 \<Rightarrow> bool"                     \<comment> \<open>\<open>VerifyingKey::from_bytes\<close> accepts the key\<close>
  verify_strict :: "buf32 \<Rightarrow> u8 list \<Rightarrow> buf64 \<Rightarrow> bool"  \<comment> \<open>key, message, signature\<close>
  sign_bytes :: "buf32 \<Rightarrow> u8 list \<Rightarrow> buf64"         \<comment> \<open>\<open>SigningKey::sign\<close>\<close>
  verifying_key :: "buf32 \<Rightarrow> buf32"                \<comment> \<open>\<open>SigningKey::verifying_key\<close>\<close>
  f64_ln :: "f64 \<Rightarrow> f64"                        \<comment> \<open>\<open>f64::ln\<close>, whose last bits vary by platform\<close>
  overflow_checks :: bool

datatype ed25519_error = Ed25519Error

section \<open>Newtypes over byte arrays\<close>

datatype Hash = Hash (hash_buf: buf32)
datatype Signature = Signature (sig_buf: buf64)
datatype Public = Public (public_buf: buf32)
datatype Private = Private (private_buf: buf32)

text \<open>Keys of an ordered store compare as their bytes do, most significant first.\<close>

instantiation Hash :: linorder
begin

definition less_eq_Hash :: "Hash \<Rightarrow> Hash \<Rightarrow> bool" where
  "less_eq_Hash a b \<longleftrightarrow> hash_buf a \<le> hash_buf b"

definition less_Hash :: "Hash \<Rightarrow> Hash \<Rightarrow> bool" where
  "less_Hash a b \<longleftrightarrow> hash_buf a < hash_buf b"

instance
  by standard (auto simp: less_eq_Hash_def less_Hash_def intro: Hash.expand)

end

instantiation Public :: linorder
begin

definition less_eq_Public :: "Public \<Rightarrow> Public \<Rightarrow> bool" where
  "less_eq_Public a b \<longleftrightarrow> public_buf a \<le> public_buf b"

definition less_Public :: "Public \<Rightarrow> Public \<Rightarrow> bool" where
  "less_Public a b \<longleftrightarrow> public_buf a < public_buf b"

instance
  by standard (auto simp: less_eq_Public_def less_Public_def intro: Public.expand)

end

subsection \<open>\<open>Hash\<close>\<close>

definition randomx_hash :: "'z crypto_scheme \<Rightarrow> u8 list \<Rightarrow> buf32" where
  "randomx_hash C input = randomx C input"

definition hash_new :: "'z crypto_scheme \<Rightarrow> u8 list \<Rightarrow> Hash" where
  "hash_new C data = Hash (randomx_hash C data)"

definition hash_new_from_buf :: "buf32 \<Rightarrow> Hash" where
  "hash_new_from_buf b = Hash b"

definition compare_with_data :: "'z crypto_scheme \<Rightarrow> Hash \<Rightarrow> u8 list \<Rightarrow> bool" where
  "compare_with_data C h other_data \<longleftrightarrow> randomx_hash C other_data = hash_buf h"

definition hash_new_from_base36 :: "string \<Rightarrow> Hash option" where
  "hash_new_from_base36 s = map_option (\<lambda>buf. Hash (word_from_be_bytes buf)) (bytes_from_base36 32 s)"

definition hash_dump_base36 :: "Hash \<Rightarrow> string" where
  "hash_dump_base36 h = to_str_radix36 (from_bytes_be (word_to_be_bytes 32 (hash_buf h)))"

definition hash_dump_buf :: "Hash \<Rightarrow> u8 list" where
  "hash_dump_buf h = word_to_be_bytes 32 (hash_buf h)"

subsection \<open>\<open>Signature\<close>\<close>

definition new_signature :: "'z crypto_scheme \<Rightarrow> Private \<Rightarrow> u8 list \<Rightarrow> Signature" where
  "new_signature C private data = Signature (sign_bytes C (private_buf private) data)"

definition validate_with_public ::
  "'z crypto_scheme \<Rightarrow> Signature \<Rightarrow> Public \<Rightarrow> u8 list \<Rightarrow> (bool, ed25519_error) result" where
  "validate_with_public C s public data =
     (if key_valid C (public_buf public)
      then Ok (verify_strict C (public_buf public) data (sig_buf s))
      else Err Ed25519Error)"

definition validate_with_private ::
  "'z crypto_scheme \<Rightarrow> Signature \<Rightarrow> Private \<Rightarrow> u8 list \<Rightarrow> (bool, ed25519_error) result" where
  "validate_with_private C s private data =
     Ok (verify_strict C (verifying_key C (private_buf private)) data (sig_buf s))"

definition sig_new_from_base36 :: "string \<Rightarrow> Signature option" where
  "sig_new_from_base36 s =
     map_option (\<lambda>buf. Signature (word_from_be_bytes buf)) (bytes_from_base36 64 s)"

definition sig_dump_base36 :: "Signature \<Rightarrow> string" where
  "sig_dump_base36 s = to_str_radix36 (from_bytes_be (word_to_be_bytes 64 (sig_buf s)))"

definition sig_dump_buf :: "Signature \<Rightarrow> u8 list" where
  "sig_dump_buf s = word_to_be_bytes 64 (sig_buf s)"

subsection \<open>\<open>Public\<close> and \<open>Private\<close>\<close>

definition public_new_from_base36 :: "string \<Rightarrow> Public option" where
  "public_new_from_base36 s =
     map_option (\<lambda>buf. Public (word_from_be_bytes buf)) (bytes_from_base36 32 s)"

definition public_new_from_buf :: "u8 list \<Rightarrow> Public" where
  "public_new_from_buf buf = Public (word_from_be_bytes buf)"

definition public_dump_buf :: "Public \<Rightarrow> u8 list" where
  "public_dump_buf p = word_to_be_bytes 32 (public_buf p)"

definition public_dump_base36 :: "Public \<Rightarrow> string" where
  "public_dump_base36 p = to_str_radix36 (from_bytes_be (word_to_be_bytes 32 (public_buf p)))"

definition private_new_from_base36 :: "string \<Rightarrow> Private option" where
  "private_new_from_base36 s =
     map_option (\<lambda>buf. Private (word_from_be_bytes buf)) (bytes_from_base36 32 s)"

definition private_dump_base36 :: "Private \<Rightarrow> string" where
  "private_dump_base36 p = to_str_radix36 (from_bytes_be (word_to_be_bytes 32 (private_buf p)))"

definition to_public :: "'z crypto_scheme \<Rightarrow> Private \<Rightarrow> Public" where
  "to_public C p = Public (verifying_key C (private_buf p))"

subsection \<open>The text that serde and Debug make of them\<close>

text \<open>
  Serialising hands the base 36 form to the serializer; deserialising is given the outcome of reading a
  string.  Private keys are not serialised.
\<close>

definition deserialize_base36 ::
  "(string \<Rightarrow> 'a option) \<Rightarrow> string \<Rightarrow> (string, string) result \<Rightarrow> ('a, string) result"
where
  "deserialize_base36 of_base36 message read = bind_res read (\<lambda>s. ok_or (of_base36 s) message)"

definition hash_serialize :: "Hash \<Rightarrow> string" where
  "hash_serialize h = hash_dump_base36 h"

definition hash_deserialize :: "(string, string) result \<Rightarrow> (Hash, string) result" where
  "hash_deserialize = deserialize_base36 hash_new_from_base36 ''Invalid base36 hash''"

definition sig_serialize :: "Signature \<Rightarrow> string" where
  "sig_serialize s = sig_dump_base36 s"

definition sig_deserialize :: "(string, string) result \<Rightarrow> (Signature, string) result" where
  "sig_deserialize = deserialize_base36 sig_new_from_base36 ''Invalid base36 signature''"

definition public_serialize :: "Public \<Rightarrow> string" where
  "public_serialize p = public_dump_base36 p"

definition public_deserialize :: "(string, string) result \<Rightarrow> (Public, string) result" where
  "public_deserialize = deserialize_base36 public_new_from_base36 ''Invalid base36 public key''"

definition hash_debug :: "Hash \<Rightarrow> string" where
  "hash_debug h = ''Hash: '' @ hash_dump_base36 h"

definition sig_debug :: "Signature \<Rightarrow> string" where
  "sig_debug s = ''Signature: '' @ sig_dump_base36 s"

definition public_debug :: "Public \<Rightarrow> string" where
  "public_debug p = ''Public: '' @ public_dump_base36 p"

definition private_debug :: "Private \<Rightarrow> string" where
  "private_debug p = ''Private: '' @ private_dump_base36 p"

section \<open>Base 36: one interface, four providers\<close>

text \<open>
  The four newtypes promise the same: the printed form parses back, and nothing but a number that
  fits the buffer parses.
\<close>

locale base36_buffer =
  fixes of_base36 :: "string \<Rightarrow> 'a option"
    and to_base36 :: "'a \<Rightarrow> string"
    and number :: "'a \<Rightarrow> nat"
    and bits :: nat
  assumes number_inject: "number a = number b \<Longrightarrow> a = b"
    and number_bound: "number a < 2 ^ bits"
    and to_base36_eq: "to_base36 a = to_str_radix36 (number a)"
    and of_base36_Some:
      "parse_bytes36 s = Some n \<Longrightarrow> n < 2 ^ bits \<Longrightarrow> \<exists>a. of_base36 s = Some a \<and> number a = n"
    and of_base36_None:
      "parse_bytes36 s = None \<or> (\<exists>n. parse_bytes36 s = Some n \<and> 2 ^ bits \<le> n) \<Longrightarrow> of_base36 s = None"
begin

lemma base36_roundtrip: "of_base36 (to_base36 a) = Some a"
  using of_base36_Some [of "to_base36 a" "number a"] number_bound [of a] number_inject
  by (auto simp: to_base36_eq)

lemma to_base36_inject: "to_base36 a = to_base36 b \<longleftrightarrow> a = b"
  using number_inject by (auto simp: to_base36_eq)

lemma of_base36_iff:
  "of_base36 s = Some a \<longleftrightarrow> parse_bytes36 s = Some (number a)"
proof (cases "\<exists>n. parse_bytes36 s = Some n \<and> n < 2 ^ bits")
  case True
  then obtain n where n: "parse_bytes36 s = Some n" "n < 2 ^ bits" by blast
  then show ?thesis using of_base36_Some [OF n] number_inject by auto
next
  case False
  then have "of_base36 s = None"
    by (intro of_base36_None) (cases "parse_bytes36 s"; auto simp: not_less)
  with False number_bound [of a] show ?thesis by auto
qed

lemma deserialize_iff:
  "deserialize_base36 of_base36 message (Ok s) = Ok a \<longleftrightarrow> parse_bytes36 s = Some (number a)"
  by (cases "of_base36 s") (auto simp: deserialize_base36_def ok_or_def simp flip: of_base36_iff)

end

lemma bytes_from_base36_fits:
  assumes "parse_bytes36 s = Some n" and "n < 256 ^ len" and "0 < len"
  shows "\<exists>buf. bytes_from_base36 len s = Some buf \<and> length buf = len \<and> from_bytes_be buf = n"
proof -
  have "length (to_bytes_be n) \<le> len" using assms by (simp add: length_to_bytes_be)
  with assms(1) show ?thesis by (auto simp: bytes_from_base36_def Let_def)
qed

lemma bytes_from_base36_none:
  "parse_bytes36 s = None \<Longrightarrow> bytes_from_base36 len s = None"
  by (simp add: bytes_from_base36_def)

lemma pow256_32: "(256 :: nat) ^ 32 = 2 ^ 256"
  by (simp flip: power_mult [of 2 8 32, simplified])

lemma pow256_64: "(256 :: nat) ^ 64 = 2 ^ 512"
  by (simp flip: power_mult [of 2 8 64, simplified])

lemma from_bytes_be_word [simp]:
  "from_bytes_be (word_to_be_bytes 32 (b :: buf32)) = unat b"
  "from_bytes_be (word_to_be_bytes 64 (s :: buf64)) = unat s"
  using unat_lt [of b] unat_lt [of s] pow256_32 pow256_64
  by (simp_all add: word_to_be_bytes_def from_bytes_be_be_bytes)

lemmas base36_defs =
  hash_new_from_base36_def hash_dump_base36_def sig_new_from_base36_def sig_dump_base36_def
  public_new_from_base36_def public_dump_base36_def private_new_from_base36_def
  private_dump_base36_def

lemmas base36_facts =
  bytes_from_base36_fits bytes_from_base36_none bytes_from_base36_too_long pow256_32 pow256_64

lemma word_of_base36_bytes:
  "length buf = 32 \<Longrightarrow> unat (word_from_be_bytes buf :: buf32) = from_bytes_be buf"
  "length buf = 64 \<Longrightarrow> unat (word_from_be_bytes buf :: buf64) = from_bytes_be buf"
  by (simp_all add: unat_word_from_be_bytes)

lemma base36_32_Some:
  assumes "parse_bytes36 s = Some n" "n < 2 ^ 256"
  obtains buf where "bytes_from_base36 32 s = Some buf" "unat (word_from_be_bytes buf :: buf32) = n"
  using bytes_from_base36_fits [OF assms(1), of 32] assms(2) pow256_32 word_of_base36_bytes(1)
  by auto

lemma base36_64_Some:
  assumes "parse_bytes36 s = Some n" "n < 2 ^ 512"
  obtains buf where "bytes_from_base36 64 s = Some buf" "unat (word_from_be_bytes buf :: buf64) = n"
  using bytes_from_base36_fits [OF assms(1), of 64] assms(2) pow256_64 word_of_base36_bytes(2)
  by auto

lemma base36_32_None:
  "parse_bytes36 s = None \<or> (\<exists>n. parse_bytes36 s = Some n \<and> 2 ^ 256 \<le> n) \<Longrightarrow>
     bytes_from_base36 32 s = None"
  using bytes_from_base36_too_long [of s _ 32] pow256_32 by (auto simp: bytes_from_base36_none)

lemma base36_64_None:
  "parse_bytes36 s = None \<or> (\<exists>n. parse_bytes36 s = Some n \<and> 2 ^ 512 \<le> n) \<Longrightarrow>
     bytes_from_base36 64 s = None"
  using bytes_from_base36_too_long [of s _ 64] pow256_64 by (auto simp: bytes_from_base36_none)

interpretation hash36: base36_buffer hash_new_from_base36 hash_dump_base36 "\<lambda>h. unat (hash_buf h)" 256
  using unat_lt [where ?'a = 256]
  by unfold_locales
    (auto simp: base36_defs base36_32_None intro: Hash.expand dest!: unsigned_word_eqI elim: base36_32_Some)

interpretation sig36: base36_buffer sig_new_from_base36 sig_dump_base36 "\<lambda>s. unat (sig_buf s)" 512
  using unat_lt [where ?'a = 512]
  by unfold_locales
    (auto simp: base36_defs base36_64_None intro: Signature.expand dest!: unsigned_word_eqI elim: base36_64_Some)

interpretation public36: base36_buffer public_new_from_base36 public_dump_base36
    "\<lambda>p. unat (public_buf p)" 256
  using unat_lt [where ?'a = 256]
  by unfold_locales
    (auto simp: base36_defs base36_32_None intro: Public.expand dest!: unsigned_word_eqI elim: base36_32_Some)

interpretation private36: base36_buffer private_new_from_base36 private_dump_base36
    "\<lambda>p. unat (private_buf p)" 256
  using unat_lt [where ?'a = 256]
  by unfold_locales
    (auto simp: base36_defs base36_32_None intro: Private.expand dest!: unsigned_word_eqI elim: base36_32_Some)

lemma hash_dump_base36_inject [simp]: "hash_dump_base36 a = hash_dump_base36 b \<longleftrightarrow> a = b"
  by (rule hash36.to_base36_inject)

lemma hash_base36_back [simp]: "hash_new_from_base36 (hash_dump_base36 h) = Some h"
  by (rule hash36.base36_roundtrip)

lemma deserialize_serialize [simp]:
  "hash_deserialize (Ok (hash_serialize h)) = Ok h"
  "sig_deserialize (Ok (sig_serialize s)) = Ok s"
  "public_deserialize (Ok (public_serialize p)) = Ok p"
  by (simp_all add: hash_deserialize_def hash_serialize_def sig_deserialize_def sig_serialize_def
      public_deserialize_def public_serialize_def deserialize_base36_def ok_or_def
      sig36.base36_roundtrip public36.base36_roundtrip hash36.base36_roundtrip)

lemma public_buf_back [simp]: "public_new_from_buf (public_dump_buf p) = p"
  by (simp add: public_new_from_buf_def public_dump_buf_def word_be_bytes_inverse)

lemma public_dump_buf_inject [simp]: "public_dump_buf a = public_dump_buf b \<longleftrightarrow> a = b"
  by (metis public_buf_back)

lemma hash_dump_buf_inject [simp]: "hash_dump_buf a = hash_dump_buf b \<longleftrightarrow> a = b"
proof -
  have "word_from_be_bytes (hash_dump_buf h) = hash_buf h" for h
    by (simp add: hash_dump_buf_def word_be_bytes_inverse)
  then show ?thesis by (metis Hash.expand)
qed

end
