(* ===== verification/Utils.thy ===== *)
theory Utils
  imports Bytes Float64
begin

text \<open>
  \<open>core/utils.rs\<close> (clamping, the largest 256-bit number, bounds-safe slices) and
  \<open>bounded_set.rs\<close> (a set that forgets its oldest element when it is full), with the interface
  that the bounded set and the nodes' lists of recently seen transactions share.
\<close>

section \<open>\<open>core/utils.rs\<close>\<close>

definition clamp_f :: "f64 \<Rightarrow> f64 \<Rightarrow> f64 \<Rightarrow> f64" where
  "clamp_f x minv maxv = min (max x minv) maxv"

definition clamp_i :: "int \<Rightarrow> int \<Rightarrow> int \<Rightarrow> int" where
  "clamp_i x minv maxv = min (max x minv) maxv"

definition max_256_buf :: "u8 list" where
  "max_256_buf = replicate 32 255"

definition max_256_bui :: nat where
  "max_256_bui = from_bytes_be max_256_buf"

text \<open>\<open>&v[start..end]\<close> panics when \<open>end < start\<close>, which the first test does not exclude.\<close>

definition slice_vec :: "'a list \<Rightarrow> usize \<Rightarrow> usize \<Rightarrow> ('a list, 'e) result" where
  "slice_vec v start stop =
     (if length v \<le> start then Ok []
      else let e = min stop (length v)
           in if e < start then Panic else Ok (take (e - start) (drop start v)))"

lemma clamp_f_bounds: "minv \<le> maxv \<Longrightarrow> minv \<le> clamp_f x minv maxv \<and> clamp_f x minv maxv \<le> maxv"
  by (auto simp: clamp_f_def)

lemma clamp_f_mono: "x \<le> y \<Longrightarrow> clamp_f x minv maxv \<le> clamp_f y minv maxv"
  by (auto simp: clamp_f_def)

lemma max_256_bui_eq: "max_256_bui = 2 ^ 256 - 1"
proof -
  have "from_bytes_be (replicate k 255) = 256 ^ k - 1" for k
  proof (induction k)
    case (Suc k)
    have "replicate (Suc k) 255 = replicate k 255 @ [255 :: u8]" by (simp add: replicate_append_same)
    moreover have "(256 ^ k - 1) * 256 + 255 = (256 :: nat) ^ Suc k - 1"
      using one_le_power [of "256 :: nat" k] by (simp add: algebra_simps)
    ultimately show ?case using Suc by (simp only: from_bytes_be_snoc) simp
  qed simp
  then show ?thesis
    by (simp add: max_256_bui_def max_256_buf_def flip: power_mult [of 2 8 32, simplified])
qed

lemma slice_vec_ordered:
  assumes "start \<le> stop"
  shows "slice_vec v start stop = Ok (take (stop - start) (drop start v))"
proof (cases "length v \<le> start")
  case False
  with assms have "take (min stop (length v) - start) (drop start v) = take (stop - start) (drop start v)"
    by (simp add: min_def)
  with assms False show ?thesis by (auto simp: slice_vec_def Let_def)
qed (simp add: slice_vec_def)

lemma slice_vec_panics: "slice_vec v start stop = Panic \<longleftrightarrow> start < length v \<and> stop < start"
  by (auto simp: slice_vec_def Let_def)

section \<open>\<open>bounded_set.rs\<close>\<close>

record 'a BoundedSet =
  capacity :: usize
  bs_set :: "'a set"
  order :: "'a list"

definition bounded_set_new :: "usize \<Rightarrow> 'a BoundedSet" where
  "bounded_set_new cap = \<lparr>capacity = cap, bs_set = {}, order = []\<rparr>"

definition bounded_set_insert :: "'a \<Rightarrow> 'a BoundedSet \<Rightarrow> 'a BoundedSet" where
  "bounded_set_insert value s =
     (if value \<in> bs_set s then s
      else
        let s1 = (if card (bs_set s) = capacity s
                  then (case order s of
                          [] \<Rightarrow> s
                        | old # rest \<Rightarrow> s\<lparr>order := rest, bs_set := bs_set s - {old}\<rparr>)
                  else s)
        in s1\<lparr>order := order s1 @ [value], bs_set := insert value (bs_set s1)\<rparr>)"

definition bounded_set_contains :: "'a BoundedSet \<Rightarrow> 'a \<Rightarrow> bool" where
  "bounded_set_contains s value \<longleftrightarrow> value \<in> bs_set s"

text \<open>The queue lists the set's elements once each, and there is room for at least one.\<close>

definition bounded_set_inv :: "'a BoundedSet \<Rightarrow> bool" where
  "bounded_set_inv s \<longleftrightarrow>
     0 < capacity s \<and> distinct (order s) \<and> bs_set s = set (order s) \<and> length (order s) \<le> capacity s"

lemma bounded_set_inv_new: "0 < cap \<Longrightarrow> bounded_set_inv (bounded_set_new cap)"
  by (simp add: bounded_set_inv_def bounded_set_new_def)

lemma bounded_set_inv_insert: "bounded_set_inv s \<Longrightarrow> bounded_set_inv (bounded_set_insert v s)"
  by (auto simp: bounded_set_inv_def bounded_set_insert_def Let_def distinct_card split: list.splits)

lemma bounded_set_insert_capacity [simp]: "capacity (bounded_set_insert v s) = capacity s"
  by (auto simp: bounded_set_insert_def Let_def split: list.splits)

lemma bounded_set_insert_order:
  assumes "bounded_set_inv s"
  shows "order (bounded_set_insert v s) =
    (if v \<in> set (order s) then order s
     else drop (length (order s) + 1 - capacity s) (order s @ [v]))"
proof (cases "order s")
  case Nil
  with assms show ?thesis
    by (auto simp: bounded_set_inv_def bounded_set_insert_def)
next
  case (Cons old rest)
  with assms show ?thesis
    by (auto simp: bounded_set_inv_def bounded_set_insert_def Let_def distinct_card)
qed

section \<open>Recency lists\<close>

text \<open>
  What the bounded set and the lists of last seen transactions promise their clients: an element
  that is not yet listed goes to the back, and the front is dropped once there are more than
  \<open>limit\<close> elements.
\<close>

locale recency_list =
  fixes add :: "'a \<Rightarrow> 's \<Rightarrow> 's"
    and items :: "'s \<Rightarrow> 'a list"
    and limit :: "'s \<Rightarrow> nat"
    and ok :: "'s \<Rightarrow> bool"
  assumes ok_add: "ok s \<Longrightarrow> ok (add x s)"
    and limit_add: "limit (add x s) = limit s"
    and limit_pos: "ok s \<Longrightarrow> 0 < limit s"
    and ok_items: "ok s \<Longrightarrow> distinct (items s) \<and> length (items s) \<le> limit s"
    and items_add: "ok s \<Longrightarrow> items (add x s) =
      (if x \<in> set (items s) then items s else drop (length (items s) + 1 - limit s) (items s @ [x]))"
begin

lemma added_is_listed: "ok s \<Longrightarrow> x \<in> set (items (add x s))"
proof -
  assume ok: "ok s"
  then have "length (items s) + 1 - limit s \<le> length (items s)" using limit_pos [OF ok] by simp
  then show ?thesis using ok by (simp add: items_add)
qed

lemma fold_ok: "ok s \<Longrightarrow> ok (fold add xs s) \<and> limit (fold add xs s) = limit s"
  by (induction xs arbitrary: s) (auto simp: ok_add limit_add)

text \<open>An element stays listed while fewer than \<open>limit\<close> others are added after it.\<close>

lemma kept_behind:
  assumes "ok s" and "items s = us @ x # vs" and "length vs + length ys < limit s"
  shows "x \<in> set (items (fold add ys s))"
  using assms
proof (induction ys arbitrary: s us vs)
  case Nil
  then show ?case by simp
next
  case (Cons y ys)
  show ?case
  proof (cases "y \<in> set (items s)")
    case True
    with Cons.prems have "items (add y s) = us @ x # vs" by (simp add: items_add)
    with Cons.prems show ?thesis by (simp add: Cons.IH [of _ us vs] ok_add limit_add)
  next
    case False
    let ?k = "length (items s) + 1 - limit s"
    have "?k \<le> length us" using Cons.prems by simp
    then have "items (add y s) = drop ?k us @ x # (vs @ [y])"
      using False Cons.prems by (simp add: items_add)
    with Cons.prems show ?thesis
      by (simp add: Cons.IH [of _ "drop ?k us" "vs @ [y]"] ok_add limit_add)
  qed
qed

lemma recently_added_is_listed:
  assumes "ok s" and "x \<notin> set (items s)" and "length ys < limit s"
  shows "x \<in> set (items (fold add ys (add x s)))"
proof -
  let ?k = "length (items s) + 1 - limit s"
  have "?k \<le> length (items s)" using limit_pos [OF assms(1)] by simp
  then have "items (add x s) = drop ?k (items s) @ x # []"
    using assms by (simp add: items_add)
  with assms show ?thesis by (intro kept_behind [where vs = "[]"]) (auto simp: ok_add limit_add)
qed

end

interpretation bounded_set: recency_list bounded_set_insert order capacity bounded_set_inv
  by unfold_locales
    (auto simp: bounded_set_inv_insert bounded_set_insert_order, auto simp: bounded_set_inv_def)

end
