(* ===== verification/Economics.thy ===== *)
theory Economics
  imports Crypto Utils
begin

text \<open>
  \<open>core/economics.rs\<close>: the constants of the currency, the block reward and its halvings, the sum
  of the rewards, the developer fee.  A shift by 64 or more is an overflow of \<open>>>\<close>: it panics in a
  build with overflow checks and shifts by the amount modulo 64 in one without.
\<close>

unbundle bit_operations_syntax

named_theorems econ "the values of the economic constants"

section \<open>Constants\<close>

definition NANO_TO_SNAP :: f64 where [econ]: "NANO_TO_SNAP = 100000000"
definition MAX_TX_DIFF_CHANGE :: f64 where "MAX_TX_DIFF_CHANGE = fl (8 / 10)"
definition TARGET_TIME :: u64 where [econ]: "TARGET_TIME = 35"
definition TX_TARGET :: usize where [econ]: "TX_TARGET = 100"
definition DIFFICULTY_ADJUST_DIVISOR :: f64 where [econ]: "DIFFICULTY_ADJUST_DIVISOR = 64"
definition MAX_BLOCK_DIFFICULTY_ADJUST :: f64 where "MAX_BLOCK_DIFFICULTY_ADJUST = fl (5 / 100)"
definition MIN_BLOCK_DIFFICULTY :: buf32 where [econ]: "MIN_BLOCK_DIFFICULTY = 0"
definition DIFF_ADJUST_SCALE :: nat where [econ]: "DIFF_ADJUST_SCALE = 1000000"
definition HALVING_INTERVAL :: usize where [econ]: "HALVING_INTERVAL = 1000000"
definition MIN_REWARD :: u64 where [econ]: "MIN_REWARD = 1"

definition DEV_WALLET :: Public where
  "DEV_WALLET = public_new_from_buf
     [237, 16, 162, 56, 254, 203, 62, 193, 77, 162, 64, 178, 25, 226, 137, 184, 77, 191, 219, 2, 54,
      178, 222, 164, 139, 138, 195, 169, 96, 66, 159, 155]"

definition DEV_FEE :: f64 where "DEV_FEE = fl (2 / 100)"
definition DIFFICULTY_DECAY_PER_TRANSACTION :: f64 where
  "DIFFICULTY_DECAY_PER_TRANSACTION = fl (5 / 1000)"

text \<open>\<open>MAX_TRANSACTIONS_PER_BLOCK\<close> is declared in \<open>core/block.rs\<close>.\<close>

definition MAX_TRANSACTIONS_PER_BLOCK :: usize where [econ]: "MAX_TRANSACTIONS_PER_BLOCK = 500"
definition MEMPOOL_PRESSURE_PER_TRANSACTION :: f64 where
  "MEMPOOL_PRESSURE_PER_TRANSACTION = fdiv 1 (f64_of_nat MAX_TRANSACTIONS_PER_BLOCK)"

definition EXPIRATION_TIME :: u64 where [econ]: "EXPIRATION_TIME = TARGET_TIME * 10"
definition GENESIS_PREVIOUS_BLOCK_HASH :: Hash where
  [econ]: "GENESIS_PREVIOUS_BLOCK_HASH = hash_new_from_buf 0"
definition SCIP_1_MIGRATION :: u64 where [econ]: "SCIP_1_MIGRATION = 1770375600"
definition SCIP_2_MIGRATION :: u64 where [econ]: "SCIP_2_MIGRATION = 1770894000"

section \<open>Conversions, rewards and fees\<close>

definition f64_round :: "f64 \<Rightarrow> int" where
  "f64_round x = (if 0 \<le> x then \<lfloor>x + 1 / 2\<rfloor> else \<lceil>x - 1 / 2\<rceil>)"

definition to_snap :: "u64 \<Rightarrow> f64" where
  "to_snap nano = fdiv (f64_of_nat (unat nano)) NANO_TO_SNAP"

definition to_nano :: "f64 \<Rightarrow> u64" where
  "to_nano snap = word_of_nat (f64_as_nat 64 (of_int (f64_round (fmul snap NANO_TO_SNAP))))"

definition INITIAL_REWARD :: u64 where
  "INITIAL_REWARD = to_nano 100"

definition shr_u :: "bool \<Rightarrow> u64 \<Rightarrow> usize \<Rightarrow> (u64, 'e) result" where
  "shr_u chk a n = (if chk \<and> 64 \<le> n then Panic else Ok (drop_bit (n mod 64) a))"

definition get_block_reward :: "bool \<Rightarrow> usize \<Rightarrow> (u64, 'e) result" where
  "get_block_reward chk height =
     (let halvings = height div HALVING_INTERVAL
      in bind_res (shr_u chk INITIAL_REWARD halvings) (\<lambda>reward. Ok (max reward MIN_REWARD)))"

primrec total_reward :: "bool \<Rightarrow> usize \<Rightarrow> (u64, 'e) result" where
  "total_reward chk 0 = Ok 0"
| "total_reward chk (Suc height) =
     bind_res (total_reward chk height) (\<lambda>total.
       bind_res (get_block_reward chk height) (\<lambda>r. add_u chk total r))"

definition calculate_dev_fee :: "u64 \<Rightarrow> u64" where
  "calculate_dev_fee block_reward =
     word_of_nat (f64_as_nat 64 (fmul (f64_of_nat (unat block_reward)) DEV_FEE))"

section \<open>What they compute\<close>

lemma EXPIRATION_TIME_eq: "EXPIRATION_TIME = 350"
  by (simp add: econ)

lemma INITIAL_REWARD_eq: "INITIAL_REWARD = 10000000000"
proof -
  have "\<lfloor>(20000000001 :: rat) / 2\<rfloor> = 10000000000" by (rule floor_unique) auto
  then show ?thesis
    by (simp add: INITIAL_REWARD_def to_nano_def fmul_def NANO_TO_SNAP_def fl_numeral f64_round_def
        f64_as_nat_def)
qed

text \<open>The reward as a number: the initial one, halved and rounded down, but never less than 1.\<close>

definition reward_spec :: "nat \<Rightarrow> nat" where
  "reward_spec height = max (10000000000 div 2 ^ (height div 1000000)) 1"

lemma get_block_reward_spec:
  assumes "height < 64000000"
  shows "\<exists>r. get_block_reward chk height = Ok r \<and> unat r = reward_spec height"
proof -
  have h: "height div 1000000 < 64" using assms by simp
  have "unat (drop_bit (height div 1000000) INITIAL_REWARD)
      = 10000000000 div 2 ^ (height div 1000000)"
    unfolding unat_drop_bit_eq by (simp add: INITIAL_REWARD_eq drop_bit_eq_div)
  then have "unat (max (drop_bit (height div 1000000) INITIAL_REWARD) MIN_REWARD)
      = reward_spec height"
    by (auto simp: reward_spec_def MIN_REWARD_def max_def word_le_nat_alt)
  then show ?thesis
    using h by (simp add: get_block_reward_def HALVING_INTERVAL_def shr_u_def)
qed

lemma reward_spec_bounds: "1 \<le> reward_spec h" "reward_spec h \<le> 10000000000"
  by (auto simp: reward_spec_def)

lemma halving_sum: "(\<Sum>k<n. a div 2 ^ k) \<le> 2 * (a :: nat)"
proof (induction n arbitrary: a)
  case (Suc n)
  have "(\<Sum>k<Suc n. a div 2 ^ k) = a + (\<Sum>k<n. a div 2 div 2 ^ k)"
    by (subst sum.lessThan_Suc_shift) (simp add: div_mult2_eq)
  also have "\<dots> \<le> a + 2 * (a div 2)" using Suc [of "a div 2"] by simp
  finally show ?case by simp
qed simp

lemma sum_by_interval:
  fixes f :: "nat \<Rightarrow> nat"
  assumes "0 < m" shows "(\<Sum>h<n * m. f (h div m)) = m * (\<Sum>k<n. f k)"
proof -
  have "(\<Sum>h = k * m..<k * m + m. f (h div m)) = m * f k" for k
  proof -
    have "h div m = k" if "h \<in> {k * m..<k * m + m}" for h
      using that by (intro div_nat_eqI) (auto simp: mult.commute)
    then have "(\<Sum>h = k * m..<k * m + m. f (h div m)) = (\<Sum>h = k * m..<k * m + m. f k)"
      by (intro sum.cong) auto
    then show ?thesis by simp
  qed
  then show ?thesis
    using sum.nat_group [of "\<lambda>h. f (h div m)" m n] by (simp add: sum_distrib_left)
qed

lemma reward_sum_bound: "(\<Sum>h<n. reward_spec h) \<le> 20000000000000000 + n"
proof -
  let ?f = "\<lambda>k. 10000000000 div (2 :: nat) ^ k"
  have "(\<Sum>h<n. reward_spec h) \<le> (\<Sum>h<n. ?f (h div 1000000) + 1)"
    by (intro sum_mono) (simp add: reward_spec_def)
  also have "\<dots> = (\<Sum>h<n. ?f (h div 1000000)) + n"
    by (simp only: sum.distrib) simp
  also have "(\<Sum>h<n. ?f (h div 1000000)) \<le> (\<Sum>h<n * 1000000. ?f (h div 1000000))"
    by (intro sum_mono2) auto
  also have "\<dots> = 1000000 * (\<Sum>k<n. ?f k)" by (rule sum_by_interval) simp
  also have "\<dots> \<le> 1000000 * (2 * 10000000000)" by (intro mult_le_mono2 halving_sum)
  finally show ?thesis by simp
qed

lemma total_reward_spec:
  assumes "n \<le> 64000000"
  shows "\<exists>t. total_reward chk n = (Ok t :: (u64, 'e) result) \<and> unat t = (\<Sum>h<n. reward_spec h)"
  using assms
proof (induction n)
  case (Suc n)
  then obtain t where t: "total_reward chk n = (Ok t :: (u64, 'e) result)"
    "unat t = (\<Sum>h<n. reward_spec h)" by auto
  obtain r where r: "get_block_reward chk n = (Ok r :: (u64, 'e) result)" "unat r = reward_spec n"
    using get_block_reward_spec [of n chk] Suc.prems by auto
  have "unat t + unat r = (\<Sum>h<Suc n. reward_spec h)" by (simp add: t r)
  moreover have "unat t + unat r < 2 ^ LENGTH(64)"
    using reward_sum_bound [of "Suc n"] Suc.prems by (simp add: t r)
  ultimately show ?case
    using t(1) r(1) by (auto simp: unat_add_no_overflow)
qed simp

lemma DEV_FEE_le_1: "0 \<le> DEV_FEE" "DEV_FEE \<le> 1"
  using fl_mono [of "2 / 100" 1] by (auto simp: DEV_FEE_def intro: fl_nonneg)

lemma dev_fee_le:
  assumes "unat r < 2 ^ 53" shows "calculate_dev_fee r \<le> r"
proof -
  have "of_nat (unat r) * DEV_FEE \<le> of_nat (unat r) * 1"
    using DEV_FEE_le_1 by (intro mult_left_mono of_nat_0_le_iff)
  then have "fmul (of_nat (unat r)) DEV_FEE \<le> fl (of_nat (unat r) * 1)"
    unfolding fmul_def by (rule fl_mono)
  also have "\<dots> = of_nat (unat r)"
    using f64_of_nat_exact [OF assms] unfolding f64_of_nat_def by (simp only: mult_1_right)
  finally have "f64_as_nat 64 (fmul (of_nat (unat r)) DEV_FEE) \<le> f64_as_nat 64 (of_nat (unat r))"
    by (rule f64_as_nat_mono)
  also have "\<dots> = unat r" using assms by (intro f64_as_nat_of_nat) (erule less_trans, simp)
  finally show ?thesis
    using f64_as_nat_bound [of 64]
    by (simp add: calculate_dev_fee_def f64_of_nat_exact [OF assms] word_le_nat_alt unat_of_nat
        take_bit_eq_mod)
qed

end
