(* ===== verification/Target.thy ===== *)
theory Target
  imports Economics
begin

text \<open>
  The two free functions of \<open>core/difficulty.rs\<close> that turn a base difficulty into the target a hash
  has to meet: a fuller block gets an easier target, a fuller mempool makes transactions harder.
  Difficulties are targets, so a larger number is easier to meet.  The factors are computed in
  floating point and truncated to integers, which is visible in the results.
\<close>

section \<open>Definitions\<close>

text \<open>\<open>((1.0 + DIFFICULTY_DECAY_PER_TRANSACTION * tx_count as f64) * 1000.0) as u64\<close>\<close>

definition block_decay_factor :: "usize \<Rightarrow> nat" where
  "block_decay_factor tx_count =
     f64_as_nat 64
       (fmul (fadd 1 (fmul DIFFICULTY_DECAY_PER_TRANSACTION (f64_of_nat tx_count))) 1000)"

definition calculate_block_difficulty :: "buf32 \<Rightarrow> usize \<Rightarrow> buf32" where
  "calculate_block_difficulty block_difficulty tx_count =
     (let difficulty = biguint_of block_difficulty
      in biguint_to_32_bytes (min (difficulty * block_decay_factor tx_count div 1000) max_256_bui))"

definition live_factor :: "usize \<Rightarrow> nat" where
  "live_factor mempool_size =
     (let decay = fmul (f64_of_nat mempool_size) MEMPOOL_PRESSURE_PER_TRANSACTION;
          decay = f64_clamp decay 0 1
      in f64_as_nat 64 (fmul (fsub 1 decay) 1000000))"

definition calculate_live_transaction_difficulty :: "buf32 \<Rightarrow> usize \<Rightarrow> buf32" where
  "calculate_live_transaction_difficulty transaction_difficulty mempool_size =
     (let difficulty = biguint_of transaction_difficulty
      in biguint_to_32_bytes (difficulty * live_factor mempool_size div 1000000))"

section \<open>Scaling a 256-bit number\<close>

lemma unat_buf32_le_max: "unat (d :: buf32) \<le> max_256_bui"
  using unat_lt [of d] by (simp add: max_256_bui_eq)

lemma biguint_to_32_bytes_small: "n \<le> max_256_bui \<Longrightarrow> unat (biguint_to_32_bytes n) = n"
  by (simp add: unat_biguint_to_32_bytes max_256_bui_eq)

lemma unat_scaled_capped:
  "unat (biguint_to_32_bytes (min (unat d * k div s) max_256_bui)) = min (unat d * k div s) max_256_bui"
  by (rule biguint_to_32_bytes_small) simp

lemma scale_le: "k \<le> s \<Longrightarrow> d * k div s \<le> (d :: nat)"
proof -
  assume "k \<le> s"
  then have "d * k div s \<le> d * s div s" by (intro div_le_mono mult_le_mono2)
  also have "\<dots> \<le> d" by (cases "s = 0") auto
  finally show ?thesis .
qed

lemma scale_ge: "0 < s \<Longrightarrow> s \<le> k \<Longrightarrow> (d :: nat) \<le> d * k div s"
proof -
  assume "0 < s" "s \<le> k"
  then have "d * s div s \<le> d * k div s" by (intro div_le_mono mult_le_mono2)
  with \<open>0 < s\<close> show ?thesis by simp
qed

section \<open>The block target\<close>

lemma unat_block_difficulty:
  "unat (calculate_block_difficulty d n) = min (unat d * block_decay_factor n div 1000) max_256_bui"
  unfolding calculate_block_difficulty_def Let_def biguint_of_unat by (rule unat_scaled_capped)

lemma decay_pos: "0 \<le> DIFFICULTY_DECAY_PER_TRANSACTION"
  unfolding DIFFICULTY_DECAY_PER_TRANSACTION_def by (intro fl_nonneg) simp

lemma block_decay_factor_mono: "m \<le> n \<Longrightarrow> block_decay_factor m \<le> block_decay_factor n"
  unfolding block_decay_factor_def fmul_def fadd_def
  by (intro f64_as_nat_mono fl_mono mult_right_mono add_left_mono mult_left_mono f64_of_nat_mono
      decay_pos) auto

lemma block_decay_factor_0: "block_decay_factor 0 = 1000"
  by (simp add: block_decay_factor_def fmul_def fadd_def f64_of_nat_def fl_numeral f64_as_nat_def)

lemma block_decay_factor_ge: "1000 \<le> block_decay_factor n"
  using block_decay_factor_mono [of 0 n] by (simp add: block_decay_factor_0)

lemma decay_value: "DIFFICULTY_DECAY_PER_TRANSACTION = 5764607523034235 / 2 ^ 60"
  using fl_nearest [of 5764607523034235 "5 / 1000" 60]
  by (simp add: DIFFICULTY_DECAY_PER_TRANSACTION_def)

text \<open>A full block has 3.5 times the base target.\<close>

lemma block_decay_factor_500: "block_decay_factor 500 = 3500"
proof -
  have a: "fl (720575940379279375 / 288230376151711744) = 5 / 2"
    using fl_nearest [of 5629499534213120 "720575940379279375 / 288230376151711744" 51] by simp
  have b: "fl (7 / 2) = 7 / 2" using fl_nearest [of 7881299347898368 "7 / 2" 51] by simp
  have c: "fl 3500 = 3500" by (rule fl_numeral) simp
  show ?thesis
    by (simp add: block_decay_factor_def fmul_def fadd_def decay_value f64_of_nat_def fl_numeral
        f64_as_nat_def a b c)
qed

text \<open>One transaction should add 5 thousandths; the truncation leaves 4.\<close>

lemma block_decay_factor_1: "block_decay_factor 1 = 1004"
proof -
  have a: "fl (5764607523034235 / 1152921504606846976) = 5764607523034235 / 1152921504606846976"
    using fl_nearest [of 5764607523034235 "5764607523034235 / 2 ^ 60" 60] by simp
  have b: "fl (1158686112129881211 / 1152921504606846976) = 1131529406376837 / 1125899906842624"
    using fl_nearest [of 4526117625507348 "1 + 5764607523034235 / 2 ^ 60" 52] by simp
  have c: "fl (141441175797104625 / 140737488355328) = 8840073487319039 / 8796093022208"
    using fl_nearest [of 8840073487319039 "4526117625507348 / 2 ^ 52 * 1000" 43] by simp
  have d: "\<lfloor>8840073487319039 / (8796093022208 :: rat)\<rfloor> = 1004" by (rule floor_unique) auto
  show ?thesis
    by (simp add: block_decay_factor_def fmul_def fadd_def decay_value f64_of_nat_def f64_as_nat_def
        a b c d)
qed

lemma block_difficulty_mono:
  "m \<le> n \<Longrightarrow> calculate_block_difficulty d m \<le> calculate_block_difficulty d n"
  unfolding word_le_nat_alt unat_block_difficulty
  by (intro min.mono div_le_mono mult_le_mono2 block_decay_factor_mono) auto

lemma block_difficulty_ge: "d \<le> calculate_block_difficulty d n"
  using scale_ge [OF _ block_decay_factor_ge, of "unat d" n] unat_buf32_le_max [of d]
  by (simp add: word_le_nat_alt unat_block_difficulty)

lemma block_difficulty_0: "calculate_block_difficulty d 0 = d"
  using unat_buf32_le_max [of d]
  by (simp only: word_unat_eq_iff) (simp add: unat_block_difficulty block_decay_factor_0)

section \<open>The live transaction target\<close>

lemma pressure_value: "MEMPOOL_PRESSURE_PER_TRANSACTION = 4611686018427388 / 2 ^ 61"
  using fl_nearest [of 4611686018427388 "1 / 500" 61]
  by (simp add: MEMPOOL_PRESSURE_PER_TRANSACTION_def MAX_TRANSACTIONS_PER_BLOCK_def fdiv_def
      f64_of_nat_def fl_numeral)

lemma live_factor_antimono: "m \<le> n \<Longrightarrow> live_factor n \<le> live_factor m"
  unfolding live_factor_def Let_def fmul_def fsub_def
  by (intro f64_as_nat_mono fl_mono mult_right_mono diff_left_mono f64_clamp_mono f64_of_nat_mono)
    (simp_all add: pressure_value)

lemma live_factor_0: "live_factor 0 = 1000000"
  by (simp add: live_factor_def fmul_def fsub_def f64_of_nat_def fl_numeral f64_as_nat_def
      f64_clamp_def)

lemma live_factor_le: "live_factor n \<le> 1000000"
  using live_factor_antimono [of 0 n] by (simp add: live_factor_0)

lemma live_factor_full: assumes "500 \<le> n" shows "live_factor n = 0"
proof -
  have "fl 1 \<le> fl (500 * (4611686018427388 / 2 ^ 61))" by (rule fl_mono) simp
  then have "live_factor 500 = 0"
    by (simp add: live_factor_def fmul_def fsub_def pressure_value f64_of_nat_def fl_numeral
        f64_as_nat_def f64_clamp_def)
  with live_factor_antimono [OF assms] show ?thesis by simp
qed

lemma unat_live_difficulty:
  "unat (calculate_live_transaction_difficulty d n) = unat d * live_factor n div 1000000"
proof -
  have "unat d * live_factor n div 1000000 \<le> max_256_bui"
    using scale_le [OF live_factor_le, of "unat d" n] unat_buf32_le_max [of d] by linarith
  then show ?thesis
    by (simp only: calculate_live_transaction_difficulty_def Let_def biguint_of_unat
        biguint_to_32_bytes_small)
qed

lemma live_difficulty_antimono:
  "m \<le> n \<Longrightarrow>
    calculate_live_transaction_difficulty d n \<le> calculate_live_transaction_difficulty d m"
  unfolding word_le_nat_alt unat_live_difficulty
  by (intro div_le_mono mult_le_mono2 live_factor_antimono)

lemma live_difficulty_0: "calculate_live_transaction_difficulty d 0 = d"
  by (simp only: word_unat_eq_iff) (simp add: unat_live_difficulty live_factor_0)

lemma live_difficulty_le: "calculate_live_transaction_difficulty d n \<le> d"
  using live_difficulty_antimono [of 0 n d] by (simp add: live_difficulty_0)

lemma live_difficulty_full: "500 \<le> n \<Longrightarrow> calculate_live_transaction_difficulty d n = 0"
  by (simp only: word_unat_eq_iff) (simp add: unat_live_difficulty live_factor_full)

end
