(* ===== verification/Transactions.thy ===== *)
theory Transactions
  imports Economics
begin

text \<open>
  \<open>core/transaction.rs\<close>: transactions, their errors, the buffers that are signed and hashed, signing,
  mining, and the checks that need no chain state.  \<open>bincode\<close> is outside the repository: the two
  encoders the code calls are fields of \<open>tx_env\<close>, returning the bytes or the printed error.
\<close>

section \<open>Data\<close>

definition MAX_TRANSACTION_IO :: usize where "MAX_TRANSACTION_IO = 150"

type_synonym TransactionId = Hash

datatype TransactionError =
    EncodeErrorT string
  | MissingId
  | MissingSignatures
  | InvalidHash string
  | InsufficientDifficulty string
  | NoInputs
  | InputNotFound string
  | InvalidInputIndex string string
  | SpentInputIndex
  | InvalidSignature string
  | IncorrectOutputOwner string
  | DoubleSpendT string
  | ZeroOutput string
  | SumMismatch string
  | TooMuchIO
  | OverflowError
  | OtherT string

text \<open>\<open>to_string\<close> of an error, from the \<open>#[error]\<close> attributes.\<close>

fun tx_error_to_string :: "TransactionError \<Rightarrow> string" where
  "tx_error_to_string (EncodeErrorT e) = e"
| "tx_error_to_string MissingId = ''Transaction missing ID''"
| "tx_error_to_string MissingSignatures = ''Transaction missing signature/s''"
| "tx_error_to_string (InvalidHash t) = ''Transaction hash is invalid: '' @ t"
| "tx_error_to_string (InsufficientDifficulty t) =
     ''Transaction hash does not meet required difficulty: '' @ t"
| "tx_error_to_string NoInputs = ''Transaction has no inputs''"
| "tx_error_to_string (InputNotFound t) = ''Transaction input not found in UTXOs: '' @ t"
| "tx_error_to_string (InvalidInputIndex t i) =
     ''Transaction input index invalid for transaction '' @ t @ '': '' @ i"
| "tx_error_to_string SpentInputIndex = ''Referenced transaction input is already spent''"
| "tx_error_to_string (InvalidSignature t) =
     ''Transaction input signature is invalid for transaction '' @ t"
| "tx_error_to_string (IncorrectOutputOwner t) =
     ''Transaction input output owner is invalid for transaction '' @ t"
| "tx_error_to_string (DoubleSpendT t) =
     ''Double spending detected in the same transaction '' @ t"
| "tx_error_to_string (ZeroOutput t) =
     ''Transaction output amount cannot be zero for transaction '' @ t"
| "tx_error_to_string (SumMismatch t) =
     ''Transaction inputs and outputs don't sum up to same amount for transaction '' @ t"
| "tx_error_to_string TooMuchIO = ''Transaction has too many inputs or outputs''"
| "tx_error_to_string OverflowError = ''Overflow error''"
| "tx_error_to_string (OtherT s) = s"

record TransactionInput =
  input_tx_id :: TransactionId
  output_index :: usize
  signature :: "Signature option"
  output_owner :: Public

record TransactionOutput =
  amount :: u64
  receiver :: Public

record Transaction =
  inputs :: "TransactionInput list"
  outputs :: "TransactionOutput list"
  transaction_id :: "TransactionId option"
  tx_nonce :: u64
  tx_timestamp :: u64

record tx_env = crypto +
  encode_transaction :: "Transaction \<Rightarrow> string + u8 list"
  encode_inputs :: "TransactionInput list \<Rightarrow> string + u8 list"

definition encoded :: "string + u8 list \<Rightarrow> (u8 list, string) result" where
  "encoded r = (case r of Inl e \<Rightarrow> Err e | Inr buf \<Rightarrow> Ok buf)"

section \<open>Buffers\<close>

definition strip_signature :: "TransactionInput \<Rightarrow> TransactionInput" where
  "strip_signature i = i\<lparr>signature := None\<rparr>"

definition get_input_signing_buf :: "'z tx_env_scheme \<Rightarrow> Transaction \<Rightarrow> (u8 list, string) result" where
  "get_input_signing_buf E tx =
     encoded (encode_transaction E
       (tx\<lparr>transaction_id := None, tx_nonce := 0, inputs := map strip_signature (inputs tx)\<rparr>))"

definition get_tx_hashing_buf :: "'z tx_env_scheme \<Rightarrow> Transaction \<Rightarrow> (u8 list, string) result" where
  "get_tx_hashing_buf E tx = encoded (encode_transaction E (tx\<lparr>transaction_id := None\<rparr>))"

section \<open>Construction, signing, mining\<close>

text \<open>\<open>zip\<close> stops at the shorter list: an input without a key keeps its (missing) signature.\<close>

fun sign_inputs ::
  "'z crypto_scheme \<Rightarrow> u8 list \<Rightarrow> TransactionInput list \<Rightarrow> Private list \<Rightarrow> TransactionInput list"
where
  "sign_inputs C buf (i # is) (k # ks) =
     i\<lparr>signature := Some (new_signature C k buf)\<rparr> # sign_inputs C buf is ks"
| "sign_inputs C buf is _ = is"

definition new_transaction_now ::
  "'z tx_env_scheme \<Rightarrow> u64 \<Rightarrow> TransactionInput list \<Rightarrow> TransactionOutput list \<Rightarrow> Private list
     \<Rightarrow> (Transaction, string) result"
where
  "new_transaction_now E now ins outs signing_keys =
     (let transaction = \<lparr>inputs = ins, outputs = outs, transaction_id = None, tx_nonce = 0,
                         tx_timestamp = now\<rparr>
      in bind_res (get_input_signing_buf E transaction) (\<lambda>signing_buf.
           Ok (transaction\<lparr>inputs := sign_inputs E signing_buf ins signing_keys\<rparr>)))"

text \<open>The target that mining aims at; a margin above 0 makes it smaller.\<close>

definition pow_target :: "buf32 \<Rightarrow> f64 option \<Rightarrow> nat" where
  "pow_target live_tx_difficulty difficulty_margin =
     (let target = biguint_of live_tx_difficulty
      in case difficulty_margin of
           None \<Rightarrow> target
         | Some margin \<Rightarrow>
             if 0 < margin
             then let scale = fsub 1 margin;
                      scale_int = f64_as_nat 64 (fmul scale 1000000)
                  in target * scale_int div 1000000
             else target)"

text \<open>
  The mining loop draws nonces from the random number generator until one meets the target.  The
  draws are the argument \<open>nonces\<close>; \<open>None\<close> says that the loop has used them all and still runs.
\<close>

fun tx_compute_pow ::
  "'z tx_env_scheme \<Rightarrow> nat \<Rightarrow> u64 list \<Rightarrow> Transaction \<Rightarrow> (Transaction, string) result option"
where
  "tx_compute_pow E target [] tx = None"
| "tx_compute_pow E target (n # nonces) tx =
     (let tx1 = tx\<lparr>tx_nonce := n\<rparr>
      in case get_tx_hashing_buf E tx1 of
           Err e \<Rightarrow> Some (Err e)
         | Panic \<Rightarrow> Some Panic
         | Ok hashing_buf \<Rightarrow>
             if biguint_of (hash_buf (hash_new E hashing_buf)) \<le> target
             then Some (Ok (tx1\<lparr>transaction_id := Some (hash_new E hashing_buf)\<rparr>))
             else tx_compute_pow E target nonces tx1)"

section \<open>Checks\<close>

fun check_signatures :: "TransactionInput list \<Rightarrow> (unit, TransactionError) result" where
  "check_signatures [] = Ok ()"
| "check_signatures (i # is) =
     bind_res (ok_or (signature i) MissingSignatures) (\<lambda>_. check_signatures is)"

definition tx_check_completeness :: "Transaction \<Rightarrow> (unit, TransactionError) result" where
  "tx_check_completeness tx =
     bind_res (ok_or (transaction_id tx) MissingId) (\<lambda>_. check_signatures (inputs tx))"

definition tx_address_count :: "Transaction \<Rightarrow> usize" where
  "tx_address_count tx = length (inputs tx) + length (outputs tx)"

definition contains_address :: "Transaction \<Rightarrow> Public \<Rightarrow> bool" where
  "contains_address tx address =
     (if list_ex (\<lambda>i. output_owner i = address) (inputs tx) then True
      else if list_ex (\<lambda>out. receiver out = address) (outputs tx) then True
      else False)"

section \<open>Facts\<close>

lemma encoded_simps [simp]: "encoded (Inl e) = Err e" "encoded (Inr b) = Ok b"
  by (simp_all add: encoded_def)

lemma encoded_not_Panic [simp]: "encoded r \<noteq> Panic"
  by (simp add: encoded_def split: sum.splits)

lemma get_input_signing_buf_not_Panic [simp]: "get_input_signing_buf E tx \<noteq> Panic"
  by (simp add: get_input_signing_buf_def)

lemma get_tx_hashing_buf_not_Panic [simp]: "get_tx_hashing_buf E tx \<noteq> Panic"
  by (simp add: get_tx_hashing_buf_def)

lemma get_tx_hashing_buf_id [simp]:
  "get_tx_hashing_buf E (tx\<lparr>transaction_id := i\<rparr>) = get_tx_hashing_buf E tx"
  by (simp add: get_tx_hashing_buf_def)

lemma check_signatures_Ok_iff:
  "check_signatures is = Ok u \<longleftrightarrow> (\<forall>i \<in> set is. signature i \<noteq> None)"
  by (induction "is") (auto simp: res_simps)

lemma check_signatures_not_Panic [simp]: "check_signatures is \<noteq> Panic"
  by (induction "is") (auto simp: res_simps)

lemma check_signatures_Err: "check_signatures is = Err e \<Longrightarrow> e = MissingSignatures"
  by (induction "is") (auto simp: res_simps)

lemma tx_check_completeness_Ok_iff:
  "tx_check_completeness tx = Ok u \<longleftrightarrow>
     transaction_id tx \<noteq> None \<and> (\<forall>i \<in> set (inputs tx). signature i \<noteq> None)"
  by (auto simp: tx_check_completeness_def res_simps check_signatures_Ok_iff)

lemma tx_check_completeness_not_Panic [simp]: "tx_check_completeness tx \<noteq> Panic"
  by (auto simp: tx_check_completeness_def res_simps)

lemma contains_address_iff:
  "contains_address tx a \<longleftrightarrow>
     (\<exists>i \<in> set (inputs tx). output_owner i = a) \<or> (\<exists>out \<in> set (outputs tx). receiver out = a)"
  by (auto simp: contains_address_def list_ex_iff)

subsection \<open>Mining\<close>

lemma tx_compute_pow_Ok:
  assumes "tx_compute_pow E target nonces tx = Some (Ok tx')"
  shows "\<exists>n \<in> set nonces. \<exists>buf. tx' = tx\<lparr>tx_nonce := n, transaction_id := Some (hash_new E buf)\<rparr>
    \<and> get_tx_hashing_buf E (tx\<lparr>tx_nonce := n\<rparr>) = Ok buf
    \<and> unat (hash_buf (hash_new E buf)) \<le> target"
  using assms
proof (induction nonces arbitrary: tx)
  case (Cons n nonces)
  let ?tx = "tx\<lparr>tx_nonce := n\<rparr>"
  show ?case
  proof (cases "get_tx_hashing_buf E ?tx")
    case (Ok buf)
    show ?thesis
    proof (cases "unat (hash_buf (hash_new E buf)) \<le> target")
      case True
      with Cons.prems Ok have "tx' = ?tx\<lparr>transaction_id := Some (hash_new E buf)\<rparr>" by simp
      with True Ok show ?thesis by auto
    next
      case False
      with Cons.prems Ok have "tx_compute_pow E target nonces ?tx = Some (Ok tx')" by simp
      from Cons.IH [OF this] show ?thesis by simp
    qed
  qed (use Cons.prems in simp_all)
qed simp

lemma pow_target_le: "pow_target d m \<le> unat d"
proof -
  have "x * f64_as_nat 64 (fmul (fsub 1 margin) 1000000) div 1000000 \<le> x"
    if "0 < margin" for x margin
  proof -
    have "fmul (fsub 1 margin) 1000000 \<le> fl (1 * 1000000)"
      unfolding fmul_def fsub_def
      using that fl_mono [of "1 - margin" 1] by (intro fl_mono mult_right_mono) auto
    then have "f64_as_nat 64 (fmul (fsub 1 margin) 1000000) \<le> f64_as_nat 64 (of_nat 1000000)"
      by (intro f64_as_nat_mono) (simp add: fl_numeral)
    also have "\<dots> = 1000000" by (rule f64_as_nat_of_nat) simp
    finally have "x * f64_as_nat 64 (fmul (fsub 1 margin) 1000000) \<le> x * 1000000"
      by (rule mult_le_mono2)
    then have "x * f64_as_nat 64 (fmul (fsub 1 margin) 1000000) div 1000000 \<le> x * 1000000 div 1000000"
      by (rule div_le_mono)
    then show ?thesis by simp
  qed
  then show ?thesis by (auto simp: pow_target_def Let_def split: option.splits)
qed

lemma tx_compute_pow_enough:
  assumes "\<And>n. n \<in> set nonces \<Longrightarrow> \<exists>b. get_tx_hashing_buf E (tx\<lparr>tx_nonce := n\<rparr>) = Ok b"
    and "n \<in> set nonces" and "get_tx_hashing_buf E (tx\<lparr>tx_nonce := n\<rparr>) = Ok buf"
    and "unat (hash_buf (hash_new E buf)) \<le> target"
  shows "\<exists>tx'. tx_compute_pow E target nonces tx = Some (Ok tx')"
  using assms
proof (induction nonces arbitrary: tx)
  case (Cons m nonces)
  obtain b where b: "get_tx_hashing_buf E (tx\<lparr>tx_nonce := m\<rparr>) = Ok b" using Cons.prems(1) by force
  show ?case
  proof (cases "unat (hash_buf (hash_new E b)) \<le> target")
    case False
    with Cons.prems b have "n \<in> set nonces" by auto
    with Cons.IH [of "tx\<lparr>tx_nonce := m\<rparr>"] Cons.prems b False show ?thesis by simp
  qed (use b in simp)
qed simp

subsection \<open>Signing\<close>

lemma length_sign_inputs [simp]: "length (sign_inputs C buf is ks) = length is"
  by (induction C buf "is" ks rule: sign_inputs.induct) auto

lemma strip_sign_inputs [simp]:
  "map strip_signature (sign_inputs C buf is ks) = map strip_signature is"
  by (induction C buf "is" ks rule: sign_inputs.induct) (auto simp: strip_signature_def)

lemma sign_inputs_nth:
  "i < length is \<Longrightarrow> i < length ks \<Longrightarrow>
     sign_inputs C buf is ks ! i = (is ! i)\<lparr>signature := Some (new_signature C (ks ! i) buf)\<rparr>"
proof (induction C buf "is" ks arbitrary: i rule: sign_inputs.induct)
  case (1 C buf j js k ks)
  then show ?case by (cases i) auto
qed auto

lemma new_transaction_now_Ok:
  assumes "new_transaction_now E now ins outs ks = Ok tx"
  obtains buf where "get_input_signing_buf E tx = Ok buf"
    and "inputs tx = sign_inputs E buf ins ks"
    and "outputs tx = outs" and "transaction_id tx = None" and "tx_timestamp tx = now"
  using assms
  by (auto simp: new_transaction_now_def res_simps get_input_signing_buf_def)

end
