(* ===== verification/Merkle_Tree.thy ===== *)
theory Merkle_Tree
  imports Transactions
begin

text \<open>
  \<open>crypto/merkle_tree.rs\<close>: the tree over the transaction ids of a block, inclusion checks, proofs
  taken from a tree and from a flat list of hashes, and their validation.  SHA-256 is the field
  \<open>sha256\<close> of \<open>crypto\<close>.  The lemmas relate the three ways the code computes a root: bottom-up over
  nodes (\<open>build\<close>), bottom-up over hashes (\<open>create_proof\<close>) and along a path (\<open>validate\<close>).
\<close>

section \<open>Trees\<close>

datatype MerkleNode =
  MerkleNode (node_hash: buf32) (node_left: "MerkleNode option") (node_right: "MerkleNode option")

datatype MerkleTree = MerkleTree (root: MerkleNode)

definition bytes32 :: "buf32 \<Rightarrow> u8 list" where
  "bytes32 b = word_to_be_bytes 32 b"

definition hash_pair :: "'z crypto_scheme \<Rightarrow> buf32 \<Rightarrow> buf32 \<Rightarrow> buf32" where
  "hash_pair C l r = sha256 C (bytes32 l @ bytes32 r)"

definition leaf_hash :: "'z crypto_scheme \<Rightarrow> TransactionId \<Rightarrow> buf32" where
  "leaf_hash C tx = sha256 C (hash_dump_buf tx)"

definition leaf_node :: "'z crypto_scheme \<Rightarrow> TransactionId \<Rightarrow> MerkleNode" where
  "leaf_node C tx = MerkleNode (leaf_hash C tx) None None"

definition parent_node :: "'z crypto_scheme \<Rightarrow> MerkleNode \<Rightarrow> MerkleNode \<Rightarrow> MerkleNode" where
  "parent_node C l r = MerkleNode (hash_pair C (node_hash l) (node_hash r)) (Some l) (Some r)"

text \<open>One round of the \<open>while\<close> loop: nodes in pairs, the last one with itself if it is alone.\<close>

fun next_level :: "'z crypto_scheme \<Rightarrow> MerkleNode list \<Rightarrow> MerkleNode list" where
  "next_level C [] = []"
| "next_level C [l] = [parent_node C l l]"
| "next_level C (l # r # ns) = parent_node C l r # next_level C ns"

lemma length_next_level [simp]: "length (next_level C ns) = (length ns + 1) div 2"
  by (induction C ns rule: next_level.induct) auto

function build_levels :: "'z crypto_scheme \<Rightarrow> MerkleNode list \<Rightarrow> MerkleNode list" where
  "build_levels C ns = (if 1 < length ns then build_levels C (next_level C ns) else ns)"
  by pat_completeness auto
termination
  by (relation "measure (\<lambda>(C, ns). length ns)") auto

declare build_levels.simps [simp del]

definition merkle_build :: "'z crypto_scheme \<Rightarrow> TransactionId list \<Rightarrow> MerkleTree" where
  "merkle_build C transactions =
     (let leaves = map (leaf_node C) transactions
      in if leaves = [] then MerkleTree (MerkleNode 0 None None)
         else MerkleTree (build_levels C leaves ! 0))"

definition root_hash :: "MerkleTree \<Rightarrow> buf32" where
  "root_hash t = node_hash (root t)"

section \<open>Inclusion and proofs\<close>

fun verify_node :: "MerkleNode \<Rightarrow> buf32 \<Rightarrow> bool" where
  "verify_node (MerkleNode h None None) tx_hash \<longleftrightarrow> h = tx_hash"
| "verify_node (MerkleNode h l r) tx_hash \<longleftrightarrow>
     (case l of None \<Rightarrow> False | Some l' \<Rightarrow> verify_node l' tx_hash) \<or>
     (case r of None \<Rightarrow> False | Some r' \<Rightarrow> verify_node r' tx_hash)"

definition verify_inclusion :: "MerkleTree \<Rightarrow> buf32 \<Rightarrow> bool" where
  "verify_inclusion t tx_hash = verify_node (root t) tx_hash"

record MerkleTreeProof =
  proof_tx_hash :: buf32
  proof_path :: "(buf32 \<times> bool) list"

text \<open>
  The path to a leaf, leaf end first; \<open>None\<close> if the leaf is not below the node.  The \<open>unwrap\<close> of a
  missing sibling panics.
\<close>

fun proof_helper :: "MerkleNode \<Rightarrow> buf32 \<Rightarrow> ((buf32 \<times> bool) list option, 'e) result" where
  "proof_helper (MerkleNode h None None) tx_hash = Ok (if h = tx_hash then Some [] else None)"
| "proof_helper (MerkleNode h l r) tx_hash =
     bind_res (case l of None \<Rightarrow> Ok None | Some l' \<Rightarrow> proof_helper l' tx_hash) (\<lambda>pl.
       case pl of
         Some path \<Rightarrow> bind_res (expect r) (\<lambda>sib. Ok (Some (path @ [(node_hash sib, False)])))
       | None \<Rightarrow>
           bind_res (case r of None \<Rightarrow> Ok None | Some r' \<Rightarrow> proof_helper r' tx_hash) (\<lambda>pr.
             case pr of
               Some path \<Rightarrow> bind_res (expect l) (\<lambda>sib. Ok (Some (path @ [(node_hash sib, True)])))
             | None \<Rightarrow> Ok None))"

definition generate_proof :: "MerkleTree \<Rightarrow> buf32 \<Rightarrow> (MerkleTreeProof option, 'e) result" where
  "generate_proof t tx_hash =
     bind_res (proof_helper (root t) tx_hash) (\<lambda>p.
       Ok (map_option (\<lambda>path. \<lparr>proof_tx_hash = tx_hash, proof_path = path\<rparr>) p))"

definition path_step :: "'z crypto_scheme \<Rightarrow> buf32 \<times> bool \<Rightarrow> buf32 \<Rightarrow> buf32" where
  "path_step C s hash =
     (case s of (sibling, is_left) \<Rightarrow>
        if is_left then hash_pair C sibling hash else hash_pair C hash sibling)"

definition proof_validate :: "'z crypto_scheme \<Rightarrow> MerkleTreeProof \<Rightarrow> buf32 \<Rightarrow> bool" where
  "proof_validate C p expected \<longleftrightarrow> fold (path_step C) (proof_path p) (proof_tx_hash p) = expected"

section \<open>Proofs from a flat list of hashes\<close>

definition pad_layer :: "buf32 list \<Rightarrow> buf32 list" where
  "pad_layer layer = (if length layer mod 2 \<noteq> 0 then layer @ [last layer] else layer)"

fun hash_chunks :: "'z crypto_scheme \<Rightarrow> buf32 list \<Rightarrow> buf32 list" where
  "hash_chunks C (a # b # hs) = hash_pair C a b # hash_chunks C hs"
| "hash_chunks C _ = []"

lemma length_hash_chunks [simp]: "length (hash_chunks C hs) = length hs div 2"
  by (induction C hs rule: hash_chunks.induct) auto

lemma length_pad_layer: "length (pad_layer hs) = 2 * ((length hs + 1) div 2)"
  by (auto simp: pad_layer_def elim!: oddE evenE simp flip: even_iff_mod_2_eq_zero)

function create_path :: "'z crypto_scheme \<Rightarrow> buf32 list \<Rightarrow> nat \<Rightarrow> (buf32 \<times> bool) list" where
  "create_path C hashes index =
     (if 1 < length hashes
      then let layer = pad_layer hashes;
               sibling_index = (if index mod 2 = 0 then index + 1 else index - 1)
           in (layer ! sibling_index, index mod 2 \<noteq> 0) # create_path C (hash_chunks C layer) (index div 2)
      else [])"
  by pat_completeness auto
termination
  by (relation "measure (\<lambda>(C, hs, i). length hs)") (auto simp: length_pad_layer)

declare create_path.simps [simp del]

definition create_proof :: "'z crypto_scheme \<Rightarrow> buf32 list \<Rightarrow> buf32 \<Rightarrow> MerkleTreeProof option" where
  "create_proof C tx_hashes target_tx =
     map_option (\<lambda>index. \<lparr>proof_tx_hash = target_tx, proof_path = create_path C tx_hashes index\<rparr>)
       (position (\<lambda>h. h = target_tx) tx_hashes)"

section \<open>The root of a list of hashes\<close>

text \<open>The reference: hash the padded layer in pairs until one hash is left.\<close>

function layer_root :: "'z crypto_scheme \<Rightarrow> buf32 list \<Rightarrow> buf32" where
  "layer_root C hs =
     (if 1 < length hs then layer_root C (hash_chunks C (pad_layer hs))
      else if hs = [] then 0 else hs ! 0)"
  by pat_completeness auto
termination
  by (relation "measure (\<lambda>(C, hs). length hs)") (auto simp: length_pad_layer)

declare layer_root.simps [simp del]

lemma hash_chunks_append:
  "even (length xs) \<Longrightarrow> hash_chunks C (xs @ ys) = hash_chunks C xs @ hash_chunks C ys"
  by (induction C xs rule: hash_chunks.induct) auto

lemma next_level_hashes:
  "map node_hash (next_level C ns) = hash_chunks C (pad_layer (map node_hash ns))"
proof (induction C ns rule: next_level.induct)
  case (3 C l r ns)
  show ?case
  proof (cases ns)
    case Nil
    then show ?thesis by (simp add: pad_layer_def parent_node_def)
  next
    case (Cons n ms)
    with 3 show ?thesis by (auto simp: pad_layer_def parent_node_def)
  qed
qed (auto simp: pad_layer_def parent_node_def)

lemma build_levels_singleton: "ns \<noteq> [] \<Longrightarrow> length (build_levels C ns) = 1"
proof (induction C ns rule: build_levels.induct)
  case (1 C ns)
  show ?case
  proof (cases "1 < length ns")
    case True
    then have "next_level C ns \<noteq> []" by (cases "(C, ns)" rule: next_level.cases) auto
    with 1 True show ?thesis by (subst build_levels.simps) simp
  next
    case False
    with 1 show ?thesis by (subst build_levels.simps) (cases ns; simp)
  qed
qed

lemma build_levels_root:
  "ns \<noteq> [] \<Longrightarrow> node_hash (build_levels C ns ! 0) = layer_root C (map node_hash ns)"
proof (induction C ns rule: build_levels.induct)
  case (1 C ns)
  show ?case
  proof (cases "1 < length ns")
    case True
    then have "next_level C ns \<noteq> []" by (cases "(C, ns)" rule: next_level.cases) auto
    with 1 True show ?thesis
      by (subst build_levels.simps, subst layer_root.simps) (simp add: next_level_hashes)
  next
    case False
    with 1 show ?thesis by (subst build_levels.simps, subst layer_root.simps) simp
  qed
qed

lemma root_hash_build: "root_hash (merkle_build C ids) = layer_root C (map (leaf_hash C) ids)"
proof (cases "ids = []")
  case True
  then show ?thesis by (simp add: root_hash_def merkle_build_def layer_root.simps)
next
  case False
  moreover have "map node_hash (map (leaf_node C) ids) = map (leaf_hash C) ids"
    by (simp add: leaf_node_def)
  moreover have "node_hash (build_levels C (map (leaf_node C) ids) ! 0)
      = layer_root C (map node_hash (map (leaf_node C) ids))"
    using False by (intro build_levels_root) simp
  ultimately show ?thesis
    unfolding root_hash_def merkle_build_def Let_def by (simp del: map_map)
qed

section \<open>Paths lead to the root\<close>

lemma pad_layer_nth: "i < length hs \<Longrightarrow> pad_layer hs ! i = hs ! i"
  by (simp add: pad_layer_def nth_append)

lemma hash_chunks_nth:
  "2 * i + 1 < length hs \<Longrightarrow> hash_chunks C hs ! i = hash_pair C (hs ! (2 * i)) (hs ! (2 * i + 1))"
proof (induction C hs arbitrary: i rule: hash_chunks.induct)
  case (1 C a b hs)
  then show ?case by (cases i) auto
qed auto

lemma create_path_root:
  "index < length hs \<Longrightarrow> fold (path_step C) (create_path C hs index) (hs ! index) = layer_root C hs"
proof (induction C hs index rule: create_path.induct)
  case (1 C hs index)
  show ?case
  proof (cases "1 < length hs")
    case True
    let ?l = "pad_layer hs" and ?i = "index div 2"
    have i: "2 * ?i + 1 < length ?l" using "1.prems" unfolding length_pad_layer by presburger
    then have step: "hash_chunks C ?l ! ?i = hash_pair C (?l ! (2 * ?i)) (?l ! (2 * ?i + 1))"
      by (rule hash_chunks_nth)
    have "path_step C (?l ! (if index mod 2 = 0 then index + 1 else index - 1), index mod 2 \<noteq> 0)
        (?l ! index) = hash_chunks C ?l ! ?i"
    proof (cases "even index")
      case True
      then show ?thesis by (auto simp: step path_step_def elim!: evenE)
    next
      case False
      then show ?thesis by (auto simp: step path_step_def elim!: oddE)
    qed
    moreover have "?i < length (hash_chunks C ?l)" using i by simp
    ultimately show ?thesis
      using "1.IH" [OF True refl refl] True "1.prems"
      by (subst create_path.simps, subst layer_root.simps) (simp add: Let_def pad_layer_nth)
  next
    case False
    with "1.prems" have "index = 0" "hs \<noteq> []" by auto
    with False show ?thesis by (subst create_path.simps, subst layer_root.simps) simp
  qed
qed

text \<open>Trees in which a node has two children or none.\<close>

fun full_node :: "MerkleNode \<Rightarrow> bool" where
  "full_node (MerkleNode h None None) \<longleftrightarrow> True"
| "full_node (MerkleNode h (Some l) (Some r)) \<longleftrightarrow> full_node l \<and> full_node r"
| "full_node (MerkleNode h _ _) \<longleftrightarrow> False"

text \<open>Inner nodes hold the hash of their children's hashes.\<close>

fun hashed_node :: "'z crypto_scheme \<Rightarrow> MerkleNode \<Rightarrow> bool" where
  "hashed_node C (MerkleNode h (Some l) (Some r)) \<longleftrightarrow>
     h = hash_pair C (node_hash l) (node_hash r) \<and> hashed_node C l \<and> hashed_node C r"
| "hashed_node C (MerkleNode h l r) \<longleftrightarrow> l = None \<and> r = None"

fun leaves_of :: "MerkleNode \<Rightarrow> buf32 set" where
  "leaves_of (MerkleNode h None None) = {h}"
| "leaves_of (MerkleNode h l r) =
     (case l of None \<Rightarrow> {} | Some l' \<Rightarrow> leaves_of l') \<union>
     (case r of None \<Rightarrow> {} | Some r' \<Rightarrow> leaves_of r')"

lemma hashed_node_full: "hashed_node C n \<Longrightarrow> full_node n"
  by (induction n rule: full_node.induct) auto

lemma verify_node_leaves: "verify_node n h \<longleftrightarrow> h \<in> leaves_of n"
  by (induction n h rule: verify_node.induct) (auto split: option.splits)

lemma proof_helper_full:
  "full_node n \<Longrightarrow> \<exists>p. proof_helper n h = Ok p \<and> (p \<noteq> None \<longleftrightarrow> h \<in> leaves_of n)"
  by (induction n rule: full_node.induct) (auto split: option.splits)

lemma proof_helper_root:
  "hashed_node C n \<Longrightarrow> proof_helper n h = Ok (Some path) \<Longrightarrow> fold (path_step C) path h = node_hash n"
proof (induction n arbitrary: path rule: full_node.induct)
  case (2 g l r)
  then show ?case
    by (auto simp: res_simps path_step_def split: option.splits)
qed (auto split: if_splits)

lemma next_level_hashed:
  "\<forall>n \<in> set ns. hashed_node C n \<Longrightarrow> \<forall>n \<in> set (next_level C ns). hashed_node C n"
  by (induction C ns rule: next_level.induct) (auto simp: parent_node_def)

lemma next_level_leaves:
  "(\<Union>n \<in> set (next_level C ns). leaves_of n) = (\<Union>n \<in> set ns. leaves_of n)"
  by (induction C ns rule: next_level.induct) (auto simp: parent_node_def)

lemma build_levels_hashed:
  "\<forall>n \<in> set ns. hashed_node C n \<Longrightarrow> \<forall>n \<in> set (build_levels C ns). hashed_node C n"
proof (induction C ns rule: build_levels.induct)
  case (1 C ns)
  then show ?case using next_level_hashed [of ns C] by (subst build_levels.simps) auto
qed

lemma build_levels_leaves:
  "(\<Union>n \<in> set (build_levels C ns). leaves_of n) = (\<Union>n \<in> set ns. leaves_of n)"
proof (induction C ns rule: build_levels.induct)
  case (1 C ns)
  then show ?case using next_level_leaves [of C ns] by (subst build_levels.simps) auto
qed

lemma merkle_build_node:
  assumes "ids \<noteq> []"
  shows "hashed_node C (root (merkle_build C ids))"
    and "leaves_of (root (merkle_build C ids)) = leaf_hash C ` set ids"
proof -
  let ?ns = "map (leaf_node C) ids"
  have ne: "?ns \<noteq> []" using assms by simp
  obtain n where n: "build_levels C ?ns = [n]"
    using build_levels_singleton [OF ne, of C] by (auto simp: length_Suc_conv)
  have "\<forall>m \<in> set ?ns. hashed_node C m" by (auto simp: leaf_node_def)
  from build_levels_hashed [OF this] n have "hashed_node C n" by simp
  moreover have "leaves_of n = leaf_hash C ` set ids"
    using build_levels_leaves [of C ?ns] n by (auto simp: leaf_node_def)
  ultimately show "hashed_node C (root (merkle_build C ids))"
    "leaves_of (root (merkle_build C ids)) = leaf_hash C ` set ids"
    using n assms by (simp_all add: merkle_build_def)
qed

text \<open>A tree answers for exactly the transactions it was built from.\<close>

lemma verify_inclusion_build:
  "ids \<noteq> [] \<Longrightarrow> verify_inclusion (merkle_build C ids) h \<longleftrightarrow> h \<in> leaf_hash C ` set ids"
  by (simp add: verify_inclusion_def verify_node_leaves merkle_build_node)

lemma generate_proof_build:
  assumes "ids \<noteq> []"
  shows "\<exists>p. generate_proof (merkle_build C ids) h = (Ok p :: (_, 'e) result)
    \<and> (p \<noteq> None \<longleftrightarrow> h \<in> leaf_hash C ` set ids)
    \<and> (\<forall>q. p = Some q \<longrightarrow> proof_tx_hash q = h \<and> proof_validate C q (root_hash (merkle_build C ids)))"
proof -
  let ?n = "root (merkle_build C ids)"
  note node = merkle_build_node [OF assms, of C]
  from proof_helper_full [OF hashed_node_full [OF node(1)], of h]
  obtain p where "proof_helper ?n h = (Ok p :: (_, 'e) result)" "p \<noteq> None \<longleftrightarrow> h \<in> leaves_of ?n" by blast
  then show ?thesis
    using proof_helper_root [OF node(1)]
    by (cases p) (auto simp: generate_proof_def proof_validate_def root_hash_def node(2))
qed

lemma create_proof_root:
  "case create_proof C hs h of None \<Rightarrow> h \<notin> set hs
     | Some q \<Rightarrow> proof_tx_hash q = h \<and> proof_validate C q (layer_root C hs)"
  using create_path_root [of _ hs C]
  by (auto simp: create_proof_def proof_validate_def position_None split: option.split dest: position_Some)

section \<open>Binding\<close>

text \<open>
  SHA-256 has collisions, as every function to a finite type does; what the tree rests on is that
  nobody finds one.  So two proofs of different hashes for the same root, along the same path of
  left and right turns, are turned into a collision by the function below.
\<close>

fun path_collision ::
  "'z crypto_scheme \<Rightarrow> (buf32 \<times> bool) list \<Rightarrow> buf32 \<Rightarrow> (buf32 \<times> bool) list \<Rightarrow> buf32
     \<Rightarrow> (u8 list \<times> u8 list) option"
where
  "path_collision C ((s, d) # ps) h ((t, e) # qs) k =
     (let x = (if d then bytes32 s @ bytes32 h else bytes32 h @ bytes32 s);
          y = (if e then bytes32 t @ bytes32 k else bytes32 k @ bytes32 t)
      in if sha256 C x = sha256 C y \<and> x \<noteq> y then Some (x, y)
         else path_collision C ps (sha256 C x) qs (sha256 C y))"
| "path_collision C _ h _ k = None"

lemma bytes32_inject [simp]: "bytes32 a = bytes32 b \<longleftrightarrow> a = b"
proof -
  have "word_from_be_bytes (bytes32 w) = w" for w
    by (simp add: bytes32_def word_be_bytes_inverse)
  then show ?thesis by metis
qed

lemma length_bytes32 [simp]: "length (bytes32 b) = 32"
  by (simp add: bytes32_def)

lemma path_collision_sound:
  "path_collision C ps h qs k = Some (x, y) \<Longrightarrow> x \<noteq> y \<and> sha256 C x = sha256 C y"
  by (induction C ps h qs k rule: path_collision.induct) (auto simp: Let_def split: if_splits)

lemma path_collision_complete:
  assumes "map snd ps = map snd qs" and "h \<noteq> k"
    and "fold (path_step C) ps h = fold (path_step C) qs k"
  shows "path_collision C ps h qs k \<noteq> None"
  using assms
proof (induction ps arbitrary: h k qs)
  case (Cons p ps)
  obtain s d where p: "p = (s, d)" by (cases p)
  from Cons.prems(1) p obtain t qs' where q: "qs = (t, d) # qs'" by (cases qs) auto
  let ?x = "if d then bytes32 s @ bytes32 h else bytes32 h @ bytes32 s"
  let ?y = "if d then bytes32 t @ bytes32 k else bytes32 k @ bytes32 t"
  have xy: "?x \<noteq> ?y" using Cons.prems(2) by auto
  have step: "path_step C (s, d) h = sha256 C ?x" "path_step C (t, d) k = sha256 C ?y"
    by (simp_all add: path_step_def hash_pair_def)
  show ?case
  proof (cases "sha256 C ?x = sha256 C ?y")
    case True
    with xy show ?thesis by (simp add: p q Let_def)
  next
    case False
    have "path_collision C ps (sha256 C ?x) qs' (sha256 C ?y) \<noteq> None"
      by (rule Cons.IH [OF _ False]) (use Cons.prems p q step in auto)
    with False show ?thesis by (simp add: p q Let_def)
  qed
qed simp

end
