(* ===== verification/Address_Filter.thy ===== *)
theory Address_Filter
  imports Merkle_Tree
begin

text \<open>
  \<open>crypto/address_inclusion_filter.rs\<close>: the Bloom filter over the addresses of a block's
  transactions.  A filter received from a peer need not have as many bits as it says, so reading it
  can index past its bytes and panic; a filter the code builds cannot.
\<close>

datatype AddressInclusionFilterError = BloomEncoding | BloomDecoding

record AddressInclusionFilter =
  filter_bits :: "u8 list"
  num_bits :: usize
  num_hashes :: u32

definition FALSE_POSITIVE_RATE :: f64 where
  "FALSE_POSITIVE_RATE = fl (1 / 1000)"

section \<open>Bits\<close>

text \<open>The bit that hash number \<open>i\<close> selects: the first eight digest bytes, little-endian.\<close>

definition filter_hash :: "'z crypto_scheme \<Rightarrow> Public \<Rightarrow> u32 \<Rightarrow> u64" where
  "filter_hash C address i =
     (let digest = bytes32 (sha256 C (public_dump_buf address @ rev (word_to_be_bytes 4 i)))
      in word_from_be_bytes (rev (take 8 digest)))"

definition filter_bit :: "'z crypto_scheme \<Rightarrow> AddressInclusionFilter \<Rightarrow> Public \<Rightarrow> nat \<Rightarrow> nat" where
  "filter_bit C f address i = unat (filter_hash C address (word_of_nat i)) mod num_bits f"

definition set_filter_bit :: "nat \<Rightarrow> u8 list \<Rightarrow> (u8 list, 'e) result" where
  "set_filter_bit b bits =
     (if b div 8 < length bits
      then Ok (bits[b div 8 := bits ! (b div 8) OR push_bit (b mod 8) 1])
      else Panic)"

definition test_filter_bit :: "nat \<Rightarrow> u8 list \<Rightarrow> (bool, 'e) result" where
  "test_filter_bit b bits =
     (if b div 8 < length bits
      then Ok (bits ! (b div 8) AND push_bit (b mod 8) 1 \<noteq> 0)
      else Panic)"

definition filter_insert ::
  "'z crypto_scheme \<Rightarrow> Public \<Rightarrow> AddressInclusionFilter \<Rightarrow> (AddressInclusionFilter, 'e) result"
where
  "filter_insert C address f =
     (if num_bits f = 0 then Ok f
      else bind_res
        (for_each (\<lambda>i. set_filter_bit (filter_bit C f address i)) [0..<unat (num_hashes f)]
          (filter_bits f))
        (\<lambda>bits. Ok (f\<lparr>filter_bits := bits\<rparr>)))"

fun contains_from ::
  "'z crypto_scheme \<Rightarrow> AddressInclusionFilter \<Rightarrow> Public \<Rightarrow> nat list \<Rightarrow> (bool, 'e) result"
where
  "contains_from C f address [] = Ok True"
| "contains_from C f address (i # is) =
     bind_res (test_filter_bit (filter_bit C f address i) (filter_bits f)) (\<lambda>b.
       if b then contains_from C f address is else Ok False)"

definition filter_contains ::
  "'z crypto_scheme \<Rightarrow> AddressInclusionFilter \<Rightarrow> Public \<Rightarrow> (bool, 'e) result"
where
  "filter_contains C f address =
     (if num_bits f = 0 then Ok False
      else contains_from C f address [0..<unat (num_hashes f)])"

definition search_filter ::
  "'z crypto_scheme \<Rightarrow> AddressInclusionFilter \<Rightarrow> Public \<Rightarrow> (bool, AddressInclusionFilterError) result"
where
  "search_filter C f address = filter_contains C f address"

definition insert_transaction ::
  "'z crypto_scheme \<Rightarrow> Transaction \<Rightarrow> AddressInclusionFilter \<Rightarrow> (AddressInclusionFilter, 'e) result"
where
  "insert_transaction C tx bloom =
     bind_res (for_each (\<lambda>i. filter_insert C (output_owner i)) (inputs tx) bloom)
       (for_each (\<lambda>out. filter_insert C (receiver out)) (outputs tx))"

section \<open>Construction\<close>

definition filter_num_bits :: "'z crypto_scheme \<Rightarrow> nat \<Rightarrow> usize" where
  "filter_num_bits C address_count =
     f64_as_nat 64 (of_int
       \<lceil>fdiv (- fmul (f64_of_nat address_count) (f64_ln C FALSE_POSITIVE_RATE))
             (fmul (f64_ln C 2) (f64_ln C 2))\<rceil>)"

definition filter_num_hashes :: "'z crypto_scheme \<Rightarrow> nat \<Rightarrow> usize \<Rightarrow> u32" where
  "filter_num_hashes C address_count bits =
     word_of_nat (f64_as_nat 32 (of_int
       \<lceil>fmul (fdiv (f64_of_nat bits) (f64_of_nat address_count)) (f64_ln C 2)\<rceil>))"

definition create_filter ::
  "'z crypto_scheme \<Rightarrow> Transaction list \<Rightarrow> (AddressInclusionFilter, AddressInclusionFilterError) result"
where
  "create_filter C transactions =
     (let address_count = sum_list (map tx_address_count transactions)
      in if address_count = 0
         then Ok \<lparr>filter_bits = [], num_bits = 0, num_hashes = 0\<rparr>
         else let n = filter_num_bits C address_count;
                  k = filter_num_hashes C address_count n;
                  empty = \<lparr>filter_bits = replicate ((n + 7) div 8) 0, num_bits = n, num_hashes = k\<rparr>
              in for_each (insert_transaction C) transactions empty)"

section \<open>No false negatives\<close>

definition filter_wf :: "AddressInclusionFilter \<Rightarrow> bool" where
  "filter_wf f \<longleftrightarrow> length (filter_bits f) = (num_bits f + 7) div 8"

definition bit_is_set :: "u8 list \<Rightarrow> nat \<Rightarrow> bool" where
  "bit_is_set bits b \<longleftrightarrow> bit (bits ! (b div 8)) (b mod 8)"

lemma and_push_bit_1: "(w AND push_bit n 1 \<noteq> 0) = bit w n" for w :: "u8"
  by (simp only: bit_iff_and_push_bit_not_eq_0)

lemma test_filter_bit_eq:
  "b div 8 < length bits \<Longrightarrow> test_filter_bit b bits = Ok (bit_is_set bits b)"
  by (simp only: test_filter_bit_def bit_is_set_def and_push_bit_1 if_True)

lemma set_filter_bit_sets:
  assumes "set_filter_bit b bits = Ok bits'"
  shows "length bits' = length bits" and "bit_is_set bits' b"
    and "c div 8 < length bits \<Longrightarrow> bit_is_set bits c \<Longrightarrow> bit_is_set bits' c"
  using assms
  by (auto simp: set_filter_bit_def bit_is_set_def nth_list_update bit_or_iff bit_push_bit_iff
      bit_exp_iff split: if_splits)

lemma set_bits_loop:
  assumes "\<And>i. i \<in> set is \<Longrightarrow> g i div 8 < length bits"
  shows "\<exists>bits'. for_each (\<lambda>i. set_filter_bit (g i)) is bits = (Ok bits' :: (u8 list, 'e) result) \<and> length bits' = length bits
    \<and> (\<forall>i \<in> set is. bit_is_set bits' (g i))
    \<and> (\<forall>c. c div 8 < length bits \<longrightarrow> bit_is_set bits c \<longrightarrow> bit_is_set bits' c)"
  using assms
proof (induction "is" arbitrary: bits)
  case (Cons i js)
  then obtain b1 where b1: "set_filter_bit (g i) bits = (Ok b1 :: (u8 list, 'e) result)" by (auto simp: set_filter_bit_def)
  note s = set_filter_bit_sets [OF b1]
  have "g j div 8 < length b1" if "j \<in> set js" for j using that Cons.prems s(1) by simp
  then obtain b2 where b2:
    "for_each (\<lambda>i. set_filter_bit (g i)) js b1 = (Ok b2 :: (u8 list, 'e) result)" "length b2 = length b1"
    "\<forall>i \<in> set js. bit_is_set b2 (g i)"
    "\<forall>c. c div 8 < length b1 \<longrightarrow> bit_is_set b1 c \<longrightarrow> bit_is_set b2 c"
    using Cons.IH [of b1] by blast
  have "bit_is_set b2 (g i)" using b2(4) s(1,2) Cons.prems by simp
  moreover have "\<forall>c. c div 8 < length bits \<longrightarrow> bit_is_set bits c \<longrightarrow> bit_is_set b2 c"
    using b2(4) s(1,3) by simp
  ultimately show ?case using b1 b2(1-3) s(1) by simp
qed simp

text \<open>The bits of an address: all are set in the filter.\<close>

definition covers :: "'z crypto_scheme \<Rightarrow> AddressInclusionFilter \<Rightarrow> Public \<Rightarrow> bool" where
  "covers C f a \<longleftrightarrow> (\<forall>i < unat (num_hashes f). bit_is_set (filter_bits f) (filter_bit C f a i))"

lemma filter_bit_in_range:
  assumes "filter_wf f" and "0 < num_bits f" shows "filter_bit C f a i div 8 < length (filter_bits f)"
proof -
  have "filter_bit C f a i < num_bits f" using assms(2) by (simp add: filter_bit_def)
  with assms(1) show ?thesis unfolding filter_wf_def by linarith
qed

lemma contains_from_covers:
  assumes "filter_wf f" and "0 < num_bits f"
    and "\<And>i. i \<in> set is \<Longrightarrow> bit_is_set (filter_bits f) (filter_bit C f a i)"
  shows "contains_from C f a is = Ok True"
  using assms(3)
  by (induction "is") (simp_all add: test_filter_bit_eq filter_bit_in_range assms(1,2))

lemma filter_contains_covers:
  "filter_wf f \<Longrightarrow> 0 < num_bits f \<Longrightarrow> covers C f a \<Longrightarrow> filter_contains C f a = Ok True"
  by (auto simp: filter_contains_def covers_def intro!: contains_from_covers)

text \<open>What an insertion keeps and adds.\<close>

definition filter_step ::
  "'z crypto_scheme \<Rightarrow> Public set \<Rightarrow> AddressInclusionFilter \<Rightarrow> AddressInclusionFilter \<Rightarrow> bool"
where
  "filter_step C A f g \<longleftrightarrow>
     filter_wf g \<and> num_bits g = num_bits f \<and> num_hashes g = num_hashes f
     \<and> (\<forall>a. covers C f a \<longrightarrow> covers C g a) \<and> (\<forall>a \<in> A. covers C g a)"

lemma filter_step_trans:
  "filter_step C A f g \<Longrightarrow> filter_step C B g h \<Longrightarrow> filter_step C (A \<union> B) f h"
  by (auto simp: filter_step_def)

lemma filter_insert_step:
  assumes "filter_wf f" and "0 < num_bits f"
  shows "\<exists>g. filter_insert C a f = (Ok g :: (AddressInclusionFilter, 'e) result) \<and> filter_step C {a} f g"
proof -
  have in_range: "filter_bit C f b i div 8 < length (filter_bits f)" for b i
    by (rule filter_bit_in_range [OF assms])
  obtain bits where bits:
    "for_each (\<lambda>i. set_filter_bit (filter_bit C f a i)) [0..<unat (num_hashes f)] (filter_bits f)
      = (Ok bits :: (u8 list, 'e) result)"
    "length bits = length (filter_bits f)"
    "\<forall>i \<in> set [0..<unat (num_hashes f)]. bit_is_set bits (filter_bit C f a i)"
    "\<forall>c. c div 8 < length (filter_bits f) \<longrightarrow> bit_is_set (filter_bits f) c \<longrightarrow> bit_is_set bits c"
    using set_bits_loop [of "[0..<unat (num_hashes f)]" "filter_bit C f a" "filter_bits f"] in_range
    by auto
  have eq: "filter_bit C (f\<lparr>filter_bits := bits\<rparr>) b i = filter_bit C f b i" for b i
    by (simp add: filter_bit_def)
  have "filter_insert C a f = (Ok (f\<lparr>filter_bits := bits\<rparr>) :: (AddressInclusionFilter, 'e) result)"
    using assms(2) bits(1) by (simp add: filter_insert_def)
  moreover have "filter_step C {a} f (f\<lparr>filter_bits := bits\<rparr>)"
    using assms bits(2-4) in_range by (simp add: filter_step_def covers_def filter_wf_def eq)
  ultimately show ?thesis by blast
qed

lemma for_each_filter_step:
  assumes "\<And>x f. x \<in> set xs \<Longrightarrow> filter_wf f \<Longrightarrow> 0 < num_bits f \<Longrightarrow>
      \<exists>g. step x f = Ok g \<and> filter_step C (A x) f g"
    and "filter_wf f" and "0 < num_bits f"
  shows "\<exists>g. for_each step xs f = Ok g \<and> filter_step C (\<Union>x \<in> set xs. A x) f g"
  using assms
proof (induction xs arbitrary: f)
  case Nil
  then show ?case by (simp add: filter_step_def)
next
  case (Cons x xs)
  then obtain g where g: "step x f = Ok g" "filter_step C (A x) f g" by (meson list.set_intros(1))
  then have "filter_wf g" "0 < num_bits g" using Cons.prems by (auto simp: filter_step_def)
  with Cons obtain h where "for_each step xs g = Ok h" "filter_step C (\<Union>x \<in> set xs. A x) g h"
    by (meson list.set_intros(2))
  with g show ?case by (auto dest: filter_step_trans)
qed

lemma insert_transaction_step:
  assumes "filter_wf f" and "0 < num_bits f"
  shows "\<exists>g. insert_transaction C tx f = (Ok g :: (AddressInclusionFilter, 'e) result) \<and> filter_step C {a. contains_address tx a} f g"
proof -
  obtain g where g: "for_each (\<lambda>i. filter_insert C (output_owner i)) (inputs tx) f =
      (Ok g :: (AddressInclusionFilter, 'e) result)"
    "filter_step C (\<Union>i \<in> set (inputs tx). {output_owner i}) f g"
    using for_each_filter_step [of "inputs tx" "\<lambda>i. filter_insert C (output_owner i)" C
        "\<lambda>i. {output_owner i}" f] filter_insert_step assms by blast
  then have "filter_wf g" "0 < num_bits g" using assms by (auto simp: filter_step_def)
  then obtain h where h: "for_each (\<lambda>out. filter_insert C (receiver out)) (outputs tx) g =
      (Ok h :: (AddressInclusionFilter, 'e) result)"
    "filter_step C (\<Union>out \<in> set (outputs tx). {receiver out}) g h"
    using for_each_filter_step [of "outputs tx" "\<lambda>out. filter_insert C (receiver out)" C
        "\<lambda>out. {receiver out}" g] filter_insert_step by blast
  have "{a. contains_address tx a} =
      (\<Union>i \<in> set (inputs tx). {output_owner i}) \<union> (\<Union>out \<in> set (outputs tx). {receiver out})"
    by (auto simp: contains_address_iff)
  with g h filter_step_trans [OF g(2) h(2)] show ?thesis by (simp add: insert_transaction_def)
qed

text \<open>All that the code needs of the platform's logarithm.\<close>

definition ln_signs :: "'z crypto_scheme \<Rightarrow> bool" where
  "ln_signs C \<longleftrightarrow> f64_ln C FALSE_POSITIVE_RATE < 0 \<and> f64_ln C 2 \<noteq> 0"

lemma filter_num_bits_pos:
  assumes "ln_signs C" and "0 < n" shows "0 < filter_num_bits C n"
proof -
  have "0 < f64_of_nat n" using assms(2) by (simp add: f64_of_nat_def fl_gt_0)
  with assms(1) have "0 < - fmul (f64_of_nat n) (f64_ln C FALSE_POSITIVE_RATE)"
    unfolding fmul_def fl_minus [symmetric] ln_signs_def
    by (intro fl_gt_0) (simp add: mult_pos_neg)
  moreover have "0 < fmul (f64_ln C 2) (f64_ln C 2)"
    using assms(1) unfolding fmul_def ln_signs_def
    by (intro fl_gt_0) (metis not_real_square_gt_zero mult_neg_neg mult_pos_pos linorder_neqE_linordered_idom)
  ultimately have "0 < fdiv (- fmul (f64_of_nat n) (f64_ln C FALSE_POSITIVE_RATE))
      (fmul (f64_ln C 2) (f64_ln C 2))"
    unfolding fdiv_def by (intro fl_gt_0 divide_pos_pos)
  then have "1 \<le> \<lceil>fdiv (- fmul (f64_of_nat n) (f64_ln C FALSE_POSITIVE_RATE))
      (fmul (f64_ln C 2) (f64_ln C 2))\<rceil>" by linarith
  then show ?thesis unfolding filter_num_bits_def f64_as_nat_def by auto
qed

lemma create_filter_spec:
  assumes "ln_signs C"
  shows "\<exists>f. create_filter C txs = Ok f \<and> filter_wf f \<and>
    (\<forall>tx \<in> set txs. \<forall>a. contains_address tx a \<longrightarrow> 0 < num_bits f \<and> covers C f a)"
proof (cases "sum_list (map tx_address_count txs) = 0")
  case True
  then have "\<not> contains_address tx a" if "tx \<in> set txs" for tx a
    using that by (auto simp: contains_address_iff tx_address_count_def)
  with True show ?thesis by (simp add: create_filter_def filter_wf_def)
next
  case False
  let ?n = "filter_num_bits C (sum_list (map tx_address_count txs))"
  define e where "e = \<lparr>filter_bits = replicate ((?n + 7) div 8) 0, num_bits = ?n,
    num_hashes = filter_num_hashes C (sum_list (map tx_address_count txs)) ?n\<rparr>"
  have e: "filter_wf e" "0 < num_bits e"
    using filter_num_bits_pos [OF assms, of "sum_list (map tx_address_count txs)"] False
    by (simp_all del: sum_list_eq_0_iff add: e_def filter_wf_def)
  obtain g where g: "for_each (insert_transaction C) txs e =
      (Ok g :: (AddressInclusionFilter, AddressInclusionFilterError) result)"
    "filter_step C (\<Union>tx \<in> set txs. {a. contains_address tx a}) e g"
    using for_each_filter_step [of txs "insert_transaction C" C "\<lambda>tx. {a. contains_address tx a}" e]
      insert_transaction_step e by blast
  have "create_filter C txs = for_each (insert_transaction C) txs e"
    unfolding create_filter_def Let_def if_not_P [OF False] e_def ..
  with g e show ?thesis by (auto simp: filter_step_def)
qed

text \<open>A filter that the code made can be searched.\<close>

lemma contains_from_total:
  assumes "filter_wf f" and "0 < num_bits f"
  shows "\<exists>x. contains_from C f a is = (Ok x :: (bool, 'e) result)"
  by (induction "is") (auto simp: test_filter_bit_eq filter_bit_in_range assms)

lemma created_filter_search:
  assumes "ln_signs C" and "create_filter C txs = Ok f"
  shows "\<exists>x. search_filter C f a = Ok x"
    and "tx \<in> set txs \<Longrightarrow> contains_address tx a \<Longrightarrow> search_filter C f a = Ok True"
proof -
  obtain f' where "create_filter C txs = Ok f'" "filter_wf f'"
    "\<forall>tx \<in> set txs. \<forall>a. contains_address tx a \<longrightarrow> 0 < num_bits f' \<and> covers C f' a"
    using create_filter_spec [OF assms(1)] by blast
  then have f: "filter_wf f" "\<forall>tx \<in> set txs. \<forall>a. contains_address tx a \<longrightarrow> 0 < num_bits f \<and> covers C f a"
    using assms(2) by simp_all
  show "\<exists>x. search_filter C f a = Ok x"
    using contains_from_total [OF f(1)] by (auto simp: search_filter_def filter_contains_def)
  show "tx \<in> set txs \<Longrightarrow> contains_address tx a \<Longrightarrow> search_filter C f a = Ok True"
    unfolding search_filter_def by (rule filter_contains_covers [OF f(1)]) (use f(2) in blast)+
qed

end
