(* ===== verification/Blocks.thy ===== *)
theory Blocks
  imports Target Address_Filter
begin

text \<open>
  \<open>core/block.rs\<close>: blocks and their metadata, the buffer that is hashed, mining, and the checks of a
  block that need no chain state: hash, target, merkle root, address filter.  The encoder of a whole
  block is a field of \<open>block_env\<close>.
\<close>

section \<open>Data\<close>

datatype BlockError =
    IncompleteBlock
  | EncodeErrorB
  | InvalidBlockHash
  | DifficultyMismatch
  | BlockPowDifficultyIncorrect
  | IncompleteTransaction
  | InvalidMerkleTreeRoot
  | AddressInclusionFilterB AddressInclusionFilterError
  | IncorrectAddressInclusionFilter

record BlockMetadata =
  block_pow_difficulty :: buf32
  tx_pow_difficulty :: buf32
  previous_block :: Hash
  hash :: "Hash option"
  merkle_tree_root :: buf32
  address_inclusion_filter :: AddressInclusionFilter

record Block =
  transactions :: "Transaction list"
  timestamp :: u64
  nonce :: u64
  meta :: BlockMetadata

record block_env = tx_env +
  encode_block :: "Block \<Rightarrow> string + u8 list"

section \<open>Construction and hashing\<close>

definition new_block_now ::
  "u64 \<Rightarrow> Transaction list \<Rightarrow> buf32 \<Rightarrow> buf32 \<Rightarrow> Hash \<Rightarrow> buf32 \<Rightarrow> AddressInclusionFilter \<Rightarrow> Block"
where
  "new_block_now now txs block_difficulty tx_difficulty previous merkle_root filt =
     \<lparr>transactions = txs, timestamp = now, nonce = 0,
      meta = \<lparr>block_pow_difficulty = block_difficulty, tx_pow_difficulty = tx_difficulty,
              previous_block = previous, hash = None, merkle_tree_root = merkle_root,
              address_inclusion_filter = filt\<rparr>\<rparr>"

text \<open>The loop over the transactions: both encodings it concatenates are of the inputs.\<close>

fun transactions_digest :: "'z tx_env_scheme \<Rightarrow> Transaction list \<Rightarrow> (u8 list, string) result" where
  "transactions_digest E [] = Ok []"
| "transactions_digest E (tx # txs) =
     bind_res (encoded (encode_inputs E (inputs tx))) (\<lambda>encoded_tx_io.
     bind_res (encoded (encode_inputs E (inputs tx))) (\<lambda>more.
     bind_res (transactions_digest E txs) (\<lambda>digests.
       Ok (bytes32 (sha256 E (encoded_tx_io @ more)) @ digests))))"

definition strip_io :: "Transaction \<Rightarrow> Transaction" where
  "strip_io tx = tx\<lparr>inputs := [], outputs := []\<rparr>"

definition hash_less :: "Block \<Rightarrow> Block" where
  "hash_less b = b\<lparr>meta := (meta b)\<lparr>hash := None\<rparr>\<rparr>"

definition get_hashing_buf :: "'z block_env_scheme \<Rightarrow> Block \<Rightarrow> (u8 list, string) result" where
  "get_hashing_buf E b =
     bind_res (transactions_digest E (transactions b)) (\<lambda>digests.
     bind_res (encoded (encode_block E
        ((hash_less b)\<lparr>transactions := map strip_io (transactions b)\<rparr>))) (\<lambda>buf.
       Ok (if SCIP_1_MIGRATION < timestamp b then buf @ digests else buf)))"

text \<open>The deprecated miner, with the nonces it draws as an argument.\<close>

fun block_compute_pow ::
  "'z block_env_scheme \<Rightarrow> nat \<Rightarrow> u64 list \<Rightarrow> Block \<Rightarrow> (Block, string) result option"
where
  "block_compute_pow E target [] b = None"
| "block_compute_pow E target (n # nonces) b =
     (let b1 = b\<lparr>nonce := n\<rparr>
      in case get_hashing_buf E b1 of
           Err e \<Rightarrow> Some (Err e)
         | Panic \<Rightarrow> Some Panic
         | Ok buf \<Rightarrow>
             if biguint_of (hash_buf (hash_new E buf)) \<le> target
             then Some (Ok (b1\<lparr>meta := (meta b1)\<lparr>hash := Some (hash_new E buf)\<rparr>\<rparr>))
             else block_compute_pow E target nonces b1)"

definition block_pow_target :: "Block \<Rightarrow> nat" where
  "block_pow_target b =
     biguint_of (calculate_block_difficulty (block_pow_difficulty (meta b)) (length (transactions b)))"

section \<open>Checks\<close>

definition check_completeness :: "Block \<Rightarrow> (unit, BlockError) result" where
  "check_completeness b = bind_res (ok_or (hash (meta b)) IncompleteBlock) (\<lambda>_. Ok ())"

definition validate_block_hash :: "'z block_env_scheme \<Rightarrow> Block \<Rightarrow> (unit, BlockError) result" where
  "validate_block_hash E b =
     bind_res (check_completeness b) (\<lambda>_.
     bind_res (ok_or (hash (meta b)) IncompleteBlock) (\<lambda>h.
     bind_res (map_err (\<lambda>_. EncodeErrorB) (get_hashing_buf E b)) (\<lambda>buf.
       if \<not> compare_with_data E h buf then Err InvalidBlockHash else Ok ())))"

definition validate_difficulties :: "Block \<Rightarrow> buf32 \<Rightarrow> buf32 \<Rightarrow> (unit, BlockError) result" where
  "validate_difficulties b real_block_pow_difficulty real_tx_pow_difficulty =
     (if block_pow_difficulty (meta b) \<noteq> real_block_pow_difficulty
         \<or> tx_pow_difficulty (meta b) \<noteq> real_tx_pow_difficulty
      then Err DifficultyMismatch
      else bind_res (expect (hash (meta b))) (\<lambda>h.
        if biguint_of (calculate_block_difficulty real_block_pow_difficulty (length (transactions b)))
           < biguint_of (hash_buf h)
        then Err BlockPowDifficultyIncorrect
        else Ok ()))"

fun complete_ids :: "Transaction list \<Rightarrow> (TransactionId list, BlockError) result" where
  "complete_ids [] = Ok []"
| "complete_ids (tx # txs) =
     bind_res (map_err (\<lambda>_. IncompleteTransaction) (tx_check_completeness tx)) (\<lambda>_.
     bind_res (expect (transaction_id tx)) (\<lambda>i.
     bind_res (complete_ids txs) (\<lambda>ids. Ok (i # ids))))"

definition validate_merkle_tree :: "'z crypto_scheme \<Rightarrow> Block \<Rightarrow> (unit, BlockError) result" where
  "validate_merkle_tree C b =
     bind_res (complete_ids (transactions b)) (\<lambda>ids.
       if root_hash (merkle_build C ids) \<noteq> merkle_tree_root (meta b)
       then Err InvalidMerkleTreeRoot else Ok ())"

definition validate_address_inclusion_filter ::
  "'z crypto_scheme \<Rightarrow> Block \<Rightarrow> (unit, BlockError) result"
where
  "validate_address_inclusion_filter C b =
     bind_res (map_err AddressInclusionFilterB (create_filter C (transactions b))) (\<lambda>f.
       if f \<noteq> address_inclusion_filter (meta b) then Err IncorrectAddressInclusionFilter else Ok ())"

definition check_meta :: "'z block_env_scheme \<Rightarrow> Block \<Rightarrow> (unit, BlockError) result" where
  "check_meta E b =
     bind_res (check_completeness b) (\<lambda>_.
     bind_res (validate_block_hash E b) (\<lambda>_.
     bind_res (validate_address_inclusion_filter E b) (\<lambda>_.
     bind_res (validate_merkle_tree E b) (\<lambda>_. Ok ()))))"

definition check_meta_ignore_hash :: "'z crypto_scheme \<Rightarrow> Block \<Rightarrow> (unit, BlockError) result" where
  "check_meta_ignore_hash C b =
     bind_res (check_completeness b) (\<lambda>_.
     bind_res (validate_address_inclusion_filter C b) (\<lambda>_.
     bind_res (validate_merkle_tree C b) (\<lambda>_. Ok ())))"

definition block_address_count :: "Block \<Rightarrow> usize" where
  "block_address_count b = foldl (\<lambda>acc tx. acc + tx_address_count tx) 0 (transactions b)"

section \<open>The hashing buffer\<close>

lemma get_hashing_buf_hash [simp]:
  "get_hashing_buf E (b\<lparr>meta := (meta b)\<lparr>hash := h\<rparr>\<rparr>) = get_hashing_buf E b"
  by (simp add: get_hashing_buf_def hash_less_def)

text \<open>Two lists of transactions that differ only in their outputs.\<close>

definition same_but_outputs :: "Transaction \<Rightarrow> Transaction \<Rightarrow> bool" where
  "same_but_outputs t u \<longleftrightarrow> u = t\<lparr>outputs := outputs u\<rparr>"

lemma same_but_outputs_D:
  "same_but_outputs t u \<Longrightarrow> inputs u = inputs t"
  "same_but_outputs t u \<Longrightarrow> strip_io u = strip_io t"
  unfolding same_but_outputs_def strip_io_def by (cases t; cases u; simp)+

lemma transactions_digest_outputs:
  "list_all2 same_but_outputs ts us \<Longrightarrow> transactions_digest E us = transactions_digest E ts"
  by (induction ts us rule: list_all2_induct) (simp_all add: same_but_outputs_D)

lemma get_hashing_buf_outputs:
  assumes "list_all2 same_but_outputs (transactions b) us"
  shows "get_hashing_buf E (b\<lparr>transactions := us\<rparr>) = get_hashing_buf E b"
proof -
  have "map strip_io us = map strip_io (transactions b)"
    using assms by (induction rule: list_all2_induct) (simp_all add: same_but_outputs_D)
  then show ?thesis
    by (simp add: get_hashing_buf_def hash_less_def transactions_digest_outputs [OF assms])
qed

lemma transactions_digest_not_Panic [simp]: "transactions_digest E txs \<noteq> Panic"
  by (induction txs) (auto simp: res_simps)

lemma get_hashing_buf_not_Panic [simp]: "get_hashing_buf E b \<noteq> Panic"
  by (auto simp: get_hashing_buf_def res_simps)

section \<open>What the checks accept\<close>

lemma validate_block_hash_Ok_iff:
  "validate_block_hash E b = Ok u \<longleftrightarrow>
     (\<exists>h buf. hash (meta b) = Some h \<and> get_hashing_buf E b = Ok buf \<and> h = hash_new E buf)"
  by (auto simp: validate_block_hash_def check_completeness_def compare_with_data_def hash_new_def
      res_simps split: if_splits)

lemma validate_difficulties_Ok_iff:
  "validate_difficulties b bd td = Ok u \<longleftrightarrow>
     block_pow_difficulty (meta b) = bd \<and> tx_pow_difficulty (meta b) = td \<and>
     (\<exists>h. hash (meta b) = Some h \<and>
        unat (hash_buf h) \<le> unat (calculate_block_difficulty bd (length (transactions b))))"
  by (cases "hash (meta b)") (auto simp: validate_difficulties_def res_simps)

lemma complete_ids_Ok_iff:
  "complete_ids txs = Ok ids \<longleftrightarrow>
     (\<forall>tx \<in> set txs. tx_check_completeness tx = Ok ()) \<and> map transaction_id txs = map Some ids"
proof (induction txs arbitrary: ids)
  case (Cons tx txs)
  then show ?case by (cases ids) (auto simp: res_simps tx_check_completeness_Ok_iff)
qed auto

lemma complete_ids_not_Panic [simp]: "complete_ids txs \<noteq> Panic"
  by (induction txs) (auto simp: res_simps tx_check_completeness_Ok_iff)

lemma check_meta_Ok_iff:
  "check_meta E b = Ok u \<longleftrightarrow>
     (\<exists>h buf ids. hash (meta b) = Some h \<and> get_hashing_buf E b = Ok buf \<and> h = hash_new E buf
       \<and> create_filter E (transactions b) = Ok (address_inclusion_filter (meta b))
       \<and> complete_ids (transactions b) = Ok ids
       \<and> layer_root E (map (leaf_hash E) ids) = merkle_tree_root (meta b))"
  by (auto simp: check_meta_def check_completeness_def validate_block_hash_Ok_iff res_simps
      validate_address_inclusion_filter_def validate_merkle_tree_def root_hash_build split: if_splits)

lemma check_meta_ignores_hash:
  "check_meta E b = Ok u \<longleftrightarrow> validate_block_hash E b = Ok () \<and> check_meta_ignore_hash E b = Ok ()"
  by (auto simp: check_meta_def check_meta_ignore_hash_def res_simps)

lemma check_meta_not_Panic: "ln_signs E \<Longrightarrow> check_meta E b \<noteq> Panic"
  using create_filter_spec [of E "transactions b"]
  by (auto simp: check_meta_def check_completeness_def validate_block_hash_def res_simps
      validate_address_inclusion_filter_def validate_merkle_tree_def split: if_splits)

lemma block_compute_pow_Ok:
  assumes "block_compute_pow E target nonces b = Some (Ok b')"
  shows "\<exists>n \<in> set nonces. \<exists>buf. get_hashing_buf E (b\<lparr>nonce := n\<rparr>) = Ok buf
    \<and> b' = b\<lparr>nonce := n, meta := (meta b)\<lparr>hash := Some (hash_new E buf)\<rparr>\<rparr>
    \<and> unat (hash_buf (hash_new E buf)) \<le> target"
  using assms
proof (induction nonces arbitrary: b)
  case (Cons n nonces)
  let ?b = "b\<lparr>nonce := n\<rparr>"
  show ?case
  proof (cases "get_hashing_buf E ?b")
    case (Ok buf)
    show ?thesis
    proof (cases "unat (hash_buf (hash_new E buf)) \<le> target")
      case True
      with Cons.prems Ok show ?thesis by auto
    next
      case False
      with Cons.prems Ok have "block_compute_pow E target nonces ?b = Some (Ok b')" by simp
      from Cons.IH [OF this] show ?thesis by simp
    qed
  qed (use Cons.prems in simp_all)
qed simp

lemma mined_block_valid:
  assumes "block_compute_pow E (block_pow_target b) nonces b = Some (Ok b')"
  shows "validate_block_hash E b' = Ok ()"
    and "validate_difficulties b' (block_pow_difficulty (meta b)) (tx_pow_difficulty (meta b)) = Ok ()"
proof -
  obtain n buf where *: "get_hashing_buf E (b\<lparr>nonce := n\<rparr>) = Ok buf"
    "b' = b\<lparr>nonce := n, meta := (meta b)\<lparr>hash := Some (hash_new E buf)\<rparr>\<rparr>"
    "unat (hash_buf (hash_new E buf)) \<le> block_pow_target b"
    using block_compute_pow_Ok [OF assms] by blast
  have "get_hashing_buf E b' = Ok buf"
    using get_hashing_buf_hash [where E = E and b = "b\<lparr>nonce := n\<rparr>"] *(1,2) by simp
  then show "validate_block_hash E b' = Ok ()" by (simp add: validate_block_hash_Ok_iff *(2))
  show "validate_difficulties b' (block_pow_difficulty (meta b)) (tx_pow_difficulty (meta b)) = Ok ()"
    using *(3) by (simp add: validate_difficulties_Ok_iff *(2) block_pow_target_def)
qed

lemma block_address_count_eq:
  "block_address_count b = sum_list (map tx_address_count (transactions b))"
proof -
  have "foldl (\<lambda>acc tx. acc + tx_address_count tx) k txs = k + sum_list (map tx_address_count txs)"
    for k txs by (induction txs arbitrary: k) auto
  then show ?thesis by (simp add: block_address_count_def)
qed

end
