(* ===== verification/Utxo_Set.thy ===== *)
theory Utxo_Set
  imports Blocks
begin

text \<open>
  \<open>core/utxo.rs\<close>: the set of unspent outputs.  The store is a \<open>sled\<close> database, an ordered map from the
  printed transaction id to the transaction's outputs, with \<open>None\<close> for an output that is spent.
  It is a finite map here, iterated in the order of its keys, and its operations succeed.
\<close>

section \<open>The store\<close>

record UTXODiff =
  spent :: "(TransactionId \<times> usize \<times> TransactionOutput) list"
  created :: "(TransactionId \<times> usize \<times> TransactionOutput) list"

definition diff_new_empty :: UTXODiff where
  "diff_new_empty = \<lparr>spent = [], created = []\<rparr>"

text \<open>\<open>append\<close> moves the entries out of \<open>other\<close>.\<close>

definition diff_extend :: "UTXODiff \<Rightarrow> UTXODiff \<Rightarrow> UTXODiff \<times> UTXODiff" where
  "diff_extend d other =
     (\<lparr>spent = spent d @ spent other, created = created d @ created other\<rparr>, diff_new_empty)"

type_synonym UTXOs = "(string, TransactionOutput option list) fmap"

definition get_tx_outputs :: "UTXOs \<Rightarrow> TransactionId \<Rightarrow> TransactionOutput option list option" where
  "get_tx_outputs u txid = fmlookup u (hash_dump_base36 txid)"

definition set_tx_outputs :: "TransactionId \<Rightarrow> TransactionOutput option list \<Rightarrow> UTXOs \<Rightarrow> UTXOs" where
  "set_tx_outputs txid outs u = fmupd (hash_dump_base36 txid) outs u"

definition delete_tx :: "TransactionId \<Rightarrow> UTXOs \<Rightarrow> UTXOs" where
  "delete_tx txid u = fmdrop (hash_dump_base36 txid) u"

text \<open>The end of both loops that take outputs away: the row goes with its last output.\<close>

definition store_or_delete :: "TransactionId \<Rightarrow> TransactionOutput option list \<Rightarrow> UTXOs \<Rightarrow> UTXOs" where
  "store_or_delete txid outs u =
     (if list_all (\<lambda>x. x = None) outs then delete_tx txid u else set_tx_outputs txid outs u)"

section \<open>Validation\<close>

definition signature_accepted ::
  "'z crypto_scheme \<Rightarrow> Signature option \<Rightarrow> Public \<Rightarrow> u8 list \<Rightarrow> bool"
where
  "signature_accepted C sig owner buf =
     (case sig of
        None \<Rightarrow> False
      | Some s \<Rightarrow> (case validate_with_public C s owner buf of Ok valid \<Rightarrow> valid | _ \<Rightarrow> False))"

fun validate_inputs ::
  "'z crypto_scheme \<Rightarrow> UTXOs \<Rightarrow> TransactionId \<Rightarrow> u8 list \<Rightarrow> TransactionInput list
     \<Rightarrow> (TransactionId \<times> usize) set \<Rightarrow> u64 \<Rightarrow> (u64, TransactionError) result"
where
  "validate_inputs C u tx_id buf [] used input_sum = Ok input_sum"
| "validate_inputs C u tx_id buf (i # is) used input_sum =
     bind_res (ok_or (get_tx_outputs u (input_tx_id i)) (InputNotFound (hash_dump_base36 tx_id)))
       (\<lambda>prev_outputs.
     bind_res (ok_or (if output_index i < length prev_outputs
                      then Some (prev_outputs ! output_index i) else None)
                 (InvalidInputIndex (hash_dump_base36 tx_id) (hash_dump_base36 (input_tx_id i))))
       (\<lambda>output.
     case output of
       None \<Rightarrow> Err SpentInputIndex
     | Some out \<Rightarrow>
         if \<not> signature_accepted C (signature i) (receiver out) buf
         then Err (InvalidSignature (hash_dump_base36 tx_id))
         else if receiver out \<noteq> output_owner i
         then Err (IncorrectOutputOwner (hash_dump_base36 tx_id))
         else if (input_tx_id i, output_index i) \<in> used
         then Err (DoubleSpendT (hash_dump_base36 tx_id))
         else bind_res (ok_or (checked_add input_sum (amount out)) OverflowError)
           (\<lambda>s. validate_inputs C u tx_id buf is (insert (input_tx_id i, output_index i) used) s)))"

fun validate_outputs ::
  "TransactionId \<Rightarrow> TransactionOutput list \<Rightarrow> u64 \<Rightarrow> (u64, TransactionError) result"
where
  "validate_outputs tx_id [] output_sum = Ok output_sum"
| "validate_outputs tx_id (out # outs) output_sum =
     (if amount out = 0 then Err (ZeroOutput (hash_dump_base36 tx_id))
      else bind_res (ok_or (checked_add output_sum (amount out)) OverflowError)
        (validate_outputs tx_id outs))"

definition validate_transaction ::
  "'z tx_env_scheme \<Rightarrow> UTXOs \<Rightarrow> Transaction \<Rightarrow> nat \<Rightarrow> bool \<Rightarrow> (unit, TransactionError) result"
where
  "validate_transaction E u tx tx_hashing_difficulty is_ibd =
     bind_res (ok_or (transaction_id tx) MissingId) (\<lambda>tx_id.
     bind_res (map_err EncodeErrorT (get_input_signing_buf E tx)) (\<lambda>input_signing_buf.
     bind_res (map_err EncodeErrorT (get_tx_hashing_buf E tx)) (\<lambda>transaction_hashing_buf.
     if \<not> is_ibd \<and> \<not> compare_with_data E tx_id transaction_hashing_buf
     then Err (InvalidHash (hash_dump_base36 tx_id))
     else if tx_hashing_difficulty < biguint_of (hash_buf tx_id)
     then Err (InsufficientDifficulty (hash_dump_base36 tx_id))
     else if inputs tx = [] then Err NoInputs
     else if MAX_TRANSACTION_IO < length (inputs tx) + length (outputs tx) then Err TooMuchIO
     else
       bind_res (tx_check_completeness tx) (\<lambda>_.
       bind_res (validate_inputs E u tx_id input_signing_buf (inputs tx) {} 0) (\<lambda>input_sum.
       bind_res (validate_outputs tx_id (outputs tx) 0) (\<lambda>output_sum.
         if input_sum \<noteq> output_sum then Err (SumMismatch (hash_dump_base36 tx_id))
         else Ok ()))))))"

section \<open>Execution and its undoing\<close>

fun spend_inputs ::
  "TransactionId \<Rightarrow> TransactionInput list \<Rightarrow> (TransactionId \<times> usize \<times> TransactionOutput) list
     \<Rightarrow> UTXOs \<Rightarrow> ((TransactionId \<times> usize \<times> TransactionOutput) list, TransactionError, UTXOs) run"
where
  "spend_inputs tx_id [] acc u = (Ok acc, u)"
| "spend_inputs tx_id (i # is) acc u =
     (case get_tx_outputs u (input_tx_id i) of
        None \<Rightarrow> (Err (InputNotFound (hash_dump_base36 tx_id)), u)
      | Some prev_outputs \<Rightarrow>
          if length prev_outputs \<le> output_index i then (Panic, u)
          else case prev_outputs ! output_index i of
            None \<Rightarrow> (Panic, u)
          | Some out \<Rightarrow>
              spend_inputs tx_id is (acc @ [(input_tx_id i, output_index i, out)])
                (store_or_delete (input_tx_id i) (prev_outputs[output_index i := None]) u))"

definition execute_transaction :: "Transaction \<Rightarrow> UTXOs \<Rightarrow> (UTXODiff, TransactionError, UTXOs) run"
where
  "execute_transaction tx u =
     (case transaction_id tx of
        None \<Rightarrow> (Panic, u)
      | Some tx_id \<Rightarrow>
          bind_run (spend_inputs tx_id (inputs tx) [] u) (\<lambda>spent_utxos u1.
            let u2 = set_tx_outputs tx_id (map Some (outputs tx)) u1;
                created_utxos = map (\<lambda>(index, out). (tx_id, index, out)) (enumerate_list (outputs tx))
            in (Ok \<lparr>spent = spent_utxos, created = created_utxos\<rparr>, u2)))"

fun restore_spent :: "(TransactionId \<times> usize \<times> TransactionOutput) list \<Rightarrow> UTXOs \<Rightarrow> UTXOs" where
  "restore_spent [] u = u"
| "restore_spent ((txid, idx, out) # rest) u =
     (let outs = (case get_tx_outputs u txid of None \<Rightarrow> replicate (idx + 1) None | Some xs \<Rightarrow> xs);
          outs = (if length outs \<le> idx then outs @ replicate (idx + 1 - length outs) None else outs)
      in restore_spent rest (set_tx_outputs txid (outs[idx := Some out]) u))"

fun remove_created ::
  "(TransactionId \<times> usize \<times> TransactionOutput) list \<Rightarrow> UTXOs \<Rightarrow> (unit, TransactionError, UTXOs) run"
where
  "remove_created [] u = (Ok (), u)"
| "remove_created ((txid, idx, _) # rest) u =
     (case get_tx_outputs u txid of
        None \<Rightarrow> (Err (OtherT ''Missing created UTXO''), u)
      | Some outs \<Rightarrow>
          if length outs \<le> idx then (Panic, u)
          else remove_created rest (store_or_delete txid (outs[idx := None]) u))"

definition recall_block_utxos :: "UTXODiff \<Rightarrow> UTXOs \<Rightarrow> (unit, TransactionError, UTXOs) run" where
  "recall_block_utxos d u = remove_created (created d) (restore_spent (spent d) u)"

section \<open>Queries\<close>

definition owned_amounts :: "Public \<Rightarrow> TransactionOutput option list \<Rightarrow> u64 list" where
  "owned_amounts address outs =
     map amount (filter (\<lambda>out. receiver out = address) (map the (filter (\<lambda>x. x \<noteq> None) outs)))"

text \<open>\<open>sum\<close> of \<open>u64\<close> values: a plain addition, and so a panic or a wrap-around if it overflows.\<close>

definition sum_u64 :: "bool \<Rightarrow> u64 list \<Rightarrow> (u64, 'e) result" where
  "sum_u64 chk xs = for_each (\<lambda>x acc. add_u chk acc x) xs 0"

definition calculate_confirmed_balance :: "bool \<Rightarrow> UTXOs \<Rightarrow> Public \<Rightarrow> (u64, 'e) result" where
  "calculate_confirmed_balance chk u address =
     sum_u64 chk (concat (map (\<lambda>(k, outs). owned_amounts address outs) (sorted_list_of_fmap u)))"

definition get_utxos :: "UTXOs \<Rightarrow> Public \<Rightarrow> TransactionId list" where
  "get_utxos u address =
     List.map_filter (\<lambda>(k, outs).
       case hash_new_from_base36 k of
         None \<Rightarrow> None
       | Some txid \<Rightarrow>
           if list_ex (\<lambda>x. case x of None \<Rightarrow> False | Some out \<Rightarrow> receiver out = address) outs
           then Some txid else None)
       (sorted_list_of_fmap u)"

definition get_all_utxos :: "UTXOs \<Rightarrow> (TransactionId \<times> TransactionOutput \<times> usize) list" where
  "get_all_utxos u =
     concat (map (\<lambda>(k, outs).
       case hash_new_from_base36 k of
         None \<Rightarrow> []
       | Some txid \<Rightarrow>
           List.map_filter (\<lambda>(index, x). map_option (\<lambda>out. (txid, out, index)) x) (enumerate_list outs))
       (sorted_list_of_fmap u))"

end
