(* ===== verification/Utxo_Ledger.thy ===== *)
theory Utxo_Ledger
  imports Utxo_Set
begin

text \<open>
  What \<open>core/utxo.rs\<close> promises: the store is a ledger, a partial map from (transaction, index) to
  outputs.  Validation accepts exactly the well-formed transfers over that ledger; execution spends
  and creates as the ledger does and keeps the sums; undoing restores it; the queries read it.
\<close>

section \<open>The abstract ledger\<close>

type_synonym outpoint = "TransactionId \<times> usize"
type_synonym ledger = "outpoint \<rightharpoonup> TransactionOutput"

definition row_at :: "TransactionOutput option list \<Rightarrow> nat \<rightharpoonup> TransactionOutput" where
  "row_at outs i = (if i < length outs then outs ! i else None)"

definition ledger_of :: "UTXOs \<Rightarrow> ledger" where
  "ledger_of u = (\<lambda>(t, i). case get_tx_outputs u t of None \<Rightarrow> None | Some outs \<Rightarrow> row_at outs i)"

definition unused :: "ledger \<Rightarrow> TransactionId \<Rightarrow> bool" where
  "unused L t \<longleftrightarrow> (\<forall>i. L (t, i) = None)"

lemma get_set [simp]:
  "get_tx_outputs (set_tx_outputs t outs u) t' = (if t' = t then Some outs else get_tx_outputs u t')"
  by (simp add: get_tx_outputs_def set_tx_outputs_def)

lemma get_delete [simp]:
  "get_tx_outputs (delete_tx t u) t' = (if t' = t then None else get_tx_outputs u t')"
  by (simp add: get_tx_outputs_def delete_tx_def)

lemma ledger_of_set:
  "ledger_of (set_tx_outputs t outs u) = (\<lambda>(t', i). if t' = t then row_at outs i else ledger_of u (t', i))"
  by (auto simp: ledger_of_def)

lemma ledger_of_Some:
  "ledger_of u (t, i) = Some out \<longleftrightarrow>
     (\<exists>outs. get_tx_outputs u t = Some outs \<and> i < length outs \<and> outs ! i = Some out)"
  by (auto simp: ledger_of_def row_at_def split: option.splits if_splits)

lemma row_at_all_None: "list_all (\<lambda>x. x = None) outs \<Longrightarrow> row_at outs i = None"
  by (auto simp: row_at_def list_all_length)

lemma row_at_update:
  "row_at (outs[i := x]) j = (if j = i \<and> i < length outs then x else row_at outs j)"
  by (auto simp: row_at_def nth_list_update)

text \<open>Taking an output away from its row takes it away from the ledger.\<close>

lemma ledger_of_store_or_delete:
  assumes "get_tx_outputs u t = Some outs" and "i < length outs"
  shows "ledger_of (store_or_delete t (outs[i := None]) u) = (ledger_of u)((t, i) := None)"
proof -
  have *: "ledger_of u (t, j) = row_at outs j" for j using assms(1) by (simp add: ledger_of_def)
  have "row_at (outs[i := None]) j = ((ledger_of u)((t, i) := None)) (t, j)" for j
    using assms(2) by (simp add: row_at_update *)
  moreover have "ledger_of (store_or_delete t (outs[i := None]) u) (t, j) = row_at (outs[i := None]) j"
    for j
    by (simp add: store_or_delete_def ledger_of_def row_at_all_None)
  moreover have "ledger_of (store_or_delete t (outs[i := None]) u) (t', j) = ledger_of u (t', j)"
    if "t' \<noteq> t" for t' j
    using that by (simp add: store_or_delete_def ledger_of_def)
  ultimately show ?thesis by (intro ext) (auto, metis fun_upd_other prod.inject)
qed

lemma unused_row:
  assumes "unused (ledger_of u) t" and "get_tx_outputs u t = Some outs"
  shows "list_all (\<lambda>x. x = None) outs"
  using assms by (auto simp: unused_def ledger_of_def row_at_def list_all_length split: if_splits)

section \<open>Sums\<close>

definition value_for :: "(Public \<Rightarrow> bool) \<Rightarrow> TransactionOutput \<Rightarrow> nat" where
  "value_for P out = (if P (receiver out) then unat (amount out) else 0)"

definition row_sum :: "(Public \<Rightarrow> bool) \<Rightarrow> TransactionOutput option list \<Rightarrow> nat" where
  "row_sum P outs = (\<Sum>x \<leftarrow> outs. case x of None \<Rightarrow> 0 | Some out \<Rightarrow> value_for P out)"

text \<open>The unspent amount whose receivers \<open>P\<close> accepts: a balance, or everything there is.\<close>

definition utxo_sum :: "(Public \<Rightarrow> bool) \<Rightarrow> UTXOs \<Rightarrow> nat" where
  "utxo_sum P u = fmap_sum (\<lambda>_. row_sum P) u"

definition total_supply :: "UTXOs \<Rightarrow> nat" where
  "total_supply u = utxo_sum (\<lambda>_. True) u"

lemma row_sum_all_None: "list_all (\<lambda>x. x = None) outs \<Longrightarrow> row_sum P outs = 0"
  by (auto simp: row_sum_def list_all_iff)

lemma row_sum_take:
  assumes "i < length outs" and "outs ! i = Some out"
  shows "row_sum P (outs[i := None]) + value_for P out = row_sum P outs"
  using sum_list_update_nat [of i "map (\<lambda>x. case x of None \<Rightarrow> 0 | Some out \<Rightarrow> value_for P out) outs" 0] assms
  by (simp add: row_sum_def map_update)

lemma row_sum_map_Some [simp]: "row_sum P (map Some outs) = (\<Sum>out \<leftarrow> outs. value_for P out)"
  by (simp add: row_sum_def comp_def)

lemma utxo_sum_take:
  assumes "get_tx_outputs u t = Some outs" and "i < length outs" and "outs ! i = Some out"
  shows "utxo_sum P (store_or_delete t (outs[i := None]) u) + value_for P out = utxo_sum P u"
proof -
  have "utxo_sum P u = row_sum P outs + fmap_sum (\<lambda>_. row_sum P) (fmdrop (hash_dump_base36 t) u)"
    using assms(1) by (simp add: utxo_sum_def get_tx_outputs_def fmap_sum_remove)
  moreover have "utxo_sum P (store_or_delete t (outs[i := None]) u) =
      row_sum P (outs[i := None]) + fmap_sum (\<lambda>_. row_sum P) (fmdrop (hash_dump_base36 t) u)"
    by (simp add: utxo_sum_def store_or_delete_def delete_tx_def set_tx_outputs_def fmap_sum_upd
        row_sum_all_None)
  ultimately show ?thesis using row_sum_take [OF assms(2,3), of P] by simp
qed

lemma utxo_sum_new_row:
  assumes "unused (ledger_of u) t"
  shows "utxo_sum P (set_tx_outputs t outs u) = row_sum P outs + utxo_sum P u"
proof (cases "get_tx_outputs u t")
  case None
  then show ?thesis by (simp add: utxo_sum_def set_tx_outputs_def fmap_sum_upd get_tx_outputs_def)
next
  case (Some old)
  then have "row_sum P old = 0" using unused_row [OF assms] by (simp add: row_sum_all_None)
  with Some show ?thesis
    by (simp add: utxo_sum_def set_tx_outputs_def fmap_sum_upd get_tx_outputs_def fmap_sum_remove)
qed

section \<open>What validation accepts\<close>

definition input_key :: "TransactionInput \<Rightarrow> outpoint" where
  "input_key i = (input_tx_id i, output_index i)"

text \<open>An input that may spend: its output is there, is its owner's, and the owner signed.\<close>

definition input_ok :: "'z crypto_scheme \<Rightarrow> ledger \<Rightarrow> u8 list \<Rightarrow> TransactionInput \<Rightarrow> bool" where
  "input_ok C L buf i \<longleftrightarrow>
     (\<exists>out. L (input_key i) = Some out \<and> receiver out = output_owner i
       \<and> signature_accepted C (signature i) (output_owner i) buf)"

definition input_amount :: "ledger \<Rightarrow> TransactionInput \<Rightarrow> nat" where
  "input_amount L i = (case L (input_key i) of None \<Rightarrow> 0 | Some out \<Rightarrow> unat (amount out))"

lemma validate_inputs_Ok_iff:
  "validate_inputs C u tx_id buf is used s = Ok s' \<longleftrightarrow>
     (\<forall>i \<in> set is. input_ok C (ledger_of u) buf i) \<and> distinct (map input_key is)
     \<and> input_key ` set is \<inter> used = {}
     \<and> unat s' = unat s + (\<Sum>i \<leftarrow> is. input_amount (ledger_of u) i)"
proof (induction "is" arbitrary: used s)
  case Nil
  then show ?case by (auto simp: word_unat_eq_iff)
next
  case (Cons i js)
  show ?case
  proof (cases "ledger_of u (input_key i)")
    case None
    then have "validate_inputs C u tx_id buf (i # js) used s \<noteq> Ok s'"
      by (auto simp: res_simps ledger_of_def row_at_def input_key_def split: option.splits if_splits)
    with None show ?thesis by (simp add: input_ok_def)
  next
    case (Some out)
    then obtain outs where "get_tx_outputs u (input_tx_id i) = Some outs"
      "output_index i < length outs" "outs ! output_index i = Some out"
      by (auto simp: input_key_def ledger_of_Some)
    moreover have amt: "input_amount (ledger_of u) i = unat (amount out)"
      using Some by (simp add: input_amount_def)
    ultimately have "validate_inputs C u tx_id buf (i # js) used s = Ok s' \<longleftrightarrow>
        signature_accepted C (signature i) (receiver out) buf \<and> receiver out = output_owner i
        \<and> input_key i \<notin> used \<and> (\<exists>s1. checked_add s (amount out) = Some s1
        \<and> validate_inputs C u tx_id buf js (insert (input_key i) used) s1 = Ok s')"
      by (auto simp: res_simps input_key_def)
    also have "\<dots> \<longleftrightarrow> input_ok C (ledger_of u) buf i \<and> input_key i \<notin> used
        \<and> (\<forall>i \<in> set js. input_ok C (ledger_of u) buf i) \<and> distinct (map input_key js)
        \<and> input_key ` set js \<inter> insert (input_key i) used = {}
        \<and> (\<exists>s1. checked_add s (amount out) = Some s1
          \<and> unat s' = unat s1 + (\<Sum>i \<leftarrow> js. input_amount (ledger_of u) i))"
      unfolding Cons.IH using Some by (auto simp: input_ok_def)
    also have "\<dots> \<longleftrightarrow> (\<forall>i \<in> set (i # js). input_ok C (ledger_of u) buf i)
        \<and> distinct (map input_key (i # js)) \<and> input_key ` set (i # js) \<inter> used = {}
        \<and> unat s' = unat s + (\<Sum>i \<leftarrow> i # js. input_amount (ledger_of u) i)"
      unfolding checked_add_chain using amt by auto
    finally show ?thesis .
  qed
qed

lemma validate_outputs_Ok_iff:
  "validate_outputs tx_id outs s = Ok s' \<longleftrightarrow>
     (\<forall>out \<in> set outs. amount out \<noteq> 0) \<and> unat s' = unat s + (\<Sum>out \<leftarrow> outs. unat (amount out))"
proof (induction outs arbitrary: s)
  case Nil
  then show ?case by (auto simp: word_unat_eq_iff)
next
  case (Cons out outs)
  show ?case
    using checked_add_chain [of s "amount out" s'] by (auto simp: res_simps Cons.IH)
qed

lemma validate_inputs_not_Panic [simp]: "validate_inputs C u tx_id buf is used s \<noteq> Panic"
  by (induction "is" arbitrary: used s) (auto simp: res_simps split: option.splits if_splits)

lemma validate_outputs_not_Panic [simp]: "validate_outputs tx_id outs s \<noteq> Panic"
  by (induction outs arbitrary: s) (auto simp: res_simps)

lemma validate_transaction_not_Panic [simp]: "validate_transaction E u tx diff is_ibd \<noteq> Panic"
  by (auto simp: validate_transaction_def res_simps split: if_splits)

text \<open>A transfer over a ledger: everything that a valid transaction has to satisfy.\<close>

definition valid_transfer ::
  "'z tx_env_scheme \<Rightarrow> ledger \<Rightarrow> nat \<Rightarrow> bool \<Rightarrow> Transaction \<Rightarrow> bool"
where
  "valid_transfer E L difficulty is_ibd tx \<longleftrightarrow>
     (\<exists>tx_id buf hbuf. transaction_id tx = Some tx_id
       \<and> get_input_signing_buf E tx = Ok buf \<and> get_tx_hashing_buf E tx = Ok hbuf
       \<and> (is_ibd \<or> tx_id = hash_new E hbuf) \<and> unat (hash_buf tx_id) \<le> difficulty
       \<and> inputs tx \<noteq> [] \<and> length (inputs tx) + length (outputs tx) \<le> MAX_TRANSACTION_IO
       \<and> (\<forall>i \<in> set (inputs tx). input_ok E L buf i) \<and> distinct (map input_key (inputs tx))
       \<and> (\<forall>out \<in> set (outputs tx). amount out \<noteq> 0)
       \<and> (\<Sum>i \<leftarrow> inputs tx. input_amount L i) = (\<Sum>out \<leftarrow> outputs tx. unat (amount out))
       \<and> (\<Sum>out \<leftarrow> outputs tx. unat (amount out)) < 2 ^ 64)"

lemma input_ok_signed: "input_ok C L buf i \<Longrightarrow> signature i \<noteq> None"
  by (auto simp: input_ok_def signature_accepted_def split: option.splits)

lemma both_sums_iff:
  "(\<exists>s. unat (s :: u64) = a \<and> (\<exists>t. unat t = b \<and> s = t)) \<longleftrightarrow> a = b \<and> b < 2 ^ 64"
proof
  assume "a = b \<and> b < 2 ^ 64"
  then have "unat (word_of_nat b :: u64) = b" by (simp add: unat_of_nat take_bit_eq_mod)
  with \<open>a = b \<and> b < 2 ^ 64\<close> show "\<exists>s. unat (s :: u64) = a \<and> (\<exists>t. unat t = b \<and> s = t)" by blast
qed (use unat_lt [where ?'a = 64] in auto)

lemma validate_transaction_Ok_iff:
  "validate_transaction E u tx difficulty is_ibd = Ok v \<longleftrightarrow>
     valid_transfer E (ledger_of u) difficulty is_ibd tx"
proof -
  have hash: "compare_with_data E h b \<longleftrightarrow> h = hash_new E b" for h b
    by (cases h) (auto simp: compare_with_data_def hash_new_def)
  have "validate_transaction E u tx difficulty is_ibd = Ok v \<longleftrightarrow>
    (\<exists>tx_id buf hbuf. transaction_id tx = Some tx_id
       \<and> get_input_signing_buf E tx = Ok buf \<and> get_tx_hashing_buf E tx = Ok hbuf
       \<and> (is_ibd \<or> tx_id = hash_new E hbuf) \<and> unat (hash_buf tx_id) \<le> difficulty
       \<and> inputs tx \<noteq> [] \<and> length (inputs tx) + length (outputs tx) \<le> MAX_TRANSACTION_IO
       \<and> (\<forall>i \<in> set (inputs tx). signature i \<noteq> None)
       \<and> (\<exists>s. validate_inputs E u tx_id buf (inputs tx) {} 0 = Ok s
           \<and> (\<exists>t. validate_outputs tx_id (outputs tx) 0 = Ok t \<and> s = t)))"
    by (cases "transaction_id tx"; cases "get_input_signing_buf E tx";
        cases "get_tx_hashing_buf E tx")
      (auto simp: validate_transaction_def res_simps tx_check_completeness_Ok_iff hash not_less)
  also have "\<dots> \<longleftrightarrow> valid_transfer E (ledger_of u) difficulty is_ibd tx"
    unfolding valid_transfer_def validate_inputs_Ok_iff validate_outputs_Ok_iff
    using both_sums_iff [of "\<Sum>i \<leftarrow> inputs tx. input_amount (ledger_of u) i"
        "\<Sum>out \<leftarrow> outputs tx. unat (amount out)"] input_ok_signed
    by (simp, blast)
  finally show ?thesis .
qed

section \<open>Execution\<close>

definition spend_all :: "outpoint list \<Rightarrow> ledger \<Rightarrow> ledger" where
  "spend_all ks L = (\<lambda>k. if k \<in> set ks then None else L k)"

definition create_row :: "TransactionId \<Rightarrow> TransactionOutput list \<Rightarrow> ledger \<Rightarrow> ledger" where
  "create_row t outs L = (\<lambda>(t', i). if t' = t then row_at (map Some outs) i else L (t', i))"

text \<open>What a transaction does to the ledger.\<close>

definition ledger_step :: "Transaction \<Rightarrow> ledger \<Rightarrow> ledger" where
  "ledger_step tx L =
     create_row (the (transaction_id tx)) (outputs tx) (spend_all (map input_key (inputs tx)) L)"

definition spent_entries :: "ledger \<Rightarrow> TransactionInput list \<Rightarrow> (TransactionId \<times> usize \<times> TransactionOutput) list"
where
  "spent_entries L is = map (\<lambda>i. (input_tx_id i, output_index i, the (L (input_key i)))) is"

definition created_entries :: "Transaction \<Rightarrow> (TransactionId \<times> usize \<times> TransactionOutput) list" where
  "created_entries tx =
     map (\<lambda>(index, out). (the (transaction_id tx), index, out)) (enumerate_list (outputs tx))"

lemma spend_inputs_ledger:
  assumes "distinct (map input_key is)" and "\<And>i. i \<in> set is \<Longrightarrow> ledger_of u (input_key i) \<noteq> None"
  shows "\<exists>u'. spend_inputs tx_id is acc u = (Ok (acc @ spent_entries (ledger_of u) is), u')
    \<and> ledger_of u' = spend_all (map input_key is) (ledger_of u)
    \<and> utxo_sum P u' + (\<Sum>i \<leftarrow> is. value_for P (the (ledger_of u (input_key i)))) = utxo_sum P u"
  using assms
proof (induction "is" arbitrary: u acc)
  case Nil
  then show ?case by (simp add: spent_entries_def spend_all_def)
next
  case (Cons i js)
  obtain out where out: "ledger_of u (input_key i) = Some out" using Cons.prems(2) by force
  then obtain outs where outs: "get_tx_outputs u (input_tx_id i) = Some outs"
    "output_index i < length outs" "outs ! output_index i = Some out"
    by (auto simp: input_key_def ledger_of_Some)
  define u1 where "u1 = store_or_delete (input_tx_id i) (outs[output_index i := None]) u"
  have L1: "ledger_of u1 = (ledger_of u)(input_key i := None)"
    unfolding u1_def input_key_def using outs(1,2) by (rule ledger_of_store_or_delete)
  have same: "ledger_of u1 (input_key j) = ledger_of u (input_key j)" if "j \<in> set js" for j
    using Cons.prems(1) that by (simp add: L1 image_iff) metis
  then have ne: "ledger_of u1 (input_key j) \<noteq> None" if "j \<in> set js" for j
    using Cons.prems(2) that by simp
  have "distinct (map input_key js)" using Cons.prems(1) by simp
  from Cons.IH [OF this, of u1 "acc @ [(input_tx_id i, output_index i, out)]"] ne
  obtain u' where u': "spend_inputs tx_id js (acc @ [(input_tx_id i, output_index i, out)]) u1 =
      (Ok ((acc @ [(input_tx_id i, output_index i, out)]) @ spent_entries (ledger_of u1) js), u')"
    "ledger_of u' = spend_all (map input_key js) (ledger_of u1)"
    "utxo_sum P u' + (\<Sum>i \<leftarrow> js. value_for P (the (ledger_of u1 (input_key i)))) = utxo_sum P u1" by auto
  have "spend_inputs tx_id (i # js) acc u =
      (Ok (acc @ spent_entries (ledger_of u) (i # js)), u')"
    using outs u'(1) out same by (simp add: u1_def spent_entries_def cong: map_cong)
  moreover have "ledger_of u' = spend_all (map input_key (i # js)) (ledger_of u)"
    by (auto simp: u'(2) L1 spend_all_def)
  moreover have "(\<Sum>i \<leftarrow> js. value_for P (the (ledger_of u1 (input_key i)))) =
      (\<Sum>i \<leftarrow> js. value_for P (the (ledger_of u (input_key i))))"
    using same by (simp cong: map_cong)
  then have "utxo_sum P u' + (\<Sum>i \<leftarrow> i # js. value_for P (the (ledger_of u (input_key i)))) = utxo_sum P u"
    using u'(3) utxo_sum_take [OF outs, of P] by (simp add: u1_def out)
  ultimately show ?case by blast
qed

text \<open>
  A transaction with an id whose inputs are unspent and different executes, and does what the
  ledger does; the sums move by what it spends and creates when its id is new.
\<close>

definition executable_on :: "Transaction \<Rightarrow> ledger \<Rightarrow> bool" where
  "executable_on tx L \<longleftrightarrow> transaction_id tx \<noteq> None \<and> distinct (map input_key (inputs tx))
     \<and> (\<forall>i \<in> set (inputs tx). L (input_key i) \<noteq> None)"

lemma execute_transaction_ledger:
  assumes "executable_on tx (ledger_of u)"
  shows "\<exists>u'. execute_transaction tx u =
      (Ok \<lparr>spent = spent_entries (ledger_of u) (inputs tx), created = created_entries tx\<rparr>, u')
    \<and> ledger_of u' = ledger_step tx (ledger_of u)
    \<and> (unused (ledger_of u) (the (transaction_id tx)) \<longrightarrow>
        utxo_sum P u' + (\<Sum>i \<leftarrow> inputs tx. value_for P (the (ledger_of u (input_key i)))) =
        utxo_sum P u + (\<Sum>out \<leftarrow> outputs tx. value_for P out))"
proof -
  obtain tx_id where id: "transaction_id tx = Some tx_id"
    using assms by (auto simp: executable_on_def)
  have "distinct (map input_key (inputs tx))"
    "\<And>i. i \<in> set (inputs tx) \<Longrightarrow> ledger_of u (input_key i) \<noteq> None"
    using assms by (auto simp: executable_on_def)
  from spend_inputs_ledger [OF this, where tx_id = tx_id and acc = "[]" and P = P]
  obtain u1 where u1: "spend_inputs tx_id (inputs tx) [] u = (Ok (spent_entries (ledger_of u) (inputs tx)), u1)"
    "ledger_of u1 = spend_all (map input_key (inputs tx)) (ledger_of u)"
    "utxo_sum P u1 + (\<Sum>i \<leftarrow> inputs tx. value_for P (the (ledger_of u (input_key i)))) = utxo_sum P u" by auto
  let ?u2 = "set_tx_outputs tx_id (map Some (outputs tx)) u1"
  have "execute_transaction tx u =
      (Ok \<lparr>spent = spent_entries (ledger_of u) (inputs tx), created = created_entries tx\<rparr>, ?u2)"
    by (simp add: execute_transaction_def id u1(1) Let_def created_entries_def)
  moreover have "ledger_of ?u2 = ledger_step tx (ledger_of u)"
    by (intro ext) (simp add: ledger_of_set u1(2) ledger_step_def create_row_def id split: prod.split)
  moreover have "utxo_sum P ?u2 + (\<Sum>i \<leftarrow> inputs tx. value_for P (the (ledger_of u (input_key i)))) =
        utxo_sum P u + (\<Sum>out \<leftarrow> outputs tx. value_for P out)" if "unused (ledger_of u) (the (transaction_id tx))"
  proof -
    have "unused (ledger_of u1) tx_id" using that by (simp add: id unused_def u1(2) spend_all_def)
    from utxo_sum_new_row [OF this] u1(3) show ?thesis by simp
  qed
  ultimately show ?thesis by blast
qed

lemma valid_transfer_executable: "valid_transfer E L d ibd tx \<Longrightarrow> executable_on tx L"
  by (auto simp: valid_transfer_def executable_on_def input_ok_def)

section \<open>Undoing\<close>

type_synonym entry = "TransactionId \<times> usize \<times> TransactionOutput"

definition entry_key :: "entry \<Rightarrow> outpoint" where
  "entry_key = (\<lambda>(t, i, out). (t, i))"

definition restore_all :: "entry list \<Rightarrow> ledger \<Rightarrow> ledger" where
  "restore_all es L = fold (\<lambda>(t, i, out) L. L((t, i) \<mapsto> out)) es L"

lemma ledger_of_restore_spent: "ledger_of (restore_spent es u) = restore_all es (ledger_of u)"
proof (induction es u rule: restore_spent.induct)
  case (2 t i out es u)
  define outs where "outs = (case get_tx_outputs u t of None \<Rightarrow> replicate (i + 1) None | Some xs \<Rightarrow> xs)"
  define outs' where
    "outs' = (if length outs \<le> i then outs @ replicate (i + 1 - length outs) None else outs)"
  have "row_at outs j = ledger_of u (t, j)" for j
    by (auto simp: outs_def ledger_of_def row_at_def simp del: replicate_Suc split: option.split)
  moreover have "row_at outs' j = row_at outs j" for j
    by (auto simp: outs'_def row_at_def nth_append)
  moreover have "i < length outs'" by (simp add: outs'_def)
  ultimately have "ledger_of (set_tx_outputs t (outs'[i := Some out]) u) = (ledger_of u)((t, i) \<mapsto> out)"
    by (intro ext) (simp add: ledger_of_set row_at_update split: prod.split)
  with 2 [OF outs_def outs'_def] show ?case
    by (simp add: Let_def restore_all_def fun_upd_def flip: outs_def outs'_def)
qed (simp add: restore_all_def)

lemma remove_created_ledger:
  assumes "distinct (map entry_key es)" and "\<And>e. e \<in> set es \<Longrightarrow> ledger_of u (entry_key e) \<noteq> None"
  shows "\<exists>u'. remove_created es u = (Ok (), u') \<and> ledger_of u' = spend_all (map entry_key es) (ledger_of u)"
  using assms
proof (induction es arbitrary: u)
  case Nil
  then show ?case by (simp add: spend_all_def)
next
  case (Cons e es)
  obtain t i out where e: "e = (t, i, out)" by (cases e)
  obtain x where "ledger_of u (t, i) = Some x" using Cons.prems(2) [of e] by (auto simp: e entry_key_def)
  then obtain outs where outs: "get_tx_outputs u t = Some outs" "i < length outs"
    by (auto simp: ledger_of_Some)
  define u1 where "u1 = store_or_delete t (outs[i := None]) u"
  have L1: "ledger_of u1 = (ledger_of u)((t, i) := None)"
    unfolding u1_def using outs by (rule ledger_of_store_or_delete)
  have "ledger_of u1 (entry_key f) \<noteq> None" if "f \<in> set es" for f
  proof -
    have "entry_key f \<noteq> (t, i)" using Cons.prems(1) that by (force simp: e entry_key_def)
    with Cons.prems(2) [of f] that show ?thesis by (simp add: L1)
  qed
  moreover have "distinct (map entry_key es)" using Cons.prems(1) by simp
  ultimately obtain u' where u': "remove_created es u1 = (Ok (), u')"
    "ledger_of u' = spend_all (map entry_key es) (ledger_of u1)" using Cons.IH [of u1] by blast
  have "remove_created (e # es) u = (Ok (), u')" using outs u'(1) by (simp add: e u1_def)
  moreover have "ledger_of u' = spend_all (map entry_key (e # es)) (ledger_of u)"
    unfolding u'(2) L1 by (intro ext) (simp add: spend_all_def e entry_key_def)
  ultimately show ?case by blast
qed

lemma restore_all_other: "k \<notin> set (map entry_key es) \<Longrightarrow> restore_all es L k = L k"
  by (induction es arbitrary: L) (auto simp: restore_all_def entry_key_def split: prod.splits)

lemma restore_all_entry:
  assumes "k \<in> set (map entry_key es)" and "\<And>t i out. (t, i, out) \<in> set es \<Longrightarrow> M (t, i) = Some out"
  shows "restore_all es L k = M k"
  using assms
proof (induction es arbitrary: L)
  case (Cons e es)
  obtain t i out where e: "e = (t, i, out)" by (cases e)
  show ?case
  proof (cases "k \<in> set (map entry_key es)")
    case True
    from Cons.IH [OF this Cons.prems(2)] show ?thesis by (simp add: e restore_all_def)
  next
    case False
    then have "k = (t, i)" using Cons.prems(1) by (auto simp: e entry_key_def)
    moreover have "restore_all (e # es) L k = (L((t, i) \<mapsto> out)) k"
      using restore_all_other [OF False] by (simp add: e restore_all_def)
    ultimately show ?thesis using Cons.prems(2) [of t i out] by (simp add: e)
  qed
qed simp

end
