(* ===== verification/Block_Ledger.thy ===== *)
theory Block_Ledger
  imports Utxo_Ledger
begin

text \<open>
  The part of \<open>add_block\<close> (\<open>core/blockchain.rs\<close>) and \<open>recall_block_utxos\<close> (\<open>core/utxo.rs\<close>) that runs
  over the transactions of a block: executing them one after the other is one step of the ledger,
  and the recorded differences take it back.
\<close>

section \<open>The transactions of a block\<close>

fun execute_all :: "Transaction list \<Rightarrow> UTXODiff \<Rightarrow> UTXOs \<Rightarrow> (UTXODiff, TransactionError, UTXOs) run" where
  "execute_all [] d u = (Ok d, u)"
| "execute_all (tx # txs) d u =
     bind_run (execute_transaction tx u) (\<lambda>d1 u1. execute_all txs (fst (diff_extend d d1)) u1)"

text \<open>
  New, different ids, and inputs that are different and unspent when the block begins: what
  \<open>add_block\<close> checks, apart from the novelty of the ids, which rests on the hash.
\<close>

definition all_inputs :: "Transaction list \<Rightarrow> TransactionInput list" where
  "all_inputs txs = concat (map inputs txs)"

definition runnable :: "Transaction list \<Rightarrow> ledger \<Rightarrow> bool" where
  "runnable txs L \<longleftrightarrow>
     (\<forall>tx \<in> set txs. \<exists>t. transaction_id tx = Some t \<and> unused L t)
     \<and> distinct (map transaction_id txs)
     \<and> distinct (map input_key (all_inputs txs))
     \<and> (\<forall>i \<in> set (all_inputs txs). L (input_key i) \<noteq> None)"

definition ledger_block :: "Transaction list \<Rightarrow> ledger \<Rightarrow> ledger" where
  "ledger_block txs L = fold ledger_step txs L"

lemma runnable_key: "runnable txs L \<Longrightarrow> i \<in> set (all_inputs txs) \<Longrightarrow> L (input_key i) \<noteq> None"
  by (simp add: runnable_def)

lemma runnable_new:
  assumes "runnable txs L" and "tx \<in> set txs" and "transaction_id tx = Some t"
  shows "L (t, i) = None" and "(t, i) \<notin> input_key ` set (all_inputs txs)"
proof -
  show none: "L (t, i) = None" for i using assms by (auto simp: runnable_def unused_def)
  show "(t, i) \<notin> input_key ` set (all_inputs txs)"
  proof
    assume "(t, i) \<in> input_key ` set (all_inputs txs)"
    then obtain j where "j \<in> set (all_inputs txs)" "input_key j = (t, i)" by force
    with runnable_key [OF assms(1), of j] none [of i] show False by simp
  qed
qed

lemma runnable_Cons:
  assumes "runnable (tx # txs) L"
  shows "executable_on tx L" and "unused L (the (transaction_id tx))"
    and "runnable txs (ledger_step tx L)"
    and "\<And>i. i \<in> set (all_inputs txs) \<Longrightarrow> ledger_step tx L (input_key i) = L (input_key i)"
proof -
  obtain t where t: "transaction_id tx = Some t" "unused L t" using assms by (auto simp: runnable_def)
  show "executable_on tx L" "unused L (the (transaction_id tx))"
    using assms t by (auto simp: runnable_def executable_on_def all_inputs_def)
  show same: "ledger_step tx L (input_key i) = L (input_key i)" if "i \<in> set (all_inputs txs)" for i
  proof -
    have "input_key ` set (inputs tx) \<inter> input_key ` set (all_inputs txs) = {}"
      "L (input_key i) \<noteq> None"
      using assms that by (simp_all add: runnable_def all_inputs_def)
    then have "input_key i \<notin> input_key ` set (inputs tx)" "L (input_key i) \<noteq> None"
      using that by blast+
    moreover have "fst (input_key i) \<noteq> t"
      using calculation(2) t(2) by (cases "input_key i") (auto simp: unused_def)
    ultimately show ?thesis
      by (cases "input_key i") (auto simp: ledger_step_def create_row_def spend_all_def t(1))
  qed
  have "\<exists>t'. transaction_id x = Some t' \<and> unused (ledger_step tx L) t'" if x: "x \<in> set txs" for x
  proof -
    obtain t' where t': "transaction_id x = Some t'" "unused L t'"
      using assms x by (auto simp: runnable_def)
    moreover have "t' \<noteq> t" using assms x t(1) t'(1) by (force simp: runnable_def image_iff)
    ultimately show ?thesis by (simp add: unused_def ledger_step_def create_row_def spend_all_def t(1))
  qed
  moreover have "distinct (map transaction_id txs)" "distinct (map input_key (all_inputs txs))"
    using assms by (simp_all add: runnable_def all_inputs_def)
  moreover have "L (input_key i) \<noteq> None" if "i \<in> set (all_inputs txs)" for i
    using runnable_key [OF assms] that by (simp add: all_inputs_def)
  ultimately show "runnable txs (ledger_step tx L)" by (simp add: runnable_def same)
qed

lemma execute_all_ledger:
  assumes "runnable txs (ledger_of u)"
  shows "\<exists>u'. execute_all txs d u =
      (Ok \<lparr>spent = spent d @ spent_entries (ledger_of u) (all_inputs txs),
           created = created d @ concat (map created_entries txs)\<rparr>, u')
    \<and> ledger_of u' = ledger_block txs (ledger_of u)
    \<and> utxo_sum P u' + (\<Sum>i \<leftarrow> all_inputs txs. value_for P (the (ledger_of u (input_key i)))) =
       utxo_sum P u + (\<Sum>tx \<leftarrow> txs. \<Sum>out \<leftarrow> outputs tx. value_for P out)"
  using assms
proof (induction txs arbitrary: d u)
  case Nil
  then show ?case by (cases d) (simp add: spent_entries_def all_inputs_def ledger_block_def)
next
  case (Cons tx txs)
  note r = runnable_Cons [OF Cons.prems]
  from execute_transaction_ledger [OF r(1), of P] r(2) obtain u1 where u1: "execute_transaction tx u =
      (Ok \<lparr>spent = spent_entries (ledger_of u) (inputs tx), created = created_entries tx\<rparr>, u1)"
    "ledger_of u1 = ledger_step tx (ledger_of u)"
    "utxo_sum P u1 + (\<Sum>i \<leftarrow> inputs tx. value_for P (the (ledger_of u (input_key i)))) =
        utxo_sum P u + (\<Sum>out \<leftarrow> outputs tx. value_for P out)" by blast
  let ?d = "\<lparr>spent = spent d @ spent_entries (ledger_of u) (inputs tx),
    created = created d @ created_entries tx\<rparr>"
  have "runnable txs (ledger_of u1)" using r(3) by (simp add: u1(2))
  from Cons.IH [OF this, of ?d] obtain u' where u': "execute_all txs ?d u1 =
      (Ok \<lparr>spent = spent ?d @ spent_entries (ledger_of u1) (all_inputs txs),
           created = created ?d @ concat (map created_entries txs)\<rparr>, u')"
    "ledger_of u' = ledger_block txs (ledger_of u1)"
    "utxo_sum P u' + (\<Sum>i \<leftarrow> all_inputs txs. value_for P (the (ledger_of u1 (input_key i)))) =
       utxo_sum P u1 + (\<Sum>tx \<leftarrow> txs. \<Sum>out \<leftarrow> outputs tx. value_for P out)" by blast
  have "ledger_of u1 (input_key i) = ledger_of u (input_key i)" if "i \<in> set (all_inputs txs)" for i
    using r(4) [OF that] by (simp add: u1(2))
  then have eq: "spent_entries (ledger_of u1) (all_inputs txs) = spent_entries (ledger_of u) (all_inputs txs)"
    "(\<Sum>i \<leftarrow> all_inputs txs. value_for P (the (ledger_of u1 (input_key i)))) =
     (\<Sum>i \<leftarrow> all_inputs txs. value_for P (the (ledger_of u (input_key i))))"
    by (simp_all add: spent_entries_def cong: map_cong)
  have split: "all_inputs (tx # txs) = inputs tx @ all_inputs txs" by (simp add: all_inputs_def)
  have "execute_all (tx # txs) d u =
      (Ok \<lparr>spent = spent d @ spent_entries (ledger_of u) (all_inputs (tx # txs)),
           created = created d @ concat (map created_entries (tx # txs))\<rparr>, u')"
    using u'(1) by (simp add: u1(1) diff_extend_def eq(1) split) (simp add: spent_entries_def)
  moreover have "ledger_of u' = ledger_block (tx # txs) (ledger_of u)"
    by (simp add: u'(2) u1(2) ledger_block_def)
  ultimately show ?case using u'(3) u1(3) by (auto simp: split eq(2))
qed

lemma ledger_block_at:
  "runnable txs L \<Longrightarrow> ledger_block txs L (t, i) =
    (case find (\<lambda>tx. transaction_id tx = Some t) txs of
       Some tx \<Rightarrow> row_at (map Some (outputs tx)) i
     | None \<Rightarrow> if (t, i) \<in> input_key ` set (all_inputs txs) then None else L (t, i))"
proof (induction txs arbitrary: L)
  case Nil
  then show ?case by (simp add: ledger_block_def all_inputs_def)
next
  case (Cons tx txs)
  note r = runnable_Cons [OF Cons.prems]
  obtain t0 where t0: "transaction_id tx = Some t0" using r(1) by (auto simp: executable_on_def)
  have none: "find (\<lambda>x. transaction_id x = Some t0) txs = None"
    using Cons.prems t0 by (auto simp: runnable_def find_None_iff image_iff)
  have keys: "(t0, j) \<notin> input_key ` set (all_inputs txs)" for j
    using runnable_new(2) [OF Cons.prems _ t0, of j] by (auto simp: all_inputs_def)
  have "ledger_block (tx # txs) L (t, i) = ledger_block txs (ledger_step tx L) (t, i)"
    by (simp add: ledger_block_def)
  also have "\<dots> = (case find (\<lambda>tx. transaction_id tx = Some t) txs of
       Some tx \<Rightarrow> row_at (map Some (outputs tx)) i
     | None \<Rightarrow> if (t, i) \<in> input_key ` set (all_inputs txs) then None else ledger_step tx L (t, i))"
    by (rule Cons.IH [OF r(3)])
  finally have eq: "ledger_block (tx # txs) L (t, i) = \<dots>" .
  show ?case
  proof (cases "t = t0")
    case True
    with none keys [of i] t0 show ?thesis by (simp add: eq [unfolded True] ledger_step_def create_row_def)
  next
    case False
    then have "ledger_step tx L (t, i) = (if (t, i) \<in> input_key ` set (inputs tx) then None else L (t, i))"
      by (simp add: ledger_step_def create_row_def spend_all_def t0)
    with False t0 show ?thesis
      by (simp add: eq all_inputs_def image_Un split: option.split)
  qed
qed

text \<open>Every created entry is unspent after the block, and every other output of a new id is none.\<close>

lemma find_by_id:
  assumes "runnable txs L" and "tx \<in> set txs" and "transaction_id tx = Some t"
  shows "find (\<lambda>x. transaction_id x = Some t) txs = Some tx"
proof -
  obtain j where j: "j < length txs" "txs ! j = tx" using assms(2) by (auto simp: in_set_conv_nth)
  have "transaction_id (txs ! k) \<noteq> Some t" if "k < j" for k
    using assms(1,3) j that nth_eq_iff_index_eq [of "map transaction_id txs" k j]
    by (auto simp: runnable_def)
  with j assms(3) show ?thesis by (auto simp: find_Some_iff)
qed

definition block_diff :: "ledger \<Rightarrow> Transaction list \<Rightarrow> UTXODiff" where
  "block_diff L txs =
     \<lparr>spent = spent_entries L (all_inputs txs), created = concat (map created_entries txs)\<rparr>"

lemma created_entries_keys:
  "map entry_key (created_entries tx) = map (Pair (the (transaction_id tx))) [0..<length (outputs tx)]"
proof -
  have "map entry_key (created_entries tx) =
      map (Pair (the (transaction_id tx))) (map fst (enumerate_list (outputs tx)))"
    by (simp add: created_entries_def entry_key_def comp_def split_def)
  then show ?thesis by (simp only: enumerate_list_fst)
qed

lemma created_keys:
  "runnable txs L \<Longrightarrow> (t, i) \<in> entry_key ` set (created (block_diff L txs)) \<longleftrightarrow>
     (\<exists>tx \<in> set txs. transaction_id tx = Some t \<and> i < length (outputs tx))"
proof -
  assume r: "runnable txs L"
  have "entry_key ` set (created_entries tx) = Pair (the (transaction_id tx)) ` {0..<length (outputs tx)}"
    for tx
    using arg_cong [OF created_entries_keys [of tx], of set] by simp
  then have "(t, i) \<in> entry_key ` set (created (block_diff L txs)) \<longleftrightarrow>
     (\<exists>tx \<in> set txs. t = the (transaction_id tx) \<and> i < length (outputs tx))"
    by (simp add: block_diff_def image_UN image_iff)
  moreover have "t = the (transaction_id tx) \<longleftrightarrow> transaction_id tx = Some t" if "tx \<in> set txs" for tx
    using r that by (auto simp: runnable_def)
  ultimately show ?thesis by blast
qed

lemma distinct_created:
  assumes "runnable txs L" shows "distinct (map entry_key (created (block_diff L txs)))"
  using assms
proof (induction txs arbitrary: L)
  case Nil
  then show ?case by (simp add: block_diff_def)
next
  case (Cons tx txs)
  note r = runnable_Cons(3) [OF Cons.prems]
  obtain t where t: "transaction_id tx = Some t" using Cons.prems by (auto simp: runnable_def)
  have "distinct (map entry_key (created_entries tx))"
    by (simp add: created_entries_keys distinct_map inj_on_def)
  moreover have "entry_key ` set (created_entries tx) \<inter> entry_key ` set (created (block_diff L txs)) = {}"
  proof -
    have "fst k = t" if "k \<in> entry_key ` set (created_entries tx)" for k
      using that arg_cong [OF created_entries_keys [of tx], of set] by (auto simp: t)
    moreover have "t' \<noteq> t" if k: "(t', i) \<in> entry_key ` set (created (block_diff (ledger_step tx L) txs))"
      for t' i
    proof -
      obtain x where "x \<in> set txs" "transaction_id x = Some t'" using k created_keys [OF r, of t' i] by blast
      with Cons.prems t show ?thesis by (auto simp: runnable_def image_iff)
    qed
    moreover have "created (block_diff (ledger_step tx L) txs) = created (block_diff L txs)"
      by (simp add: block_diff_def)
    ultimately show ?thesis by (metis disjoint_iff prod.collapse)
  qed
  ultimately show ?case using Cons.IH [OF r] by (simp add: block_diff_def)
qed

lemma spent_keys: "map entry_key (spent_entries L is) = map input_key is"
  by (simp add: spent_entries_def entry_key_def input_key_def)

text \<open>Undoing the differences of a block gives the ledger back.\<close>

lemma recall_block_ledger:
  assumes r: "runnable txs L" and u: "ledger_of u = ledger_block txs L"
  shows "\<exists>u'. recall_block_utxos (block_diff L txs) u = (Ok (), u') \<and> ledger_of u' = L"
proof -
  let ?d = "block_diff L txs"
  define M where "M = restore_all (spent ?d) (ledger_block txs L)"
  have spent: "M k = L k" if "k \<in> input_key ` set (all_inputs txs)" for k
    unfolding M_def
  proof (rule restore_all_entry)
    show "k \<in> set (map entry_key (spent ?d))" using that by (simp add: block_diff_def spent_keys)
    show "L (t, i) = Some out" if "(t, i, out) \<in> set (spent ?d)" for t i out
      using that r by (auto simp: block_diff_def spent_entries_def input_key_def runnable_def)
  qed
  have other: "M k = ledger_block txs L k" if "k \<notin> input_key ` set (all_inputs txs)" for k
    unfolding M_def
    using that by (intro restore_all_other) (simp add: block_diff_def spent_keys)
  have created: "M (t, i) \<noteq> None" if k: "(t, i) \<in> entry_key ` set (created ?d)" for t i
  proof -
    obtain tx where tx: "tx \<in> set txs" "transaction_id tx = Some t" "i < length (outputs tx)"
      using k created_keys [OF r, of t i] by blast
    have "M (t, i) = ledger_block txs L (t, i)" by (rule other) (rule runnable_new(2) [OF r tx(1,2)])
    then show ?thesis using tx(3) by (simp add: ledger_block_at [OF r] find_by_id [OF r tx(1,2)] row_at_def)
  qed
  have M: "ledger_of (restore_spent (spent ?d) u) = M"
    by (simp add: ledger_of_restore_spent u M_def)
  have "ledger_of (restore_spent (spent ?d) u) (entry_key e) \<noteq> None" if "e \<in> set (created ?d)" for e
    unfolding M using created [of "fst (entry_key e)" "snd (entry_key e)"] that by simp
  from remove_created_ledger [OF distinct_created [OF r] this]
  obtain u' where u': "remove_created (created ?d) (restore_spent (spent ?d) u) = (Ok (), u')"
    "ledger_of u' = spend_all (map entry_key (created ?d)) M" unfolding M by blast
  have "spend_all (map entry_key (created ?d)) M (t, i) = L (t, i)" for t i
  proof (cases "\<exists>tx \<in> set txs. transaction_id tx = Some t")
    case True
    then obtain tx where tx: "tx \<in> set txs" "transaction_id tx = Some t" by blast
    have "\<not> i < length (outputs tx)" if "(t, i) \<notin> entry_key ` set (created ?d)"
      using that tx created_keys [OF r, of t i] by blast
    moreover have "M (t, i) = ledger_block txs L (t, i)" by (rule other) (rule runnable_new(2) [OF r tx])
    ultimately show ?thesis using runnable_new(1) [OF r tx]
      by (simp add: spend_all_def ledger_block_at [OF r] find_by_id [OF r tx] row_at_def)
  next
    case False
    then have "find (\<lambda>x. transaction_id x = Some t) txs = None" by (auto simp: find_None_iff)
    moreover have "(t, i) \<notin> entry_key ` set (created ?d)" using False created_keys [OF r, of t i] by blast
    ultimately show ?thesis
      by (cases "(t, i) \<in> input_key ` set (all_inputs txs)")
        (simp_all add: spend_all_def spent other ledger_block_at [OF r])
  qed
  then have "ledger_of u' = L" unfolding u'(2) by (intro ext) auto
  with u'(1) show ?thesis by (auto simp: recall_block_utxos_def)
qed

end
