(* ===== verification/Block_Store.thy ===== *)
theory Block_Store
  imports Block_Ledger
begin

text \<open>
  \<open>core/block_store.rs\<close>: the blocks on disk, one file per block and one for its differences, and two
  index trees.  The file system is a map from paths to contents, a file's contents the value that was
  encoded into it; writing, syncing and flushing succeed, renaming and removing a file fail when it
  is not there.
\<close>

section \<open>State\<close>

datatype BlockStoreError = NoneToPop | EncodeS | BlockErrorS BlockError | IO string

datatype stored_file = BlockFile Block | DiffsFile UTXODiff

type_synonym files = "(string, stored_file) fmap"

record BlockIndex =
  by_hash :: "(u8 list, u8 list) fmap"
  by_height :: "(u8 list, u8 list) fmap"

record BlockStore =
  store_path :: string
  block_index :: BlockIndex
  store_height :: usize
  last_block :: Hash
  files :: files

record store_env = block_env +
  encode_diffs :: "UTXODiff \<Rightarrow> string + u8 list"

record TransactionAndInfo =
  info_transaction :: Transaction
  at_height :: u64
  in_block :: Hash

definition not_found :: string where
  "not_found = ''No such file or directory (os error 2)''"

definition rename_file :: "string \<Rightarrow> string \<Rightarrow> files \<Rightarrow> (files, BlockStoreError) result" where
  "rename_file src dst fs =
     (case fmlookup fs src of None \<Rightarrow> Err (IO not_found) | Some c \<Rightarrow> Ok (fmupd dst c (fmdrop src fs)))"

definition remove_file :: "string \<Rightarrow> files \<Rightarrow> (files, BlockStoreError) result" where
  "remove_file path fs =
     (case fmlookup fs path of None \<Rightarrow> Err (IO not_found) | Some c \<Rightarrow> Ok (fmdrop path fs))"

text \<open>An operation on the files of a store: the store keeps its files when it fails.\<close>

definition on_files :: "(files \<Rightarrow> (files, 'e) result) \<Rightarrow> BlockStore \<Rightarrow> (unit, 'e, BlockStore) run" where
  "on_files f st =
     (case f (files st) of
        Ok fs \<Rightarrow> (Ok (), st\<lparr>files := fs\<rparr>) | Err e \<Rightarrow> (Err e, st) | Panic \<Rightarrow> (Panic, st))"

definition store_new_empty :: "string \<Rightarrow> BlockIndex \<Rightarrow> files \<Rightarrow> BlockStore" where
  "store_new_empty path index fs =
     \<lparr>store_path = path, block_index = index, store_height = 0,
      last_block = GENESIS_PREVIOUS_BLOCK_HASH, files = fs\<rparr>"

definition store_load :: "string \<Rightarrow> usize \<Rightarrow> Hash \<Rightarrow> BlockIndex \<Rightarrow> files \<Rightarrow> BlockStore" where
  "store_load path height last_hash index fs =
     \<lparr>store_path = path, block_index = index, store_height = height, last_block = last_hash, files = fs\<rparr>"

definition block_path_by_height :: "BlockStore \<Rightarrow> usize \<Rightarrow> string" where
  "block_path_by_height st height = store_path st @ dec height @ ''.dat''"

definition utxo_diffs_path_by_height :: "BlockStore \<Rightarrow> usize \<Rightarrow> string" where
  "utxo_diffs_path_by_height st height = store_path st @ ''utxo-diffs-'' @ dec height @ ''.dat''"

section \<open>Reading\<close>

definition load_block_from_path :: "files \<Rightarrow> string \<Rightarrow> (Block, BlockStoreError) result" where
  "load_block_from_path fs path =
     (case fmlookup fs path of Some (BlockFile b) \<Rightarrow> Ok b | _ \<Rightarrow> Err EncodeS)"

definition load_utxo_diffs_from_path :: "files \<Rightarrow> string \<Rightarrow> (UTXODiff, BlockStoreError) result" where
  "load_utxo_diffs_from_path fs path =
     (case fmlookup fs path of
        None \<Rightarrow> Err (IO not_found) | Some (DiffsFile d) \<Rightarrow> Ok d | Some _ \<Rightarrow> Err EncodeS)"

definition res_ok :: "('a, 'e) result \<Rightarrow> 'a option" where
  "res_ok r = (case r of Ok x \<Rightarrow> Some x | _ \<Rightarrow> None)"

definition get_height :: "BlockStore \<Rightarrow> usize" where
  "get_height st = store_height st"

definition get_last_block_hash :: "BlockStore \<Rightarrow> Hash" where
  "get_last_block_hash st = last_block st"

definition get_block_by_height :: "BlockStore \<Rightarrow> usize \<Rightarrow> Block option" where
  "get_block_by_height st height =
     (if get_height st < height then None
      else res_ok (load_block_from_path (files st) (block_path_by_height st height)))"

definition get_last_block :: "BlockStore \<Rightarrow> Block option" where
  "get_last_block st = get_block_by_height st (get_height st - 1)"

text \<open>\<open>try_into().unwrap()\<close> panics on an entry of another length.\<close>

definition get_block_hash_by_height :: "BlockStore \<Rightarrow> usize \<Rightarrow> (Hash option, 'e) result" where
  "get_block_hash_by_height st height =
     (case fmlookup (by_height (block_index st)) (be_bytes 8 height) of
        None \<Rightarrow> Ok None
      | Some buf \<Rightarrow>
          if length buf = 32 then Ok (Some (hash_new_from_buf (word_from_be_bytes buf))) else Panic)"

definition get_block_height_by_hash :: "BlockStore \<Rightarrow> Hash \<Rightarrow> (usize option, 'e) result" where
  "get_block_height_by_hash st h =
     (case fmlookup (by_hash (block_index st)) (hash_dump_buf h) of
        None \<Rightarrow> Ok None
      | Some buf \<Rightarrow> if length buf = 8 then Ok (Some (from_bytes_be buf)) else Panic)"

definition get_block_by_hash :: "BlockStore \<Rightarrow> Hash \<Rightarrow> (Block option, 'e) result" where
  "get_block_by_hash st h =
     bind_res (get_block_height_by_hash st h) (\<lambda>i.
       Ok (case i of None \<Rightarrow> None | Some height \<Rightarrow> get_block_by_height st height))"

definition get_last_utxo_diffs :: "bool \<Rightarrow> BlockStore \<Rightarrow> (UTXODiff option, 'e) result" where
  "get_last_utxo_diffs chk st =
     bind_res (sub_usize chk (get_height st) 1) (\<lambda>h.
       Ok (res_ok (load_utxo_diffs_from_path (files st) (utxo_diffs_path_by_height st h))))"

definition get_utxo_diffs_by_height :: "BlockStore \<Rightarrow> usize \<Rightarrow> UTXODiff option" where
  "get_utxo_diffs_by_height st height =
     (if height = 0 \<or> get_height st < height then None
      else res_ok (load_utxo_diffs_from_path (files st) (utxo_diffs_path_by_height st height)))"

definition get_utxo_diffs_by_hash :: "BlockStore \<Rightarrow> Hash \<Rightarrow> (UTXODiff option, 'e) result" where
  "get_utxo_diffs_by_hash st h =
     bind_res (get_block_height_by_hash st h) (\<lambda>i.
       Ok (case i of None \<Rightarrow> None | Some height \<Rightarrow> get_utxo_diffs_by_height st height))"

text \<open>The loops over \<open>(0..height).rev()\<close>: the newest block first.\<close>

primrec get_transaction_below :: "BlockStore \<Rightarrow> TransactionId \<Rightarrow> nat \<Rightarrow> (Transaction \<times> Block \<times> nat) option"
where
  "get_transaction_below st tx_id 0 = None"
| "get_transaction_below st tx_id (Suc h) =
     (case get_block_by_height st h of
        None \<Rightarrow> get_transaction_below st tx_id h
      | Some b \<Rightarrow>
          (case find (\<lambda>tx. transaction_id tx = Some tx_id) (transactions b) of
             None \<Rightarrow> get_transaction_below st tx_id h
           | Some tx \<Rightarrow> Some (tx, b, h)))"

definition get_transaction :: "BlockStore \<Rightarrow> TransactionId \<Rightarrow> Transaction option" where
  "get_transaction st tx_id = map_option fst (get_transaction_below st tx_id (get_height st))"

definition get_transaction_and_info :: "BlockStore \<Rightarrow> TransactionId \<Rightarrow> TransactionAndInfo option" where
  "get_transaction_and_info st tx_id =
     map_option (\<lambda>(tx, b, h).
         \<lparr>info_transaction = tx, at_height = word_of_nat h,
          in_block = (case hash (meta b) of None \<Rightarrow> hash_new_from_buf 0 | Some x \<Rightarrow> x)\<rparr>)
       (get_transaction_below st tx_id (get_height st))"

definition iter_blocks :: "BlockStore \<Rightarrow> (Block, BlockStoreError) result list" where
  "iter_blocks st =
     map (\<lambda>h. load_block_from_path (files st) (block_path_by_height st h)) [0..<get_height st]"

section \<open>Adding and removing a block\<close>

definition store_add_block ::
  "'z store_env_scheme \<Rightarrow> Block \<Rightarrow> UTXODiff \<Rightarrow> BlockStore \<Rightarrow> (unit, BlockStoreError, BlockStore) run"
where
  "store_add_block E b ds st =
     (let h = get_height st;
          block_tmp = block_path_by_height st h @ ''.tmp'';
          diffs_tmp = utxo_diffs_path_by_height st h @ ''.tmp''
      in bind_run (map_err BlockErrorS (check_completeness b), st) (\<lambda>_ st.
         bind_run (map_err (\<lambda>_. EncodeS) (encoded (encode_block E b)), st) (\<lambda>_ st.
         bind_run (map_err (\<lambda>_. EncodeS) (encoded (encode_diffs E ds)), st) (\<lambda>_ st.
         bind_run (on_files (\<lambda>fs. Ok (fmupd block_tmp (BlockFile b) fs)) st) (\<lambda>_ st.
         bind_run (on_files (\<lambda>fs. Ok (fmupd diffs_tmp (DiffsFile ds) fs)) st) (\<lambda>_ st.
         bind_run (on_files (rename_file block_tmp (block_path_by_height st h)) st) (\<lambda>_ st.
         bind_run (on_files (rename_file diffs_tmp (utxo_diffs_path_by_height st h)) st) (\<lambda>_ st.
         bind_run (expect (hash (meta b)), st) (\<lambda>bh st.
           (Ok (), st\<lparr>block_index :=
                \<lparr>by_hash = fmupd (hash_dump_buf bh) (be_bytes 8 h) (by_hash (block_index st)),
                 by_height = fmupd (be_bytes 8 h) (hash_dump_buf bh) (by_height (block_index st))\<rparr>,
              store_height := h + 1, last_block := bh\<rparr>))))))))))"

text \<open>"Update last_block correctly": the new tip once the height has gone down.\<close>

definition tip_after_pop :: "BlockStore \<Rightarrow> (Hash, BlockStoreError) result" where
  "tip_after_pop st =
     (if get_height st = 0 then Ok GENESIS_PREVIOUS_BLOCK_HASH
      else bind_res (ok_or (get_last_block st) (BlockErrorS IncompleteBlock))
        (\<lambda>last_block_after_pop. expect (hash (meta last_block_after_pop))))"

definition store_pop_block :: "BlockStore \<Rightarrow> (unit, BlockStoreError, BlockStore) run" where
  "store_pop_block st =
     (if get_height st = 0 then (Err NoneToPop, st)
      else
        let height = get_height st - 1;
            block_path = block_path_by_height st height;
            diffs_path = utxo_diffs_path_by_height st height;
            block_del = block_path @ ''.delete'';
            diffs_del = diffs_path @ ''.delete''
        in bind_run (on_files (rename_file block_path block_del) st) (\<lambda>_ st.
           bind_run (on_files (rename_file diffs_path diffs_del) st) (\<lambda>_ st.
           let st = st\<lparr>block_index :=
                  \<lparr>by_hash = fmdrop (hash_dump_buf (get_last_block_hash st)) (by_hash (block_index st)),
                   by_height = fmdrop (be_bytes 8 height) (by_height (block_index st))\<rparr>,
                store_height := height\<rparr>
           in bind_run (tip_after_pop st, st) (\<lambda>tip st.
              let st = st\<lparr>last_block := tip\<rparr>
              in bind_run (on_files (remove_file block_del) st) (\<lambda>_ st.
                 on_files (remove_file diffs_del) st)))))"

end
