(* ===== verification/Chain_Log.thy ===== *)
theory Chain_Log
  imports Block_Store
begin

text \<open>
  What \<open>core/block_store.rs\<close> promises: it is a log of blocks with their differences.  The interface
  \<open>block_log\<close> says what a client relies on; the store provides it.
\<close>

section \<open>The interface\<close>

locale block_log =
  fixes represents :: "'s \<Rightarrow> 'b list \<Rightarrow> bool"
    and can_push :: "'b list \<Rightarrow> 'b \<Rightarrow> bool"
    and push :: "'b \<Rightarrow> 's \<Rightarrow> 's option"
    and pop :: "'s \<Rightarrow> 's option"
    and fetch :: "'s \<Rightarrow> nat \<Rightarrow> 'b option"
  assumes push_ok:
    "represents s xs \<Longrightarrow> can_push xs b \<Longrightarrow> \<exists>s'. push b s = Some s' \<and> represents s' (xs @ [b])"
    and pop_ok: "represents s (xs @ [b]) \<Longrightarrow> \<exists>s'. pop s = Some s' \<and> represents s' xs"
    and pop_empty: "represents s [] \<Longrightarrow> pop s = None"
    and fetch_nth: "represents s xs \<Longrightarrow> fetch s i = (if i < length xs then Some (xs ! i) else None)"
begin

lemma represents_unique:
  assumes "represents s xs" and "represents s ys" shows "xs = ys"
proof -
  have le: "length as \<le> length bs" if "represents s as" "represents s bs" for as bs
    using fetch_nth [OF that(1), of "length bs"] fetch_nth [OF that(2), of "length bs"]
    by (simp split: if_splits)
  have "xs ! i = ys ! i" if "i < length xs" for i
    using that le [OF assms] fetch_nth [OF assms(1), of i] fetch_nth [OF assms(2), of i] by simp
  with le assms show ?thesis by (intro nth_equalityI) (auto intro: le_antisym)
qed

primrec pop_many :: "nat \<Rightarrow> 's \<Rightarrow> 's option" where
  "pop_many 0 s = Some s"
| "pop_many (Suc n) s = (case pop s of None \<Rightarrow> None | Some s' \<Rightarrow> pop_many n s')"

fun push_many :: "'b list \<Rightarrow> 's \<Rightarrow> 's option" where
  "push_many [] s = Some s"
| "push_many (b # bs) s = (case push b s of None \<Rightarrow> None | Some s' \<Rightarrow> push_many bs s')"

lemma push_pop:
  assumes "represents s xs" and "can_push xs b"
  shows "\<exists>s' s''. push b s = Some s' \<and> pop s' = Some s'' \<and> represents s'' xs"
  using push_ok [OF assms] pop_ok by blast

lemma pop_many_ok:
  assumes "represents s xs" and "n \<le> length xs"
  shows "\<exists>s'. pop_many n s = Some s' \<and> represents s' (take (length xs - n) xs)"
  using assms
proof (induction n arbitrary: s xs)
  case (Suc n)
  then obtain ys b where xs: "xs = ys @ [b]" by (cases xs rule: rev_cases) auto
  with Suc.prems obtain s' where "pop s = Some s'" "represents s' ys" using pop_ok by blast
  with Suc.IH [of s' ys] Suc.prems xs show ?case by simp
qed simp

lemma push_many_ok:
  assumes "represents s xs"
    and "\<And>i. i < length bs \<Longrightarrow> can_push (xs @ take i bs) (bs ! i)"
  shows "\<exists>s'. push_many bs s = Some s' \<and> represents s' (xs @ bs)"
  using assms
proof (induction bs arbitrary: s xs)
  case (Cons b bs)
  from Cons.prems(2) [of 0] have "can_push xs b" by simp
  with push_ok [OF Cons.prems(1)] obtain s' where s': "push b s = Some s'" "represents s' (xs @ [b])"
    by blast
  have "can_push ((xs @ [b]) @ take i bs) (bs ! i)" if "i < length bs" for i
    using Cons.prems(2) [of "Suc i"] that by simp
  from Cons.IH [OF s'(2) this] s'(1) show ?case by simp
qed simp

text \<open>A reorganisation: the last \<open>n\<close> blocks go, others come.\<close>

lemma reorg:
  assumes "represents s xs" and "n \<le> length xs"
    and "\<And>i. i < length bs \<Longrightarrow> can_push (take (length xs - n) xs @ take i bs) (bs ! i)"
  shows "\<exists>s' s''. pop_many n s = Some s' \<and> push_many bs s' = Some s''
    \<and> represents s'' (take (length xs - n) xs @ bs)"
  using pop_many_ok [OF assms(1,2)] push_many_ok assms(3) by blast

end

section \<open>Paths\<close>

lemma path_simps [simp]:
  "block_path_by_height (st\<lparr>files := fs\<rparr>) h = block_path_by_height st h"
  "block_path_by_height (st\<lparr>block_index := ix\<rparr>) h = block_path_by_height st h"
  "block_path_by_height (st\<lparr>store_height := n\<rparr>) h = block_path_by_height st h"
  "block_path_by_height (st\<lparr>last_block := l\<rparr>) h = block_path_by_height st h"
  "utxo_diffs_path_by_height (st\<lparr>files := fs\<rparr>) h = utxo_diffs_path_by_height st h"
  "utxo_diffs_path_by_height (st\<lparr>block_index := ix\<rparr>) h = utxo_diffs_path_by_height st h"
  "utxo_diffs_path_by_height (st\<lparr>store_height := n\<rparr>) h = utxo_diffs_path_by_height st h"
  "utxo_diffs_path_by_height (st\<lparr>last_block := l\<rparr>) h = utxo_diffs_path_by_height st h"
  by (simp_all add: block_path_by_height_def utxo_diffs_path_by_height_def)

lemma block_path_inject [simp]:
  "block_path_by_height st h = block_path_by_height st k \<longleftrightarrow> h = k"
  by (simp add: block_path_by_height_def)

lemma diffs_path_inject [simp]:
  "utxo_diffs_path_by_height st h = utxo_diffs_path_by_height st k \<longleftrightarrow> h = k"
  by (simp add: utxo_diffs_path_by_height_def)

lemma dec_not_u: "dec h @ xs \<noteq> CHR ''u'' # ys"
proof
  assume *: "dec h @ xs = CHR ''u'' # ys"
  obtain c cs where c: "dec h = c # cs" by (meson dec_nonempty list.exhaust)
  with * have "c = CHR ''u''" by simp
  with dec_digits [of c h] c show False by simp
qed

lemma block_diffs_path [simp]:
  "block_path_by_height st h \<noteq> utxo_diffs_path_by_height st k"
  "utxo_diffs_path_by_height st k \<noteq> block_path_by_height st h"
  by (simp_all add: block_path_by_height_def utxo_diffs_path_by_height_def dec_not_u
      not_sym [OF dec_not_u])

lemma last_neq: "last xs \<noteq> last ys \<Longrightarrow> xs \<noteq> ys"
  by auto

lemma suffixed_path [simp]:
  "block_path_by_height st h @ ''.tmp'' \<noteq> block_path_by_height st k"
  "block_path_by_height st h @ ''.tmp'' \<noteq> utxo_diffs_path_by_height st k"
  "utxo_diffs_path_by_height st h @ ''.tmp'' \<noteq> block_path_by_height st k"
  "utxo_diffs_path_by_height st h @ ''.tmp'' \<noteq> utxo_diffs_path_by_height st k"
  "block_path_by_height st h @ ''.delete'' \<noteq> block_path_by_height st k"
  "block_path_by_height st h @ ''.delete'' \<noteq> utxo_diffs_path_by_height st k"
  "utxo_diffs_path_by_height st h @ ''.delete'' \<noteq> block_path_by_height st k"
  "utxo_diffs_path_by_height st h @ ''.delete'' \<noteq> utxo_diffs_path_by_height st k"
  by (rule last_neq, simp add: block_path_by_height_def utxo_diffs_path_by_height_def)+

lemma suffixed_distinct [simp]:
  "utxo_diffs_path_by_height st h @ ''.tmp'' \<noteq> block_path_by_height st k @ ''.tmp''"
  "block_path_by_height st h @ ''.tmp'' \<noteq> utxo_diffs_path_by_height st k @ ''.tmp''"
  "utxo_diffs_path_by_height st h @ ''.delete'' \<noteq> block_path_by_height st k @ ''.delete''"
  "block_path_by_height st h @ ''.delete'' \<noteq> utxo_diffs_path_by_height st k @ ''.delete''"
  by auto

lemmas suffixed_sym [simp] = suffixed_path [symmetric]

section \<open>What the store holds\<close>

type_synonym log_entry = "Block \<times> UTXODiff"

definition entry_hash :: "log_entry \<Rightarrow> Hash" where
  "entry_hash e = the (hash (meta (fst e)))"

definition tip_hash :: "log_entry list \<Rightarrow> Hash" where
  "tip_hash chain = (if chain = [] then GENESIS_PREVIOUS_BLOCK_HASH else entry_hash (last chain))"

definition log_files :: "BlockStore \<Rightarrow> log_entry list \<Rightarrow> bool" where
  "log_files st chain \<longleftrightarrow>
     (\<forall>h. fmlookup (files st) (block_path_by_height st h) =
            (if h < length chain then Some (BlockFile (fst (chain ! h))) else None)
        \<and> fmlookup (files st) (utxo_diffs_path_by_height st h) =
            (if h < length chain then Some (DiffsFile (snd (chain ! h))) else None))"

definition log_index :: "BlockIndex \<Rightarrow> log_entry list \<Rightarrow> bool" where
  "log_index ix chain \<longleftrightarrow>
     (\<forall>h < 2 ^ 64. fmlookup (by_height ix) (be_bytes 8 h) =
        (if h < length chain then Some (hash_dump_buf (entry_hash (chain ! h))) else None))
     \<and> (\<forall>k. fmlookup (by_hash ix) (hash_dump_buf k) =
        map_option (be_bytes 8) (position (\<lambda>e. entry_hash e = k) chain))"

definition store_represents :: "BlockStore \<Rightarrow> log_entry list \<Rightarrow> bool" where
  "store_represents st chain \<longleftrightarrow>
     store_height st = length chain \<and> length chain < 2 ^ 64
     \<and> last_block st = tip_hash chain
     \<and> distinct (map entry_hash chain) \<and> (\<forall>e \<in> set chain. hash (meta (fst e)) \<noteq> None)
     \<and> log_files st chain \<and> log_index (block_index st) chain"

text \<open>A complete block with a new hash, which encodes, below the last height.\<close>

definition can_append :: "'z store_env_scheme \<Rightarrow> log_entry list \<Rightarrow> log_entry \<Rightarrow> bool" where
  "can_append E chain e \<longleftrightarrow>
     hash (meta (fst e)) \<noteq> None \<and> entry_hash e \<notin> entry_hash ` set chain
     \<and> length chain + 1 < 2 ^ 64
     \<and> (\<exists>bs. encode_block E (fst e) = Inr bs) \<and> (\<exists>bs. encode_diffs E (snd e) = Inr bs)"

lemma be_bytes_8_inject: "h < 2 ^ 64 \<Longrightarrow> k < 2 ^ 64 \<Longrightarrow> be_bytes 8 h = be_bytes 8 k \<longleftrightarrow> h = k"
proof -
  assume "h < 2 ^ 64" "k < 2 ^ 64"
  then have "from_bytes_be (be_bytes 8 h) = h" "from_bytes_be (be_bytes 8 k) = k"
    by (simp_all add: from_bytes_be_be_bytes)
  then show ?thesis by metis
qed

lemma position_snoc:
  "position P (xs @ [y]) =
     (case position P xs of Some i \<Rightarrow> Some i | None \<Rightarrow> if P y then Some (length xs) else None)"
  by (induction xs) (auto split: option.split)

lemma position_lt: "position P xs = Some i \<Longrightarrow> i < length xs"
  by (simp add: position_Some)

lemma store_represents_empty:
  assumes "\<And>h. fmlookup fs (path @ dec h @ ''.dat'') = None"
    and "\<And>h. fmlookup fs (path @ ''utxo-diffs-'' @ dec h @ ''.dat'') = None"
  shows "store_represents (store_new_empty path \<lparr>by_hash = fmempty, by_height = fmempty\<rparr> fs) []"
  using assms
  by (simp add: store_represents_def store_new_empty_def tip_hash_def log_files_def log_index_def
      block_path_by_height_def utxo_diffs_path_by_height_def)

section \<open>The store is a log\<close>

lemma log_index_append:
  assumes "log_index ix chain" and "length chain + 1 < 2 ^ 64" and "entry_hash e \<notin> entry_hash ` set chain"
  shows "log_index \<lparr>by_hash = fmupd (hash_dump_buf (entry_hash e)) (be_bytes 8 (length chain)) (by_hash ix),
      by_height = fmupd (be_bytes 8 (length chain)) (hash_dump_buf (entry_hash e)) (by_height ix)\<rparr>
    (chain @ [e])"
proof -
  have "position (\<lambda>x. entry_hash x = entry_hash e) chain = None"
    using assms(3) unfolding position_None by (metis image_eqI)
  then show ?thesis
    using assms(1,2)
    by (auto simp: log_index_def be_bytes_8_inject position_snoc nth_append split: option.split)
qed

lemma store_add_block_represents:
  assumes st: "store_represents st chain" and e: "can_append E chain (b, ds)"
  shows "\<exists>st'. store_add_block E b ds st = (Ok (), st') \<and> store_represents st' (chain @ [(b, ds)])
    \<and> store_path st' = store_path st"
proof -
  obtain bh where bh: "hash (meta b) = Some bh" using e by (auto simp: can_append_def)
  obtain bs ds' where enc: "encode_block E b = Inr bs" "encode_diffs E ds = Inr ds'"
    using e by (auto simp: can_append_def)
  let ?h = "length chain"
  let ?bp = "block_path_by_height st ?h" and ?dp = "utxo_diffs_path_by_height st ?h"
  define fs where "fs = fmupd ?dp (DiffsFile ds) (fmdrop (?dp @ ''.tmp'')
    (fmupd ?bp (BlockFile b) (fmdrop (?bp @ ''.tmp'') (fmupd (?dp @ ''.tmp'') (DiffsFile ds)
      (fmupd (?bp @ ''.tmp'') (BlockFile b) (files st))))))"
  define st' where "st' = st\<lparr>files := fs, block_index :=
      \<lparr>by_hash = fmupd (hash_dump_buf bh) (be_bytes 8 ?h) (by_hash (block_index st)),
       by_height = fmupd (be_bytes 8 ?h) (hash_dump_buf bh) (by_height (block_index st))\<rparr>,
    store_height := ?h + 1, last_block := bh\<rparr>"
  have height: "get_height st = ?h" using st by (simp add: store_represents_def get_height_def)
  have run: "store_add_block E b ds st = (Ok (), st')"
    by (simp add: store_add_block_def height Let_def check_completeness_def bh enc on_files_def
        rename_file_def st'_def fs_def)
  have "log_files st' (chain @ [(b, ds)])"
    using st by (auto simp: log_files_def store_represents_def st'_def fs_def nth_append)
  moreover have "log_index (block_index st') (chain @ [(b, ds)])"
    using log_index_append [of "block_index st" chain "(b, ds)"] st e bh
    by (simp add: st'_def store_represents_def can_append_def entry_hash_def)
  ultimately have "store_represents st' (chain @ [(b, ds)])"
    using st e bh
    by (simp add: store_represents_def can_append_def st'_def tip_hash_def entry_hash_def image_iff)
  with run show ?thesis by (auto simp: st'_def)
qed

lemma log_index_remove:
  assumes "log_index ix (chain @ [e])" and "length chain + 1 < 2 ^ 64"
    and "entry_hash e \<notin> entry_hash ` set chain"
  shows "log_index \<lparr>by_hash = fmdrop (hash_dump_buf (entry_hash e)) (by_hash ix),
      by_height = fmdrop (be_bytes 8 (length chain)) (by_height ix)\<rparr> chain"
proof -
  have "position (\<lambda>x. entry_hash x = entry_hash e) chain = None"
    using assms(3) unfolding position_None by (metis image_eqI)
  then show ?thesis
    using assms(1,2)
    by (auto simp: log_index_def be_bytes_8_inject position_snoc nth_append split: option.splits if_splits)
qed

lemma get_block_by_height_represents:
  assumes "store_represents st chain"
  shows "get_block_by_height st h = (if h < length chain then Some (fst (chain ! h)) else None)"
  using assms
  by (auto simp: get_block_by_height_def store_represents_def log_files_def get_height_def
      load_block_from_path_def res_ok_def)

lemma store_pop_block_represents:
  assumes st: "store_represents st (chain @ [e])"
  shows "\<exists>st'. store_pop_block st = (Ok (), st') \<and> store_represents st' chain
    \<and> store_path st' = store_path st"
proof -
  let ?h = "length chain"
  let ?bp = "block_path_by_height st ?h" and ?dp = "utxo_diffs_path_by_height st ?h"
  have lt: "?h + 1 < 2 ^ 64" and height: "get_height st = ?h + 1"
    and lb: "last_block st = entry_hash e" and fresh: "entry_hash e \<notin> entry_hash ` set chain"
    and files: "log_files st (chain @ [e])" and ix: "log_index (block_index st) (chain @ [e])"
    using st by (auto simp: store_represents_def get_height_def tip_hash_def)
  define fs where "fs = fmupd (?dp @ ''.delete'') (DiffsFile (snd e)) (fmdrop ?dp
    (fmupd (?bp @ ''.delete'') (BlockFile (fst e)) (fmdrop ?bp (files st))))"
  define st1 where "st1 = st\<lparr>files := fs, block_index :=
      \<lparr>by_hash = fmdrop (hash_dump_buf (entry_hash e)) (by_hash (block_index st)),
       by_height = fmdrop (be_bytes 8 ?h) (by_height (block_index st))\<rparr>, store_height := ?h\<rparr>"
  define st' where "st' = st1\<lparr>last_block := tip_hash chain,
    files := fmdrop (?dp @ ''.delete'') (fmdrop (?bp @ ''.delete'') fs)\<rparr>"
  have f: "fmlookup (files st) ?bp = Some (BlockFile (fst e))"
    "fmlookup (files st) ?dp = Some (DiffsFile (snd e))"
    using files by (simp_all add: log_files_def)
  have last: "get_last_block st1 = Some (fst (last chain))" "hash (meta (fst (last chain))) \<noteq> None"
    if ne: "chain \<noteq> []"
  proof -
    obtain n where "length chain = Suc n" using ne by (cases chain) auto
    then show "get_last_block st1 = Some (fst (last chain))"
      using files ne
      by (simp add: get_last_block_def get_block_by_height_def get_height_def st1_def fs_def
          load_block_from_path_def res_ok_def log_files_def nth_append last_conv_nth)
    show "hash (meta (fst (last chain))) \<noteq> None" using st ne by (simp add: store_represents_def)
  qed
  have "get_height st1 = ?h" by (simp add: st1_def get_height_def)
  then have tip: "tip_after_pop st1 = Ok (tip_hash chain)"
    using last by (auto simp: tip_after_pop_def tip_hash_def entry_hash_def)
  have run: "store_pop_block st = (Ok (), st')"
    by (simp add: store_pop_block_def height Let_def on_files_def rename_file_def remove_file_def f
        get_last_block_hash_def lb tip [unfolded st1_def fs_def] st'_def st1_def fs_def)
  have "log_files st' chain"
    using files by (auto simp: log_files_def st'_def st1_def fs_def nth_append)
  moreover have "log_index (block_index st') chain"
    using log_index_remove [OF ix lt fresh] by (simp add: st'_def st1_def)
  ultimately have "store_represents st' chain"
    using st lt by (simp add: store_represents_def st'_def st1_def)
  with run show ?thesis by (auto simp: st'_def st1_def)
qed

definition store_push :: "'z store_env_scheme \<Rightarrow> log_entry \<Rightarrow> BlockStore \<Rightarrow> BlockStore option" where
  "store_push E e st =
     (case store_add_block E (fst e) (snd e) st of (Ok _, st') \<Rightarrow> Some st' | _ \<Rightarrow> None)"

definition store_pop :: "BlockStore \<Rightarrow> BlockStore option" where
  "store_pop st = (case store_pop_block st of (Ok _, st') \<Rightarrow> Some st' | _ \<Rightarrow> None)"

definition store_fetch :: "BlockStore \<Rightarrow> nat \<Rightarrow> log_entry option" where
  "store_fetch st h =
     (case (get_block_by_height st h,
            res_ok (load_utxo_diffs_from_path (files st) (utxo_diffs_path_by_height st h))) of
        (Some b, Some d) \<Rightarrow> Some (b, d) | _ \<Rightarrow> None)"

interpretation store: block_log store_represents "can_append E" "store_push E" store_pop store_fetch
  for E
proof
  show "\<exists>s'. store_push E b s = Some s' \<and> store_represents s' (xs @ [b])"
    if "store_represents s xs" "can_append E xs b" for s xs b
    using store_add_block_represents [of s xs E "fst b" "snd b"] that by (auto simp: store_push_def)
  show "\<exists>s'. store_pop s = Some s' \<and> store_represents s' xs"
    if "store_represents s (xs @ [b])" for s xs b
    using store_pop_block_represents [OF that] by (auto simp: store_pop_def)
  show "store_pop s = None" if "store_represents s []" for s
    using that by (simp add: store_pop_def store_pop_block_def store_represents_def get_height_def)
  show "store_fetch s i = (if i < length xs then Some (xs ! i) else None)"
    if "store_represents s xs" for s xs i
    using that get_block_by_height_represents [OF that, of i]
    by (auto simp: store_fetch_def store_represents_def log_files_def load_utxo_diffs_from_path_def
        res_ok_def)
qed

section \<open>The queries\<close>

lemma get_last_utxo_diffs_represents:
  "store_represents st (chain @ [e]) \<Longrightarrow> get_last_utxo_diffs chk st = Ok (Some (snd e))"
  by (simp add: get_last_utxo_diffs_def get_height_def store_represents_def log_files_def
      load_utxo_diffs_from_path_def res_ok_def)

lemma get_last_block_represents:
  "store_represents st (chain @ [e]) \<Longrightarrow> get_last_block st = Some (fst e)"
  by (simp add: get_last_block_def get_block_by_height_represents get_height_def)
    (simp add: store_represents_def)

lemma get_block_height_by_hash_represents:
  assumes "store_represents st chain"
  shows "get_block_height_by_hash st k = Ok (position (\<lambda>e. entry_hash e = k) chain)"
proof -
  have "from_bytes_be (be_bytes 8 i) = i" if "position (\<lambda>e. entry_hash e = k) chain = Some i" for i
    using position_lt [OF that] assms by (simp add: from_bytes_be_be_bytes store_represents_def)
  then show ?thesis
    using assms
    by (auto simp: get_block_height_by_hash_def store_represents_def log_index_def split: option.split)
qed

lemma get_block_hash_by_height_represents:
  assumes "store_represents st chain" and "h < 2 ^ 64"
  shows "get_block_hash_by_height st h = Ok (if h < length chain then Some (entry_hash (chain ! h)) else None)"
proof -
  have "hash_new_from_buf (word_from_be_bytes (hash_dump_buf k)) = k" for k
    by (cases k) (simp add: hash_new_from_buf_def hash_dump_buf_def word_be_bytes_inverse)
  then show ?thesis
    using assms
    by (auto simp: get_block_hash_by_height_def store_represents_def log_index_def hash_dump_buf_def)
qed

lemma get_block_by_hash_represents:
  assumes "store_represents st chain"
  shows "get_block_by_hash st k = Ok (map_option fst (find (\<lambda>e. entry_hash e = k) chain))"
proof -
  have "find P xs = map_option ((!) xs) (position P xs)" for P and xs :: "log_entry list"
    by (induction xs) (auto simp: option.map_comp comp_def)
  then show ?thesis
    using position_lt [of "\<lambda>e. entry_hash e = k" chain]
    by (auto simp: get_block_by_hash_def get_block_height_by_hash_represents [OF assms]
        get_block_by_height_represents [OF assms] split: option.split)
qed

lemma iter_blocks_represents:
  "store_represents st chain \<Longrightarrow> iter_blocks st = map (Ok \<circ> fst) chain"
  by (intro nth_equalityI)
    (auto simp: iter_blocks_def get_height_def store_represents_def log_files_def
      load_block_from_path_def)

text \<open>The transaction that is found is the first of its id in the newest block that has one.\<close>

lemma get_transaction_below_represents:
  assumes "store_represents st chain" and "n \<le> length chain"
  shows "get_transaction_below st i n = Some (tx, b, h) \<longleftrightarrow>
    h < n \<and> b = fst (chain ! h) \<and> find (\<lambda>tx. transaction_id tx = Some i) (transactions b) = Some tx
    \<and> (\<forall>k. h < k \<longrightarrow> k < n \<longrightarrow> (\<forall>tx \<in> set (transactions (fst (chain ! k))). transaction_id tx \<noteq> Some i))"
  using assms(2)
proof (induction n)
  case (Suc n)
  have b: "get_block_by_height st n = Some (fst (chain ! n))"
    using Suc.prems get_block_by_height_represents [OF assms(1), of n] by simp
  show ?case
  proof (cases "find (\<lambda>tx. transaction_id tx = Some i) (transactions (fst (chain ! n)))")
    case None
    then have "get_transaction_below st i (Suc n) = get_transaction_below st i n" using b by simp
    moreover have "\<forall>tx \<in> set (transactions (fst (chain ! n))). transaction_id tx \<noteq> Some i"
      using None by (auto simp: find_None_iff)
    ultimately show ?thesis using Suc None by (auto simp: less_Suc_eq)
  next
    case (Some t)
    then have "\<exists>tx \<in> set (transactions (fst (chain ! n))). transaction_id tx = Some i"
      by (auto simp: find_Some_iff)
    with Some b show ?thesis by (auto simp: less_Suc_eq)
  qed
qed simp

end
