(* ===== verification/Difficulty.thy ===== *)
theory Difficulty
  imports Blocks
begin

text \<open>
  \<open>DifficultyState\<close> of \<open>core/difficulty.rs\<close>: the base targets of blocks and transactions, and how a
  new block moves them.  The locks of the source hold plain values, so the state is a record and
  \<open>update_difficulty\<close> returns the new one.
\<close>

section \<open>Definitions\<close>

definition STARTING_BLOCK_DIFFICULTY :: buf32 where "STARTING_BLOCK_DIFFICULTY = -1"
definition STARTING_TX_DIFFICULTY :: buf32 where "STARTING_TX_DIFFICULTY = -1"

record DifficultyState =
  block_difficulty :: buf32
  transaction_difficulty :: buf32
  last_timestamp :: u64

definition difficulty_new_default :: DifficultyState where
  "difficulty_new_default =
     \<lparr>block_difficulty = STARTING_BLOCK_DIFFICULTY,
      transaction_difficulty = STARTING_TX_DIFFICULTY, last_timestamp = 0\<rparr>"

text \<open>After SCIP-2: the factor, in millionths, for a block \<open>actual\<close> seconds after its predecessor.\<close>

definition scip2_scaled :: "nat \<Rightarrow> nat" where
  "scip2_scaled elapsed =
     (let actual_time = f64_of_nat (max elapsed 1);
          target_time = f64_of_nat (unat TARGET_TIME);
          error = fdiv (fsub target_time actual_time) target_time;
          adj = fdiv error DIFFICULTY_ADJUST_DIVISOR;
          adj = f64_clamp adj (- MAX_BLOCK_DIFFICULTY_ADJUST) MAX_BLOCK_DIFFICULTY_ADJUST;
          ratio = fsub 1 adj
      in f64_as_nat 64 (fmul ratio (f64_of_nat DIFF_ADJUST_SCALE)))"

text \<open>Before SCIP-2: the factor in thousandths.\<close>

definition time_ratio :: "nat \<Rightarrow> nat" where
  "time_ratio elapsed =
     f64_as_nat 64 (fmul
       (clamp_f (fdiv (f64_of_nat elapsed) (f64_of_nat 20)) (fl (8 / 10)) (fsub 2 (fl (8 / 10)))) 1000)"

definition tx_ratio :: "usize \<Rightarrow> nat" where
  "tx_ratio tx_count =
     f64_as_nat 64 (fmul
       (clamp_f (fdiv (f64_of_nat TX_TARGET) (f64_of_nat (max tx_count 1)))
          MAX_TX_DIFF_CHANGE (fsub 2 MAX_TX_DIFF_CHANGE)) 1000)"

definition update_difficulty :: "Block \<Rightarrow> DifficultyState \<Rightarrow> DifficultyState" where
  "update_difficulty new_block d =
     (let elapsed = unat (saturating_sub (timestamp new_block) (last_timestamp d));
          d1 = (if SCIP_2_MIGRATION < timestamp new_block
                then let target = biguint_of (block_difficulty d);
                         target = target * scip2_scaled elapsed div DIFF_ADJUST_SCALE;
                         target = min (max target (biguint_of MIN_BLOCK_DIFFICULTY)) max_256_bui
                     in d\<lparr>block_difficulty := biguint_to_32_bytes target\<rparr>
                else let block_big = biguint_of (block_difficulty d);
                         block_big = block_big * time_ratio elapsed div 1000
                     in d\<lparr>block_difficulty :=
                            biguint_to_32_bytes (max (min block_big max_256_bui) 0)\<rparr>);
          tx_big = biguint_of (transaction_difficulty d1);
          tx_big = tx_big * tx_ratio (length (transactions new_block)) div 1000;
          d2 = d1\<lparr>transaction_difficulty := biguint_to_32_bytes (max (min tx_big max_256_bui) 0)\<rparr>
      in d2\<lparr>last_timestamp := timestamp new_block\<rparr>)"

definition get_block_difficulty :: "DifficultyState \<Rightarrow> buf32" where
  "get_block_difficulty d = block_difficulty d"

definition get_transaction_difficulty :: "DifficultyState \<Rightarrow> buf32" where
  "get_transaction_difficulty d = transaction_difficulty d"

section \<open>The factors\<close>

lemma max_adjust_value: "MAX_BLOCK_DIFFICULTY_ADJUST = 7205759403792794 / 2 ^ 57"
  using fl_nearest [of 7205759403792794 "5 / 100" 57] by (simp add: MAX_BLOCK_DIFFICULTY_ADJUST_def)

lemma four_fifths: "fl (4 / 5) = 3602879701896397 / 4503599627370496"
  using fl_nearest [of 7205759403792794 "8 / 10" 53] by simp

lemma six_fifths: "fsub 2 (fl (4 / 5)) = 5404319552844595 / 4503599627370496"
  using fl_nearest [of 5404319552844595 "2 - 7205759403792794 / 2 ^ 53" 52]
  by (simp add: fsub_def four_fifths)

lemma scip2_mono: "m \<le> n \<Longrightarrow> scip2_scaled m \<le> scip2_scaled n"
  unfolding scip2_scaled_def Let_def fmul_def fdiv_def fsub_def
  by (intro f64_as_nat_mono fl_mono mult_right_mono diff_left_mono f64_clamp_mono divide_right_mono
      f64_of_nat_mono max.mono)
    (simp_all add: max_adjust_value TARGET_TIME_def DIFFICULTY_ADJUST_DIVISOR_def f64_of_nat_def
      fl_numeral DIFF_ADJUST_SCALE_def)

text \<open>A block exactly on time leaves the target as it is.\<close>

lemma scip2_on_time: "scip2_scaled 35 = 1000000"
  by (simp add: scip2_scaled_def fmul_def fdiv_def fsub_def f64_of_nat_def fl_numeral econ
      f64_clamp_def f64_as_nat_def max_adjust_value)

text \<open>No block moves the target by more than five hundredths.\<close>

lemma scip2_bounds: "950000 \<le> scip2_scaled n" "scip2_scaled n \<le> 1050000"
proof -
  define adj where "adj = f64_clamp
    (fdiv (fdiv (fsub (f64_of_nat (unat TARGET_TIME)) (f64_of_nat (max n 1)))
      (f64_of_nat (unat TARGET_TIME))) DIFFICULTY_ADJUST_DIVISOR)
    (- MAX_BLOCK_DIFFICULTY_ADJUST) MAX_BLOCK_DIFFICULTY_ADJUST"
  have adj: "- MAX_BLOCK_DIFFICULTY_ADJUST \<le> adj" "adj \<le> MAX_BLOCK_DIFFICULTY_ADJUST"
    unfolding adj_def by (rule f64_clamp_bounds [THEN conjunct1] f64_clamp_bounds [THEN conjunct2],
        simp add: max_adjust_value)+
  have eq: "scip2_scaled n = f64_as_nat 64 (fl (fl (1 - adj) * 1000000))"
    by (simp add: scip2_scaled_def Let_def adj_def fmul_def fsub_def f64_of_nat_def fl_numeral
        DIFF_ADJUST_SCALE_def)
  have "fl (fl (1 - MAX_BLOCK_DIFFICULTY_ADJUST) * 1000000) \<le> fl (fl (1 - adj) * 1000000)"
    "fl (fl (1 - adj) * 1000000) \<le> fl (fl (1 + MAX_BLOCK_DIFFICULTY_ADJUST) * 1000000)"
    using adj by (intro fl_mono mult_right_mono; simp)+
  moreover have "fl (1 - MAX_BLOCK_DIFFICULTY_ADJUST) = 8556839292003942 / 2 ^ 53"
    unfolding max_adjust_value
    using fl_nearest [of 8556839292003942 "1 - 7205759403792794 / 2 ^ 57" 53] by simp
  moreover have "fl (1 + MAX_BLOCK_DIFFICULTY_ADJUST) = 4728779608739021 / 2 ^ 52"
    unfolding max_adjust_value
    using fl_nearest [of 4728779608739021 "1 + 7205759403792794 / 2 ^ 57" 52] by simp
  moreover have "fl (8556839292003942 / 2 ^ 53 * 1000000) = 950000"
    using fl_nearest [of 8160437862400000 "8556839292003942 / 2 ^ 53 * 1000000" 33] by simp
  moreover have "fl (4728779608739021 / 2 ^ 52 * 1000000) = 1050000"
    using fl_nearest [of 4509715660800000 "4728779608739021 / 2 ^ 52 * 1000000" 32] by simp
  ultimately have "of_nat 950000 \<le> fl (fl (1 - adj) * 1000000)"
    "fl (fl (1 - adj) * 1000000) \<le> of_nat 1050000" by simp_all
  then show "950000 \<le> scip2_scaled n" "scip2_scaled n \<le> 1050000"
    unfolding eq by (rule f64_as_nat_between; simp)+
qed

lemma four_fifths_le: "fl (4 / 5) \<le> fsub 2 (fl (4 / 5))"
  unfolding six_fifths by (simp add: four_fifths)

lemma ratio_bounds:
  "800 \<le> f64_as_nat 64 (fmul (clamp_f x (fl (4 / 5)) (fsub 2 (fl (4 / 5)))) 1000)"
  "f64_as_nat 64 (fmul (clamp_f x (fl (4 / 5)) (fsub 2 (fl (4 / 5)))) 1000) \<le> 1200"
proof -
  have "fl (4 / 5) \<le> clamp_f x (fl (4 / 5)) (fsub 2 (fl (4 / 5)))"
    "clamp_f x (fl (4 / 5)) (fsub 2 (fl (4 / 5))) \<le> fsub 2 (fl (4 / 5))"
    using clamp_f_bounds [OF four_fifths_le] by blast+
  then have "fl (fl (4 / 5) * 1000) \<le> fmul (clamp_f x (fl (4 / 5)) (fsub 2 (fl (4 / 5)))) 1000"
    "fmul (clamp_f x (fl (4 / 5)) (fsub 2 (fl (4 / 5)))) 1000 \<le> fl (fsub 2 (fl (4 / 5)) * 1000)"
    unfolding fmul_def by (intro fl_mono mult_right_mono; simp)+
  moreover have "fl (fl (4 / 5) * 1000) = 800" unfolding four_fifths
    using fl_nearest [of 7036874417766400 "3602879701896397 / 4503599627370496 * 1000" 43] by simp
  moreover have "fl (fsub 2 (fl (4 / 5)) * 1000) = 1200" unfolding six_fifths
    using fl_nearest [of 5277655813324800 "5404319552844595 / 4503599627370496 * 1000" 42] by simp
  ultimately have *: "of_nat 800 \<le> fmul (clamp_f x (fl (4 / 5)) (fsub 2 (fl (4 / 5)))) 1000"
    "fmul (clamp_f x (fl (4 / 5)) (fsub 2 (fl (4 / 5)))) 1000 \<le> of_nat 1200" by simp_all
  then show "800 \<le> f64_as_nat 64 (fmul (clamp_f x (fl (4 / 5)) (fsub 2 (fl (4 / 5)))) 1000)"
    "f64_as_nat 64 (fmul (clamp_f x (fl (4 / 5)) (fsub 2 (fl (4 / 5)))) 1000) \<le> 1200"
    by (rule f64_as_nat_between; simp)+
qed

lemma time_ratio_bounds: "800 \<le> time_ratio n" "time_ratio n \<le> 1200"
  using ratio_bounds [of "fdiv (f64_of_nat n) (f64_of_nat 20)"] by (simp_all add: time_ratio_def)

lemma tx_ratio_bounds: "800 \<le> tx_ratio n" "tx_ratio n \<le> 1200"
  using ratio_bounds [of "fdiv (f64_of_nat TX_TARGET) (f64_of_nat (max n 1))"]
  by (simp_all add: tx_ratio_def MAX_TX_DIFF_CHANGE_def)

lemma time_ratio_mono: "m \<le> n \<Longrightarrow> time_ratio m \<le> time_ratio n"
  unfolding time_ratio_def fmul_def fdiv_def
  by (intro f64_as_nat_mono fl_mono mult_right_mono clamp_f_mono divide_right_mono f64_of_nat_mono)
    (simp_all add: f64_of_nat_def fl_numeral)

lemma tx_ratio_antimono:
  assumes "m \<le> n" shows "tx_ratio n \<le> tx_ratio m"
proof -
  have "0 < f64_of_nat (max m 1)" by (simp add: f64_of_nat_def fl_gt_0)
  moreover have "f64_of_nat (max m 1) \<le> f64_of_nat (max n 1)"
    using assms by (intro f64_of_nat_mono max.mono) auto
  ultimately have "f64_of_nat TX_TARGET / f64_of_nat (max n 1)
      \<le> f64_of_nat TX_TARGET / f64_of_nat (max m 1)"
    by (intro divide_left_mono mult_pos_pos)
      (simp_all add: f64_of_nat_def fl_numeral TX_TARGET_def)
  then show ?thesis
    unfolding tx_ratio_def fmul_def fdiv_def
    by (intro f64_as_nat_mono fl_mono mult_right_mono clamp_f_mono) simp_all
qed

section \<open>The new targets\<close>

definition scale_capped :: "buf32 \<Rightarrow> nat \<Rightarrow> nat \<Rightarrow> nat" where
  "scale_capped d k s = min (unat d * k div s) max_256_bui"

lemma update_difficulty_fields:
  "unat (block_difficulty (update_difficulty b d)) =
     (let e = unat (timestamp b) - unat (last_timestamp d)
      in if SCIP_2_MIGRATION < timestamp b
         then scale_capped (block_difficulty d) (scip2_scaled e) 1000000
         else scale_capped (block_difficulty d) (time_ratio e) 1000)"
  "unat (transaction_difficulty (update_difficulty b d)) =
     scale_capped (transaction_difficulty d) (tx_ratio (length (transactions b))) 1000"
  "last_timestamp (update_difficulty b d) = timestamp b"
  by (simp_all add: update_difficulty_def Let_def scale_capped_def MIN_BLOCK_DIFFICULTY_def
      DIFF_ADJUST_SCALE_def unat_saturating_sub biguint_to_32_bytes_small)

lemma scale_capped_mono: "unat d \<le> unat d' \<Longrightarrow> k \<le> k' \<Longrightarrow> scale_capped d k s \<le> scale_capped d' k' s"
  unfolding scale_capped_def by (intro min.mono div_le_mono mult_le_mono) auto

lemma scale_capped_same: "0 < s \<Longrightarrow> scale_capped d s s = unat d"
  using unat_buf32_le_max [of d] by (simp add: scale_capped_def)

lemma scale_capped_bounds:
  assumes "lo \<le> k" "k \<le> hi"
  shows "min (unat d * lo div s) max_256_bui \<le> scale_capped d k s"
    and "scale_capped d k s \<le> unat d * hi div s"
proof -
  have "unat d * lo div s \<le> unat d * k div s" "unat d * k div s \<le> unat d * hi div s"
    using assms by (auto intro!: div_le_mono)
  then show "min (unat d * lo div s) max_256_bui \<le> scale_capped d k s"
    "scale_capped d k s \<le> unat d * hi div s" by (auto simp: scale_capped_def)
qed

text \<open>Zero is a target that no block leaves.\<close>

lemma zero_target_stays: "block_difficulty d = 0 \<Longrightarrow> block_difficulty (update_difficulty b d) = 0"
  by (simp add: word_unat_eq_iff update_difficulty_fields scale_capped_def Let_def)

end
