(* ===== verification/Blockchain.thy ===== *)
theory Blockchain
  imports Chain_Log Difficulty
begin

text \<open>
  \<open>core/blockchain.rs\<close>: the chain state (blocks on disk, unspent outputs, difficulty, the saved
  summary), adding and popping a block, loading and saving, and the timestamp checks.  An operation
  returns the state it leaves also when it fails, because nothing is rolled back.
\<close>

section \<open>State\<close>

datatype BlockchainError =
    Io string
  | BincodeDecode string
  | BincodeEncode string
  | IncompleteBlockC
  | InvalidTransaction string
  | DoubleSpend
  | RewardOverspend
  | InvalidRewardTransaction
  | InvalidRewardTransactionAmount
  | RewardTransactionIdMissing
  | NoDevFee
  | NoBlocksToPop
  | BlockNotFound
  | InvalidTimestamp
  | InvalidPreviousBlockHash
  | TooManyTransactions
  | BlockC BlockError
  | BlockStoreC BlockStoreError
  | UTXOsC string
  | LiveTransactionDifficulty

definition of_tx_error :: "TransactionError \<Rightarrow> BlockchainError" where
  "of_tx_error err = InvalidTransaction (tx_error_to_string err)"

record BlockchainData =
  data_difficulty_state :: DifficultyState
  data_height :: usize
  data_last_block :: Hash

text \<open>\<open>info_file\<close> is what \<open>blockchain-info.dat\<close> decodes to, if it does.\<close>

record Blockchain =
  blockchain_path :: string
  block_store :: BlockStore
  utxos :: UTXOs
  difficulty_state :: DifficultyState
  info_file :: "BlockchainData option"

record chain_env = store_env +
  encode_data :: "BlockchainData \<Rightarrow> string + u8 list"

text \<open>What is on disk under the path of a blockchain.\<close>

record disk =
  disk_blocks :: files
  disk_index :: BlockIndex
  disk_utxos :: UTXOs
  disk_info :: "BlockchainData option"

definition chain_directory :: "string \<Rightarrow> string" where
  "chain_directory path =
     (if path \<noteq> [] \<and> last path = CHR ''/'' then path else path @ ''/'') @ ''blockchain/''"

definition load_blockchain_data :: "disk \<Rightarrow> (BlockchainData, BlockchainError) result" where
  "load_blockchain_data d = ok_or (disk_info d) (Io not_found)"

definition blockchain_new :: "string \<Rightarrow> disk \<Rightarrow> Blockchain" where
  "blockchain_new path d =
     (let p = chain_directory path
      in case load_blockchain_data d of
           Ok blockchain_data \<Rightarrow>
             \<lparr>blockchain_path = p,
              block_store = store_load (p @ ''blocks/'') (data_height blockchain_data)
                (data_last_block blockchain_data) (disk_index d) (disk_blocks d),
              utxos = disk_utxos d, difficulty_state = data_difficulty_state blockchain_data,
              info_file = disk_info d\<rparr>
         | _ \<Rightarrow>
             \<lparr>blockchain_path = p,
              block_store = store_new_empty (p @ ''blocks/'') (disk_index d) (disk_blocks d),
              utxos = disk_utxos d, difficulty_state = difficulty_new_default,
              info_file = disk_info d\<rparr>)"

text \<open>Creating the file empties it: an encoding that fails leaves nothing that decodes.\<close>

definition save_blockchain_data ::
  "'z chain_env_scheme \<Rightarrow> Blockchain \<Rightarrow> (unit, BlockchainError, Blockchain) run"
where
  "save_blockchain_data E bc =
     (let d = \<lparr>data_difficulty_state = difficulty_state bc, data_height = get_height (block_store bc),
               data_last_block = get_last_block_hash (block_store bc)\<rparr>
      in case encode_data E d of
           Inl e \<Rightarrow> (Err (BincodeEncode e), bc\<lparr>info_file := None\<rparr>)
         | Inr _ \<Rightarrow> (Ok (), bc\<lparr>info_file := Some d\<rparr>))"

definition chain_block_difficulty :: "Blockchain \<Rightarrow> buf32" where
  "chain_block_difficulty bc = block_difficulty (difficulty_state bc)"

definition chain_transaction_difficulty :: "Blockchain \<Rightarrow> buf32" where
  "chain_transaction_difficulty bc = transaction_difficulty (difficulty_state bc)"

section \<open>Timestamps\<close>

definition validate_transaction_timestamp_in_block ::
  "bool \<Rightarrow> Transaction \<Rightarrow> Block \<Rightarrow> (unit, BlockchainError) result"
where
  "validate_transaction_timestamp_in_block chk tx owning_block =
     (if timestamp owning_block < tx_timestamp tx then Err InvalidTimestamp
      else bind_res (add_u chk (tx_timestamp tx) EXPIRATION_TIME) (\<lambda>expires.
        if expires < timestamp owning_block then Err InvalidTimestamp else Ok ()))"

text \<open>The clock is read once for each test.\<close>

definition validate_timestamp :: "bool \<Rightarrow> u64 \<Rightarrow> u64 \<Rightarrow> u64 \<Rightarrow> (unit, BlockchainError) result" where
  "validate_timestamp chk now now' ts =
     bind_res (sub_u chk ts EXPIRATION_TIME) (\<lambda>early.
     if now < early then Err InvalidTimestamp
     else bind_res (add_u chk ts EXPIRATION_TIME) (\<lambda>late.
       if late < now' then Err InvalidTimestamp else Ok ()))"

definition validate_transaction_timestamp ::
  "bool \<Rightarrow> u64 \<Rightarrow> u64 \<Rightarrow> Transaction \<Rightarrow> (unit, BlockchainError) result"
where
  "validate_transaction_timestamp chk now now' tx = validate_timestamp chk now now' (tx_timestamp tx)"

definition validate_block_timestamp ::
  "bool \<Rightarrow> u64 \<Rightarrow> u64 \<Rightarrow> Block \<Rightarrow> (unit, BlockchainError) result"
where
  "validate_block_timestamp chk now now' b = validate_timestamp chk now now' (timestamp b)"

section \<open>Adding a block\<close>

fun insert_inputs :: "TransactionInput list \<Rightarrow> outpoint set \<Rightarrow> (outpoint set, BlockchainError) result" where
  "insert_inputs [] used = Ok used"
| "insert_inputs (i # is) used =
     (if (input_tx_id i, output_index i) \<in> used then Err DoubleSpend
      else insert_inputs is (insert (input_tx_id i, output_index i) used))"

fun sum_outputs :: "TransactionOutput list \<Rightarrow> u64 \<Rightarrow> (u64, BlockchainError) result" where
  "sum_outputs [] out_sum = Ok out_sum"
| "sum_outputs (out # outs) out_sum =
     bind_res (ok_or (checked_add out_sum (amount out)) (of_tx_error OverflowError)) (sum_outputs outs)"

definition check_reward_transaction ::
  "'z tx_env_scheme \<Rightarrow> usize \<Rightarrow> bool \<Rightarrow> Transaction \<Rightarrow> (unit, BlockchainError) result"
where
  "check_reward_transaction E height is_ibd tx =
     (if length (outputs tx) < 2 then Err InvalidRewardTransaction
      else case transaction_id tx of
        None \<Rightarrow> Err RewardTransactionIdMissing
      | Some tx_id \<Rightarrow>
          bind_res
            (if is_ibd then Ok True
             else bind_res (map_err (\<lambda>_. BlockC EncodeErrorB) (get_tx_hashing_buf E tx)) (\<lambda>buf.
                    Ok (compare_with_data E tx_id buf))) (\<lambda>hash_ok.
          if \<not> hash_ok then Err (of_tx_error (InvalidHash (hash_dump_base36 tx_id)))
          else
            bind_res (sum_outputs (outputs tx) 0) (\<lambda>out_sum.
            bind_res (get_block_reward (overflow_checks E) height) (\<lambda>reward.
            if out_sum \<noteq> reward then Err InvalidRewardTransactionAmount
            else if \<not> list_ex (\<lambda>out. receiver out = DEV_WALLET \<and> amount out = calculate_dev_fee reward)
                      (outputs tx)
            then Err NoDevFee
            else Ok ()))))"

text \<open>One round of the loop over the transactions: the used inputs, and whether a reward was seen.\<close>

definition check_block_transaction ::
  "'z tx_env_scheme \<Rightarrow> Blockchain \<Rightarrow> bool \<Rightarrow> Block \<Rightarrow> Transaction \<Rightarrow> outpoint set \<times> bool
     \<Rightarrow> (outpoint set \<times> bool, BlockchainError) result"
where
  "check_block_transaction E bc is_ibd new_block tx s =
     (case s of (used_inputs, seen_reward) \<Rightarrow>
        if inputs tx \<noteq> [] then
          bind_res (map_err of_tx_error (validate_transaction E (utxos bc) tx
              (biguint_of (chain_transaction_difficulty bc)) is_ibd)) (\<lambda>_.
          bind_res (insert_inputs (inputs tx) used_inputs) (\<lambda>used.
          bind_res (validate_transaction_timestamp_in_block (overflow_checks E) tx new_block) (\<lambda>_.
            Ok (used, seen_reward))))
        else if seen_reward then Err RewardOverspend
        else bind_res (check_reward_transaction E (get_height (block_store bc)) is_ibd tx) (\<lambda>_.
          Ok (used_inputs, True)))"

text \<open>Everything that \<open>add_block\<close> checks before it changes anything.\<close>

definition check_block ::
  "'z block_env_scheme \<Rightarrow> Block \<Rightarrow> bool \<Rightarrow> bool \<Rightarrow> Blockchain \<Rightarrow> (unit, BlockchainError) result"
where
  "check_block E new_block is_ibd skip_block_hashing bc =
     bind_res (map_err BlockC
       (if skip_block_hashing then check_meta_ignore_hash E new_block else check_meta E new_block)) (\<lambda>_.
     bind_res (map_err BlockC (validate_difficulties new_block
         (chain_block_difficulty bc) (chain_transaction_difficulty bc))) (\<lambda>_.
     if get_last_block_hash (block_store bc) \<noteq> previous_block (meta new_block)
     then Err InvalidPreviousBlockHash
     else if MAX_TRANSACTIONS_PER_BLOCK < length (transactions new_block)
     then Err TooManyTransactions
     else bind_res (for_each (check_block_transaction E bc is_ibd new_block)
            (transactions new_block) ({}, False)) (\<lambda>_. Ok ())))"

definition on_utxos ::
  "(UTXOs \<Rightarrow> ('a, TransactionError, UTXOs) run) \<Rightarrow> Blockchain \<Rightarrow> ('a, BlockchainError, Blockchain) run"
where
  "on_utxos f bc = (case f (utxos bc) of (r, u) \<Rightarrow> (map_err of_tx_error r, bc\<lparr>utxos := u\<rparr>))"

definition on_store ::
  "(BlockStore \<Rightarrow> ('a, BlockStoreError, BlockStore) run) \<Rightarrow> Blockchain
     \<Rightarrow> ('a, BlockchainError, Blockchain) run"
where
  "on_store f bc =
     (case f (block_store bc) of (r, st) \<Rightarrow> (map_err BlockStoreC r, bc\<lparr>block_store := st\<rparr>))"

definition apply_block ::
  "'z chain_env_scheme \<Rightarrow> Block \<Rightarrow> Blockchain \<Rightarrow> (unit, BlockchainError, Blockchain) run"
where
  "apply_block E new_block bc =
     bind_run (on_utxos (execute_all (transactions new_block) diff_new_empty) bc) (\<lambda>utxo_diffs bc.
     let bc = bc\<lparr>difficulty_state := update_difficulty new_block (difficulty_state bc)\<rparr>
     in bind_run (on_store (store_add_block E new_block utxo_diffs) bc) (\<lambda>_ bc.
        save_blockchain_data E bc))"

definition add_block ::
  "'z chain_env_scheme \<Rightarrow> Block \<Rightarrow> bool \<Rightarrow> bool \<Rightarrow> Blockchain
     \<Rightarrow> (unit, BlockchainError, Blockchain) run"
where
  "add_block E new_block is_ibd skip_block_hashing bc =
     bind_run (check_block E new_block is_ibd skip_block_hashing bc, bc) (\<lambda>_ bc.
       apply_block E new_block bc)"

section \<open>Removing the last block\<close>

definition restore_difficulty :: "Block \<Rightarrow> Blockchain \<Rightarrow> Blockchain" where
  "restore_difficulty recalled_block bc =
     bc\<lparr>difficulty_state :=
       \<lparr>block_difficulty = block_pow_difficulty (meta recalled_block),
        transaction_difficulty = tx_pow_difficulty (meta recalled_block),
        last_timestamp =
          (case (if 0 < get_height (block_store bc) then get_last_block (block_store bc) else None) of
             Some b \<Rightarrow> timestamp b
           | None \<Rightarrow> timestamp recalled_block)\<rparr>\<rparr>"

definition pop_block :: "'z chain_env_scheme \<Rightarrow> Blockchain \<Rightarrow> (unit, BlockchainError, Blockchain) run" where
  "pop_block E bc =
     (if get_height (block_store bc) = 0 then (Err NoBlocksToPop, bc)
      else
        bind_run (ok_or (get_last_block (block_store bc)) BlockNotFound, bc) (\<lambda>recalled_block bc.
        bind_run (bind_res (get_last_utxo_diffs (overflow_checks E) (block_store bc))
            (\<lambda>d. ok_or d BlockNotFound), bc) (\<lambda>utxo_diffs bc.
        bind_run (on_utxos (recall_block_utxos utxo_diffs) bc) (\<lambda>_ bc.
        bind_run (on_store store_pop_block bc) (\<lambda>_ bc.
          save_blockchain_data E (restore_difficulty recalled_block bc))))))"

end
