(* ===== verification/Chain_Validation.thy ===== *)
theory Chain_Validation
  imports Blockchain
begin

text \<open>
  What \<open>check_block\<close>, the first half of \<open>add_block\<close>, accepts: the specification of a valid block over
  the ledger, the targets and the tip of the chain, and what follows for executing it.
\<close>

section \<open>The loops\<close>

lemma insert_inputs_Ok_iff:
  "insert_inputs is used = Ok used' \<longleftrightarrow>
     distinct (map input_key is) \<and> input_key ` set is \<inter> used = {} \<and> used' = used \<union> input_key ` set is"
  by (induction "is" arbitrary: used) (auto simp: input_key_def)

lemma sum_outputs_Ok_iff:
  "sum_outputs outs s = Ok s' \<longleftrightarrow> unat s' = unat s + (\<Sum>out \<leftarrow> outs. unat (amount out))"
proof (induction outs arbitrary: s)
  case Nil
  then show ?case by (auto simp: word_unat_eq_iff)
next
  case (Cons out outs)
  show ?case using checked_add_chain [of s "amount out" s'] by (auto simp: res_simps Cons.IH)
qed

lemma validate_transaction_timestamp_in_block_Ok:
  assumes "unat (tx_timestamp tx) + 350 < 2 ^ 64"
  shows "validate_transaction_timestamp_in_block chk tx b = Ok u \<longleftrightarrow>
    unat (tx_timestamp tx) \<le> unat (timestamp b) \<and> unat (timestamp b) \<le> unat (tx_timestamp tx) + 350"
proof -
  have "unat EXPIRATION_TIME = 350" by (simp add: EXPIRATION_TIME_eq)
  moreover have "unat (tx_timestamp tx) + unat EXPIRATION_TIME < 2 ^ LENGTH(64)"
    using assms by (simp add: EXPIRATION_TIME_eq)
  ultimately show ?thesis
    by (auto simp: validate_transaction_timestamp_in_block_def word_less_nat_alt not_less
        unat_add_no_overflow)
qed

section \<open>Valid blocks\<close>

definition valid_reward :: "'z tx_env_scheme \<Rightarrow> usize \<Rightarrow> bool \<Rightarrow> Transaction \<Rightarrow> bool" where
  "valid_reward E height is_ibd tx \<longleftrightarrow>
     2 \<le> length (outputs tx)
     \<and> (\<exists>tx_id. transaction_id tx = Some tx_id
         \<and> (is_ibd \<or> (\<exists>buf. get_tx_hashing_buf E tx = Ok buf \<and> tx_id = hash_new E buf)))
     \<and> (\<exists>reward. get_block_reward (overflow_checks E) height = (Ok reward :: (u64, BlockchainError) result)
         \<and> (\<Sum>out \<leftarrow> outputs tx. unat (amount out)) = unat reward
         \<and> (\<exists>out \<in> set (outputs tx). receiver out = DEV_WALLET \<and> amount out = calculate_dev_fee reward))"

lemma compare_iff: "compare_with_data C h buf \<longleftrightarrow> h = hash_new C buf"
  by (cases h) (auto simp: compare_with_data_def hash_new_def)

lemma check_reward_transaction_Ok_iff:
  "check_reward_transaction E height is_ibd tx = Ok u \<longleftrightarrow> valid_reward E height is_ibd tx"
proof (cases "transaction_id tx")
  case (Some tx_id)
  have sum: "(\<exists>s. sum_outputs (outputs tx) 0 = Ok s \<and> s = r) \<longleftrightarrow>
      (\<Sum>out \<leftarrow> outputs tx. unat (amount out)) = unat r" for r
    by (auto simp: sum_outputs_Ok_iff)
  have "check_reward_transaction E height is_ibd tx = Ok u \<longleftrightarrow>
      2 \<le> length (outputs tx)
      \<and> (is_ibd \<or> (\<exists>buf. get_tx_hashing_buf E tx = Ok buf \<and> tx_id = hash_new E buf))
      \<and> (\<exists>reward. get_block_reward (overflow_checks E) height = (Ok reward :: (u64, BlockchainError) result)
         \<and> (\<exists>s. sum_outputs (outputs tx) 0 = Ok s \<and> s = reward)
         \<and> (\<exists>out \<in> set (outputs tx). receiver out = DEV_WALLET \<and> amount out = calculate_dev_fee reward))"
    by (cases is_ibd; cases "get_tx_hashing_buf E tx")
      (auto simp: check_reward_transaction_def Some res_simps compare_iff list_ex_iff split: if_splits)
  with Some show ?thesis unfolding sum valid_reward_def by simp
qed (simp add: check_reward_transaction_def valid_reward_def)

definition is_reward :: "Transaction \<Rightarrow> bool" where
  "is_reward tx \<longleftrightarrow> inputs tx = []"

text \<open>The transactions of a block at \<open>height\<close> over the ledger \<open>L\<close>.\<close>

definition valid_transactions ::
  "'z tx_env_scheme \<Rightarrow> ledger \<Rightarrow> usize \<Rightarrow> buf32 \<Rightarrow> bool \<Rightarrow> Block \<Rightarrow> Transaction list \<Rightarrow> bool"
where
  "valid_transactions E L height target is_ibd b txs \<longleftrightarrow>
     (\<forall>tx \<in> set txs. if is_reward tx then valid_reward E height is_ibd tx
        else valid_transfer E L (unat target) is_ibd tx
          \<and> validate_transaction_timestamp_in_block (overflow_checks E) tx b = Ok ())
     \<and> distinct (map input_key (all_inputs txs))
     \<and> length (filter is_reward txs) \<le> 1"

lemma check_block_transaction_Ok_iff:
  "check_block_transaction E bc is_ibd b tx (used, seen) = Ok s \<longleftrightarrow>
     (if is_reward tx
      then \<not> seen \<and> valid_reward E (get_height (block_store bc)) is_ibd tx \<and> s = (used, True)
      else valid_transfer E (ledger_of (utxos bc)) (unat (chain_transaction_difficulty bc)) is_ibd tx
        \<and> distinct (map input_key (inputs tx)) \<and> input_key ` set (inputs tx) \<inter> used = {}
        \<and> validate_transaction_timestamp_in_block (overflow_checks E) tx b = Ok ()
        \<and> s = (used \<union> input_key ` set (inputs tx), seen))"
  by (auto simp: check_block_transaction_def is_reward_def res_simps validate_transaction_Ok_iff
      insert_inputs_Ok_iff check_reward_transaction_Ok_iff)

lemma check_loop_glue:
  "A \<and> D \<and> K \<inter> U = {} \<and> T \<and> V \<and> J \<inter> (U \<union> K) = {} \<and> R \<longleftrightarrow>
     (A \<and> T \<and> D \<and> K \<inter> J = {} \<and> V) \<and> (K \<union> J) \<inter> U = {} \<and> R"
  by blast

lemma check_loop_Ok_iff:
  "(\<exists>s. for_each (check_block_transaction E bc is_ibd b) txs (used, seen) = Ok s) \<longleftrightarrow>
     valid_transactions E (ledger_of (utxos bc)) (get_height (block_store bc))
       (chain_transaction_difficulty bc) is_ibd b txs
     \<and> input_key ` set (all_inputs txs) \<inter> used = {} \<and> (seen \<longrightarrow> filter is_reward txs = [])"
proof (induction txs arbitrary: used seen)
  case Nil
  then show ?case by (simp add: valid_transactions_def all_inputs_def)
next
  case (Cons tx txs)
  show ?case
  proof (cases "is_reward tx")
    case True
    then have "inputs tx = []" by (simp add: is_reward_def)
    have "(\<exists>s. for_each (check_block_transaction E bc is_ibd b) (tx # txs) (used, seen) = Ok s) \<longleftrightarrow>
        \<not> seen \<and> valid_reward E (get_height (block_store bc)) is_ibd tx
        \<and> (\<exists>s. for_each (check_block_transaction E bc is_ibd b) txs (used, True) = Ok s)"
      using True by (simp add: res_simps check_block_transaction_Ok_iff)
    then show ?thesis
      unfolding Cons.IH using True \<open>inputs tx = []\<close>
      by (auto simp: valid_transactions_def all_inputs_def)
  next
    case False
    let ?L = "ledger_of (utxos bc)" and ?h = "get_height (block_store bc)"
      and ?t = "chain_transaction_difficulty bc"
    define K where "K = input_key ` set (inputs tx)"
    define J where "J = input_key ` set (all_inputs txs)"
    have step: "(\<exists>s. for_each (check_block_transaction E bc is_ibd b) (tx # txs) (used, seen) = Ok s) \<longleftrightarrow>
        valid_transfer E ?L (unat ?t) is_ibd tx
        \<and> distinct (map input_key (inputs tx)) \<and> K \<inter> used = {}
        \<and> validate_transaction_timestamp_in_block (overflow_checks E) tx b = Ok ()
        \<and> (\<exists>s. for_each (check_block_transaction E bc is_ibd b) txs (used \<union> K, seen) = Ok s)"
      using False by (simp add: res_simps check_block_transaction_Ok_iff K_def)
    have keys: "input_key ` set (all_inputs (tx # txs)) = K \<union> J"
      by (simp add: K_def J_def all_inputs_def image_Un)
    have vt: "valid_transactions E ?L ?h ?t is_ibd b (tx # txs) \<longleftrightarrow>
      valid_transfer E ?L (unat ?t) is_ibd tx
      \<and> validate_transaction_timestamp_in_block (overflow_checks E) tx b = Ok ()
      \<and> distinct (map input_key (inputs tx)) \<and> K \<inter> J = {}
      \<and> valid_transactions E ?L ?h ?t is_ibd b txs"
      using False by (auto simp: valid_transactions_def all_inputs_def K_def J_def)
    have "filter is_reward (tx # txs) = filter is_reward txs" using False by simp
    then show ?thesis
      unfolding step Cons.IH vt keys J_def [symmetric] by (simp only: check_loop_glue)
  qed
qed

lemma check_block_Ok_iff:
  "check_block E b is_ibd skip bc = Ok u \<longleftrightarrow>
     (if skip then check_meta_ignore_hash E b else check_meta E b) = Ok ()
     \<and> validate_difficulties b (chain_block_difficulty bc) (chain_transaction_difficulty bc) = Ok ()
     \<and> previous_block (meta b) = get_last_block_hash (block_store bc)
     \<and> length (transactions b) \<le> MAX_TRANSACTIONS_PER_BLOCK
     \<and> valid_transactions E (ledger_of (utxos bc)) (get_height (block_store bc))
         (chain_transaction_difficulty bc) is_ibd b (transactions b)"
  using check_loop_Ok_iff [of E bc is_ibd b "transactions b" "{}" False]
  by (auto simp: check_block_def res_simps not_less split: if_splits)

section \<open>Executing a valid block\<close>

text \<open>The ids are new: none has an unspent output, and no two are the same.\<close>

definition new_ids :: "Transaction list \<Rightarrow> ledger \<Rightarrow> bool" where
  "new_ids txs L \<longleftrightarrow>
     distinct (map transaction_id txs)
     \<and> (\<forall>tx \<in> set txs. \<forall>t. transaction_id tx = Some t \<longrightarrow> unused L t)"

lemma valid_transactions_runnable:
  assumes v: "valid_transactions E L h target is_ibd b txs" and "new_ids txs L"
  shows "runnable txs L"
proof -
  have "\<exists>t. transaction_id tx = Some t" if "tx \<in> set txs" for tx
  proof -
    have "valid_reward E h is_ibd tx \<or> valid_transfer E L (unat target) is_ibd tx"
      using v that by (auto simp: valid_transactions_def split: if_splits)
    then show ?thesis by (auto simp: valid_reward_def valid_transfer_def)
  qed
  moreover have "L (input_key i) \<noteq> None" if "tx \<in> set txs" "i \<in> set (inputs tx)" for tx i
  proof -
    have "\<not> is_reward tx" using that by (auto simp: is_reward_def)
    with v that have "valid_transfer E L (unat target) is_ibd tx" by (auto simp: valid_transactions_def)
    with that show ?thesis by (auto simp: valid_transfer_def input_ok_def)
  qed
  ultimately show ?thesis
    using assms by (force simp: runnable_def new_ids_def valid_transactions_def all_inputs_def)
qed

text \<open>What a block issues: its reward, if it has one.\<close>

definition block_issue :: "bool \<Rightarrow> usize \<Rightarrow> Transaction list \<Rightarrow> nat" where
  "block_issue chk height txs =
     (if \<exists>tx \<in> set txs. is_reward tx
      then (case get_block_reward chk height of Ok r \<Rightarrow> unat r | Err (_ :: unit) \<Rightarrow> 0 | Panic \<Rightarrow> 0)
      else 0)"

definition created_value :: "Transaction list \<Rightarrow> nat" where
  "created_value txs = (\<Sum>tx \<leftarrow> txs. \<Sum>out \<leftarrow> outputs tx. unat (amount out))"

definition spent_value :: "ledger \<Rightarrow> Transaction list \<Rightarrow> nat" where
  "spent_value L txs = (\<Sum>i \<leftarrow> all_inputs txs. unat (amount (the (L (input_key i)))))"

lemma get_block_reward_any:
  "get_block_reward chk h = (Ok r :: (u64, 'e) result) \<longleftrightarrow> get_block_reward chk h = (Ok r :: (u64, 'f) result)"
  by (auto simp: get_block_reward_def shr_u_def Let_def)

lemma valid_transfer_balance:
  assumes "valid_transfer E L d is_ibd tx"
  shows "(\<Sum>i \<leftarrow> inputs tx. unat (amount (the (L (input_key i))))) = (\<Sum>out \<leftarrow> outputs tx. unat (amount out))"
proof -
  have "input_amount L i = unat (amount (the (L (input_key i))))" if "i \<in> set (inputs tx)" for i
    using assms that by (auto simp: valid_transfer_def input_ok_def input_amount_def)
  then have "map (input_amount L) (inputs tx) = map (\<lambda>i. unat (amount (the (L (input_key i))))) (inputs tx)"
    by simp
  moreover have "sum_list (map (input_amount L) (inputs tx)) = (\<Sum>out \<leftarrow> outputs tx. unat (amount out))"
    using assms by (auto simp: valid_transfer_def)
  ultimately show ?thesis by (simp only:)
qed

lemma no_reward_issue: "filter is_reward txs = [] \<Longrightarrow> block_issue chk h txs = 0"
  by (simp add: block_issue_def filter_empty_conv)

lemma valid_transactions_issue:
  assumes "valid_transactions E L h target is_ibd b txs"
  shows "created_value txs = spent_value L txs + block_issue (overflow_checks E) h txs"
  using assms
proof (induction txs)
  case Nil
  then show ?case by (simp add: created_value_def spent_value_def all_inputs_def block_issue_def)
next
  case (Cons tx txs)
  have tl: "valid_transactions E L h target is_ibd b txs"
    using Cons.prems by (auto simp: valid_transactions_def all_inputs_def split: if_splits)
  have split: "created_value (tx # txs) = (\<Sum>out \<leftarrow> outputs tx. unat (amount out)) + created_value txs"
    "spent_value L (tx # txs) = (\<Sum>i \<leftarrow> inputs tx. unat (amount (the (L (input_key i))))) + spent_value L txs"
    by (simp_all add: created_value_def spent_value_def all_inputs_def)
  show ?case
  proof (cases "is_reward tx")
    case True
    then have "filter is_reward txs = []" "valid_reward E h is_ibd tx"
      using Cons.prems by (auto simp: valid_transactions_def)
    moreover from this(2) obtain r where "get_block_reward (overflow_checks E) h = (Ok r :: (u64, unit) result)"
      "(\<Sum>out \<leftarrow> outputs tx. unat (amount out)) = unat r"
      unfolding valid_reward_def using get_block_reward_any by blast
    moreover have "inputs tx = []" using True by (simp add: is_reward_def)
    ultimately show ?thesis
      using Cons.IH [OF tl] True by (simp add: split no_reward_issue) (simp add: block_issue_def)
  next
    case False
    then have "valid_transfer E L (unat target) is_ibd tx" using Cons.prems by (simp add: valid_transactions_def)
    moreover have "block_issue (overflow_checks E) h (tx # txs) = block_issue (overflow_checks E) h txs"
      using False by (simp add: block_issue_def)
    ultimately show ?thesis using Cons.IH [OF tl] by (simp add: split valid_transfer_balance)
  qed
qed

end
