(* ===== verification/Supply.thy ===== *)
theory Supply
  imports Block_Ledger
begin

text \<open>
  The amounts in the store of \<open>core/utxo.rs\<close>: a store whose keys are printed ids has the sum that its
  ledger has, and the balance and listing queries read the ledger.
\<close>

definition utxos_wf :: "UTXOs \<Rightarrow> bool" where
  "utxos_wf u \<longleftrightarrow> (\<forall>k. fmlookup u k \<noteq> None \<longrightarrow> (\<exists>t. k = hash_dump_base36 t))"

lemma utxos_wf_empty: "utxos_wf fmempty"
  by (simp add: utxos_wf_def)

lemma utxos_wf_set: "utxos_wf u \<Longrightarrow> utxos_wf (set_tx_outputs t outs u)"
  by (auto simp: utxos_wf_def set_tx_outputs_def)

lemma utxos_wf_store_or_delete: "utxos_wf u \<Longrightarrow> utxos_wf (store_or_delete t outs u)"
  by (auto simp: store_or_delete_def utxos_wf_set) (auto simp: utxos_wf_def delete_tx_def)

lemma utxos_wf_spend_inputs:
  "spend_inputs tx_id is acc u = (r, u') \<Longrightarrow> utxos_wf u \<Longrightarrow> utxos_wf u'"
  by (induction tx_id "is" acc u rule: spend_inputs.induct)
    (auto simp: utxos_wf_store_or_delete split: option.splits if_splits)

lemma utxos_wf_execute_transaction:
  "execute_transaction tx u = (r, u') \<Longrightarrow> utxos_wf u \<Longrightarrow> utxos_wf u'"
  by (auto simp: execute_transaction_def bind_run_def Let_def utxos_wf_set
      dest: utxos_wf_spend_inputs split: option.splits prod.splits result.splits)

lemma utxos_wf_execute_all: "execute_all txs d u = (r, u') \<Longrightarrow> utxos_wf u \<Longrightarrow> utxos_wf u'"
proof (induction txs arbitrary: d u)
  case (Cons tx txs)
  obtain r1 u1 where "execute_transaction tx u = (r1, u1)" by force
  with Cons show ?case by (cases r1) (auto dest: utxos_wf_execute_transaction)
qed simp

lemma utxos_wf_restore_spent: "utxos_wf u \<Longrightarrow> utxos_wf (restore_spent es u)"
  by (induction es u rule: restore_spent.induct) (auto simp: Let_def utxos_wf_set)

lemma utxos_wf_remove_created: "remove_created es u = (r, u') \<Longrightarrow> utxos_wf u \<Longrightarrow> utxos_wf u'"
  by (induction es u rule: remove_created.induct)
    (auto simp: utxos_wf_store_or_delete split: option.splits if_splits)

lemma utxos_wf_recall: "recall_block_utxos d u = (r, u') \<Longrightarrow> utxos_wf u \<Longrightarrow> utxos_wf u'"
  unfolding recall_block_utxos_def by (blast dest: utxos_wf_remove_created utxos_wf_restore_spent)

section \<open>The sum is the ledger's\<close>

definition ledger_sum :: "(Public \<Rightarrow> bool) \<Rightarrow> ledger \<Rightarrow> nat" where
  "ledger_sum P L = (\<Sum>k \<in> dom L. value_for P (the (L k)))"

lemma row_sum_index:
  "row_sum P outs = (\<Sum>i \<in> {i. row_at outs i \<noteq> None}. value_for P (the (row_at outs i)))"
proof -
  have "row_sum P outs = (\<Sum>i<length outs. case outs ! i of None \<Rightarrow> 0 | Some out \<Rightarrow> value_for P out)"
    by (simp add: row_sum_def sum_list_sum_nth atLeast0LessThan)
  also have "\<dots> = (\<Sum>i \<in> {i. row_at outs i \<noteq> None}. value_for P (the (row_at outs i)))"
    by (rule sum.mono_neutral_cong_right) (auto simp: row_at_def split: if_splits option.splits)
  finally show ?thesis .
qed

lemma finite_row: "finite {i. row_at outs i \<noteq> None}"
proof (rule finite_subset)
  show "{i. row_at outs i \<noteq> None} \<subseteq> {..<length outs}" by (auto simp: row_at_def split: if_splits)
qed simp

lemma utxo_sum_ledger:
  assumes "utxos_wf u"
  shows "utxo_sum P u = ledger_sum P (ledger_of u)"
proof -
  let ?T = "{t. get_tx_outputs u t \<noteq> None}"
  let ?row = "\<lambda>t. the (get_tx_outputs u t)"
  have dom: "fmdom' u = hash_dump_base36 ` ?T"
    using assms by (force simp: utxos_wf_def get_tx_outputs_def fmdom'_alt_def fmlookup_dom_iff)
  have inj: "inj_on hash_dump_base36 ?T" by (auto simp: inj_on_def)
  have fin: "finite ?T" using dom inj by (metis finite_fmdom' finite_imageD)
  have "utxo_sum P u = (\<Sum>t \<in> ?T. row_sum P (?row t))"
    unfolding utxo_sum_def fmap_sum_def dom sum.reindex [OF inj] by (simp add: get_tx_outputs_def)
  also have "\<dots> = (\<Sum>(t, i) \<in> (SIGMA t:?T. {i. row_at (?row t) i \<noteq> None}). value_for P (the (row_at (?row t) i)))"
    unfolding row_sum_index by (rule sum.Sigma) (use fin finite_row in auto)
  also have "\<dots> = ledger_sum P (ledger_of u)"
    unfolding ledger_sum_def
    by (rule sum.cong) (auto simp: ledger_of_def split: option.splits)
  finally show ?thesis .
qed

lemma same_ledger_same_sum:
  "utxos_wf u \<Longrightarrow> utxos_wf v \<Longrightarrow> ledger_of u = ledger_of v \<Longrightarrow> utxo_sum P u = utxo_sum P v"
  by (simp add: utxo_sum_ledger)

section \<open>The queries\<close>

lemma sum_u64_Ok:
  assumes "unat s + (\<Sum>x \<leftarrow> xs. unat x) < 2 ^ 64"
  shows "\<exists>r. for_each (\<lambda>x acc. add_u chk acc x) xs s = (Ok r :: (u64, 'e) result) \<and> unat r = unat s + (\<Sum>x \<leftarrow> xs. unat x)"
  using assms
proof (induction xs arbitrary: s)
  case (Cons x xs)
  then have lt: "unat s + unat x < 2 ^ LENGTH(64)" by simp
  from add_u_no_overflow [OF this] have "add_u chk s x = (Ok (s + x) :: (u64, 'e) result)" .
  with Cons.IH [of "s + x"] Cons.prems lt show ?case by (simp add: unat_add_no_overflow add.assoc)
qed simp

lemma owned_amounts_sum:
  "(\<Sum>x \<leftarrow> owned_amounts a outs. unat x) = row_sum (\<lambda>p. p = a) outs"
  by (induction outs) (auto simp: owned_amounts_def row_sum_def value_for_def split: option.splits)

lemma confirmed_balance:
  assumes "utxo_sum (\<lambda>p. p = a) u < 2 ^ 64"
  shows "\<exists>r. calculate_confirmed_balance chk u a = Ok r \<and> unat r = utxo_sum (\<lambda>p. p = a) u"
proof -
  have "(\<Sum>x \<leftarrow> concat (map (\<lambda>(k, outs). owned_amounts a outs) kvs). unat x) =
      sum_list (map (\<lambda>(k, outs). row_sum (\<lambda>p. p = a) outs) kvs)" for kvs
    by (induction kvs) (auto simp: owned_amounts_sum)
  then have "(\<Sum>x \<leftarrow> concat (map (\<lambda>(k, outs). owned_amounts a outs) (sorted_list_of_fmap u)). unat x) =
      utxo_sum (\<lambda>p. p = a) u"
    by (simp add: utxo_sum_def fmap_sum_list)
  with sum_u64_Ok [of 0 "concat (map (\<lambda>(k, outs). owned_amounts a outs) (sorted_list_of_fmap u))" chk] assms
  show ?thesis by (auto simp: calculate_confirmed_balance_def sum_u64_def)
qed

lemma balance_le_supply: "utxo_sum P u \<le> total_supply u"
proof -
  have "row_sum P outs \<le> row_sum (\<lambda>_. True) outs" for outs
    unfolding row_sum_def by (rule sum_list_mono) (auto simp: value_for_def split: option.split)
  then show ?thesis unfolding total_supply_def utxo_sum_def fmap_sum_def by (intro sum_mono)
qed

lemma set_get_all_utxos:
  assumes "utxos_wf u"
  shows "(t, out, i) \<in> set (get_all_utxos u) \<longleftrightarrow> ledger_of u (t, i) = Some out"
proof -
  have row: "(t, out, i) \<in> set (List.map_filter (\<lambda>(index, x). map_option (\<lambda>out. (t', out, index)) x)
      (enumerate_list outs)) \<longleftrightarrow> t = t' \<and> row_at outs i = Some out" for t' outs
    by (auto simp: List.map_filter_def set_enumerate_list row_at_def image_iff)
  have "(t, out, i) \<in> set (get_all_utxos u) \<longleftrightarrow>
      (\<exists>k outs t'. fmlookup u k = Some outs \<and> hash_new_from_base36 k = Some t' \<and> t = t'
        \<and> row_at outs i = Some out)"
    by (auto simp: get_all_utxos_def set_sorted_list_of_fmap row split: option.splits) (metis+)
  also have "\<dots> \<longleftrightarrow> (\<exists>outs. fmlookup u (hash_dump_base36 t) = Some outs \<and> row_at outs i = Some out)"
    using assms unfolding utxos_wf_def by (metis hash_base36_back option.distinct(1) option.sel)
  also have "\<dots> \<longleftrightarrow> ledger_of u (t, i) = Some out"
    by (auto simp: ledger_of_def get_tx_outputs_def split: option.splits)
  finally show ?thesis .
qed

lemma set_get_utxos:
  assumes "utxos_wf u"
  shows "t \<in> set (get_utxos u a) \<longleftrightarrow> (\<exists>i out. ledger_of u (t, i) = Some out \<and> receiver out = a)"
proof -
  have row: "list_ex (\<lambda>x. case x of None \<Rightarrow> False | Some out \<Rightarrow> receiver out = a) outs \<longleftrightarrow>
      (\<exists>i out. row_at outs i = Some out \<and> receiver out = a)" for outs
  proof -
    have "list_ex (\<lambda>x. case x of None \<Rightarrow> False | Some out \<Rightarrow> receiver out = a) outs \<longleftrightarrow>
        (\<exists>out. Some out \<in> set outs \<and> receiver out = a)"
      by (induction outs) (auto split: option.splits)
    then show ?thesis by (auto simp: in_set_conv_nth row_at_def split: if_splits)
  qed
  have entry: "(case hash_new_from_base36 k of None \<Rightarrow> None
       | Some txid \<Rightarrow> if Q then Some txid else None) = Some t \<longleftrightarrow>
      hash_new_from_base36 k = Some t \<and> Q" for k Q
    by (simp split: option.split)
  have "t \<in> set (get_utxos u a) \<longleftrightarrow>
      (\<exists>k outs. fmlookup u k = Some outs \<and> hash_new_from_base36 k = Some t
        \<and> (\<exists>i out. row_at outs i = Some out \<and> receiver out = a))"
    unfolding row [symmetric] get_utxos_def in_map_filter set_sorted_list_of_fmap
    by (simp add: Bex_def entry)
  also have "\<dots> \<longleftrightarrow> (\<exists>outs. fmlookup u (hash_dump_base36 t) = Some outs
        \<and> (\<exists>i out. row_at outs i = Some out \<and> receiver out = a))"
    using assms unfolding utxos_wf_def by (metis hash_base36_back option.distinct(1) option.sel)
  also have "\<dots> \<longleftrightarrow> (\<exists>i out. ledger_of u (t, i) = Some out \<and> receiver out = a)"
    by (auto simp: ledger_of_def get_tx_outputs_def split: option.splits) blast+
  finally show ?thesis .
qed

end
