(* ===== verification/Chain_Invariant.thy ===== *)
theory Chain_Invariant
  imports Chain_Validation Supply
begin

text \<open>
  What \<open>core/blockchain.rs\<close> keeps: the chain is a sequence of linked blocks with the differences they
  made, the store holds it, and the unspent outputs, the difficulty and the supply are what replaying
  it gives.  \<open>add_block\<close> extends it or changes nothing, \<open>pop_block\<close> takes the last block back.
\<close>

section \<open>The abstract chain\<close>

definition empty_ledger :: ledger where
  "empty_ledger = (\<lambda>_. None)"

definition ledger_of_chain :: "log_entry list \<Rightarrow> ledger" where
  "ledger_of_chain chain = fold (\<lambda>e. ledger_block (transactions (fst e))) chain empty_ledger"

definition difficulty_of_chain :: "u64 \<Rightarrow> log_entry list \<Rightarrow> DifficultyState" where
  "difficulty_of_chain t0 chain =
     fold (\<lambda>e. update_difficulty (fst e)) chain (difficulty_new_default\<lparr>last_timestamp := t0\<rparr>)"

definition issue_of_chain :: "bool \<Rightarrow> log_entry list \<Rightarrow> nat" where
  "issue_of_chain chk chain =
     (\<Sum>h<length chain. block_issue chk h (transactions (fst (chain ! h))))"

lemma chain_snoc [simp]:
  "ledger_of_chain (chain @ [e]) = ledger_block (transactions (fst e)) (ledger_of_chain chain)"
  "difficulty_of_chain t0 (chain @ [e]) = update_difficulty (fst e) (difficulty_of_chain t0 chain)"
  "issue_of_chain chk (chain @ [e]) =
     issue_of_chain chk chain + block_issue chk (length chain) (transactions (fst e))"
  "tip_hash (chain @ [e]) = entry_hash e"
  by (simp_all add: ledger_of_chain_def difficulty_of_chain_def issue_of_chain_def nth_append tip_hash_def)

text \<open>
  A good chain: each block is linked to the one before, carries the targets of its time, runs on the
  ledger of its time, creates what it spends and what it issues, and has its differences recorded.
\<close>

inductive good_chain :: "bool \<Rightarrow> u64 \<Rightarrow> log_entry list \<Rightarrow> bool" for chk t0 where
  genesis: "good_chain chk t0 []"
| extend: "good_chain chk t0 chain \<Longrightarrow>
    previous_block (meta b) = tip_hash chain \<Longrightarrow>
    block_pow_difficulty (meta b) = block_difficulty (difficulty_of_chain t0 chain) \<Longrightarrow>
    tx_pow_difficulty (meta b) = transaction_difficulty (difficulty_of_chain t0 chain) \<Longrightarrow>
    runnable (transactions b) (ledger_of_chain chain) \<Longrightarrow>
    created_value (transactions b) = spent_value (ledger_of_chain chain) (transactions b)
      + block_issue chk (length chain) (transactions b) \<Longrightarrow>
    good_chain chk t0 (chain @ [(b, block_diff (ledger_of_chain chain) (transactions b))])"

inductive_simps good_chain_Nil [simp]: "good_chain chk t0 []"
inductive_cases good_chain_snocE: "good_chain chk t0 (chain @ [e])"

definition chain_inv :: "bool \<Rightarrow> u64 \<Rightarrow> log_entry list \<Rightarrow> Blockchain \<Rightarrow> bool" where
  "chain_inv chk t0 chain bc \<longleftrightarrow>
     store_represents (block_store bc) chain
     \<and> good_chain chk t0 chain
     \<and> utxos_wf (utxos bc) \<and> ledger_of (utxos bc) = ledger_of_chain chain
     \<and> difficulty_state bc = difficulty_of_chain t0 chain"

definition info_of :: "Blockchain \<Rightarrow> BlockchainData" where
  "info_of bc = \<lparr>data_difficulty_state = difficulty_state bc, data_height = get_height (block_store bc),
     data_last_block = get_last_block_hash (block_store bc)\<rparr>"

lemma info_file_simps [simp]:
  "chain_inv chk t0 chain (bc\<lparr>info_file := x\<rparr>) = chain_inv chk t0 chain bc"
  "info_of (bc\<lparr>info_file := x\<rparr>) = info_of bc"
  by (simp_all add: chain_inv_def info_of_def)

section \<open>Supply\<close>

lemma spent_value_eq:
  "spent_value L txs = (\<Sum>i \<leftarrow> all_inputs txs. value_for (\<lambda>_. True) (the (L (input_key i))))"
  by (simp add: spent_value_def value_for_def)

lemma created_value_eq:
  "created_value txs = (\<Sum>tx \<leftarrow> txs. \<Sum>out \<leftarrow> outputs tx. value_for (\<lambda>_. True) out)"
  by (simp add: created_value_def value_for_def)

text \<open>The supply of a good chain: some store has its ledger, and every such store has this sum.\<close>

lemma good_chain_supply:
  "good_chain chk t0 chain \<Longrightarrow>
     \<exists>v. utxos_wf v \<and> ledger_of v = ledger_of_chain chain \<and> total_supply v = issue_of_chain chk chain"
proof (induction chain rule: good_chain.induct)
  case genesis
  have "ledger_of fmempty = empty_ledger"
    by (auto simp: ledger_of_def get_tx_outputs_def empty_ledger_def)
  then show ?case
    by (intro exI [of _ fmempty])
      (simp add: utxos_wf_empty ledger_of_chain_def total_supply_def utxo_sum_def issue_of_chain_def)
next
  case (extend chain b)
  then obtain v where v: "utxos_wf v" "ledger_of v = ledger_of_chain chain"
    "total_supply v = issue_of_chain chk chain" by blast
  have "runnable (transactions b) (ledger_of v)" using extend by (simp add: v(2))
  from execute_all_ledger [OF this, of diff_new_empty "\<lambda>_. True"] obtain v' where v':
    "\<exists>r. execute_all (transactions b) diff_new_empty v = (r, v')"
    "ledger_of v' = ledger_block (transactions b) (ledger_of v)"
    "utxo_sum (\<lambda>_. True) v' + spent_value (ledger_of v) (transactions b) =
     utxo_sum (\<lambda>_. True) v + created_value (transactions b)"
    unfolding spent_value_eq created_value_eq by blast
  then have "utxos_wf v'" using utxos_wf_execute_all v(1) by blast
  moreover have "total_supply v' = issue_of_chain chk chain + block_issue chk (length chain) (transactions b)"
    using v'(3) extend v by (simp add: total_supply_def)
  ultimately show ?case using v'(2) v(2) by (intro exI [of _ v']) simp
qed

lemma chain_supply:
  assumes "chain_inv chk t0 chain bc"
  shows "total_supply (utxos bc) = issue_of_chain chk chain"
  using good_chain_supply [of chk t0 chain] same_ledger_same_sum [of "utxos bc"] assms
  unfolding chain_inv_def total_supply_def by metis

lemma block_issue_le:
  assumes "h < 64000000" shows "block_issue chk h txs \<le> reward_spec h"
proof -
  obtain r where "get_block_reward chk h = (Ok r :: (u64, unit) result)" "unat r = reward_spec h"
    using get_block_reward_spec [OF assms] by blast
  then show ?thesis by (simp add: block_issue_def)
qed

lemma chain_supply_bound:
  assumes "chain_inv chk t0 chain bc" and "length chain \<le> 64000000"
  shows "total_supply (utxos bc) \<le> (\<Sum>h<length chain. reward_spec h)"
    and "total_supply (utxos bc) < 2 ^ 64"
proof -
  have "block_issue chk h txs \<le> reward_spec h" if "h < length chain" for h txs
    using assms(2) that by (intro block_issue_le) simp
  then show le: "total_supply (utxos bc) \<le> (\<Sum>h<length chain. reward_spec h)"
    unfolding chain_supply [OF assms(1)] issue_of_chain_def by (intro sum_mono) simp
  have "(\<Sum>h<length chain. reward_spec h) < 2 ^ 64"
    using reward_sum_bound [of "length chain"] assms(2) by simp
  with le show "total_supply (utxos bc) < 2 ^ 64" by simp
qed

section \<open>Adding a block\<close>

text \<open>What \<open>add_block\<close> relies on beyond its checks: new ids and a new hash, and encoders that work.\<close>

definition appendable :: "'z chain_env_scheme \<Rightarrow> log_entry list \<Rightarrow> Block \<Rightarrow> bool" where
  "appendable E chain b \<longleftrightarrow>
     new_ids (transactions b) (ledger_of_chain chain)
     \<and> can_append E chain (b, block_diff (ledger_of_chain chain) (transactions b))
     \<and> (\<forall>d. \<exists>bs. encode_data E d = Inr bs)"

lemma check_block_Ok_facts:
  assumes inv: "chain_inv (overflow_checks E) t0 chain bc" and c: "check_block E b is_ibd skip bc = Ok u"
    and new: "new_ids (transactions b) (ledger_of_chain chain)"
  shows "runnable (transactions b) (ledger_of_chain chain)"
    and "good_chain (overflow_checks E) t0
      (chain @ [(b, block_diff (ledger_of_chain chain) (transactions b))])"
proof -
  let ?L = "ledger_of_chain chain"
  have state: "ledger_of (utxos bc) = ?L" "get_height (block_store bc) = length chain"
    "get_last_block_hash (block_store bc) = tip_hash chain"
    "difficulty_state bc = difficulty_of_chain t0 chain"
    using inv by (simp_all add: chain_inv_def store_represents_def get_height_def get_last_block_hash_def)
  then have v: "valid_transactions E ?L (length chain) (chain_transaction_difficulty bc) is_ibd b (transactions b)"
    and d: "block_pow_difficulty (meta b) = block_difficulty (difficulty_of_chain t0 chain)"
      "tx_pow_difficulty (meta b) = transaction_difficulty (difficulty_of_chain t0 chain)"
    and p: "previous_block (meta b) = tip_hash chain"
    using c
    by (simp_all add: check_block_Ok_iff validate_difficulties_Ok_iff chain_block_difficulty_def
        chain_transaction_difficulty_def)
  show r: "runnable (transactions b) ?L" by (rule valid_transactions_runnable [OF v new])
  show "good_chain (overflow_checks E) t0 (chain @ [(b, block_diff ?L (transactions b))])"
    using inv p d r valid_transactions_issue [OF v] by (intro good_chain.extend) (auto simp: chain_inv_def)
qed

lemma apply_block_Ok:
  assumes inv: "chain_inv (overflow_checks E) t0 chain bc"
    and r: "runnable (transactions b) (ledger_of_chain chain)" and a: "appendable E chain b"
  shows "\<exists>bc'. apply_block E b bc = (Ok (), bc')
    \<and> store_represents (block_store bc')
        (chain @ [(b, block_diff (ledger_of_chain chain) (transactions b))])
    \<and> utxos_wf (utxos bc') \<and> ledger_of (utxos bc') = ledger_block (transactions b) (ledger_of_chain chain)
    \<and> difficulty_state bc' = update_difficulty b (difficulty_state bc)
    \<and> info_file bc' = Some (info_of bc') \<and> blockchain_path bc' = blockchain_path bc
    \<and> store_path (block_store bc') = store_path (block_store bc)"
proof -
  let ?L = "ledger_of_chain chain" and ?d = "block_diff (ledger_of_chain chain) (transactions b)"
  have L: "ledger_of (utxos bc) = ?L" "utxos_wf (utxos bc)" "store_represents (block_store bc) chain"
    using inv by (simp_all add: chain_inv_def)
  from execute_all_ledger [of "transactions b" "utxos bc" diff_new_empty] r
  obtain u' where u': "execute_all (transactions b) diff_new_empty (utxos bc) = (Ok ?d, u')"
    "ledger_of u' = ledger_block (transactions b) ?L"
    by (auto simp: L(1) block_diff_def diff_new_empty_def)
  obtain st' where st': "store_add_block E b ?d (block_store bc) = (Ok (), st')"
    "store_represents st' (chain @ [(b, ?d)])" "store_path st' = store_path (block_store bc)"
    using store_add_block_represents [OF L(3), of E b ?d] a by (auto simp: appendable_def)
  define bc' where "bc' = bc\<lparr>utxos := u', difficulty_state := update_difficulty b (difficulty_state bc),
    block_store := st'\<rparr>"
  obtain bs where "encode_data E (info_of bc') = Inr bs" using a by (auto simp: appendable_def)
  then have "apply_block E b bc = (Ok (), bc'\<lparr>info_file := Some (info_of bc')\<rparr>)"
    by (simp add: apply_block_def on_utxos_def on_store_def u'(1) st'(1) save_blockchain_data_def
        bc'_def info_of_def Let_def)
  moreover have "utxos_wf u'" by (rule utxos_wf_execute_all [OF u'(1) L(2)])
  ultimately show ?thesis using u'(2) st'(2,3) by (simp add: bc'_def info_of_def)
qed

text \<open>A block that is accepted extends the chain; one that is not changes nothing.\<close>

lemma add_block_Ok:
  assumes inv: "chain_inv (overflow_checks E) t0 chain bc"
    and c: "check_block E b is_ibd skip bc = Ok ()" and a: "appendable E chain b"
  shows "\<exists>bc'. add_block E b is_ibd skip bc = (Ok (), bc')
    \<and> chain_inv (overflow_checks E) t0
        (chain @ [(b, block_diff (ledger_of_chain chain) (transactions b))]) bc'
    \<and> info_file bc' = Some (info_of bc') \<and> blockchain_path bc' = blockchain_path bc
    \<and> store_path (block_store bc') = store_path (block_store bc)"
proof -
  have "new_ids (transactions b) (ledger_of_chain chain)" using a by (simp add: appendable_def)
  note f = check_block_Ok_facts [OF inv c this]
  from apply_block_Ok [OF inv f(1) a] obtain bc' where "apply_block E b bc = (Ok (), bc')"
    "store_represents (block_store bc') (chain @ [(b, block_diff (ledger_of_chain chain) (transactions b))])"
    "utxos_wf (utxos bc')" "ledger_of (utxos bc') = ledger_block (transactions b) (ledger_of_chain chain)"
    "difficulty_state bc' = update_difficulty b (difficulty_state bc)"
    "info_file bc' = Some (info_of bc')" "blockchain_path bc' = blockchain_path bc"
    "store_path (block_store bc') = store_path (block_store bc)" by blast
  with f(2) inv c show ?thesis by (simp add: add_block_def chain_inv_def)
qed

lemma add_block_rejected:
  assumes "check_block E b is_ibd skip bc \<noteq> Ok ()"
  shows "add_block E b is_ibd skip bc = (check_block E b is_ibd skip bc, bc)"
  using assms by (cases "check_block E b is_ibd skip bc") (simp_all add: add_block_def)

lemma add_block_outcome:
  assumes "chain_inv (overflow_checks E) t0 chain bc" and "appendable E chain b"
    and "add_block E b is_ibd skip bc = (r, bc')"
  shows "(r = Ok () \<and> check_block E b is_ibd skip bc = Ok ()
      \<and> chain_inv (overflow_checks E) t0
          (chain @ [(b, block_diff (ledger_of_chain chain) (transactions b))]) bc')
    \<or> (r \<noteq> Ok () \<and> r = check_block E b is_ibd skip bc \<and> bc' = bc)"
  using add_block_Ok [OF assms(1) _ assms(2), of is_ibd skip] add_block_rejected [of E b is_ibd skip bc]
    assms(3)
  by (cases "check_block E b is_ibd skip bc = Ok ()") auto

section \<open>Removing a block\<close>

lemma pop_block_Ok:
  assumes inv: "chain_inv (overflow_checks E) t0 (chain @ [e]) bc"
    and enc: "\<And>d. \<exists>bs. encode_data E d = Inr bs"
  shows "\<exists>bc'. pop_block E bc = (Ok (), bc')
    \<and> chain_inv (overflow_checks E) (if chain = [] then timestamp (fst e) else t0) chain bc'
    \<and> info_file bc' = Some (info_of bc') \<and> blockchain_path bc' = blockchain_path bc
    \<and> store_path (block_store bc') = store_path (block_store bc)"
proof -
  obtain b d where e: "e = (b, d)" by force
  let ?L = "ledger_of_chain chain"
  have state: "store_represents (block_store bc) (chain @ [(b, d)])" "utxos_wf (utxos bc)"
    "ledger_of (utxos bc) = ledger_block (transactions b) ?L"
    "good_chain (overflow_checks E) t0 (chain @ [(b, d)])"
    using inv by (simp_all add: chain_inv_def e)
  from state(4) have good: "good_chain (overflow_checks E) t0 chain" "runnable (transactions b) ?L"
    "d = block_diff ?L (transactions b)"
    "block_pow_difficulty (meta b) = block_difficulty (difficulty_of_chain t0 chain)"
    "tx_pow_difficulty (meta b) = transaction_difficulty (difficulty_of_chain t0 chain)"
    by (auto elim: good_chain_snocE)
  obtain u' where u': "recall_block_utxos d (utxos bc) = (Ok (), u')" "ledger_of u' = ?L"
    using recall_block_ledger [OF good(2) state(3)] good(3) by blast
  obtain st' where st': "store_pop_block (block_store bc) = (Ok (), st')" "store_represents st' chain"
    "store_path st' = store_path (block_store bc)"
    using store_pop_block_represents [OF state(1)] by blast
  define bc1 where "bc1 = bc\<lparr>utxos := u', block_store := st'\<rparr>"
  define bc' where "bc' = restore_difficulty b bc1"
  have height: "get_height (block_store bc) = length chain + 1" "get_height st' = length chain"
    using state(1) st'(2) by (simp_all add: get_height_def store_represents_def)
  have run: "pop_block E bc = save_blockchain_data E bc'"
    using height get_last_block_represents [OF state(1)]
    by (simp add: pop_block_def get_last_utxo_diffs_represents [OF state(1)] on_utxos_def on_store_def
        u'(1) st'(1) bc1_def bc'_def)
  obtain bs where "encode_data E (info_of bc') = Inr bs" using enc by blast
  then have saved: "save_blockchain_data E bc' = (Ok (), bc'\<lparr>info_file := Some (info_of bc')\<rparr>)"
    by (simp add: save_blockchain_data_def info_of_def)
  have "difficulty_state bc' = difficulty_of_chain (if chain = [] then timestamp b else t0) chain"
  proof (cases chain rule: rev_cases)
    case Nil
    then show ?thesis
      using good(4,5) height(2)
      by (simp add: bc'_def bc1_def restore_difficulty_def difficulty_of_chain_def difficulty_new_default_def)
  next
    case (snoc ch e')
    then have "get_last_block st' = Some (fst e')" using get_last_block_represents st'(2) by simp
    with snoc show ?thesis
      using good(4,5) height(2)
      by (intro DifficultyState.equality)
        (simp_all add: bc'_def bc1_def restore_difficulty_def update_difficulty_fields)
  qed
  moreover have "utxos_wf u'" by (rule utxos_wf_recall [OF u'(1) state(2)])
  moreover have "good_chain (overflow_checks E) (if chain = [] then timestamp b else t0) chain"
    using good(1) by simp
  ultimately have "chain_inv (overflow_checks E) (if chain = [] then timestamp b else t0) chain bc'"
    using u'(2) st'(2) by (simp add: chain_inv_def bc'_def bc1_def restore_difficulty_def)
  moreover have "blockchain_path bc' = blockchain_path bc" "store_path (block_store bc') = store_path (block_store bc)"
    using st'(3) by (simp_all add: bc'_def bc1_def restore_difficulty_def)
  ultimately show ?thesis unfolding run saved by (auto simp: e split: if_splits)
qed

lemma pop_block_empty:
  "store_represents (block_store bc) [] \<Longrightarrow> pop_block E bc = (Err NoBlocksToPop, bc)"
  by (simp add: pop_block_def get_height_def store_represents_def)

section \<open>Reachable states\<close>

text \<open>
  One operation on a chain: a block that is accepted or refused, a removal, or a restart from disk
  (after the first save).  Every id and hash that is added is new, and the encoders work.
\<close>

definition disk_of :: "Blockchain \<Rightarrow> disk" where
  "disk_of bc = \<lparr>disk_blocks = files (block_store bc), disk_index = block_index (block_store bc),
     disk_utxos = utxos bc, disk_info = info_file bc\<rparr>"

lemma blockchain_new_saved:
  assumes "info_file bc = Some (info_of bc)" and "blockchain_path bc = chain_directory path"
    and "store_path (block_store bc) = chain_directory path @ ''blocks/''"
  shows "blockchain_new path (disk_of bc) = bc"
  using assms
  by (simp add: blockchain_new_def load_blockchain_data_def disk_of_def info_of_def store_load_def
      get_height_def get_last_block_hash_def Let_def)

inductive chain_step :: "'z chain_env_scheme \<Rightarrow> log_entry list \<times> Blockchain \<Rightarrow> log_entry list \<times> Blockchain \<Rightarrow> bool"
  for E where
  added: "add_block E b is_ibd skip bc = (Ok (), bc') \<Longrightarrow> appendable E chain b \<Longrightarrow>
    chain_step E (chain, bc) (chain @ [(b, block_diff (ledger_of_chain chain) (transactions b))], bc')"
| refused: "add_block E b is_ibd skip bc = (r, bc') \<Longrightarrow> r \<noteq> Ok () \<Longrightarrow> appendable E chain b \<Longrightarrow>
    chain_step E (chain, bc) (chain, bc')"
| popped: "pop_block E bc = (Ok (), bc') \<Longrightarrow> \<forall>d. \<exists>bs. encode_data E d = Inr bs \<Longrightarrow>
    chain_step E (chain, bc) (butlast chain, bc')"

lemma chain_step_inv:
  assumes "chain_step E (chain, bc) (chain', bc')" and "chain_inv (overflow_checks E) t0 chain bc"
  shows "\<exists>t1. chain_inv (overflow_checks E) t1 chain' bc'"
  using assms(1)
proof cases
  case (added b is_ibd skip)
  with add_block_outcome [OF assms(2) added(3,2)] show ?thesis by auto
next
  case (refused b is_ibd skip r)
  with add_block_outcome [OF assms(2) refused(4,2)] assms(2) show ?thesis by auto
next
  case popped
  show ?thesis
  proof (cases chain rule: rev_cases)
    case Nil
    then have "store_represents (block_store bc) []" using assms(2) by (simp add: chain_inv_def)
    with pop_block_empty popped(2) show ?thesis by (metis Pair_inject result.distinct(1))
  next
    case (snoc ch e)
    then have "chain_inv (overflow_checks E) t0 (ch @ [e]) bc" using assms(2) by simp
    from pop_block_Ok [OF this] popped snoc show ?thesis by auto
  qed
qed

definition fresh_chain :: "string \<Rightarrow> Blockchain" where
  "fresh_chain path =
     blockchain_new path \<lparr>disk_blocks = fmempty, disk_index = \<lparr>by_hash = fmempty, by_height = fmempty\<rparr>,
       disk_utxos = fmempty, disk_info = None\<rparr>"

lemma fresh_chain_inv: "chain_inv chk 0 [] (fresh_chain path)"
proof -
  have "ledger_of fmempty = empty_ledger"
    by (auto simp: ledger_of_def get_tx_outputs_def empty_ledger_def)
  then show ?thesis
    by (simp add: chain_inv_def fresh_chain_def blockchain_new_def load_blockchain_data_def Let_def
        store_represents_empty utxos_wf_empty ledger_of_chain_def difficulty_of_chain_def
        difficulty_new_default_def)
qed

lemma reachable_inv:
  assumes "(chain_step E)\<^sup>*\<^sup>* ([], fresh_chain path) (chain, bc)"
  shows "\<exists>t. chain_inv (overflow_checks E) t chain bc"
  using assms
proof (induction rule: rtranclp_induct2)
  case refl
  then show ?case using fresh_chain_inv by blast
next
  case (step chain bc chain' bc')
  then show ?case using chain_step_inv by blast
qed

text \<open>A reachable chain is one that a restart finds again.\<close>

definition restartable :: "string \<Rightarrow> Blockchain \<Rightarrow> bool" where
  "restartable path bc \<longleftrightarrow>
     blockchain_path bc = chain_directory path \<and> store_path (block_store bc) = chain_directory path @ ''blocks/''
     \<and> (info_file bc = Some (info_of bc) \<or> bc = fresh_chain path)"

lemma restartable_fresh: "restartable path (fresh_chain path)"
  by (simp add: restartable_def fresh_chain_def blockchain_new_def load_blockchain_data_def Let_def store_new_empty_def)

lemma restart_restartable:
  assumes "restartable path bc"
  shows "blockchain_new path (disk_of bc) = bc"
proof (cases "info_file bc = Some (info_of bc)")
  case True
  with assms show ?thesis by (intro blockchain_new_saved) (simp_all add: restartable_def)
next
  case False
  with assms have "bc = fresh_chain path" by (simp add: restartable_def)
  then show ?thesis
    by (simp add: fresh_chain_def blockchain_new_def load_blockchain_data_def disk_of_def Let_def store_new_empty_def)
qed

lemma chain_step_restartable:
  assumes "chain_step E (chain, bc) (chain', bc')" and inv: "chain_inv (overflow_checks E) t0 chain bc"
    and r: "restartable path bc"
  shows "restartable path bc'"
  using assms(1)
proof cases
  case (added b is_ibd skip)
  from add_block_outcome [OF inv added(3,2)] have "check_block E b is_ibd skip bc = Ok ()" by simp
  from add_block_Ok [OF inv this added(3)] added(2) r show ?thesis by (auto simp: restartable_def)
next
  case (refused b is_ibd skip r)
  with add_block_outcome [OF inv refused(4,2)] r show ?thesis using assms(3) by auto
next
  case popped
  show ?thesis
  proof (cases chain rule: rev_cases)
    case Nil
    then have "store_represents (block_store bc) []" using inv by (simp add: chain_inv_def)
    with pop_block_empty popped(2) show ?thesis by (metis Pair_inject result.distinct(1))
  next
    case (snoc ch e)
    then have "chain_inv (overflow_checks E) t0 (ch @ [e]) bc" using inv by simp
    from pop_block_Ok [OF this] popped r show ?thesis by (auto simp: restartable_def)
  qed
qed

lemma reachable_restartable:
  assumes "(chain_step E)\<^sup>*\<^sup>* ([], fresh_chain path) (chain, bc)"
  shows "restartable path bc"
  using assms
proof (induction rule: rtranclp_induct2)
  case refl
  then show ?case by (rule restartable_fresh)
next
  case (step chain bc chain' bc')
  then show ?case using reachable_inv chain_step_restartable by blast
qed

end
