(* ===== verification/Demo.thy ===== *)
theory Demo
  imports Chain_Invariant
begin

text \<open>
  Concrete values for the witnesses of the properties: operations in place of the imported ones (the
  "hash" of a buffer is the number it is, a signature is the key), a reward transaction, a first block
  that carries it, and the chain that holds the block.
\<close>

definition demo :: chain_env where
  "demo =
     \<lparr>randomx = word_from_be_bytes, sha256 = (\<lambda>bs. word_of_nat (length bs)), key_valid = (\<lambda>_. True),
      verify_strict = (\<lambda>k m s. s = ucast k), sign_bytes = (\<lambda>k m. ucast k), verifying_key = (\<lambda>k. k),
      f64_ln = (\<lambda>x. if x = 2 then 1 else - 8), overflow_checks = True,
      encode_transaction = (\<lambda>tx. Inr (word_to_be_bytes 8 (tx_timestamp tx))),
      encode_inputs = (\<lambda>_. Inr []), encode_block = (\<lambda>b. Inr (word_to_be_bytes 8 (timestamp b))),
      encode_diffs = (\<lambda>_. Inr []), encode_data = (\<lambda>_. Inr [])\<rparr>"

lemma demo_simps [simp]:
  "randomx demo = word_from_be_bytes" "sha256 demo = (\<lambda>bs. word_of_nat (length bs))"
  "key_valid demo = (\<lambda>_. True)" "verify_strict demo = (\<lambda>k m s. s = ucast k)"
  "sign_bytes demo = (\<lambda>k m. ucast k)" "verifying_key demo = (\<lambda>k. k)"
  "overflow_checks demo = True"
  "encode_transaction demo tx = Inr (word_to_be_bytes 8 (tx_timestamp tx))"
  "encode_inputs demo is = Inr []" "encode_block demo b = Inr (word_to_be_bytes 8 (timestamp b))"
  "encode_diffs demo d = Inr []" "encode_data demo i = Inr []"
  by (simp_all add: demo_def)

lemma false_positive_rate_lt_1: "FALSE_POSITIVE_RATE < 2"
  using fl_mono [of "1 / 1000" 1] by (simp add: FALSE_POSITIVE_RATE_def)

lemma demo_ln_signs: "ln_signs demo"
  using false_positive_rate_lt_1 by (simp add: ln_signs_def demo_def)

section \<open>A reward\<close>

definition demo_miner :: Public where "demo_miner = Public 7"

definition demo_reward :: Transaction where
  "demo_reward =
     \<lparr>inputs = [], outputs = [\<lparr>amount = 9800000000, receiver = demo_miner\<rparr>,
        \<lparr>amount = 200000000, receiver = DEV_WALLET\<rparr>],
      transaction_id = Some (hash_new demo (word_to_be_bytes 8 (900 :: u64))), tx_nonce = 0,
      tx_timestamp = 900\<rparr>"

lemma dev_fee_initial: "calculate_dev_fee 10000000000 = 200000000"
proof -
  have a: "fl (1 / 50) = 5764607523034235 / 288230376151711744"
    using fl_nearest [of 5764607523034235 "2 / 100" 58] by simp
  have c: "fl (5764607523034235 * 10000000000 / 288230376151711744) = 200000000"
    using fl_nearest [of 6710886400000000 "5764607523034235 * 10000000000 / 2 ^ 58" 25] by simp
  show ?thesis
    using c by (simp add: calculate_dev_fee_def fmul_def f64_of_nat_def fl_numeral DEV_FEE_def a f64_as_nat_def)
qed

lemma demo_block_reward: "get_block_reward chk 0 = Ok 10000000000"
  by (simp add: get_block_reward_def shr_u_def INITIAL_REWARD_eq MIN_REWARD_def max_def word_le_nat_alt)

lemma demo_valid_reward: "valid_reward demo 0 False demo_reward"
  by (auto simp: valid_reward_def demo_reward_def demo_block_reward dev_fee_initial get_tx_hashing_buf_def)

section \<open>A block and its chain\<close>

text \<open>The block has the filter and the root that its transactions call for.\<close>

definition demo_block_of :: "Transaction list \<Rightarrow> DifficultyState \<Rightarrow> Hash \<Rightarrow> u64 \<Rightarrow> Block" where
  "demo_block_of txs d previous t =
     \<lparr>transactions = txs, timestamp = t, nonce = 0,
      meta = \<lparr>block_pow_difficulty = block_difficulty d, tx_pow_difficulty = transaction_difficulty d,
        previous_block = previous, hash = Some (hash_new demo (word_to_be_bytes 8 t)),
        merkle_tree_root = layer_root demo (map (leaf_hash demo) (map (the \<circ> transaction_id) txs)),
        address_inclusion_filter = (case create_filter demo txs of Ok f \<Rightarrow> f
          | _ \<Rightarrow> \<lparr>filter_bits = [], num_bits = 0, num_hashes = 0\<rparr>)\<rparr>\<rparr>"

lemma demo_block_meta:
  assumes "t \<le> SCIP_1_MIGRATION" and "\<forall>tx \<in> set txs. tx_check_completeness tx = Ok ()"
  shows "check_meta demo (demo_block_of txs d previous t) = Ok ()"
proof -
  let ?b = "demo_block_of txs d previous t"
  obtain f where f: "create_filter demo txs = Ok f" using create_filter_spec [OF demo_ln_signs] by blast
  have "transaction_id tx = Some (the (transaction_id tx))" if "tx \<in> set txs" for tx
    using assms(2) that by (auto simp: tx_check_completeness_Ok_iff)
  then have ids: "complete_ids txs = Ok (map (the \<circ> transaction_id) txs)"
    using assms(2) by (simp add: complete_ids_Ok_iff)
  have "transactions_digest demo xs \<noteq> Err e" for xs e by (induction xs) (auto simp: res_simps)
  then obtain ds where "transactions_digest demo txs = Ok ds"
    using transactions_digest_not_Panic by (metis result.exhaust)
  moreover have "\<not> SCIP_1_MIGRATION < t" using assms(1) by (simp add: not_less)
  ultimately have "get_hashing_buf demo ?b = Ok (word_to_be_bytes 8 t)"
    by (simp add: get_hashing_buf_def demo_block_of_def hash_less_def)
  with f ids show ?thesis by (simp add: check_meta_Ok_iff) (simp add: demo_block_of_def)
qed

definition demo_block :: Block where
  "demo_block = demo_block_of [demo_reward] difficulty_new_default GENESIS_PREVIOUS_BLOCK_HASH 1000"

lemma buf32_le_max: "w \<le> (-1 :: buf32)"
  by simp

lemma demo_check_block_at: "check_block demo demo_block False False (fresh_chain path) = Ok ()"
proof -
  have inv: "chain_inv True 0 [] (fresh_chain path)" by (rule fresh_chain_inv)
  have state: "get_last_block_hash (block_store (fresh_chain path)) = GENESIS_PREVIOUS_BLOCK_HASH"
    "get_height (block_store (fresh_chain path)) = 0" "difficulty_state (fresh_chain path) = difficulty_new_default"
    by (simp_all add: fresh_chain_def blockchain_new_def load_blockchain_data_def Let_def
        store_new_empty_def get_last_block_hash_def get_height_def)
  have "check_meta demo demo_block = Ok ()"
    unfolding demo_block_def
    by (rule demo_block_meta) (auto simp: econ tx_check_completeness_def demo_reward_def word_le_nat_alt)
  moreover have "validate_difficulties demo_block STARTING_BLOCK_DIFFICULTY STARTING_TX_DIFFICULTY = Ok ()"
    using block_difficulty_ge [of STARTING_BLOCK_DIFFICULTY "length (transactions demo_block)"]
    by (simp add: validate_difficulties_Ok_iff demo_block_def demo_block_of_def difficulty_new_default_def
        STARTING_BLOCK_DIFFICULTY_def word_le_nat_alt [symmetric]) (meson buf32_le_max order_trans)
  moreover have "valid_transactions demo L 0 target False demo_block [demo_reward]" for L target
    using demo_valid_reward
    by (simp add: valid_transactions_def all_inputs_def is_reward_def demo_reward_def)
  ultimately show ?thesis
    by (simp add: check_block_Ok_iff state chain_block_difficulty_def chain_transaction_difficulty_def
        difficulty_new_default_def MAX_TRANSACTIONS_PER_BLOCK_def)
      (simp add: demo_block_def demo_block_of_def)
qed

lemmas demo_check_block = demo_check_block_at [of "[]"]

lemma demo_appendable: "appendable demo [] demo_block"
  by (simp add: appendable_def new_ids_def can_append_def demo_block_def demo_block_of_def
      ledger_of_chain_def empty_ledger_def unused_def)

definition demo_chain :: "log_entry list" where
  "demo_chain = [(demo_block, block_diff empty_ledger [demo_reward])]"

definition demo_state :: Blockchain where
  "demo_state = snd (add_block demo demo_block False False (fresh_chain []))"

lemma demo_state:
  "add_block demo demo_block False False (fresh_chain []) = (Ok (), demo_state)"
  "chain_inv True 0 demo_chain demo_state"
  "info_file demo_state = Some (info_of demo_state)"
proof -
  have "chain_inv (overflow_checks demo) 0 [] (fresh_chain [])" by (rule fresh_chain_inv)
  from add_block_Ok [OF this demo_check_block demo_appendable]
  show "add_block demo demo_block False False (fresh_chain []) = (Ok (), demo_state)"
    "chain_inv True 0 demo_chain demo_state" "info_file demo_state = Some (info_of demo_state)"
    by (auto simp: demo_state_def demo_chain_def ledger_of_chain_def demo_block_def demo_block_of_def)
qed

end
