(* ===== verification/Chain_Properties.thy ===== *)
theory Chain_Properties
  imports Demo
begin

text \<open>
  The properties of the chain: what every reachable state satisfies, what adding, removing and
  restarting do, and how much there is.  Each property has, where it has hypotheses, a witness on the
  concrete chain of the theory \<open>Demo\<close>.
\<close>

section \<open>Reachable states\<close>


lemma demo_reachable: "(chain_step demo)\<^sup>*\<^sup>* ([], fresh_chain []) (demo_chain, demo_state)"
proof -
  have "chain_step demo ([], fresh_chain [])
      ([] @ [(demo_block, block_diff (ledger_of_chain []) (transactions demo_block))], demo_state)"
    using demo_state(1) demo_appendable by (rule chain_step.added)
  then show ?thesis
    by (intro r_into_rtranclp)
      (simp add: demo_chain_def ledger_of_chain_def demo_block_def demo_block_of_def)
qed






text \<open>A restart after a save finds the chain as it was saved.\<close>

theorem restart_restores_chain:
  assumes "save_blockchain_data E bc = (Ok (), bc')" and "blockchain_path bc = chain_directory path"
    and "store_path (block_store bc) = chain_directory path @ ''blocks/''"
  shows "blockchain_new path (disk_of bc') = bc'"
proof (rule blockchain_new_saved)
  have "bc' = bc\<lparr>info_file := Some (info_of bc)\<rparr>"
    using assms(1) by (auto simp: save_blockchain_data_def info_of_def Let_def split: sum.splits)
  with assms(2,3) show "info_file bc' = Some (info_of bc')" "blockchain_path bc' = chain_directory path"
    "store_path (block_store bc') = chain_directory path @ ''blocks/''" by simp_all
qed

lemma demo_paths:
  "blockchain_path demo_state = chain_directory []"
  "store_path (block_store demo_state) = chain_directory [] @ ''blocks/''"
proof -
  have "chain_inv (overflow_checks demo) 0 [] (fresh_chain [])" by (rule fresh_chain_inv)
  from add_block_Ok [OF this demo_check_block demo_appendable] demo_state(1)
  have "blockchain_path demo_state = blockchain_path (fresh_chain [])"
    "store_path (block_store demo_state) = store_path (block_store (fresh_chain []))" by auto
  then show "blockchain_path demo_state = chain_directory []"
    "store_path (block_store demo_state) = chain_directory [] @ ''blocks/''"
    by (simp_all add: fresh_chain_def blockchain_new_def load_blockchain_data_def Let_def store_new_empty_def)
qed

theorem restart_restores_chain_witness: "blockchain_new [] (disk_of demo_state) = demo_state"
proof (rule restart_restores_chain [OF _ demo_paths])
  show "save_blockchain_data demo demo_state = (Ok (), demo_state)"
    using demo_state(3) by (simp add: save_blockchain_data_def info_of_def)
qed

section \<open>Blocks and their effect\<close>

text \<open>
  C5. The checks of \<open>add_block\<close> accept exactly the valid blocks: valid metadata, the targets and the tip
  of the chain, at most 500 transactions, each a valid transfer or the one valid reward, and no input
  used twice.
\<close>

theorem check_block_accepts_exactly_valid_blocks:
  "check_block E b is_ibd skip bc = Ok u \<longleftrightarrow>
     (if skip then check_meta_ignore_hash E b else check_meta E b) = Ok ()
     \<and> validate_difficulties b (chain_block_difficulty bc) (chain_transaction_difficulty bc) = Ok ()
     \<and> previous_block (meta b) = get_last_block_hash (block_store bc)
     \<and> length (transactions b) \<le> MAX_TRANSACTIONS_PER_BLOCK
     \<and> valid_transactions E (ledger_of (utxos bc)) (get_height (block_store bc))
         (chain_transaction_difficulty bc) is_ibd b (transactions b)"
  by (rule check_block_Ok_iff)



text \<open>
  C7. In every reachable state of up to 64 million blocks the amount there is is at most the sum of the
  rewards so far, and it fits the 64-bit integers that hold amounts.
\<close>

theorem supply_is_bounded:
  assumes "(chain_step E)\<^sup>*\<^sup>* ([], fresh_chain path) (chain, bc)" and "length chain \<le> 64000000"
  shows "total_supply (utxos bc) \<le> (\<Sum>h<length chain. reward_spec h)
    \<and> (\<Sum>h<length chain. reward_spec h) < 2 ^ 64"
proof -
  obtain t where "chain_inv (overflow_checks E) t chain bc" using reachable_inv [OF assms(1)] by blast
  then have "total_supply (utxos bc) \<le> (\<Sum>h<length chain. reward_spec h)"
    using assms(2) by (rule chain_supply_bound)
  moreover have "(\<Sum>h<length chain. reward_spec h) < 2 ^ 64"
    using reward_sum_bound [of "length chain"] assms(2) by simp
  ultimately show ?thesis ..
qed

theorem supply_is_bounded_witness: "total_supply (utxos demo_state) \<le> 10000000000"
  using supply_is_bounded [OF demo_reachable] by (simp add: demo_chain_def reward_spec_def)

end
