(* ===== verification/Mem_Pool.thy ===== *)
theory Mem_Pool
  imports Transactions
begin

text \<open>
  \<open>node/mempool.rs\<close>: the pending transactions, in buckets by expiry time.  The lock around the
  map is held for the whole of each operation, so an operation is a function on the map; the clock
  reading is an argument.  \<open>pending\<close> is a \<open>BTreeMap\<close>: its buckets are visited in key order.
\<close>

section \<open>State and operations\<close>

type_synonym MemPool = "(u64, Transaction list) fmap"

definition mempool_new :: MemPool where "mempool_new = fmempty"

text \<open>One round of the watchdog: the new map, and the ids that are passed to \<open>on_expiry\<close>.\<close>

definition expired_keys :: "u64 \<Rightarrow> MemPool \<Rightarrow> u64 list" where
  "expired_keys now pending = List.filter (\<lambda>k. k \<le> now) (map fst (sorted_list_of_fmap pending))"

definition expire_transactions :: "u64 \<Rightarrow> MemPool \<Rightarrow> MemPool \<times> TransactionId list" where
  "expire_transactions now pending =
     (fold fmdrop (expired_keys now pending) pending,
      List.map_filter transaction_id
        (concat (List.map_filter (fmlookup pending) (expired_keys now pending))))"

definition get_mempool :: "MemPool \<Rightarrow> Transaction list" where
  "get_mempool pending = concat (map snd (sorted_list_of_fmap pending))"

definition mempool_add_transaction ::
  "bool \<Rightarrow> u64 \<Rightarrow> Transaction \<Rightarrow> MemPool \<Rightarrow> (MemPool, 'e) result"
where
  "mempool_add_transaction chk now transaction pending =
     bind_res (add_u chk now EXPIRATION_TIME) (\<lambda>expiry.
       Ok (fmupd expiry
             ((case fmlookup pending expiry of None \<Rightarrow> [] | Some txs \<Rightarrow> txs) @ [transaction])
             pending))"

definition same_outpoint :: "TransactionInput \<Rightarrow> TransactionInput \<Rightarrow> bool" where
  "same_outpoint mi i \<longleftrightarrow> output_index mi = output_index i \<and> input_tx_id mi = input_tx_id i"

definition mempool_validate_transaction :: "MemPool \<Rightarrow> Transaction \<Rightarrow> bool" where
  "mempool_validate_transaction pending transaction \<longleftrightarrow>
     list_all (\<lambda>mempool_transaction.
       \<not> list_ex (\<lambda>i. list_ex (\<lambda>mi. same_outpoint mi i) (inputs mempool_transaction))
           (inputs transaction))
       (get_mempool pending)"

definition still_pending :: "TransactionId list \<Rightarrow> Transaction \<Rightarrow> bool" where
  "still_pending txids mempool_tx =
     (case transaction_id mempool_tx of None \<Rightarrow> True | Some i \<Rightarrow> i \<notin> set txids)"

definition spend_transactions :: "TransactionId list \<Rightarrow> MemPool \<Rightarrow> MemPool" where
  "spend_transactions txids pending =
     (let retained = fmmap (List.filter (still_pending txids)) pending
      in fmfilter (\<lambda>k. fmlookup retained k \<noteq> Some []) retained)"

definition mempool_size :: "MemPool \<Rightarrow> usize" where
  "mempool_size pending = fold (\<lambda>(_, txs) acc. acc + length txs) (sorted_list_of_fmap pending) 0"

definition mempool_clear :: "MemPool \<Rightarrow> MemPool" where
  "mempool_clear pending = fmempty"

section \<open>Which transactions are pending\<close>

lemma in_get_mempool:
  "t \<in> set (get_mempool p) \<longleftrightarrow> (\<exists>k txs. fmlookup p k = Some txs \<and> t \<in> set txs)"
  by (auto simp: get_mempool_def set_sorted_list_of_fmap)

lemma mempool_size_length: "mempool_size p = length (get_mempool p)"
proof -
  have "fold (\<lambda>(_, txs) acc. acc + length txs) kvs n = n + length (concat (map snd kvs))"
    for kvs :: "(u64 \<times> Transaction list) list" and n :: nat
    by (induction kvs arbitrary: n) auto
  then show ?thesis by (simp add: mempool_size_def get_mempool_def)
qed

lemma in_expired_keys: "k \<in> set (expired_keys now p) \<longleftrightarrow> k \<le> now \<and> fmlookup p k \<noteq> None"
  by (force simp: expired_keys_def set_sorted_list_of_fmap)

lemma fold_fmdrop_lookup:
  "fmlookup (fold fmdrop ks m) k = (if k \<in> set ks then None else fmlookup m k)"
  by (induction ks arbitrary: m) auto

lemma expire_lookup:
  "fmlookup (fst (expire_transactions now p)) k = (if k \<le> now then None else fmlookup p k)"
  by (auto simp: expire_transactions_def fold_fmdrop_lookup in_expired_keys)

lemma in_collected:
  "i \<in> set (List.map_filter f (concat (List.map_filter g ks))) \<longleftrightarrow>
     (\<exists>k xs x. k \<in> set ks \<and> g k = Some xs \<and> x \<in> set xs \<and> f x = Some i)"
  unfolding in_map_filter set_concat by (simp add: in_map_filter Bex_def) blast

lemma in_expired_ids:
  "i \<in> set (snd (expire_transactions now p)) \<longleftrightarrow>
     (\<exists>k txs t. k \<le> now \<and> fmlookup p k = Some txs \<and> t \<in> set txs \<and> transaction_id t = Some i)"
  unfolding expire_transactions_def snd_conv in_collected by (auto simp: in_expired_keys)

lemma in_mempool_expire:
  "t \<in> set (get_mempool (fst (expire_transactions now p))) \<longleftrightarrow>
     (\<exists>k txs. now < k \<and> fmlookup p k = Some txs \<and> t \<in> set txs)"
  by (auto simp: in_get_mempool expire_lookup not_le split: if_splits)

lemma in_mempool_add:
  assumes "mempool_add_transaction chk now tx p = Ok p'"
  shows "t \<in> set (get_mempool p') \<longleftrightarrow> t = tx \<or> t \<in> set (get_mempool p)"
proof -
  obtain expiry where p': "p' = fmupd expiry
      ((case fmlookup p expiry of None \<Rightarrow> [] | Some txs \<Rightarrow> txs) @ [tx]) p"
    using assms by (auto simp: mempool_add_transaction_def res_simps)
  define old where "old = (case fmlookup p expiry of None \<Rightarrow> [] | Some txs \<Rightarrow> txs)"
  have old: "u \<in> set old \<longleftrightarrow> (\<exists>txs. fmlookup p expiry = Some txs \<and> u \<in> set txs)" for u
    by (cases "fmlookup p expiry") (simp_all add: old_def)
  have "t \<in> set (get_mempool p') \<longleftrightarrow> t = tx \<or> t \<in> set old \<or>
    (\<exists>k txs. k \<noteq> expiry \<and> fmlookup p k = Some txs \<and> t \<in> set txs)"
    unfolding p' in_get_mempool old_def [symmetric] by auto
  also have "\<dots> \<longleftrightarrow> t = tx \<or> t \<in> set (get_mempool p)"
    unfolding old in_get_mempool by (intro arg_cong [of _ _ "(\<or>) _"] iffI) (blast, metis)
  finally show ?thesis .
qed

lemma spend_lookup:
  "fmlookup (spend_transactions ids p) k =
     (case fmlookup p k of
        None \<Rightarrow> None
      | Some txs \<Rightarrow> if List.filter (still_pending ids) txs = [] then None
                    else Some (List.filter (still_pending ids) txs))"
  by (simp add: spend_transactions_def Let_def split: option.splits)

lemma spend_lookup_Some:
  "fmlookup (spend_transactions ids p) k = Some txs' \<longleftrightarrow>
     (\<exists>txs. fmlookup p k = Some txs \<and> txs' = List.filter (still_pending ids) txs \<and> txs' \<noteq> [])"
  unfolding spend_lookup by (cases "fmlookup p k") (auto simp: filter_empty_conv)

lemma in_mempool_spend:
  "t \<in> set (get_mempool (spend_transactions ids p)) \<longleftrightarrow>
     t \<in> set (get_mempool p) \<and> still_pending ids t"
proof
  assume "t \<in> set (get_mempool (spend_transactions ids p))"
  then obtain k txs where "fmlookup p k = Some txs" "t \<in> set (List.filter (still_pending ids) txs)"
    unfolding in_get_mempool spend_lookup_Some by blast
  then show "t \<in> set (get_mempool p) \<and> still_pending ids t" unfolding in_get_mempool by auto
next
  assume "t \<in> set (get_mempool p) \<and> still_pending ids t"
  then obtain k txs where k: "fmlookup p k = Some txs" "t \<in> set txs" "still_pending ids t"
    unfolding in_get_mempool by blast
  then have t: "t \<in> set (List.filter (still_pending ids) txs)" by simp
  with k have "fmlookup (spend_transactions ids p) k = Some (List.filter (still_pending ids) txs)"
    unfolding spend_lookup_Some by (metis empty_iff empty_set)
  with t show "t \<in> set (get_mempool (spend_transactions ids p))" unfolding in_get_mempool by blast
qed

lemma get_mempool_new [simp]: "get_mempool mempool_new = []" "get_mempool (mempool_clear p) = []"
  by (simp_all add: get_mempool_def mempool_new_def mempool_clear_def sorted_list_of_fmap_def
      sorted_list_of_fset.rep_eq)

section \<open>No output is spent twice\<close>

definition outpoints :: "Transaction \<Rightarrow> (TransactionId \<times> usize) set" where
  "outpoints tx = (\<lambda>i. (input_tx_id i, output_index i)) ` set (inputs tx)"

lemma mempool_validate_iff:
  "mempool_validate_transaction p tx \<longleftrightarrow>
     (\<forall>t \<in> set (get_mempool p). outpoints t \<inter> outpoints tx = {})"
proof -
  have "list_ex (\<lambda>i. list_ex (\<lambda>mi. same_outpoint mi i) (inputs t)) (inputs tx) \<longleftrightarrow>
    outpoints t \<inter> outpoints tx \<noteq> {}" for t
    by (force simp: outpoints_def same_outpoint_def list_ex_iff)
  then show ?thesis by (simp add: mempool_validate_transaction_def list_all_iff)
qed

text \<open>
  How many of the pending transactions spend an output.  The count does not depend on the buckets,
  so it can be taken bucket by bucket.
\<close>

definition spenders :: "TransactionId \<times> usize \<Rightarrow> Transaction list \<Rightarrow> nat" where
  "spenders out txs = length (List.filter (\<lambda>t. out \<in> outpoints t) txs)"

lemma spenders_simps [simp]:
  "spenders out [] = 0" "spenders out (t # txs) = (if out \<in> outpoints t then 1 else 0) + spenders out txs"
  "spenders out (txs @ txs') = spenders out txs + spenders out txs'"
  by (simp_all add: spenders_def)

lemma spenders_filter: "spenders out (List.filter P txs) \<le> spenders out txs"
  by (induction txs) auto

lemma spenders_0_iff: "spenders out txs = 0 \<longleftrightarrow> (\<forall>t \<in> set txs. out \<notin> outpoints t)"
  by (auto simp: spenders_def filter_empty_conv)

lemma spenders_get_mempool: "spenders out (get_mempool p) = fmap_sum (\<lambda>_. spenders out) p"
proof -
  have "spenders out (concat (map snd kvs)) = sum_list (map (\<lambda>(k, v). spenders out v) kvs)"
    for kvs :: "(u64 \<times> Transaction list) list"
    by (induction kvs) auto
  then show ?thesis by (simp add: get_mempool_def fmap_sum_list)
qed

definition mempool_inv :: "MemPool \<Rightarrow> bool" where
  "mempool_inv p \<longleftrightarrow> (\<forall>out. spenders out (get_mempool p) \<le> 1)"

lemma mempool_inv_new: "mempool_inv mempool_new" "mempool_inv (mempool_clear p)"
  by (simp_all add: mempool_inv_def)

lemma spenders_add:
  assumes "mempool_add_transaction chk now tx p = Ok p'"
  shows "spenders out (get_mempool p') = spenders out (get_mempool p) + spenders out [tx]"
proof -
  obtain expiry where p': "p' = fmupd expiry
      ((case fmlookup p expiry of None \<Rightarrow> [] | Some txs \<Rightarrow> txs) @ [tx]) p"
    using assms by (auto simp: mempool_add_transaction_def res_simps)
  show ?thesis
    unfolding p' spenders_get_mempool
    by (cases "fmlookup p expiry") (simp_all add: fmap_sum_upd fmap_sum_remove [of p expiry])
qed

lemma fmap_sum_sub:
  assumes "\<And>k v. fmlookup q k = Some v \<Longrightarrow> \<exists>w. fmlookup p k = Some w \<and> f k v \<le> f k w"
  shows "fmap_sum f q \<le> fmap_sum f p"
proof -
  have sub: "fmdom' q \<subseteq> fmdom' p" using assms by (fastforce simp: fmlookup_dom'_iff)
  have "fmap_sum f q \<le> (\<Sum>k \<in> fmdom' q. f k (the (fmlookup p k)))"
    unfolding fmap_sum_def 
    by (rule sum_mono) (use assms in \<open>fastforce simp: fmlookup_dom'_iff\<close>)
  also have "\<dots> \<le> fmap_sum f p"
    unfolding fmap_sum_def using sub by (intro sum_mono2) auto
  finally show ?thesis .
qed

lemma spenders_expire:
  "spenders out (get_mempool (fst (expire_transactions now p))) \<le> spenders out (get_mempool p)"
  unfolding spenders_get_mempool by (rule fmap_sum_sub) (auto simp: expire_lookup split: if_splits)

lemma spenders_spend:
  "spenders out (get_mempool (spend_transactions ids p)) \<le> spenders out (get_mempool p)"
  unfolding spenders_get_mempool
  by (rule fmap_sum_sub) (auto simp: spend_lookup spenders_filter split: option.splits if_splits)

lemma mempool_inv_expire: "mempool_inv p \<Longrightarrow> mempool_inv (fst (expire_transactions now p))"
  unfolding mempool_inv_def using spenders_expire le_trans by blast

lemma mempool_inv_spend: "mempool_inv p \<Longrightarrow> mempool_inv (spend_transactions ids p)"
  unfolding mempool_inv_def using spenders_spend le_trans by blast

lemma mempool_inv_add:
  assumes "mempool_inv p" and "mempool_validate_transaction p tx"
    and "mempool_add_transaction chk now tx p = Ok p'"
  shows "mempool_inv p'"
  unfolding mempool_inv_def spenders_add [OF assms(3)]
proof
  fix out
  show "spenders out (get_mempool p) + spenders out [tx] \<le> 1"
  proof (cases "out \<in> outpoints tx")
    case True
    with assms(2) have "spenders out (get_mempool p) = 0"
      unfolding mempool_validate_iff spenders_0_iff by blast
    then show ?thesis by simp
  next
    case False
    with assms(1) [unfolded mempool_inv_def, THEN spec, of out] show ?thesis by simp
  qed
qed

section \<open>The life of a memory pool\<close>

text \<open>
  What the nodes do to their memory pool when transactions are accepted one at a time: one is added
  only after \<open>mempool_validate_transaction\<close> has accepted it, while the watchdog and accepted blocks
  remove transactions at any time.
\<close>

inductive mempool_step :: "bool \<Rightarrow> MemPool \<Rightarrow> MemPool \<Rightarrow> bool" for chk where
  accept: "mempool_validate_transaction p tx \<Longrightarrow> mempool_add_transaction chk now tx p = (Ok p' :: (MemPool, unit) result)
    \<Longrightarrow> mempool_step chk p p'"
| expire: "mempool_step chk p (fst (expire_transactions now p))"
| spend: "mempool_step chk p (spend_transactions ids p)"
| clear: "mempool_step chk p (mempool_clear p)"

inductive_cases mempool_stepE: "mempool_step chk p p'"

lemma mempool_inv_step: "mempool_step chk p p' \<Longrightarrow> mempool_inv p \<Longrightarrow> mempool_inv p'"
  by (induction rule: mempool_step.induct)
    (simp_all add: mempool_inv_add mempool_inv_expire mempool_inv_spend mempool_inv_new)

lemma mempool_inv_steps: "(mempool_step chk)\<^sup>*\<^sup>* mempool_new p \<Longrightarrow> mempool_inv p"
  by (induction rule: rtranclp_induct) (auto simp: mempool_inv_new mempool_inv_step)

text \<open>
  The test and the addition take the lock separately, and \<open>accept_transaction\<close> holds no other lock
  over them: two tasks can both be between the two.
\<close>

inductive mempool_race ::
  "bool \<Rightarrow> MemPool \<times> Transaction set \<Rightarrow> MemPool \<times> Transaction set \<Rightarrow> bool" for chk
where
  tested: "mempool_validate_transaction p tx \<Longrightarrow> mempool_race chk (p, passed) (p, insert tx passed)"
| added: "tx \<in> passed \<Longrightarrow> mempool_add_transaction chk now tx p = (Ok p' :: (MemPool, unit) result)
    \<Longrightarrow> mempool_race chk (p, passed) (p', passed - {tx})"

lemma race_breaks_inv:
  assumes "outpoints tx \<inter> outpoints tx' \<noteq> {}" and "tx \<noteq> tx'" and "unat (now :: u64) + 350 < 2 ^ 64"
  shows "\<exists>p. (mempool_race chk)\<^sup>*\<^sup>* (mempool_new, {}) (p, {}) \<and> \<not> mempool_inv p"
proof -
  have empty: "mempool_validate_transaction mempool_new t" for t by (simp add: mempool_validate_iff)
  have no_overflow: "add_u chk now EXPIRATION_TIME = (Ok (now + EXPIRATION_TIME) :: (u64, unit) result)"
    using assms(3) by (intro add_u_no_overflow) (simp add: EXPIRATION_TIME_eq)
  have add: "\<exists>p'. mempool_add_transaction chk now t p = (Ok p' :: (MemPool, unit) result)" for t p
    by (simp add: mempool_add_transaction_def no_overflow)
  obtain p1 where p1: "mempool_add_transaction chk now tx mempool_new = (Ok p1 :: (MemPool, unit) result)"
    using add by blast
  obtain p2 where p2: "mempool_add_transaction chk now tx' p1 = (Ok p2 :: (MemPool, unit) result)"
    using add by blast
  have 1: "mempool_race chk (mempool_new, {}) (mempool_new, {tx})" by (rule tested [OF empty])
  have 2: "mempool_race chk (mempool_new, {tx}) (mempool_new, {tx', tx})"
    by (rule tested [OF empty])
  have 3: "mempool_race chk (mempool_new, {tx', tx}) (p1, {tx'})"
    using added [OF _ p1, where passed = "{tx', tx}"] assms(2) by (simp add: insert_Diff_if)
  have 4: "mempool_race chk (p1, {tx'}) (p2, {})" using added [OF _ p2, where passed = "{tx'}"] by simp
  have "(mempool_race chk)\<^sup>*\<^sup>* (mempool_new, {}) (p2, {})"
    using 1 2 3 4 by (meson converse_rtranclp_into_rtranclp rtranclp.rtrancl_refl)
  moreover have "\<not> mempool_inv p2"
  proof -
    obtain out where "out \<in> outpoints tx" "out \<in> outpoints tx'" using assms(1) by blast
    then have "spenders out (get_mempool p2) = 2"
      by (simp add: spenders_add [OF p2] spenders_add [OF p1])
    then have "\<not> spenders out (get_mempool p2) \<le> 1" by simp
    then show ?thesis unfolding mempool_inv_def by blast
  qed
  ultimately show ?thesis by blast
qed

end
