(* ===== verification/Messages.thy ===== *)
theory Messages
  imports Blockchain Merkle_Tree
begin

text \<open>
  \<open>node/message.rs\<close>: the commands of the peer-to-peer protocol and the framing of a message on a
  stream.  The encoder and the decoder of commands are \<open>bincode\<close>'s, fields of \<open>message_env\<close>.  A stream
  that is read is the list of the bytes that will arrive on it before it is closed.
\<close>

section \<open>Commands and messages\<close>

definition METADATA_FETCH_MAX_COUNT :: usize where "METADATA_FETCH_MAX_COUNT = 1024"

definition HASHES_FETCH_MAX_COUNT :: usize where "HASHES_FETCH_MAX_COUNT = 1000000"

definition CURRENT_NETWORK_ID :: u32 where "CURRENT_NETWORK_ID = 200720092"

definition VERSION :: u16 where "VERSION = 4"

type_synonym ConnectionFlags = u32

definition FULL_NODE_CAPABILITY :: ConnectionFlags where "FULL_NODE_CAPABILITY = 1"

datatype Command =
    Connect
  | AcknowledgeConnection
  | Ping usize
  | Pong usize
  | GetPeers
  | SendPeers "string list"
  | NewBlock Block
  | NewBlockResolved
  | NewTransaction Transaction
  | NewTransactionResolved
  | GetBlockMetadata Hash
  | GetBlockMetadataResponse "BlockMetadata option"
  | GetBlockMetadatas usize usize
  | GetBlockMetadatasResponse "BlockMetadata list"
  | GetBlock Hash
  | GetBlockResponse "Block option"
  | GetBlockHashes usize usize
  | GetBlockHashesResponse "Hash list"
  | GetTransactionMerkleProof Hash TransactionId
  | GetTransactionMerkleProofResponse "MerkleTreeProof option"
  | AcknowledgeConnectionWithFlags ConnectionFlags

datatype MessageError =
    EncodingM string | DecodingM string | StreamM string
  | HeaderLength | HeaderItemLength | IncorrectNetwork

type_synonym MessageId = u32

record Message =
  version :: u16
  message_id :: MessageId
  command :: Command

record message_env = chain_env +
  encode_command :: "Command \<Rightarrow> string + u8 list"
  decode_command :: "u8 list \<Rightarrow> string + Command"

definition message_new :: "MessageId \<Rightarrow> Command \<Rightarrow> Message" where
  "message_new random c = \<lparr>version = VERSION, message_id = random, command = c\<rparr>"

definition make_response :: "Message \<Rightarrow> Command \<Rightarrow> Message" where
  "make_response m c = \<lparr>version = VERSION, message_id = message_id m, command = c\<rparr>"

section \<open>Framing\<close>

text \<open>The length of the body is cast to \<open>u32\<close>.\<close>

definition serialize :: "'z message_env_scheme \<Rightarrow> Message \<Rightarrow> (u8 list, MessageError) result" where
  "serialize E m =
     bind_res (map_err EncodingM (encoded (encode_command E (command m)))) (\<lambda>command_bytes.
     let size = word_of_nat (length command_bytes) :: u32;
         header_bytes = word_to_be_bytes 2 (version m) @ word_to_be_bytes 4 CURRENT_NETWORK_ID
           @ word_to_be_bytes 4 (message_id m) @ word_to_be_bytes 4 size
     in Ok (header_bytes @ command_bytes))"

definition early_eof :: string where "early_eof = ''early eof''"

definition read_exact :: "nat \<Rightarrow> u8 list \<Rightarrow> (u8 list, MessageError, u8 list) run" where
  "read_exact n stream =
     (if n \<le> length stream then (Ok (take n stream), drop n stream) else (Err (StreamM early_eof), []))"

definition from_stream ::
  "'z message_env_scheme \<Rightarrow> u8 list \<Rightarrow> (Message, MessageError, u8 list) run"
where
  "from_stream E stream =
     bind_run (read_exact 14 stream) (\<lambda>header_bytes stream.
     let version_bytes = take 2 header_bytes; rest = drop 2 header_bytes;
         network_bytes = take 4 rest; rest = drop 4 rest;
         id_bytes = take 4 rest; size_bytes = drop 4 rest;
         network_id = word_from_be_bytes network_bytes :: u32;
         size = word_from_be_bytes size_bytes :: u32
     in if network_id \<noteq> CURRENT_NETWORK_ID then (Err IncorrectNetwork, stream)
        else bind_run (read_exact (unat size) stream) (\<lambda>command_bytes stream.
          case decode_command E command_bytes of
            Inl e \<Rightarrow> (Err (DecodingM e), stream)
          | Inr c \<Rightarrow> (Ok \<lparr>version = word_from_be_bytes version_bytes,
                          message_id = word_from_be_bytes id_bytes, command = c\<rparr>, stream)))"

section \<open>What is read is what was written\<close>

definition header :: "u16 \<Rightarrow> u32 \<Rightarrow> MessageId \<Rightarrow> u32 \<Rightarrow> u8 list" where
  "header v network_id i sz =
     word_to_be_bytes 2 v @ word_to_be_bytes 4 network_id @ word_to_be_bytes 4 i @ word_to_be_bytes 4 sz"

lemma length_header [simp]: "length (header v n i sz) = 14"
  by (simp add: header_def)

lemma serialize_Ok_iff:
  "serialize E m = Ok bytes \<longleftrightarrow>
     (\<exists>body. encode_command E (command m) = Inr body \<and>
        bytes = header (version m) CURRENT_NETWORK_ID (message_id m) (word_of_nat (length body)) @ body)"
  by (auto simp: serialize_def header_def encoded_def Let_def split: sum.splits)

lemma word_bytes_inverse [simp]:
  "word_from_be_bytes (word_to_be_bytes 2 v) = (v :: u16)"
  "word_from_be_bytes (word_to_be_bytes 4 w) = (w :: u32)"
  by (simp_all add: word_be_bytes_inverse)

lemma from_stream_header:
  "from_stream E (header v n i sz @ stream) =
     (if n \<noteq> CURRENT_NETWORK_ID then (Err IncorrectNetwork, stream)
      else bind_run (read_exact (unat sz) stream) (\<lambda>body stream.
        case decode_command E body of
          Inl e \<Rightarrow> (Err (DecodingM e), stream)
        | Inr c \<Rightarrow> (Ok \<lparr>version = v, message_id = i, command = c\<rparr>, stream)))"
proof -
  have "read_exact 14 (header v n i sz @ stream) = (Ok (header v n i sz), stream)"
    by (simp add: read_exact_def)
  moreover have "take 2 (header v n i sz) = word_to_be_bytes 2 v"
    "take 4 (drop 2 (header v n i sz)) = word_to_be_bytes 4 n"
    "take 4 (drop 4 (drop 2 (header v n i sz))) = word_to_be_bytes 4 i"
    "drop 4 (drop 4 (drop 2 (header v n i sz))) = word_to_be_bytes 4 sz"
    by (simp_all add: header_def)
  ultimately show ?thesis
    unfolding from_stream_def by (simp only: bind_run_simps Let_def word_bytes_inverse)
qed

definition faithful_codec :: "'z message_env_scheme \<Rightarrow> Command \<Rightarrow> bool" where
  "faithful_codec E c \<longleftrightarrow>
     (\<exists>body. encode_command E c = Inr body \<and> length body < 2 ^ 32 \<and> decode_command E body = Inr c)"

lemma from_stream_serialize:
  assumes "faithful_codec E (command m)" and "serialize E m = Ok bytes"
  shows "from_stream E (bytes @ rest) = (Ok m, rest)"
proof -
  obtain body where body: "encode_command E (command m) = Inr body" "length body < 2 ^ 32"
    "decode_command E body = Inr (command m)"
    using assms(1) by (auto simp: faithful_codec_def)
  with assms(2) have bytes: "bytes =
    header (version m) CURRENT_NETWORK_ID (message_id m) (word_of_nat (length body)) @ body"
    by (simp add: serialize_Ok_iff)
  have "unat (word_of_nat (length body) :: u32) = length body"
    using body(2) by (simp add: unat_of_nat take_bit_nat_eq_self)
  then show ?thesis
    by (simp add: bytes from_stream_header read_exact_def body(3))
qed

text \<open>Reading message after message.\<close>

primrec read_messages ::
  "'z message_env_scheme \<Rightarrow> nat \<Rightarrow> u8 list \<Rightarrow> (Message list, MessageError, u8 list) run"
where
  "read_messages E 0 stream = (Ok [], stream)"
| "read_messages E (Suc n) stream =
     bind_run (from_stream E stream) (\<lambda>m stream.
     bind_run (read_messages E n stream) (\<lambda>ms stream. (Ok (m # ms), stream)))"

lemma read_messages_serialized:
  assumes "list_all2 (\<lambda>m bytes. faithful_codec E (command m) \<and> serialize E m = Ok bytes) ms bss"
  shows "read_messages E (length ms) (concat bss @ rest) = (Ok ms, rest)"
  using assms
proof (induction ms bss rule: list_all2_induct)
  case (Cons m ms bytes bss)
  then have "from_stream E (bytes @ (concat bss @ rest)) = (Ok m, concat bss @ rest)"
    by (intro from_stream_serialize) simp_all
  then show ?case using Cons.IH by simp
qed simp

text \<open>Conversely, an accepted message is framed by a header of this network.\<close>

lemma header_split:
  assumes "length bs = 14"
  shows "bs = header (word_from_be_bytes (take 2 bs)) (word_from_be_bytes (take 4 (drop 2 bs)))
    (word_from_be_bytes (take 4 (drop 6 bs))) (word_from_be_bytes (drop 10 bs))"
proof -
  have inv: "word_to_be_bytes 2 (word_from_be_bytes xs :: u16) = xs" if "length xs = 2" for xs
    using word_to_be_bytes_inverse [of xs, where ?'a = 16] that by simp
  have inv': "word_to_be_bytes 4 (word_from_be_bytes xs :: u32) = xs" if "length xs = 4" for xs
    using word_to_be_bytes_inverse [of xs, where ?'a = 32] that by simp
  have "bs = take 2 bs @ drop 2 bs" by simp
  also have "drop 2 bs = take 4 (drop 2 bs) @ drop 6 bs"
    using append_take_drop_id [of 4 "drop 2 bs"] by simp
  also have "drop 6 bs = take 4 (drop 6 bs) @ drop 10 bs"
    using append_take_drop_id [of 4 "drop 6 bs"] by simp
  finally show ?thesis using assms by (simp add: header_def inv inv')
qed

lemma from_stream_Ok:
  assumes "from_stream E stream = (Ok m, rest)"
  shows "\<exists>sz body. stream = header (version m) CURRENT_NETWORK_ID (message_id m) sz @ body @ rest
    \<and> length body = unat sz \<and> decode_command E body = Inr (command m)"
proof -
  have len: "14 \<le> length stream"
    using assms by (auto simp: from_stream_def read_exact_def split: if_splits)
  define h where "h = take 14 stream"
  have h: "length h = 14" "stream = h @ drop 14 stream" using len by (simp_all add: h_def)
  obtain v n i sz where s: "stream = header v n i sz @ drop 14 stream"
    using h header_split [OF h(1)] by metis
  define tail where "tail = drop 14 stream"
  have stream: "stream = header v n i sz @ tail" using s by (simp add: tail_def)
  have "from_stream E (header v n i sz @ tail) = (Ok m, rest)" using assms stream by simp
  then have "n = CURRENT_NETWORK_ID" "unat sz \<le> length tail"
    "decode_command E (take (unat sz) tail) = Inr (command m)"
    "rest = drop (unat sz) tail" "version m = v" "message_id m = i"
    unfolding from_stream_header
    by (auto simp: read_exact_def res_simps split: if_splits sum.splits)
  then show ?thesis
    by (intro exI [of _ sz] exI [of _ "take (unat sz) tail"]) (simp add: stream)
qed

end
