(* ===== verification/Node_State.thy ===== *)
theory Node_State
  imports Mem_Pool Messages Target Utils
begin

text \<open>
  \<open>node/mod.rs\<close>, \<open>node/chain_events.rs\<close> and \<open>full_node/node_state.rs\<close>: the state a node shares
  between its tasks.  Every field is behind its own lock, so each operation is a function on the
  state.  Events that are sent are collected in the order they are sent.  A \<open>HashMap\<close> of peers is a
  list in the map's iteration order, which is arbitrary; the health scores are only read and written
  by key.
\<close>

section \<open>Addresses\<close>

datatype IpAddr = V4 u32 | V6 "128 word"

record SocketAddr =
  ip :: IpAddr
  port :: u16

text \<open>\<open>Display\<close> of addresses, as the standard library prints them (no flow label, no scope).\<close>

definition ipv4_to_string :: "u32 \<Rightarrow> string" where
  "ipv4_to_string a =
     (case map (\<lambda>b. dec (unat b)) (word_to_be_bytes 4 a) of
        [x, y, z, w] \<Rightarrow> x @ ''.'' @ y @ ''.'' @ z @ ''.'' @ w | _ \<Rightarrow> [])"

definition hex_digit :: "nat \<Rightarrow> char" where
  "hex_digit d = (''0123456789abcdef'' ! d)"

fun hex :: "nat \<Rightarrow> string" where
  "hex n = (if n < 16 then [hex_digit n] else hex (n div 16) @ [hex_digit (n mod 16)])"

definition segments :: "128 word \<Rightarrow> nat list" where
  "segments a = map (\<lambda>i. unat a div 2 ^ (16 * (7 - i)) mod 2 ^ 16) [0..<8]"

fun join_hex :: "nat list \<Rightarrow> string" where
  "join_hex [] = []"
| "join_hex [s] = hex s"
| "join_hex (s # ss) = hex s @ '':'' @ join_hex ss"

text \<open>The first longest run of zero segments, as its start and length.\<close>

fun zero_span :: "nat list \<Rightarrow> nat \<Rightarrow> nat \<times> nat \<Rightarrow> nat \<times> nat \<Rightarrow> nat \<times> nat" where
  "zero_span [] i current longest = longest"
| "zero_span (s # ss) i (start, len) longest =
     (if s = 0 then
        let current = (if len = 0 then (i, 1) else (start, len + 1))
        in zero_span ss (i + 1) current (if snd longest < snd current then current else longest)
      else zero_span ss (i + 1) (0, 0) longest)"

definition ipv6_to_string :: "128 word \<Rightarrow> string" where
  "ipv6_to_string a =
     (let s = segments a
      in if take 6 s = [0, 0, 0, 0, 0, 65535] then ''::ffff:'' @ ipv4_to_string (ucast a)
         else case zero_span s 0 (0, 0) (0, 0) of (start, len) \<Rightarrow>
           if 1 < len then join_hex (take start s) @ ''::'' @ join_hex (drop (start + len) s)
           else join_hex s)"

definition address_to_string :: "SocketAddr \<Rightarrow> string" where
  "address_to_string a =
     (case ip a of V4 v \<Rightarrow> ipv4_to_string v | V6 v \<Rightarrow> ''['' @ ipv6_to_string v @ '']'')
       @ '':'' @ dec (unat (port a))"

section \<open>State\<close>

definition BAN_SCORE_THRESHOLD :: u8 where "BAN_SCORE_THRESHOLD = 10"

definition PUNISHMENT :: u8 where "PUNISHMENT = 4"

type_synonym ClientHealthScores = "(IpAddr, u8) fmap"

datatype ChainEvent =
    BlockEvent Block
  | TransactionEvent Transaction
  | TransactionExpiration TransactionId

text \<open>A peer's handle, without the channels to its tasks.\<close>

record PeerHandle =
  address :: SocketAddr
  is_client :: bool
  flags :: ConnectionFlags

record NodeState =
  connected_peers :: "(SocketAddr \<times> PeerHandle) list"
  mempool :: MemPool
  is_syncing :: bool
  chain_events :: "ChainEvent list"
  client_health_scores :: ClientHealthScores
  advertised_ip :: "SocketAddr option"
  last_seen_block :: Hash
  last_seen_transactions :: "TransactionId list"

definition node_state_new_empty :: "SocketAddr option \<Rightarrow> NodeState" where
  "node_state_new_empty advertised =
     \<lparr>connected_peers = [], mempool = mempool_new, is_syncing = False, chain_events = [],
      client_health_scores = fmempty, advertised_ip = advertised,
      last_seen_block = hash_new_from_buf 0, last_seen_transactions = []\<rparr>"

definition set_last_seen_block :: "Hash \<Rightarrow> NodeState \<Rightarrow> NodeState" where
  "set_last_seen_block h s = s\<lparr>last_seen_block := h\<rparr>"

definition add_recent :: "TransactionId \<Rightarrow> TransactionId list \<Rightarrow> TransactionId list" where
  "add_recent tx_id txs =
     (if tx_id \<in> set txs then txs
      else let txs = txs @ [tx_id] in if 500 < length txs then tl txs else txs)"

definition add_last_seen_transaction :: "TransactionId \<Rightarrow> NodeState \<Rightarrow> NodeState" where
  "add_last_seen_transaction tx_id s =
     s\<lparr>last_seen_transactions := add_recent tx_id (last_seen_transactions s)\<rparr>"

definition get_live_transaction_difficulty :: "buf32 \<Rightarrow> NodeState \<Rightarrow> buf32" where
  "get_live_transaction_difficulty d s =
     calculate_live_transaction_difficulty d (mempool_size (mempool s))"

definition send_event :: "ChainEvent \<Rightarrow> NodeState \<Rightarrow> NodeState" where
  "send_event e s = s\<lparr>chain_events := chain_events s @ [e]\<rparr>"

section \<open>Punishment\<close>

definition score_of :: "IpAddr \<Rightarrow> ClientHealthScores \<Rightarrow> u8" where
  "score_of a scores = (case fmlookup scores a of None \<Rightarrow> 0 | Some s \<Rightarrow> s)"

definition punish_ip :: "bool \<Rightarrow> IpAddr \<Rightarrow> ClientHealthScores \<Rightarrow> (ClientHealthScores, 'e) result" where
  "punish_ip chk a scores =
     bind_res (add_u chk (score_of a scores) PUNISHMENT) (\<lambda>s. Ok (fmupd a s scores))"

definition decrement_punishments :: "ClientHealthScores \<Rightarrow> ClientHealthScores" where
  "decrement_punishments scores =
     (let lowered = fmmap (\<lambda>s. saturating_sub s PUNISHMENT) scores
      in fmfilter (\<lambda>a. fmlookup lowered a \<noteq> Some 0) lowered)"

definition get_banned_ips :: "ClientHealthScores \<Rightarrow> IpAddr set" where
  "get_banned_ips scores =
     fmdom' (fmfilter (\<lambda>a. BAN_SCORE_THRESHOLD < score_of a scores) scores)"

lemma banned_iff: "a \<in> get_banned_ips scores \<longleftrightarrow> 10 < unat (score_of a scores)"
proof -
  have "BAN_SCORE_THRESHOLD < s \<longleftrightarrow> 10 < unat s" for s
    by (simp add: BAN_SCORE_THRESHOLD_def word_less_nat_alt)
  then show ?thesis
    by (auto simp: get_banned_ips_def fmlookup_dom'_iff score_of_def split: option.splits)
qed

lemma score_decrement [simp]:
  "unat (score_of a (decrement_punishments scores)) = unat (score_of a scores) - 4"
proof (cases "fmlookup scores a")
  case (Some s)
  have "unat (saturating_sub s PUNISHMENT) = unat s - 4"
    by (simp add: unat_saturating_sub PUNISHMENT_def)
  moreover from this have "saturating_sub s PUNISHMENT = 0 \<longleftrightarrow> unat s - 4 = 0"
    by (metis unat_eq_zero)
  ultimately show ?thesis by (simp add: Some score_of_def decrement_punishments_def Let_def)
qed (simp add: score_of_def decrement_punishments_def Let_def)

lemma score_decrements: "unat (score_of a ((decrement_punishments ^^ n) scores)) = unat (score_of a scores) - 4 * n"
  by (induction n) auto

lemma punish_ip_score:
  assumes "unat (score_of a scores) < 252"
  shows "\<exists>scores'. punish_ip chk a scores = (Ok scores' :: (_, 'e) result)
    \<and> unat (score_of a scores') = unat (score_of a scores) + 4
    \<and> (\<forall>b. b \<noteq> a \<longrightarrow> score_of b scores' = score_of b scores)"
proof -
  have "unat (score_of a scores) + unat PUNISHMENT < 2 ^ 8"
    using assms by (simp add: PUNISHMENT_def)
  then show ?thesis
    by (simp add: punish_ip_def score_of_def unat_add_no_overflow PUNISHMENT_def)
qed

text \<open>The peer is disconnected: it is punished, and ten times more once it has gone too far.\<close>

primrec punish_times :: "bool \<Rightarrow> nat \<Rightarrow> IpAddr \<Rightarrow> ClientHealthScores \<Rightarrow> (ClientHealthScores, 'e) result" where
  "punish_times chk 0 a scores = Ok scores"
| "punish_times chk (Suc n) a scores = bind_res (punish_ip chk a scores) (punish_times chk n a)"

definition punish_on_kill :: "bool \<Rightarrow> IpAddr \<Rightarrow> ClientHealthScores \<Rightarrow> (ClientHealthScores, 'e) result" where
  "punish_on_kill chk a scores =
     bind_res (punish_ip chk a scores) (\<lambda>scores.
       if BAN_SCORE_THRESHOLD < score_of a scores then punish_times chk 10 a scores else Ok scores)"

lemma punish_times_score:
  assumes "unat (score_of a scores) + 4 * n < 256"
  shows "\<exists>scores'. punish_times chk n a scores = (Ok scores' :: (_, 'e) result)
    \<and> unat (score_of a scores') = unat (score_of a scores) + 4 * n
    \<and> (\<forall>b. b \<noteq> a \<longrightarrow> score_of b scores' = score_of b scores)"
  using assms
proof (induction n arbitrary: scores)
  case (Suc n)
  then have "unat (score_of a scores) < 252" by simp
  from punish_ip_score [OF this, of chk, where ?'e = 'e] obtain s where s: "punish_ip chk a scores = (Ok s :: (_, 'e) result)"
    "unat (score_of a s) = unat (score_of a scores) + 4"
    "\<forall>b. b \<noteq> a \<longrightarrow> score_of b s = score_of b scores" by metis
  with Suc.prems have "unat (score_of a s) + 4 * n < 256" by simp
  from Suc.IH [OF this] s show ?case by (simp add: add.assoc)
qed simp

lemma punish_on_kill_score:
  assumes "unat (score_of a scores) < 212"
  shows "\<exists>scores'. punish_on_kill chk a scores = (Ok scores' :: (_, 'e) result)
    \<and> unat (score_of a scores') =
        unat (score_of a scores) + (if 6 < unat (score_of a scores) then 44 else 4)
    \<and> (\<forall>b. b \<noteq> a \<longrightarrow> score_of b scores' = score_of b scores)"
proof -
  have "unat (score_of a scores) < 252" using assms by simp
  from punish_ip_score [OF this, of chk, where ?'e = 'e] obtain s where s: "punish_ip chk a scores = (Ok s :: (_, 'e) result)"
    "unat (score_of a s) = unat (score_of a scores) + 4"
    "\<forall>b. b \<noteq> a \<longrightarrow> score_of b s = score_of b scores" by metis
  have "unat (score_of a s) + 4 * 10 < 256" using s(2) assms by simp
  from punish_times_score [OF this, of chk, where ?'e = 'e] obtain t where t: "punish_times chk 10 a s = (Ok t :: (_, 'e) result)"
    "unat (score_of a t) = unat (score_of a s) + 40"
    "\<forall>b. b \<noteq> a \<longrightarrow> score_of b t = score_of b s" by auto
  have "BAN_SCORE_THRESHOLD < score_of a s \<longleftrightarrow> 6 < unat (score_of a scores)"
    using s(2) by (auto simp: BAN_SCORE_THRESHOLD_def word_less_nat_alt)
  with s t show ?thesis by (simp add: punish_on_kill_def)
qed

section \<open>Transactions that were seen\<close>

definition recent_inv :: "TransactionId list \<Rightarrow> bool" where
  "recent_inv txs \<longleftrightarrow> distinct txs \<and> length txs \<le> 500"

lemma add_recent_eq:
  "recent_inv txs \<Longrightarrow> add_recent x txs =
     (if x \<in> set txs then txs else drop (length txs + 1 - 500) (txs @ [x]))"
  by (cases txs; cases "length txs = 500") (auto simp: add_recent_def recent_inv_def Let_def drop_Suc)

interpretation recent: recency_list add_recent "\<lambda>txs. txs" "\<lambda>_. 500" recent_inv
proof unfold_locales
  fix s x
  assume inv: "recent_inv s"
  show "add_recent x s = (if x \<in> set s then s else drop (length s + 1 - 500) (s @ [x]))"
    by (rule add_recent_eq [OF inv])
  then show "recent_inv (add_recent x s)" using inv by (auto simp: recent_inv_def dest: in_set_dropD)
qed (auto simp: recent_inv_def)

lemma recent_inv_new: "recent_inv (last_seen_transactions (node_state_new_empty a))"
  by (simp add: recent_inv_def node_state_new_empty_def)

end
