(* ===== verification/Full_Node.thy ===== *)
theory Full_Node
  imports Node_State Chain_Invariant
begin

text \<open>
  \<open>full_node/mod.rs\<close> and \<open>full_node/behavior.rs\<close>: how a full node accepts blocks and transactions and
  answers its peers.  The node's state is the chain, the state its tasks share and the commands it has
  forwarded to all its peers.  \<open>accept_block\<close> runs under the \<open>processing\<close> lock; the clock readings
  are arguments.
\<close>

section \<open>State\<close>

record FullNode =
  blockchain :: Blockchain
  node_state :: NodeState
  forwarded :: "Command list"

definition on_node_state :: "(NodeState \<Rightarrow> NodeState) \<Rightarrow> FullNode \<Rightarrow> FullNode" where
  "on_node_state f n = n\<lparr>node_state := f (node_state n)\<rparr>"

definition on_mempool :: "(MemPool \<Rightarrow> MemPool) \<Rightarrow> NodeState \<Rightarrow> NodeState" where
  "on_mempool f s = s\<lparr>mempool := f (mempool s)\<rparr>"

definition on_chain ::
  "(Blockchain \<Rightarrow> ('a, 'e, Blockchain) run) \<Rightarrow> FullNode \<Rightarrow> ('a, 'e, FullNode) run"
where
  "on_chain f n = (case f (blockchain n) of (r, bc) \<Rightarrow> (r, n\<lparr>blockchain := bc\<rparr>))"

definition forward :: "Command \<Rightarrow> FullNode \<Rightarrow> FullNode" where
  "forward c n = n\<lparr>forwarded := forwarded n @ [c]\<rparr>"

text \<open>\<open>map(|tx| tx.transaction_id.unwrap())\<close>\<close>

fun unwrap_ids :: "Transaction list \<Rightarrow> (TransactionId list, 'e) result" where
  "unwrap_ids [] = Ok []"
| "unwrap_ids (tx # txs) =
     bind_res (expect (transaction_id tx)) (\<lambda>i. bind_res (unwrap_ids txs) (\<lambda>ids. Ok (i # ids)))"

section \<open>Accepting\<close>

definition accept_block ::
  "'z chain_env_scheme \<Rightarrow> u64 \<Rightarrow> u64 \<Rightarrow> Block \<Rightarrow> FullNode \<Rightarrow> (unit, BlockchainError, FullNode) run"
where
  "accept_block E now now' new_block n =
     bind_run (map_err BlockC (check_completeness new_block), n) (\<lambda>_ n.
     bind_run (expect (hash (meta new_block)), n) (\<lambda>block_hash n.
     if last_seen_block (node_state n) = block_hash then (Ok (), n)
     else
       bind_run (validate_block_timestamp (overflow_checks E) now now' new_block,
           on_node_state (set_last_seen_block block_hash) n) (\<lambda>_ n.
       bind_run (on_chain (add_block E new_block False False) n) (\<lambda>_ n.
       bind_run (unwrap_ids (transactions new_block), n) (\<lambda>ids n.
         (Ok (), forward (NewBlock new_block)
            (on_node_state (send_event (BlockEvent new_block) \<circ> on_mempool (spend_transactions ids)) n)))))))"

definition accept_transaction ::
  "'z chain_env_scheme \<Rightarrow> u64 \<Rightarrow> u64 \<Rightarrow> u64 \<Rightarrow> Transaction \<Rightarrow> FullNode
     \<Rightarrow> (unit, BlockchainError, FullNode) run"
where
  "accept_transaction E now now' now'' new_transaction n =
     bind_run (map_err of_tx_error (tx_check_completeness new_transaction), n) (\<lambda>_ n.
     bind_run (expect (transaction_id new_transaction), n) (\<lambda>tx_id n.
     if tx_id \<in> set (last_seen_transactions (node_state n)) then (Ok (), n)
     else
       let n = on_node_state (add_last_seen_transaction tx_id) n;
           difficulty = chain_transaction_difficulty (blockchain n)
       in if biguint_of (get_live_transaction_difficulty difficulty (node_state n)) < biguint_of (hash_buf tx_id)
          then (Err LiveTransactionDifficulty, n)
          else
            bind_run (validate_transaction_timestamp (overflow_checks E) now now' new_transaction, n) (\<lambda>_ n.
            bind_run (map_err of_tx_error (validate_transaction E (utxos (blockchain n)) new_transaction
                (biguint_of difficulty) False), n) (\<lambda>_ n.
            if \<not> mempool_validate_transaction (mempool (node_state n)) new_transaction
            then (Err (of_tx_error (DoubleSpendT (hash_dump_base36 tx_id))), n)
            else
              bind_run (mempool_add_transaction (overflow_checks E) now'' new_transaction
                  (mempool (node_state n)), n) (\<lambda>pool n.
                (Ok (), forward (NewTransaction new_transaction)
                   (on_node_state (send_event (TransactionEvent new_transaction) \<circ> on_mempool (\<lambda>_. pool)) n)))))))"

text \<open>One round of the expiry watchdog, which \<open>create_full_node\<close> starts with an event as its callback.\<close>

definition expire_mempool :: "u64 \<Rightarrow> FullNode \<Rightarrow> FullNode" where
  "expire_mempool now n =
     (case expire_transactions now (mempool (node_state n)) of (pool, expired) \<Rightarrow>
        on_node_state (\<lambda>s. fold (\<lambda>i. send_event (TransactionExpiration i)) expired (on_mempool (\<lambda>_. pool) s)) n)"

text \<open>A peer that \<open>connect_peer\<close> has connected to.\<close>

definition register_peer :: "SocketAddr \<Rightarrow> PeerHandle \<Rightarrow> NodeState \<Rightarrow> NodeState" where
  "register_peer a peer s =
     s\<lparr>connected_peers := List.filter (\<lambda>(b, _). b \<noteq> a) (connected_peers s) @ [(a, peer)]\<rparr>"

section \<open>What accepting does\<close>

lemma node_simps [simp]:
  "blockchain (on_node_state f n) = blockchain n" "node_state (on_node_state f n) = f (node_state n)"
  "forwarded (on_node_state f n) = forwarded n"
  "blockchain (forward c n) = blockchain n" "node_state (forward c n) = node_state n"
  "forwarded (forward c n) = forwarded n @ [c]"
  "mempool (on_mempool g s) = g (mempool s)" "last_seen_block (on_mempool g s) = last_seen_block s"
  "last_seen_transactions (on_mempool g s) = last_seen_transactions s"
  "chain_events (on_mempool g s) = chain_events s"
  "mempool (send_event e s) = mempool s" "last_seen_block (send_event e s) = last_seen_block s"
  "last_seen_transactions (send_event e s) = last_seen_transactions s"
  "chain_events (send_event e s) = chain_events s @ [e]"
  "mempool (set_last_seen_block h s) = mempool s" "last_seen_block (set_last_seen_block h s) = h"
  "last_seen_transactions (set_last_seen_block h s) = last_seen_transactions s"
  "chain_events (set_last_seen_block h s) = chain_events s"
  "mempool (add_last_seen_transaction i s) = mempool s"
  "last_seen_block (add_last_seen_transaction i s) = last_seen_block s"
  "last_seen_transactions (add_last_seen_transaction i s) = add_recent i (last_seen_transactions s)"
  "chain_events (add_last_seen_transaction i s) = chain_events s"
  by (simp_all add: on_node_state_def forward_def on_mempool_def send_event_def
      set_last_seen_block_def add_last_seen_transaction_def)

lemma on_chain_eq: "on_chain f n = (fst (f (blockchain n)), n\<lparr>blockchain := snd (f (blockchain n))\<rparr>)"
  by (simp add: on_chain_def split: prod.split)

lemma unwrap_ids_Ok_iff: "unwrap_ids txs = Ok ids \<longleftrightarrow> map transaction_id txs = map Some ids"
  by (induction txs arbitrary: ids) (auto simp: res_simps Cons_eq_map_conv)

text \<open>A block that is the last one seen is not looked at again, whatever became of it.\<close>

lemma accept_block_seen:
  assumes "hash (meta b) = Some (last_seen_block (node_state n))"
  shows "accept_block E now now' b n = (Ok (), n)"
  using assms by (simp add: accept_block_def check_completeness_def)

lemma accept_block_new:
  assumes h: "hash (meta b) = Some h" "h \<noteq> last_seen_block (node_state n)"
    and t: "validate_block_timestamp (overflow_checks E) now now' b = Ok ()"
    and c: "check_block E b False False (blockchain n) = Ok ()"
    and inv: "chain_inv (overflow_checks E) t0 chain (blockchain n)" and a: "appendable E chain b"
  obtains ids n' where "accept_block E now now' b n = (Ok (), n')"
    and "map transaction_id (transactions b) = map Some ids"
    and "chain_inv (overflow_checks E) t0
           (chain @ [(b, block_diff (ledger_of_chain chain) (transactions b))]) (blockchain n')"
    and "mempool (node_state n') = spend_transactions ids (mempool (node_state n))"
    and "last_seen_block (node_state n') = h"
    and "last_seen_transactions (node_state n') = last_seen_transactions (node_state n)"
    and "chain_events (node_state n') = chain_events (node_state n) @ [BlockEvent b]"
    and "forwarded n' = forwarded n @ [NewBlock b]"
proof -
  obtain bc' where bc': "add_block E b False False (blockchain n) = (Ok (), bc')"
    "chain_inv (overflow_checks E) t0
       (chain @ [(b, block_diff (ledger_of_chain chain) (transactions b))]) bc'"
    using add_block_Ok [OF inv c a] by blast
  have "check_meta E b = Ok ()" using c by (simp add: check_block_Ok_iff)
  then obtain ids where "complete_ids (transactions b) = Ok ids" by (auto simp: check_meta_Ok_iff)
  then have ids: "map transaction_id (transactions b) = map Some ids" by (simp add: complete_ids_Ok_iff)
  then have u: "unwrap_ids (transactions b) = (Ok ids :: (_, BlockchainError) result)"
    by (simp add: unwrap_ids_Ok_iff)
  have "last_seen_block (node_state n) \<noteq> h" using h(2) by simp
  then have "\<exists>n'. accept_block E now now' b n = (Ok (), n') \<and> blockchain n' = bc'
    \<and> mempool (node_state n') = spend_transactions ids (mempool (node_state n))
    \<and> last_seen_block (node_state n') = h
    \<and> last_seen_transactions (node_state n') = last_seen_transactions (node_state n)
    \<and> chain_events (node_state n') = chain_events (node_state n) @ [BlockEvent b]
    \<and> forwarded n' = forwarded n @ [NewBlock b]"
    by (simp add: accept_block_def check_completeness_def h(1) t on_chain_eq bc'(1) u)
  with that ids bc'(2) show ?thesis by blast
qed

text \<open>Otherwise nothing changes but the last block seen.\<close>

lemma accept_block_rejected:
  assumes h: "hash (meta b) = Some h" "h \<noteq> last_seen_block (node_state n)"
    and r: "validate_block_timestamp (overflow_checks E) now now' b \<noteq> Ok ()
      \<or> check_block E b False False (blockchain n) \<noteq> Ok ()"
  shows "\<exists>r. r \<noteq> Ok () \<and>
    accept_block E now now' b n = (r, on_node_state (set_last_seen_block h) n)"
proof -
  have seen: "last_seen_block (node_state n) \<noteq> h" using h(2) by simp
  show ?thesis
  proof (cases "validate_block_timestamp (overflow_checks E) now now' b")
    case (Ok u)
    with r have c: "check_block E b False False (blockchain n) \<noteq> Ok ()" by simp
    have "n\<lparr>node_state := s, blockchain := blockchain n\<rparr> = n\<lparr>node_state := s\<rparr>" for s by simp
    with add_block_rejected [OF c] c show ?thesis
      by (cases "check_block E b False False (blockchain n)")
        (simp_all add: accept_block_def check_completeness_def h(1) seen Ok on_chain_eq on_node_state_def)
  qed (simp_all add: accept_block_def check_completeness_def h(1) seen)
qed

lemma accept_transaction_Ok:
  assumes ok: "accept_transaction E now now' now'' tx n = (Ok (), n')"
    and id: "transaction_id tx = Some i" and new: "i \<notin> set (last_seen_transactions (node_state n))"
  shows "valid_transfer E (ledger_of (utxos (blockchain n)))
      (unat (chain_transaction_difficulty (blockchain n))) False tx"
    and "unat (hash_buf i) \<le> unat (get_live_transaction_difficulty
      (chain_transaction_difficulty (blockchain n)) (node_state n))"
    and "mempool_validate_transaction (mempool (node_state n)) tx"
    and "mempool_add_transaction (overflow_checks E) now'' tx (mempool (node_state n)) =
      (Ok (mempool (node_state n')) :: (MemPool, BlockchainError) result)"
    and "blockchain n' = blockchain n"
    and "chain_events (node_state n') = chain_events (node_state n) @ [TransactionEvent tx]"
    and "forwarded n' = forwarded n @ [NewTransaction tx]"
proof -
  have live: "get_live_transaction_difficulty d (add_last_seen_transaction i s) =
      get_live_transaction_difficulty d s" for d s
    by (simp add: get_live_transaction_difficulty_def)
  from ok show "valid_transfer E (ledger_of (utxos (blockchain n)))
      (unat (chain_transaction_difficulty (blockchain n))) False tx"
    "unat (hash_buf i) \<le> unat (get_live_transaction_difficulty
      (chain_transaction_difficulty (blockchain n)) (node_state n))"
    "mempool_validate_transaction (mempool (node_state n)) tx"
    "mempool_add_transaction (overflow_checks E) now'' tx (mempool (node_state n)) =
      (Ok (mempool (node_state n')) :: (MemPool, BlockchainError) result)"
    "blockchain n' = blockchain n"
    "chain_events (node_state n') = chain_events (node_state n) @ [TransactionEvent tx]"
    "forwarded n' = forwarded n @ [NewTransaction tx]"
    by (auto simp: accept_transaction_def id new Let_def live res_simps validate_transaction_Ok_iff
        not_less split: if_splits)
qed

end
