(* ===== verification/Full_Behavior.thy ===== *)
theory Full_Behavior
  imports Full_Node
begin

text \<open>
  \<open>full_node/behavior.rs\<close>: what a full node does with a message from a peer.  The synchronisation that
  a ping may start runs later in its own task: the peer and the height it is started with are kept in
  \<open>sync_tasks\<close>.  Values the handler reads from the environment are arguments: the clock readings of
  the handlers of blocks and transactions.
\<close>

section \<open>Handling a message\<close>

datatype PeerError =
    IoP string
  | TimeoutP
  | SendErrorP string
  | ReceiveErrorP string
  | KilledP string
  | MessageDecodeP string
  | MessageEncodeP string
  | Disconnected
  | UnknownP string
  | BlockchainP BlockchainError
  | SyncErrorP string
  | IncorrectResponseP

record FullPeer =
  node :: FullNode
  sync_tasks :: "(PeerHandle \<times> usize) list"

definition unhandled :: "string \<Rightarrow> ('a, PeerError) result" where
  "unhandled what = Err (UnknownP (''Got unhandled '' @ what))"

text \<open>The loops over a range of heights: heights without an entry are skipped.\<close>

fun hashes_at :: "BlockStore \<Rightarrow> usize list \<Rightarrow> (Hash list, 'e) result" where
  "hashes_at st [] = Ok []"
| "hashes_at st (height # hs) =
     bind_res (get_block_hash_by_height st height) (\<lambda>h.
     bind_res (hashes_at st hs) (\<lambda>rest. Ok (case h of None \<Rightarrow> rest | Some x \<Rightarrow> x # rest)))"

definition metadatas_at :: "BlockStore \<Rightarrow> usize list \<Rightarrow> BlockMetadata list" where
  "metadatas_at st hs = List.map_filter (\<lambda>h. map_option meta (get_block_by_height st h)) hs"

definition serve_hashes :: "BlockStore \<Rightarrow> usize \<Rightarrow> usize \<Rightarrow> (Command, 'e) result" where
  "serve_hashes st start stop =
     (if start < stop \<and> stop - start \<le> HASHES_FETCH_MAX_COUNT
      then bind_res (hashes_at st [start..<stop]) (\<lambda>hs. Ok (GetBlockHashesResponse hs))
      else Ok (GetBlockHashesResponse []))"

definition serve_metadatas :: "BlockStore \<Rightarrow> usize \<Rightarrow> usize \<Rightarrow> Command" where
  "serve_metadatas st range_start range_end =
     (if range_start < range_end \<and> range_end \<le> get_height st
         \<and> range_end - range_start \<le> METADATA_FETCH_MAX_COUNT
      then GetBlockMetadatasResponse (metadatas_at st [range_start..<range_end])
      else GetBlockMetadatasResponse [])"

definition serve_proof ::
  "'z crypto_scheme \<Rightarrow> BlockStore \<Rightarrow> Hash \<Rightarrow> TransactionId \<Rightarrow> (Command, 'e) result"
where
  "serve_proof C st block_hash tx_id =
     bind_res (get_block_by_hash st block_hash) (\<lambda>block.
     case block of
       None \<Rightarrow> Ok (GetTransactionMerkleProofResponse None)
     | Some b \<Rightarrow>
         bind_res (unwrap_ids (transactions b)) (\<lambda>ids.
           Ok (GetTransactionMerkleProofResponse (create_proof C (map hash_buf ids) (hash_buf tx_id)))))"

definition peer_addresses :: "NodeState \<Rightarrow> string list" where
  "peer_addresses s =
     map (\<lambda>(_, p). address_to_string (address p)) (List.filter (\<lambda>(_, p). \<not> is_client p) (connected_peers s))
       @ (case advertised_ip s of None \<Rightarrow> [] | Some a \<Rightarrow> [address_to_string a])"

definition set_syncing :: "bool \<Rightarrow> NodeState \<Rightarrow> NodeState" where
  "set_syncing b s = s\<lparr>is_syncing := b\<rparr>"

definition handle_ping :: "PeerHandle \<Rightarrow> usize \<Rightarrow> FullPeer \<Rightarrow> FullPeer" where
  "handle_ping peer height s =
     (let local = get_height (block_store (blockchain (node s)))
      in if local + 1 < height \<and> \<not> is_syncing (node_state (node s))
         then s\<lparr>node := on_node_state (set_syncing True) (node s),
                sync_tasks := sync_tasks s @ [(peer, height)]\<rparr>
         else s)"

text \<open>A rejected block or transaction is only logged; a panic of the handler ends its task.\<close>

definition resolved :: "Command \<Rightarrow> (unit, 'f, FullNode) run \<Rightarrow> FullPeer \<Rightarrow> (Command, 'e, FullPeer) run" where
  "resolved c r s =
     (case r of (Panic, n) \<Rightarrow> (Panic, s\<lparr>node := n\<rparr>) | (_, n) \<Rightarrow> (Ok c, s\<lparr>node := n\<rparr>))"

definition handle_command ::
  "'z chain_env_scheme \<Rightarrow> u64 \<Rightarrow> u64 \<Rightarrow> u64 \<Rightarrow> PeerHandle \<Rightarrow> Message \<Rightarrow> FullPeer
     \<Rightarrow> (Command, PeerError, FullPeer) run"
where
  "handle_command E now now' now'' peer m s =
     (let n = node s; st = block_store (blockchain n)
      in case command m of
        Connect \<Rightarrow>
          (Ok (if 4 \<le> version m then AcknowledgeConnectionWithFlags FULL_NODE_CAPABILITY
               else AcknowledgeConnection), s)
      | AcknowledgeConnection \<Rightarrow> (unhandled ''AcknowledgeConnection'', s)
      | AcknowledgeConnectionWithFlags _ \<Rightarrow> (unhandled ''AcknowledgeConnectionWithFlags'', s)
      | Ping height \<Rightarrow> (Ok (Pong (get_height st)), handle_ping peer height s)
      | Pong _ \<Rightarrow> (unhandled ''Pong'', s)
      | GetPeers \<Rightarrow> (Ok (SendPeers (peer_addresses (node_state n))), s)
      | SendPeers _ \<Rightarrow> (unhandled ''SendPeers'', s)
      | NewBlock b \<Rightarrow>
          if is_syncing (node_state n) then (Ok NewBlockResolved, s)
          else resolved NewBlockResolved (accept_block E now now' b n) s
      | NewBlockResolved \<Rightarrow> (unhandled ''NewBlockAccepted'', s)
      | NewTransaction tx \<Rightarrow>
          if is_syncing (node_state n) then (Ok NewTransactionResolved, s)
          else resolved NewTransactionResolved (accept_transaction E now now' now'' tx n) s
      | NewTransactionResolved \<Rightarrow> (unhandled ''NewTransactionAccepted'', s)
      | GetBlock h \<Rightarrow> (bind_res (get_block_by_hash st h) (\<lambda>b. Ok (GetBlockResponse b)), s)
      | GetBlockResponse _ \<Rightarrow> (unhandled ''GetBlockResponse'', s)
      | GetBlockHashes start stop \<Rightarrow> (serve_hashes st start stop, s)
      | GetBlockHashesResponse _ \<Rightarrow> (unhandled ''GetBlockResponse'', s)
      | GetTransactionMerkleProof h tx_id \<Rightarrow> (serve_proof E st h tx_id, s)
      | GetTransactionMerkleProofResponse _ \<Rightarrow> (unhandled ''GetTransactionMerkleProofResponse'', s)
      | GetBlockMetadata h \<Rightarrow>
          (bind_res (get_block_by_hash st h) (\<lambda>b. Ok (GetBlockMetadataResponse (map_option meta b))), s)
      | GetBlockMetadataResponse _ \<Rightarrow> (unhandled ''GetBlockMetadataResponse'', s)
      | GetBlockMetadatas range_start range_end \<Rightarrow> (Ok (serve_metadatas st range_start range_end), s)
      | GetBlockMetadatasResponse _ \<Rightarrow> (unhandled ''GetBlockMetadatasResponse'', s))"

definition on_message ::
  "'z chain_env_scheme \<Rightarrow> u64 \<Rightarrow> u64 \<Rightarrow> u64 \<Rightarrow> PeerHandle \<Rightarrow> Message \<Rightarrow> FullPeer
     \<Rightarrow> (Message, PeerError, FullPeer) run"
where
  "on_message E now now' now'' peer m s =
     bind_run (handle_command E now now' now'' peer m s) (\<lambda>c s. (Ok (make_response m c), s))"

definition full_get_height :: "FullPeer \<Rightarrow> usize" where
  "full_get_height s = get_height (block_store (blockchain (node s)))"

definition on_kill :: "bool \<Rightarrow> PeerHandle \<Rightarrow> NodeState \<Rightarrow> (NodeState, 'e) result" where
  "on_kill chk peer s =
     bind_res (punish_on_kill chk (ip (address peer)) (client_health_scores s)) (\<lambda>scores.
       Ok (s\<lparr>connected_peers := List.filter (\<lambda>(a, _). a \<noteq> address peer) (connected_peers s),
             client_health_scores := scores\<rparr>))"

section \<open>What is served\<close>

lemma hashes_at_represents:
  assumes "store_represents st chain" and "\<forall>h \<in> set hs. h < 2 ^ 64"
  shows "hashes_at st hs =
    Ok (map (\<lambda>h. entry_hash (chain ! h)) (List.filter (\<lambda>h. h < length chain) hs))"
  using assms(2)
  by (induction hs) (simp_all add: get_block_hash_by_height_represents [OF assms(1)])

lemma upt_filter_less: "List.filter (\<lambda>h. h < n) [a..<b] = [a..<min b n]"
proof (induction b)
  case (Suc b)
  have "n = b" if "\<not> b < n" "\<not> n < b" using that by simp
  with Suc show ?case by (cases "b < n"; cases "n < b") (auto simp: min_def)
qed simp

lemma nth_upt_slice: "b \<le> length xs \<Longrightarrow> map ((!) xs) [a..<b] = drop a (take b xs)"
  by (rule nth_equalityI) auto

lemma serve_hashes_represents:
  assumes "store_represents st chain" and "start < stop" and "stop - start \<le> HASHES_FETCH_MAX_COUNT"
    and "stop \<le> 2 ^ 64"
  shows "serve_hashes st start stop =
    Ok (GetBlockHashesResponse (map entry_hash (take (stop - start) (drop start chain))))"
proof -
  have "map (\<lambda>h. entry_hash (chain ! h)) [start..<min stop (length chain)] =
      map entry_hash (map ((!) chain) [start..<min stop (length chain)])" by simp
  also have "\<dots> = map entry_hash (drop start (take (min stop (length chain)) chain))"
    by (subst nth_upt_slice) simp_all
  also have "drop start (take (min stop (length chain)) chain) = take (stop - start) (drop start chain)"
    by (simp add: drop_take min_def)
  finally show ?thesis
    using assms by (simp add: serve_hashes_def hashes_at_represents upt_filter_less)
qed

lemma serve_metadatas_represents:
  assumes "store_represents st chain" and "a < b" and "b \<le> length chain"
    and "b - a \<le> METADATA_FETCH_MAX_COUNT"
  shows "serve_metadatas st a b =
    GetBlockMetadatasResponse (map (meta \<circ> fst) (take (b - a) (drop a chain)))"
proof -
  have "metadatas_at st [a..<b] = map (\<lambda>h. meta (fst (chain ! h))) [a..<b]"
  proof -
    have "List.map_filter (\<lambda>h. map_option meta (get_block_by_height st h)) hs =
        map (\<lambda>h. meta (fst (chain ! h))) hs" if "\<forall>h \<in> set hs. h < length chain" for hs
      using that
      by (induction hs) (simp_all add: List.map_filter_simps get_block_by_height_represents [OF assms(1)])
    then show ?thesis using assms(3) by (simp add: metadatas_at_def)
  qed
  also have "\<dots> = map (meta \<circ> fst) (map ((!) chain) [a..<b])" by simp
  also have "\<dots> = map (meta \<circ> fst) (take (b - a) (drop a chain))"
    unfolding nth_upt_slice [OF assms(3)] by (simp add: drop_take)
  finally show ?thesis
    using assms by (simp add: serve_metadatas_def get_height_def store_represents_def)
qed

lemma find_entry:
  assumes "store_represents st chain" and "e \<in> set chain"
  shows "get_block_by_hash st (entry_hash e) = Ok (Some (fst e))"
proof -
  have "distinct (map entry_hash chain)" using assms(1) by (simp add: store_represents_def)
  then show ?thesis
    by (simp add: get_block_by_hash_represents [OF assms(1)] find_distinct_key assms(2))
qed

text \<open>
  The proof that is served is one for the tree of the ids themselves, while the root in the block's
  metadata is that of the tree of their hashes.
\<close>

lemma served_proof:
  assumes st: "store_represents st chain" and e: "e \<in> set chain"
    and ids: "map transaction_id (transactions (fst e)) = map Some ids" and tx: "tx \<in> set ids"
  obtains p where "serve_proof C st (entry_hash e) tx =
      (Ok (GetTransactionMerkleProofResponse (Some p)) :: (Command, 'e) result)"
    and "proof_tx_hash p = hash_buf tx"
    and "\<And>r. proof_validate C p r \<longleftrightarrow> r = layer_root C (map hash_buf ids)"
proof -
  have u: "unwrap_ids (transactions (fst e)) = Ok ids" using ids by (simp add: unwrap_ids_Ok_iff)
  obtain i where i: "position (\<lambda>h. h = hash_buf tx) (map hash_buf ids) = Some i"
    using tx by (cases "position (\<lambda>h. h = hash_buf tx) (map hash_buf ids)") (auto simp: position_None)
  define p where
    "p = \<lparr>proof_tx_hash = hash_buf tx, proof_path = create_path C (map hash_buf ids) i\<rparr>"
  have "serve_proof C st (entry_hash e) tx =
      (Ok (GetTransactionMerkleProofResponse (Some p)) :: (Command, 'e) result)"
    by (simp add: serve_proof_def find_entry [OF st e] u create_proof_def i p_def)
  moreover have "proof_validate C p r \<longleftrightarrow> r = layer_root C (map hash_buf ids)" for r
    using position_Some [OF i] create_path_root [of i "map hash_buf ids" C]
    by (auto simp: proof_validate_def p_def)
  ultimately show ?thesis using that p_def by auto
qed

section \<open>What a message changes\<close>

text \<open>Only offered blocks and transactions and pings change the node.\<close>

lemma handle_command_frame:
  assumes "handle_command E now now' now'' peer m s = (r, s')"
    and "\<And>b. command m \<noteq> NewBlock b" and "\<And>tx. command m \<noteq> NewTransaction tx"
    and "\<And>h. command m \<noteq> Ping h"
  shows "s' = s"
  using assms by (cases "command m") (auto simp: handle_command_def Let_def)

lemma accept_transaction_chain: "blockchain (snd (accept_transaction E now now' now'' tx n)) = blockchain n"
proof -
  have keeps: "blockchain (snd (bind_run (r, m) f)) = blockchain m"
    if "\<And>x. blockchain (snd (f x m)) = blockchain m" for r :: "('x, 'f) result" and f :: "'x \<Rightarrow> _" and m
    using that by (cases r) auto
  show ?thesis
    unfolding accept_transaction_def by (intro keeps) (simp_all add: Let_def keeps)
qed

lemma resolved_node [simp]: "node (snd (resolved c run s)) = snd run"
  by (cases run; cases "fst run") (auto simp: resolved_def)

lemma handle_command_chain:
  assumes "handle_command E now now' now'' peer m s = (r, s')" and "\<And>b. command m \<noteq> NewBlock b"
  shows "blockchain (node s') = blockchain (node s)"
proof -
  have ping: "blockchain (node (handle_ping p h s)) = blockchain (node s)" for p h
    by (simp add: handle_ping_def Let_def)
  have "s' = snd (handle_command E now now' now'' peer m s)" using assms(1) by simp
  then show ?thesis
    using assms(2) by (cases "command m") (auto simp: handle_command_def Let_def accept_transaction_chain ping)
qed

section \<open>The contract of a node that serves its chain\<close>

text \<open>
  What a node that catches up relies on in the one it asks: as long as that one holds a chain, it answers
  for its height, for blocks by hash, for hashes and for metadata of a range of heights.  The requests are
  numbered, so that an answer may depend on when it is given.
\<close>

locale chain_server =
  fixes holds :: "'s \<Rightarrow> log_entry list \<Rightarrow> bool"
    and answer :: "'s \<Rightarrow> nat \<Rightarrow> Command \<Rightarrow> (Command, PeerError) result"
  assumes holds_distinct: "holds s P \<Longrightarrow> distinct (map entry_hash P)"
    and holds_hashed: "holds s P \<Longrightarrow> e \<in> set P \<Longrightarrow> hash (meta (fst e)) \<noteq> None"
    and answer_ping: "holds s P \<Longrightarrow> answer s k (Ping height) = Ok (Pong (length P))"
    and answer_block: "holds s P \<Longrightarrow> answer s k (GetBlock h) =
      Ok (GetBlockResponse (map_option fst (find (\<lambda>e. entry_hash e = h) P)))"
    and answer_hashes: "holds s P \<Longrightarrow> i < j \<Longrightarrow> j \<le> length P \<Longrightarrow> j - i \<le> HASHES_FETCH_MAX_COUNT
      \<Longrightarrow> answer s k (GetBlockHashes i j) =
        Ok (GetBlockHashesResponse (map entry_hash (take (j - i) (drop i P))))"
    and answer_metadatas: "holds s P \<Longrightarrow> i < j \<Longrightarrow> j \<le> length P \<Longrightarrow> j - i \<le> METADATA_FETCH_MAX_COUNT
      \<Longrightarrow> answer s k (GetBlockMetadatas i j) =
        Ok (GetBlockMetadatasResponse (map (meta \<circ> fst) (take (j - i) (drop i P))))"
begin

lemma answer_own_block:
  assumes "holds s P" and "e \<in> set P"
  shows "answer s k (GetBlock (entry_hash e)) = Ok (GetBlockResponse (Some (fst e)))"
  using answer_block [OF assms(1)] find_distinct_key [OF holds_distinct [OF assms(1)] assms(2)] by simp

lemma answer_hash_at:
  assumes "holds s P" and "i < length P"
  shows "answer s k (GetBlockHashes i (i + 1)) = Ok (GetBlockHashesResponse [entry_hash (P ! i)])"
proof -
  have "take 1 (drop i P) = [P ! i]" using assms(2) by (simp add: take_Suc hd_drop_conv_nth)
  then show ?thesis using answer_hashes [OF assms(1), of i "i + 1"] assms(2)
    by (simp add: HASHES_FETCH_MAX_COUNT_def)
qed

lemma answer_own_hashes:
  assumes "holds s P" and "i < length P" and "length P - i \<le> HASHES_FETCH_MAX_COUNT"
  shows "answer s k (GetBlockHashes i (length P)) = Ok (GetBlockHashesResponse (map entry_hash (drop i P)))"
  using answer_hashes [OF assms(1,2) order.refl assms(3)] by simp

end

text \<open>A full node, asked through its message handler, honours the contract.\<close>

definition node_replies ::
  "'z chain_env_scheme \<Rightarrow> PeerHandle \<Rightarrow> FullPeer \<Rightarrow> nat \<Rightarrow> Command \<Rightarrow> (Command, PeerError) result"
where
  "node_replies E asker s k c =
     fst (handle_command E 0 0 0 asker \<lparr>version = VERSION, message_id = word_of_nat k, command = c\<rparr> s)"

definition node_holds :: "FullPeer \<Rightarrow> log_entry list \<Rightarrow> bool" where
  "node_holds s P \<longleftrightarrow> store_represents (block_store (blockchain (node s))) P"

interpretation full_node: chain_server node_holds "node_replies E asker" for E asker
proof (unfold_locales, goal_cases)
  case (5 s P i j k)
  then show ?case
    using serve_hashes_represents [of "block_store (blockchain (node s))" P i j]
    by (simp add: node_holds_def store_represents_def node_replies_def handle_command_def Let_def)
next
  case (6 s P i j k)
  then show ?case
    by (simp add: node_holds_def node_replies_def handle_command_def Let_def serve_metadatas_represents)
qed (auto simp: node_holds_def store_represents_def node_replies_def handle_command_def Let_def get_height_def
      get_block_by_hash_represents)

end
