(* ===== verification/Full_Sync.thy ===== *)
theory Full_Sync
  imports Full_Behavior
begin

text \<open>
  \<open>full_node/sync.rs\<close>: catching up with a peer.  The peer is what it replies to each request: a
  function of how many requests were made before and of the command, so that it may answer anything at
  any time.  The last part shows what the peer can and cannot make the node do, and that a peer that
  runs the code of this development is caught up with.
\<close>

section \<open>Synchronising\<close>

definition MAX_REORG :: usize where "MAX_REORG = 30"

datatype SyncError = PeerErrorY PeerError | BlockchainErrorY BlockchainError | NoForkPoint

type_synonym peer_replies = "nat \<Rightarrow> Command \<Rightarrow> (Command, PeerError) result"

text \<open>Does the reply hold the block with this hash?  A request that fails is a block not found.\<close>

definition is_reply_block :: "(Command, PeerError) result \<Rightarrow> Hash \<Rightarrow> (bool, 'e) result" where
  "is_reply_block response local_hash =
     (case response of
        Ok (GetBlockResponse (Some peer_block)) \<Rightarrow>
          bind_res (expect (hash (meta peer_block))) (\<lambda>h. Ok (h = local_hash))
      | _ \<Rightarrow> Ok False)"

text \<open>The search goes back from the tip.\<close>

primrec find_fork ::
  "peer_replies \<Rightarrow> BlockStore \<Rightarrow> usize \<Rightarrow> usize list \<Rightarrow> nat \<Rightarrow> (usize option, SyncError, nat) run"
where
  "find_fork reply st local_height [] k = (Ok None, k)"
| "find_fork reply st local_height (offset # offsets) k =
     (let height_to_check = local_height - offset
      in bind_run (get_block_hash_by_height st height_to_check, k) (\<lambda>found k.
         case found of
           None \<Rightarrow> find_fork reply st local_height offsets k
         | Some local_hash \<Rightarrow>
             bind_run (is_reply_block (reply k (GetBlock local_hash)) local_hash, k + 1) (\<lambda>same k.
               if same then (Ok (Some height_to_check), k)
               else find_fork reply st local_height offsets k)))"

text \<open>Each round that succeeds lowers the height by one; the fuel is the distance to the fork.\<close>

primrec roll_back :: "'z chain_env_scheme \<Rightarrow> usize \<Rightarrow> nat \<Rightarrow> FullNode \<Rightarrow> (unit, SyncError, FullNode) run" where
  "roll_back E fork_height 0 n = (Ok (), n)"
| "roll_back E fork_height (Suc fuel) n =
     (if fork_height < get_height (block_store (blockchain n))
      then case on_chain (pop_block E) n of (r, n') \<Rightarrow>
             bind_run (map_err BlockchainErrorY r, n') (\<lambda>_ n. roll_back E fork_height fuel n)
      else (Ok (), n))"

definition accept_synced ::
  "'z chain_env_scheme \<Rightarrow> Block \<Rightarrow> FullNode \<Rightarrow> (unit, SyncError, FullNode) run"
where
  "accept_synced E b n =
     (case on_chain (add_block E b False False) n of (r, n') \<Rightarrow>
        bind_run (map_err BlockchainErrorY r, n') (\<lambda>_ n.
        bind_run (expect (hash (meta b)), n) (\<lambda>h n.
          (Ok (), on_node_state (send_event (BlockEvent b) \<circ> set_last_seen_block h) n))))"

text \<open>A reply of another kind is passed over; a request that fails ends the synchronisation.\<close>

primrec download ::
  "'z chain_env_scheme \<Rightarrow> peer_replies \<Rightarrow> usize list \<Rightarrow> nat \<Rightarrow> FullNode \<Rightarrow> (unit, SyncError, FullNode) run"
where
  "download E reply [] k n = (Ok (), n)"
| "download E reply (current_height # heights) k n =
     bind_run (map_err PeerErrorY (reply k (GetBlockHashes current_height (current_height + 1))), n)
       (\<lambda>response n.
     case response of
       GetBlockHashesResponse (h # _) \<Rightarrow>
         bind_run (map_err PeerErrorY (reply (k + 1) (GetBlock h)), n) (\<lambda>response n.
         case response of
           GetBlockResponse (Some b) \<Rightarrow>
             bind_run (accept_synced E b n) (\<lambda>_ n. download E reply heights (k + 2) n)
         | _ \<Rightarrow> download E reply heights (k + 2) n)
     | _ \<Rightarrow> download E reply heights (k + 1) n)"

definition sync_to_peer ::
  "'z chain_env_scheme \<Rightarrow> ConnectionFlags \<Rightarrow> peer_replies \<Rightarrow> usize \<Rightarrow> FullNode
     \<Rightarrow> (unit, SyncError, FullNode) run"
where
  "sync_to_peer E peer_flags reply peer_height n =
     (if and peer_flags FULL_NODE_CAPABILITY \<noteq> FULL_NODE_CAPABILITY then (Ok (), n)
      else
        let st = block_store (blockchain n); local_height = get_height st;
            lookback = min MAX_REORG local_height
        in case find_fork reply st local_height [0..<lookback] 0 of (r, k) \<Rightarrow>
           bind_run (bind_res r (\<lambda>f. ok_or f NoForkPoint), n) (\<lambda>fork_height n.
           bind_run (roll_back E fork_height (local_height - fork_height) n) (\<lambda>_ n.
             download E reply [fork_height..<peer_height] k n)))"

text \<open>The task that a ping starts; \<open>Some\<close> error is what the peer is killed for.\<close>

definition run_sync_task ::
  "'z chain_env_scheme \<Rightarrow> ConnectionFlags \<Rightarrow> peer_replies \<Rightarrow> usize \<Rightarrow> FullNode
     \<Rightarrow> (SyncError option, SyncError, FullNode) run"
where
  "run_sync_task E peer_flags reply height n =
     (case sync_to_peer E peer_flags reply height (on_node_state (on_mempool mempool_clear) n) of
        (Panic, n) \<Rightarrow> (Panic, n)
      | (Ok _, n) \<Rightarrow> (Ok None, on_node_state (set_syncing False) n)
      | (Err e, n) \<Rightarrow> (Ok (Some e), on_node_state (set_syncing False) n))"

section \<open>How far a peer can take the node back\<close>

lemma find_fork_height:
  assumes "find_fork reply st local_height offsets k = (Ok (Some f), k')"
    and "store_represents st chain" and "local_height = length chain"
  shows "\<exists>offset \<in> set offsets. f = local_height - offset \<and> f < length chain"
  using assms(1)
proof (induction offsets arbitrary: k)
  case (Cons offset offsets)
  let ?h = "local_height - offset"
  have "length chain < 2 ^ 64" using assms(2) by (simp add: store_represents_def)
  then have "?h < 2 ^ 64" using assms(3) by linarith
  note hash_at = get_block_hash_by_height_represents [OF assms(2) this]
  show ?case
  proof (cases "?h < length chain")
    case False
    with Cons show ?thesis by (simp add: hash_at Let_def)
  next
    case True
    then show ?thesis
      using Cons.prems Cons.IH
      by (auto simp: hash_at Let_def res_simps split: if_splits)
  qed
qed simp

lemma fork_within_reorg:
  assumes "find_fork reply st (length chain) [0..<min MAX_REORG (length chain)] k = (Ok (Some f), k')"
    and "store_represents st chain"
  shows "f < length chain \<and> length chain < f + MAX_REORG"
proof -
  obtain offset where "offset < min MAX_REORG (length chain)" "f = length chain - offset" "f < length chain"
    using find_fork_height [OF assms refl] by auto
  then show ?thesis by auto
qed

text \<open>Rolling back takes the blocks above the fork, and the block at the fork's height with them.\<close>

lemma roll_back_Ok:
  assumes inv: "chain_inv (overflow_checks E) t0 chain (blockchain n)" and "0 < fork"
    and enc: "\<And>d. \<exists>bs. encode_data E d = Inr bs" and fuel: "length chain - fork \<le> fuel"
  shows "\<exists>n'. roll_back E fork fuel n = (Ok (), n')
    \<and> chain_inv (overflow_checks E) t0 (take fork chain) (blockchain n')
    \<and> node_state n' = node_state n \<and> forwarded n' = forwarded n"
  using inv fuel
proof (induction fuel arbitrary: chain n)
  case 0
  then show ?case by simp
next
  case (Suc fuel)
  have height: "get_height (block_store (blockchain n)) = length chain"
    using Suc.prems(1) by (simp add: chain_inv_def store_represents_def get_height_def)
  show ?case
  proof (cases "fork < length chain")
    case False
    then show ?thesis using Suc.prems(1) by (simp add: height)
  next
    case True
    then obtain ch e where chain: "chain = ch @ [e]" by (cases chain rule: rev_cases) auto
    with True \<open>0 < fork\<close> have "ch \<noteq> []" by auto
    then obtain bc' where bc': "pop_block E (blockchain n) = (Ok (), bc')"
      "chain_inv (overflow_checks E) t0 ch bc'"
      using pop_block_Ok [OF Suc.prems(1) [unfolded chain] enc] by auto
    have "length ch - fork \<le> fuel" using Suc.prems(2) chain by simp
    from Suc.IH [OF _ this, of "n\<lparr>blockchain := bc'\<rparr>"] bc'(2) True chain
    show ?thesis by (simp add: height on_chain_eq bc'(1))
  qed
qed

section \<open>Catching up\<close>

text \<open>What a peer that holds the chain \<open>P\<close> replies.\<close>

definition serves :: "peer_replies \<Rightarrow> log_entry list \<Rightarrow> bool" where
  "serves reply P \<longleftrightarrow>
     (\<forall>k. (\<forall>h. reply k (GetBlock h) =
             Ok (GetBlockResponse (map_option fst (find (\<lambda>e. entry_hash e = h) P))))
        \<and> (\<forall>i < length P. reply k (GetBlockHashes i (i + 1)) =
             Ok (GetBlockHashesResponse [entry_hash (P ! i)])))"

text \<open>A server of a chain is such a peer, whatever its answers depend on.\<close>

context chain_server
begin

lemma answers_serve: "holds s P \<Longrightarrow> serves (answer s) P"
  by (simp add: serves_def answer_block answer_hash_at del: add_Suc_right One_nat_def)

end

lemma served_block:
  assumes "serves reply P" and "distinct (map entry_hash P)" and "e \<in> set P"
  shows "reply k (GetBlock (entry_hash e)) = Ok (GetBlockResponse (Some (fst e)))"
  using assms(1) find_distinct_key [OF assms(2,3)] by (simp add: serves_def)

text \<open>The search finds the highest block that both have.\<close>

lemma find_fork_skip:
  assumes "serves reply P" and "store_represents st chain"
    and "\<And>i. i \<in> set skipped \<Longrightarrow> length chain - i < length chain \<Longrightarrow>
      entry_hash (chain ! (length chain - i)) \<notin> entry_hash ` set P"
  shows "\<exists>k'. find_fork reply st (length chain) (skipped @ offsets) k =
    find_fork reply st (length chain) offsets k'"
  using assms(3)
proof (induction skipped arbitrary: k)
  case (Cons i skipped)
  let ?h = "length chain - i"
  have "length chain < 2 ^ 64" using assms(2) by (simp add: store_represents_def)
  then have "?h < 2 ^ 64" by linarith
  note hash_at = get_block_hash_by_height_represents [OF assms(2) this]
  have IH: "\<exists>k'. find_fork reply st (length chain) (skipped @ offsets) k =
      find_fork reply st (length chain) offsets k'" for k
    using Cons.IH Cons.prems by simp
  show ?case
  proof (cases "?h < length chain")
    case False
    with IH show ?thesis by (simp add: hash_at Let_def)
  next
    case True
    then have "find (\<lambda>e. entry_hash e = entry_hash (chain ! ?h)) P = None"
      using Cons.prems [of i] unfolding find_None_iff by (metis image_eqI list.set_intros(1))
    then have "is_reply_block (reply k (GetBlock (entry_hash (chain ! ?h)))) (entry_hash (chain ! ?h)) =
        (Ok False :: (bool, SyncError) result)"
      using assms(1) by (simp add: serves_def is_reply_block_def)
    with IH True show ?thesis by (simp add: hash_at Let_def)
  qed
qed auto

lemma find_fork_common:
  assumes "serves reply P" and "store_represents st chain" and "distinct (map entry_hash P)"
    and P: "\<forall>e \<in> set P. hash (meta (fst e)) \<noteq> None"
    and f: "f < length chain" "length chain < f + MAX_REORG" "chain ! f \<in> set P"
    and above: "\<And>h. f < h \<Longrightarrow> h < length chain \<Longrightarrow> entry_hash (chain ! h) \<notin> entry_hash ` set P"
  shows "\<exists>k. find_fork reply st (length chain) [0..<min MAX_REORG (length chain)] 0 = (Ok (Some f), k)
    \<or> f = 0"
proof (cases "f = 0")
  case False
  let ?i = "length chain - f"
  have i: "?i < min MAX_REORG (length chain)" "length chain - ?i = f" using f False by auto
  have "[0..<min MAX_REORG (length chain)] = [0..<?i] @ [?i..<min MAX_REORG (length chain)]"
    using i(1) upt_add_eq_append [of 0 ?i "min MAX_REORG (length chain) - ?i"] by simp
  also have "[?i..<min MAX_REORG (length chain)] = ?i # [Suc ?i..<min MAX_REORG (length chain)]"
    by (rule upt_conv_Cons [OF i(1)])
  finally have split: "[0..<min MAX_REORG (length chain)] =
      [0..<?i] @ ?i # [Suc ?i..<min MAX_REORG (length chain)]" .
  have "entry_hash (chain ! (length chain - j)) \<notin> entry_hash ` set P"
    if "j \<in> set [0..<?i]" "length chain - j < length chain" for j
    using that above [of "length chain - j"] by auto
  from find_fork_skip [OF assms(1,2) this] obtain k' where k':
    "find_fork reply st (length chain) ([0..<?i] @ ?i # [Suc ?i..<min MAX_REORG (length chain)]) 0 =
     find_fork reply st (length chain) (?i # [Suc ?i..<min MAX_REORG (length chain)]) k'" by metis
  have "length chain < 2 ^ 64" using assms(2) by (simp add: store_represents_def)
  then have "f < 2 ^ 64" using f(1) by linarith
  note hash_at = get_block_hash_by_height_represents [OF assms(2) this]
  have "hash (meta (fst (chain ! f))) = Some (entry_hash (chain ! f))"
    using P f(3) by (auto simp: entry_hash_def)
  then have "is_reply_block (reply k' (GetBlock (entry_hash (chain ! f)))) (entry_hash (chain ! f)) =
      (Ok True :: (bool, SyncError) result)"
    by (simp add: served_block [OF assms(1,3) f(3)] is_reply_block_def)
  then show ?thesis using f(1) by (simp add: split k' i(2) hash_at Let_def)
qed simp

text \<open>A prefix of a good chain is one, and its last entry carries its own differences.\<close>

lemma good_chain_prefix: "good_chain chk t0 (xs @ ys) \<Longrightarrow> good_chain chk t0 xs"
proof (induction ys rule: rev_induct)
  case (snoc y ys)
  then have "good_chain chk t0 ((xs @ ys) @ [y])" by simp
  then have "good_chain chk t0 (xs @ ys)" by (rule good_chain_snocE) simp
  then show ?case by (rule snoc.IH)
qed simp

lemma good_chain_nth:
  assumes "good_chain chk t0 P" and "j < length P"
  shows "P ! j = (fst (P ! j), block_diff (ledger_of_chain (take j P)) (transactions (fst (P ! j))))"
proof -
  have "good_chain chk t0 (take (Suc j) P @ drop (Suc j) P)" using assms(1) by simp
  then have "good_chain chk t0 (take (Suc j) P)" by (rule good_chain_prefix)
  then have "good_chain chk t0 (take j P @ [P ! j])" using assms(2) by (simp add: take_Suc_conv_app_nth)
  then show ?thesis by (rule good_chain_snocE) auto
qed

text \<open>What the local node would have to find valid in the peer's chain from a height on.\<close>

definition acceptable_from ::
  "'z chain_env_scheme \<Rightarrow> u64 \<Rightarrow> log_entry list \<Rightarrow> nat \<Rightarrow> bool"
where
  "acceptable_from E t0 P f \<longleftrightarrow>
     good_chain (overflow_checks E) t0 P
     \<and> (\<forall>j < length P. f \<le> j \<longrightarrow> appendable E (take j P) (fst (P ! j))
         \<and> (\<forall>bc. chain_inv (overflow_checks E) t0 (take j P) bc \<longrightarrow>
              check_block E (fst (P ! j)) False False bc = Ok ()))"

lemma download_served:
  assumes "serves reply P" and "distinct (map entry_hash P)" and acc: "acceptable_from E t0 P f"
    and "chain_inv (overflow_checks E) t0 (take j P) (blockchain n)" and "f \<le> j" and "j \<le> length P"
  shows "\<exists>n'. download E reply [j..<length P] k n = (Ok (), n')
    \<and> chain_inv (overflow_checks E) t0 P (blockchain n') \<and> forwarded n' = forwarded n
    \<and> chain_events (node_state n') = chain_events (node_state n) @ map (BlockEvent \<circ> fst) (drop j P)
    \<and> mempool (node_state n') = mempool (node_state n)"
  using assms(4-6)
proof (induction "length P - j" arbitrary: j k n)
  case 0
  then show ?case by simp
next
  case (Suc m)
  then have j: "j < length P" by simp
  let ?b = "fst (P ! j)"
  have a: "appendable E (take j P) ?b" "check_block E ?b False False (blockchain n) = Ok ()"
    and good: "good_chain (overflow_checks E) t0 P"
    using acc j Suc.prems by (auto simp: acceptable_from_def)
  obtain bc' where bc': "add_block E ?b False False (blockchain n) = (Ok (), bc')"
    "chain_inv (overflow_checks E) t0
      (take j P @ [(?b, block_diff (ledger_of_chain (take j P)) (transactions ?b))]) bc'"
    using add_block_Ok [OF Suc.prems(1) a(2,1)] by blast
  then have inv': "chain_inv (overflow_checks E) t0 (take (Suc j) P) bc'"
    using good_chain_nth [OF good j] j by (simp add: take_Suc_conv_app_nth)
  obtain h where h: "hash (meta ?b) = Some h"
    using a(1) by (auto simp: appendable_def can_append_def)
  define n1 where "n1 = on_node_state (send_event (BlockEvent ?b) \<circ> set_last_seen_block h) (n\<lparr>blockchain := bc'\<rparr>)"
  have "accept_synced E ?b n = (Ok (), n1)"
    by (simp add: accept_synced_def on_chain_eq bc'(1) h n1_def)
  moreover have "reply k (GetBlockHashes j (j + 1)) = Ok (GetBlockHashesResponse [entry_hash (P ! j)])"
    using assms(1) j by (simp add: serves_def)
  moreover have "reply (k + 1) (GetBlock (entry_hash (P ! j))) = Ok (GetBlockResponse (Some ?b))"
    by (rule served_block [OF assms(1,2)]) (use j in simp)
  moreover have "[j..<length P] = j # [Suc j..<length P]" by (rule upt_conv_Cons [OF j])
  ultimately have step: "download E reply [j..<length P] k n = download E reply [Suc j..<length P] (k + 2) n1"
    by simp
  have "m = length P - Suc j" "f \<le> Suc j" "Suc j \<le> length P" using Suc.hyps(2) Suc.prems(2) j by simp_all
  moreover have "chain_inv (overflow_checks E) t0 (take (Suc j) P) (blockchain n1)"
    using inv' by (simp add: n1_def)
  ultimately obtain n' where "download E reply [Suc j..<length P] (k + 2) n1 = (Ok (), n')"
    "chain_inv (overflow_checks E) t0 P (blockchain n')" "forwarded n' = forwarded n1"
    "chain_events (node_state n') = chain_events (node_state n1) @ map (BlockEvent \<circ> fst) (drop (Suc j) P)"
    "mempool (node_state n') = mempool (node_state n1)"
    using Suc.hyps(1) [of "Suc j" n1 "k + 2"] by blast
  moreover have "drop j P = P ! j # drop (Suc j) P" using j by (simp add: Cons_nth_drop_Suc)
  ultimately show ?case by (simp add: step n1_def)
qed

lemma sync_catches_up:
  assumes flags: "and peer_flags FULL_NODE_CAPABILITY = FULL_NODE_CAPABILITY"
    and reply: "serves reply P" and P: "distinct (map entry_hash P)" "\<forall>e \<in> set P. hash (meta (fst e)) \<noteq> None"
    and inv: "chain_inv (overflow_checks E) t0 chain (blockchain n)"
    and f: "0 < f" "f < length chain" "length chain < f + MAX_REORG" "f < length P"
      "take (Suc f) chain = take (Suc f) P"
    and above: "\<And>h. f < h \<Longrightarrow> h < length chain \<Longrightarrow> entry_hash (chain ! h) \<notin> entry_hash ` set P"
    and acc: "acceptable_from E t0 P f" and enc: "\<And>d. \<exists>bs. encode_data E d = Inr bs"
  shows "\<exists>n'. sync_to_peer E peer_flags reply (length P) n = (Ok (), n')
    \<and> chain_inv (overflow_checks E) t0 P (blockchain n')
    \<and> chain_events (node_state n') = chain_events (node_state n) @ map (BlockEvent \<circ> fst) (drop f P)
    \<and> mempool (node_state n') = mempool (node_state n)"
proof -
  let ?st = "block_store (blockchain n)"
  have st: "store_represents ?st chain" using inv by (simp add: chain_inv_def)
  then have height: "get_height ?st = length chain" by (simp add: store_represents_def get_height_def)
  have "chain ! f = P ! f" using f(2,4,5) by (metis lessI nth_take)
  then have "chain ! f \<in> set P" using f(4) by simp
  from find_fork_common [OF reply st P f(2,3) this above] f(1) obtain k where
    k: "find_fork reply ?st (length chain) [0..<min MAX_REORG (length chain)] 0 = (Ok (Some f), k)"
    by auto
  from roll_back_Ok [OF inv f(1) enc, of "length chain - f"] obtain n1 where
    n1: "roll_back E f (length chain - f) n = (Ok (), n1)"
    "chain_inv (overflow_checks E) t0 (take f chain) (blockchain n1)" "node_state n1 = node_state n"
    by auto
  have "take f chain = take f P" using f(5) by (metis le_Suc_eq min.absorb1 order_refl take_take)
  with n1(2) have "chain_inv (overflow_checks E) t0 (take f P) (blockchain n1)" by simp
  from download_served [OF reply P(1) acc this] f(4) obtain n' where
    "download E reply [f..<length P] k n1 = (Ok (), n')" "chain_inv (overflow_checks E) t0 P (blockchain n')"
    "chain_events (node_state n') = chain_events (node_state n1) @ map (BlockEvent \<circ> fst) (drop f P)"
    "mempool (node_state n') = mempool (node_state n1)"
    by (metis less_imp_le order_refl)
  with k n1 flags show ?thesis by (simp add: sync_to_peer_def Let_def height)
qed

text \<open>In the terms of the contract: a node catches up with any server of a chain.\<close>

context chain_server
begin

lemma sync_with_server:
  assumes "and peer_flags FULL_NODE_CAPABILITY = FULL_NODE_CAPABILITY" and "holds s P"
    and "chain_inv (overflow_checks E) t0 chain (blockchain n)"
    and "0 < f" and "f < length chain" and "length chain < f + MAX_REORG" and "f < length P"
    and "take (Suc f) chain = take (Suc f) P"
    and "\<And>h. f < h \<Longrightarrow> h < length chain \<Longrightarrow> entry_hash (chain ! h) \<notin> entry_hash ` set P"
    and "acceptable_from E t0 P f" and "\<And>d. \<exists>bs. encode_data E d = Inr bs"
  shows "\<exists>n'. sync_to_peer E peer_flags (answer s) (length P) n = (Ok (), n')
    \<and> chain_inv (overflow_checks E) t0 P (blockchain n')
    \<and> chain_events (node_state n') = chain_events (node_state n) @ map (BlockEvent \<circ> fst) (drop f P)
    \<and> mempool (node_state n') = mempool (node_state n)"
  using assms holds_distinct holds_hashed answers_serve by (intro sync_catches_up) blast+

end

end
