(* ===== verification/Demo_Chain.thy ===== *)
theory Demo_Chain
  imports Demo Full_Sync
begin

text \<open>
  Longer concrete chains for the witnesses: blocks at least 20 seconds apart, each empty or with the one
  reward, keep both targets at their highest value, so every such block is accepted.
\<close>

definition demo_stamp :: "u64 \<Rightarrow> Hash" where
  "demo_stamp t = hash_new demo (word_to_be_bytes 8 t)"

definition demo_grow :: "Transaction list \<Rightarrow> u64 \<Rightarrow> log_entry list \<Rightarrow> log_entry list" where
  "demo_grow txs t chain =
     chain @ [(demo_block_of txs (difficulty_of_chain 0 chain) (tip_hash chain) t,
               block_diff (ledger_of_chain chain) txs)]"

text \<open>A chain of the kind, with the time of its last block.\<close>

definition demo_good :: "u64 \<Rightarrow> log_entry list \<Rightarrow> bool" where
  "demo_good t chain \<longleftrightarrow>
     (\<exists>bc. chain_inv True 0 chain bc) \<and> acceptable_from demo 0 chain 0
     \<and> (\<forall>e \<in> set chain. \<exists>s \<le> t. entry_hash e = demo_stamp s)
     \<and> difficulty_of_chain 0 chain = \<lparr>block_difficulty = - 1, transaction_difficulty = - 1, last_timestamp = t\<rparr>"

lemma demo_stamp_inject: "demo_stamp s = demo_stamp t \<longleftrightarrow> s = t"
proof -
  have "unat (word_from_be_bytes (word_to_be_bytes 8 u) :: buf32) = unat u" for u :: u64
  proof -
    have "unat u < 2 ^ 64" using unat_lt [of u] by simp
    then have "(of_nat (unat u) :: buf32) = word_of_nat (unat u)" "unat u mod 256 ^ 8 = unat u" by simp_all
    with \<open>unat u < 2 ^ 64\<close> show ?thesis
      by (simp add: word_from_be_bytes_def word_to_be_bytes_def from_bytes_be_be_bytes unat_of_nat
          take_bit_nat_eq_self del: of_nat_unat)
  qed
  then show ?thesis by (auto simp: demo_stamp_def hash_new_def randomx_hash_def) (metis word_unat_eqI)
qed

lemma demo_stamp_nonzero: "t \<noteq> 0 \<Longrightarrow> demo_stamp t \<noteq> hash_new_from_buf 0"
proof -
  have "demo_stamp 0 = hash_new_from_buf 0"
    by (simp add: demo_stamp_def hash_new_def randomx_hash_def hash_new_from_buf_def word_from_be_bytes_def
        word_to_be_bytes_def from_bytes_be_be_bytes)
  then show "t \<noteq> 0 \<Longrightarrow> demo_stamp t \<noteq> hash_new_from_buf 0" by (metis demo_stamp_inject)
qed

lemma entry_hash_demo: "entry_hash (demo_block_of txs d p t, ds) = demo_stamp t"
  by (simp add: entry_hash_def demo_block_of_def demo_stamp_def)

lemma two_minus_four_fifths: "fsub 2 (3602879701896397 / 4503599627370496) = 5404319552844595 / 4503599627370496"
  using six_fifths unfolding four_fifths .

lemma max_tx_change: "MAX_TX_DIFF_CHANGE = 3602879701896397 / 4503599627370496"
  using four_fifths by (simp add: MAX_TX_DIFF_CHANGE_def)

lemma ratio_20: "1000 \<le> time_ratio n" if "20 \<le> n"
proof -
  have "time_ratio 20 = 1000"
    by (simp add: time_ratio_def clamp_f_def fdiv_def fmul_def f64_of_nat_def fl_numeral four_fifths
        two_minus_four_fifths f64_as_nat_def)
  then show ?thesis using time_ratio_mono [OF that] by simp
qed

lemma ratio_1: "1000 \<le> tx_ratio n" if "n \<le> 1"
proof -
  have "tx_ratio 100 = 1000"
    by (simp add: tx_ratio_def clamp_f_def fdiv_def fmul_def f64_of_nat_def fl_numeral econ max_tx_change
        two_minus_four_fifths f64_as_nat_def)
  then show ?thesis using tx_ratio_antimono [of n 100] that by simp
qed

lemma unat_all_ones: "unat (- 1 :: buf32) = max_256_bui"
  by (simp add: max_256_bui_eq unsigned_minus_1_eq_mask mask_eq_exp_minus_1)

lemma scale_capped_max: "1000 \<le> k \<Longrightarrow> scale_capped (- 1) k 1000 = max_256_bui"
proof -
  assume "1000 \<le> k"
  then have "unat (- 1 :: buf32) * 1000 div 1000 \<le> unat (- 1 :: buf32) * k div 1000"
    by (intro div_le_mono) simp
  then show ?thesis by (simp add: scale_capped_def unat_all_ones)
qed

lemma demo_targets:
  assumes "d = \<lparr>block_difficulty = - 1, transaction_difficulty = - 1, last_timestamp = s\<rparr>"
    and "unat s + 20 \<le> unat (timestamp b)" and "timestamp b \<le> SCIP_1_MIGRATION" and "length (transactions b) \<le> 1"
  shows "update_difficulty b d =
    \<lparr>block_difficulty = - 1, transaction_difficulty = - 1, last_timestamp = timestamp b\<rparr>"
proof -
  have "\<not> SCIP_2_MIGRATION < timestamp b" using assms(3) by (simp add: econ word_less_nat_alt word_le_nat_alt)
  then have "unat (block_difficulty (update_difficulty b d)) = max_256_bui"
    "unat (transaction_difficulty (update_difficulty b d)) = max_256_bui"
    using assms ratio_20 [of "unat (timestamp b) - unat s"] ratio_1 [OF assms(4)]
    by (simp_all add: update_difficulty_fields Let_def scale_capped_max)
  then have "block_difficulty (update_difficulty b d) = - 1"
    "transaction_difficulty (update_difficulty b d) = - 1"
    by (metis unat_all_ones word_unat_eqI)+
  then show ?thesis using update_difficulty_fields(3) [of b d]
    by (simp add: DifficultyState.equality)
qed


section \<open>Growing a chain\<close>

lemma get_block_reward_early: "h < 1000000 \<Longrightarrow> get_block_reward chk h = get_block_reward chk 0"
  by (simp add: get_block_reward_def econ)

lemma demo_block_accepted:
  assumes inv: "chain_inv True 0 chain bc"
    and d: "difficulty_of_chain 0 chain = \<lparr>block_difficulty = - 1, transaction_difficulty = - 1, last_timestamp = s\<rparr>"
    and t: "t \<le> SCIP_1_MIGRATION" and txs: "txs = [] \<or> txs = [demo_reward]" and h: "length chain < 1000000"
  shows "check_block demo (demo_block_of txs (difficulty_of_chain 0 chain) (tip_hash chain) t) False False bc = Ok ()"
    (is "check_block demo ?b _ _ _ = _")
proof -
  have state: "get_last_block_hash (block_store bc) = tip_hash chain" "get_height (block_store bc) = length chain"
    "difficulty_state bc = difficulty_of_chain 0 chain"
    using inv by (simp_all add: chain_inv_def store_represents_def get_last_block_hash_def get_height_def)
  have "check_meta demo ?b = Ok ()"
    using t txs by (intro demo_block_meta)
      (auto simp: econ tx_check_completeness_def demo_reward_def word_le_nat_alt)
  moreover have "validate_difficulties ?b (- 1) (- 1) = Ok ()"
    using block_difficulty_ge [of "- 1" "length txs"]
    by (simp add: validate_difficulties_Ok_iff demo_block_of_def d word_le_nat_alt [symmetric])
      (meson buf32_le_max order_trans)
  moreover have "valid_reward demo (length chain) False demo_reward"
    using demo_valid_reward unfolding valid_reward_def get_block_reward_early [OF h] .
  then have "valid_transactions demo L (length chain) target False ?b txs" for L target
    using txs by (auto simp: valid_transactions_def all_inputs_def is_reward_def demo_reward_def)
  moreover have "length txs \<le> 500" "transactions ?b = txs" "previous_block (meta ?b) = tip_hash chain"
    using txs by (auto simp: demo_block_of_def)
  ultimately show ?thesis
    by (simp add: check_block_Ok_iff state chain_block_difficulty_def chain_transaction_difficulty_def d
        get_block_difficulty_def get_transaction_difficulty_def MAX_TRANSACTIONS_PER_BLOCK_def)
qed

lemma demo_good_empty: "demo_good 0 []"
proof -
  have "chain_inv True 0 [] (fresh_chain [])" by (rule fresh_chain_inv)
  moreover have "difficulty_of_chain 0 [] =
      \<lparr>block_difficulty = - 1, transaction_difficulty = - 1, last_timestamp = 0\<rparr>"
    by (simp add: difficulty_of_chain_def difficulty_new_default_def STARTING_BLOCK_DIFFICULTY_def
        STARTING_TX_DIFFICULTY_def)
  moreover have "acceptable_from demo 0 [] 0" by (simp add: acceptable_from_def good_chain.genesis)
  ultimately show ?thesis by (auto simp: demo_good_def)
qed

lemma demo_good_grow:
  assumes good: "demo_good s chain" and t: "unat s + 20 \<le> unat t" "t \<le> SCIP_1_MIGRATION"
    and txs: "txs = [] \<or> txs = [demo_reward]" and h: "length chain < 1000000"
    and new: "txs \<noteq> [] \<Longrightarrow> unused (ledger_of_chain chain) (the (transaction_id demo_reward))"
  shows "demo_good t (demo_grow txs t chain)"
proof -
  let ?b = "demo_block_of txs (difficulty_of_chain 0 chain) (tip_hash chain) t"
  let ?e = "(?b, block_diff (ledger_of_chain chain) txs)"
  obtain bc where inv: "chain_inv True 0 chain bc" using good by (auto simp: demo_good_def)
  have acc: "acceptable_from demo 0 chain 0"
    and stamps: "\<And>e. e \<in> set chain \<Longrightarrow> \<exists>u \<le> s. entry_hash e = demo_stamp u"
    and d: "difficulty_of_chain 0 chain = \<lparr>block_difficulty = - 1, transaction_difficulty = - 1, last_timestamp = s\<rparr>"
    using good by (auto simp: demo_good_def)
  have [simp]: "transactions ?b = txs" "timestamp ?b = t" by (simp_all add: demo_block_of_def)
  have less: "s < t" using t(1) by (simp add: word_less_nat_alt)
  have fresh: "entry_hash ?e \<notin> entry_hash ` set chain"
    using stamps less by (fastforce simp: entry_hash_demo demo_stamp_inject)
  have app: "appendable demo chain ?b"
    using fresh h new txs
    by (auto simp: appendable_def new_ids_def can_append_def demo_block_of_def entry_hash_def)
  have check: "check_block demo ?b False False bc = Ok ()" if "chain_inv True 0 chain bc" for bc
    by (rule demo_block_accepted [OF that d t(2) txs h])
  have "chain_inv (overflow_checks demo) 0 chain bc" using inv by simp
  from add_block_Ok [OF this check [OF inv] app] obtain bc' where inv': "chain_inv True 0 (chain @ [?e]) bc'"
    by auto
  have "acceptable_from demo 0 (chain @ [?e]) 0"
    using acc inv' app check
    by (auto simp: acceptable_from_def chain_inv_def nth_append less_Suc_eq)
  moreover have "difficulty_of_chain 0 (chain @ [?e]) =
      \<lparr>block_difficulty = - 1, transaction_difficulty = - 1, last_timestamp = t\<rparr>"
    using demo_targets [OF d, of ?b] t txs by auto
  moreover have "\<forall>e \<in> set (chain @ [?e]). \<exists>u \<le> t. entry_hash e = demo_stamp u"
  proof
    fix e assume "e \<in> set (chain @ [?e])"
    then consider "e \<in> set chain" | "e = ?e" by auto
    then show "\<exists>u \<le> t. entry_hash e = demo_stamp u"
      using stamps less entry_hash_demo by cases (meson less_imp_le order_trans, blast)
  qed
  ultimately show ?thesis using inv' by (auto simp: demo_good_def demo_grow_def)
qed

section \<open>Empty blocks\<close>

primrec demo_blocks :: "nat \<Rightarrow> log_entry list" where
  "demo_blocks 0 = []"
| "demo_blocks (Suc n) = demo_grow [] (word_of_nat (35 * Suc n)) (demo_blocks n)"

lemma length_demo_blocks [simp]: "length (demo_blocks n) = n"
  by (induction n) (simp_all add: demo_grow_def)

lemma demo_blocks_good: "n \<le> 1000 \<Longrightarrow> demo_good (word_of_nat (35 * n)) (demo_blocks n)"
proof (induction n)
  case 0
  then show ?case using demo_good_empty by simp
next
  case (Suc n)
  have u: "unat (word_of_nat (35 * m) :: u64) = 35 * m" if "m \<le> 1000" for m
    unfolding unat_of_nat using that by (simp add: take_bit_nat_eq_self)
  have "unat (SCIP_1_MIGRATION) = 1770375600" by (simp add: econ)
  then have "word_of_nat (35 * Suc n) \<le> SCIP_1_MIGRATION"
    unfolding word_le_nat_alt using u [OF Suc.prems] Suc.prems by simp
  moreover have "unat (word_of_nat (35 * n) :: u64) + 20 \<le> unat (word_of_nat (35 * Suc n) :: u64)"
    using Suc.prems by (simp only: u Suc_leD, simp)
  ultimately show ?case
    unfolding demo_blocks.simps using Suc by (intro demo_good_grow [OF Suc.IH]) simp_all
qed

lemma demo_blocks_facts:
  assumes "n \<le> 1000"
  shows "acceptable_from demo 0 (demo_blocks n) f" and "distinct (map entry_hash (demo_blocks n))"
    and "\<forall>e \<in> set (demo_blocks n). hash (meta (fst e)) \<noteq> None"
    and "\<exists>bc. chain_inv True 0 (demo_blocks n) bc"
proof -
  have good: "demo_good (word_of_nat (35 * n)) (demo_blocks n)" by (rule demo_blocks_good [OF assms])
  then show "acceptable_from demo 0 (demo_blocks n) f" by (auto simp: demo_good_def acceptable_from_def)
  show "\<exists>bc. chain_inv True 0 (demo_blocks n) bc" using good by (simp add: demo_good_def)
  then show "distinct (map entry_hash (demo_blocks n))" "\<forall>e \<in> set (demo_blocks n). hash (meta (fst e)) \<noteq> None"
    by (auto simp: chain_inv_def store_represents_def)
qed

text \<open>Nodes that serve such chains.\<close>

definition demo_handle :: PeerHandle where
  "demo_handle = \<lparr>address = \<lparr>ip = V4 1, port = 8003\<rparr>, is_client = False, flags = FULL_NODE_CAPABILITY\<rparr>"

definition serving :: "Blockchain \<Rightarrow> FullPeer" where
  "serving bc = \<lparr>node = \<lparr>blockchain = bc, node_state = node_state_new_empty None, forwarded = []\<rparr>,
     sync_tasks = []\<rparr>"

lemma serving_holds: "chain_inv chk t0 P bc \<Longrightarrow> node_holds (serving bc) P"
  by (simp add: node_holds_def serving_def chain_inv_def)

end
