(* ===== verification/Data_Provider.thy ===== *)
theory Data_Provider
  imports Supply Blockchain
begin

text \<open>
  \<open>blockchain_data_provider.rs\<close> and \<open>core/blockchain_ext.rs\<close>: the questions that a client of a chain
  may ask, as a record of answers, and how a full node's chain answers them.
\<close>

section \<open>The interface\<close>

datatype BlockchainDataProviderError =
    AccessError
  | BlockchainErrorP BlockchainError
  | RequestResponseErrorP string

type_synonym 'a provided = "('a, BlockchainDataProviderError) result"

record data_provider =
  p_height :: "usize provided"
  p_reward :: "u64 provided"
  p_block_by_height :: "usize \<Rightarrow> Block option provided"
  p_block_by_hash :: "Hash \<Rightarrow> Block option provided"
  p_height_by_hash :: "Hash \<Rightarrow> usize option provided"
  p_block_hash_by_height :: "usize \<Rightarrow> Hash option provided"
  p_transaction_difficulty :: "buf32 provided"
  p_block_difficulty :: "buf32 provided"
  p_available_outputs :: "Public \<Rightarrow> (TransactionId \<times> TransactionOutput \<times> usize) list provided"

section \<open>A chain as a provider\<close>

text \<open>The outputs of one row that an address owns, and the loop over the rows.\<close>

definition owned_outputs ::
  "Public \<Rightarrow> TransactionId \<Rightarrow> TransactionOutput option list
     \<Rightarrow> (TransactionId \<times> TransactionOutput \<times> usize) list"
where
  "owned_outputs address txid outs =
     List.map_filter (\<lambda>(index, output_opt).
       case output_opt of
         None \<Rightarrow> None
       | Some out \<Rightarrow> if receiver out = address then Some (txid, out, index) else None)
       (enumerate_list outs)"

fun available_in ::
  "Public \<Rightarrow> (string \<times> TransactionOutput option list) list
     \<Rightarrow> (TransactionId \<times> TransactionOutput \<times> usize) list
     \<Rightarrow> (TransactionId \<times> TransactionOutput \<times> usize) list provided"
where
  "available_in address [] acc = Ok acc"
| "available_in address ((k, outs) # rows) acc =
     bind_res (ok_or (hash_new_from_base36 k) (BlockchainErrorP (UTXOsC ''Invalid TransactionId''))) (\<lambda>txid.
       available_in address rows (acc @ owned_outputs address txid outs))"

definition get_available_transaction_outputs ::
  "Blockchain \<Rightarrow> Public \<Rightarrow> (TransactionId \<times> TransactionOutput \<times> usize) list provided"
where
  "get_available_transaction_outputs bc address =
     available_in address (sorted_list_of_fmap (utxos bc)) []"

definition chain_provider :: "bool \<Rightarrow> Blockchain \<Rightarrow> data_provider" where
  "chain_provider chk bc =
     \<lparr>p_height = Ok (get_height (block_store bc)),
      p_reward = get_block_reward chk (get_height (block_store bc)),
      p_block_by_height = (\<lambda>height. Ok (get_block_by_height (block_store bc) height)),
      p_block_by_hash = get_block_by_hash (block_store bc),
      p_height_by_hash = get_block_height_by_hash (block_store bc),
      p_block_hash_by_height = get_block_hash_by_height (block_store bc),
      p_transaction_difficulty = Ok (chain_transaction_difficulty bc),
      p_block_difficulty = Ok (chain_block_difficulty bc),
      p_available_outputs = get_available_transaction_outputs bc\<rparr>"

section \<open>The available outputs\<close>

lemma in_owned_outputs:
  "(t, out, i) \<in> set (owned_outputs a t' outs) \<longleftrightarrow>
     t = t' \<and> row_at outs i = Some out \<and> receiver out = a"
proof -
  have "(t, out, i) \<in> set (owned_outputs a t' outs) \<longleftrightarrow>
      (\<exists>j < length outs. (case outs ! j of None \<Rightarrow> None
        | Some x \<Rightarrow> if receiver x = a then Some (t', x, j) else None) = Some (t, out, i))"
    by (auto simp: owned_outputs_def in_map_filter set_enumerate_list)
  also have "\<dots> \<longleftrightarrow> t = t' \<and> row_at outs i = Some out \<and> receiver out = a"
    by (auto simp: row_at_def split: option.splits if_splits)
  finally show ?thesis .
qed

lemma map_filter_fst_distinct:
  assumes "distinct (map fst kvs)" and "\<And>k v y. f (k, v) = Some y \<Longrightarrow> g y = k"
  shows "distinct (map g (List.map_filter f kvs))"
  using assms(1)
proof (induction kvs)
  case (Cons kv kvs)
  obtain k v where kv: "kv = (k, v)" by force
  have "g y \<noteq> k" if y: "y \<in> set (List.map_filter f kvs)" for y
  proof -
    obtain k' v' where "(k', v') \<in> set kvs" "f (k', v') = Some y" using y unfolding in_map_filter by auto
    then show ?thesis using Cons.prems assms(2) kv by force
  qed
  with Cons assms(2) show ?case
    by (auto simp: kv List.map_filter_simps split: option.splits)
qed (simp add: List.map_filter_simps)

lemma distinct_owned_outputs: "distinct (map (\<lambda>(t, out, i). i) (owned_outputs a t outs))"
  unfolding owned_outputs_def
  by (rule map_filter_fst_distinct)
    (auto simp: enumerate_list_fst split: option.splits if_splits)

lemma available_in_Ok:
  assumes "\<And>k outs. (k, outs) \<in> set rows \<Longrightarrow> \<exists>t. hash_new_from_base36 k = Some t"
  shows "available_in a rows acc =
    Ok (acc @ concat (map (\<lambda>(k, outs). owned_outputs a (the (hash_new_from_base36 k)) outs) rows))"
  using assms
proof (induction a rows acc rule: available_in.induct)
  case (2 a k outs rows acc)
  then obtain t where "hash_new_from_base36 k = Some t" by force
  moreover have "\<exists>t. hash_new_from_base36 k' = Some t" if "(k', outs') \<in> set rows" for k' outs'
    using that 2(2) by (meson list.set_intros(2))
  ultimately show ?case using 2(1) by simp
qed simp

lemma finite_ledger: "finite (dom (ledger_of u))"
proof -
  let ?T = "{t. get_tx_outputs u t \<noteq> None}"
  have "hash_dump_base36 ` ?T \<subseteq> fmdom' u" by (auto simp: get_tx_outputs_def fmlookup_dom'_iff)
  then have "finite (hash_dump_base36 ` ?T)" by (rule finite_subset) simp
  then have "finite ?T" by (rule finite_imageD) (simp add: inj_on_def)
  then have "finite (SIGMA t:?T. {i. row_at (the (get_tx_outputs u t)) i \<noteq> None})"
    by (rule finite_SigmaI) (rule finite_row)
  moreover have "dom (ledger_of u) \<subseteq> (SIGMA t:?T. {i. row_at (the (get_tx_outputs u t)) i \<noteq> None})"
    by (auto simp: ledger_of_def split: option.splits)
  ultimately show ?thesis by (rule rev_finite_subset)
qed

text \<open>An address's available outputs are exactly its entries in the ledger, each listed once.\<close>

definition available_rows ::
  "Public \<Rightarrow> (string \<times> TransactionOutput option list) list
     \<Rightarrow> (TransactionId \<times> TransactionOutput \<times> usize) list"
where
  "available_rows a rows =
     concat (map (\<lambda>(k, outs). owned_outputs a (the (hash_new_from_base36 k)) outs) rows)"

definition available_key :: "TransactionId \<times> TransactionOutput \<times> usize \<Rightarrow> outpoint" where
  "available_key e = (case e of (t, out, i) \<Rightarrow> (t, i))"

lemma available_key_simp [simp]: "available_key (t, out, i) = (t, i)"
  by (simp add: available_key_def)

lemma in_available_rows:
  "(t, out, i) \<in> set (available_rows a rows) \<longleftrightarrow>
     (\<exists>k outs. (k, outs) \<in> set rows \<and> t = the (hash_new_from_base36 k)
        \<and> row_at outs i = Some out \<and> receiver out = a)"
  by (auto simp: available_rows_def in_owned_outputs)

lemma distinct_available_rows:
  assumes "distinct (map fst rows)" and "\<And>k outs. (k, outs) \<in> set rows \<Longrightarrow> \<exists>t. k = hash_dump_base36 t"
  shows "distinct (map available_key (available_rows a rows))"
  using assms
proof (induction rows)
  case (Cons row rows)
  obtain k outs where row: "row = (k, outs)" by force
  then obtain t where t: "k = hash_dump_base36 t" using Cons.prems(2) [of k outs] by auto
  let ?mine = "owned_outputs a t outs"
  have split: "available_rows a (row # rows) = ?mine @ available_rows a rows"
    by (simp add: available_rows_def row t)
  have "map snd (map available_key ?mine) = map (\<lambda>(t, out, i). i) ?mine"
    by (auto simp: available_key_def)
  then have "distinct (map available_key ?mine)"
    using distinct_owned_outputs [of a t outs] by (metis distinct_map)
  moreover have mine: "fst (available_key e) = t" if "e \<in> set ?mine" for e
    using that in_owned_outputs [of "fst e" "fst (snd e)" "snd (snd e)"]
    by (auto simp: available_key_def split: prod.split)
  moreover have others: "fst (available_key e) \<noteq> t" if e: "e \<in> set (available_rows a rows)" for e
  proof -
    obtain t' out i where e': "e = (t', out, i)" by (cases e)
    obtain k' outs' where k': "(k', outs') \<in> set rows" "t' = the (hash_new_from_base36 k')"
      using e unfolding e' in_available_rows by blast
    then obtain u where u: "k' = hash_dump_base36 u" using Cons.prems(2) [of k' outs'] by auto
    have "k' \<noteq> k" using k'(1) Cons.prems(1) by (force simp: row)
    then show ?thesis using k'(2) by (auto simp: e' u t)
  qed
  moreover have "distinct (map available_key (available_rows a rows))"
    by (rule Cons.IH) (use Cons.prems in auto)
  moreover have "available_key ` set ?mine \<inter> available_key ` set (available_rows a rows) = {}"
  proof -
    have "fst x = t" if "x \<in> available_key ` set ?mine" for x using that mine by blast
    moreover have "fst x \<noteq> t" if "x \<in> available_key ` set (available_rows a rows)" for x
      using that others by blast
    ultimately show ?thesis by blast
  qed
  ultimately show ?case by (simp only: split map_append distinct_append set_map)
qed (simp add: available_rows_def)

lemma available_outputs_ledger:
  assumes "utxos_wf (utxos bc)"
  obtains av where "get_available_transaction_outputs bc a = Ok av"
    and "\<And>t out i. (t, out, i) \<in> set av \<longleftrightarrow> ledger_of (utxos bc) (t, i) = Some out \<and> receiver out = a"
    and "distinct (map available_key av)"
proof -
  let ?rows = "sorted_list_of_fmap (utxos bc)"
  have rows: "(k, outs) \<in> set ?rows \<longleftrightarrow> fmlookup (utxos bc) k = Some outs" for k outs
    by (simp add: set_sorted_list_of_fmap)
  have key: "\<exists>t. k = hash_dump_base36 t" if k: "(k, outs) \<in> set ?rows" for k outs
    using assms k by (simp add: rows utxos_wf_def)
  have "get_available_transaction_outputs bc a = Ok (available_rows a ?rows)"
    unfolding get_available_transaction_outputs_def available_rows_def
    by (subst available_in_Ok) (use key hash_base36_back in \<open>metis, simp\<close>)
  moreover have "(t, out, i) \<in> set (available_rows a ?rows) \<longleftrightarrow>
      ledger_of (utxos bc) (t, i) = Some out \<and> receiver out = a" for t out i
  proof -
    have "(t, out, i) \<in> set (available_rows a ?rows) \<longleftrightarrow>
        (\<exists>outs. fmlookup (utxos bc) (hash_dump_base36 t) = Some outs
          \<and> row_at outs i = Some out \<and> receiver out = a)"
      unfolding in_available_rows rows using key rows by (metis hash_base36_back option.sel)
    then show ?thesis by (auto simp: ledger_of_def get_tx_outputs_def split: option.splits)
  qed
  moreover have "distinct (map available_key (available_rows a ?rows))"
    by (rule distinct_available_rows) (use key distinct_sorted_list_of_fmap in auto)
  ultimately show ?thesis using that by blast
qed

section \<open>The contract of a provider of outputs\<close>

text \<open>
  What the builders of payments rely on: in a good state the provider lists what the ledger holds for an
  address, each output once, and the ledger is finite with a sum that fits 64 bits.
\<close>

locale output_provider =
  fixes good :: "'s \<Rightarrow> bool" and provider :: "'s \<Rightarrow> data_provider" and unspent :: "'s \<Rightarrow> ledger"
  assumes lists_outputs: "good s \<Longrightarrow> \<exists>av. p_available_outputs (provider s) a = Ok av
      \<and> (\<forall>t out i. (t, out, i) \<in> set av \<longleftrightarrow> unspent s (t, i) = Some out \<and> receiver out = a)
      \<and> distinct (map available_key av)"
    and finite_unspent: "good s \<Longrightarrow> finite (dom (unspent s))"
    and unspent_fits: "good s \<Longrightarrow> ledger_sum (\<lambda>_. True) (unspent s) < 2 ^ 64"

text \<open>The chain of a node honours it.\<close>

definition provides_outputs :: "Blockchain \<Rightarrow> bool" where
  "provides_outputs bc \<longleftrightarrow> utxos_wf (utxos bc) \<and> total_supply (utxos bc) < 2 ^ 64"

interpretation chain_outputs: output_provider provides_outputs "chain_provider chk" "\<lambda>bc. ledger_of (utxos bc)"
  for chk
proof (unfold_locales, goal_cases)
  case (1 bc a)
  then have "utxos_wf (utxos bc)" by (simp add: provides_outputs_def)
  then show ?case
    by (rule available_outputs_ledger [where a = a]) (simp add: chain_provider_def)
next
  case (3 bc)
  then show ?case
    using utxo_sum_ledger [of "utxos bc" "\<lambda>_. True"] by (simp add: provides_outputs_def total_supply_def)
qed (rule finite_ledger)

end
