(* ===== verification/Builders.thy ===== *)
theory Builders
  imports Data_Provider Chain_Validation "HOL-Library.Multiset"
begin

text \<open>
  \<open>lib.rs\<close>: building a transaction from what a sender owns, and a block from transactions, over any
  provider of chain data.  The clock readings and the nonces the miner draws are arguments.  The last
  section shows that what is built from a chain is accepted by that chain.
\<close>

section \<open>Building\<close>

datatype UtilError =
    BlockchainErrorU BlockchainError
  | TransactionErrorU TransactionError
  | InsufficientFunds
  | EncodeErrorU string
  | BlockchainDataProviderErrorU BlockchainDataProviderError
  | TooMuchIOU
  | TooManyTransactionsU
  | AddressInclusionFilterU AddressInclusionFilterError

type_synonym available = "TransactionId \<times> TransactionOutput \<times> usize"

definition not_ignored :: "TransactionInput list \<Rightarrow> available \<Rightarrow> bool" where
  "not_ignored ignore_inputs av =
     (case av of (t, out, index) \<Rightarrow>
        \<not> list_ex (\<lambda>i. output_index i = index \<and> input_tx_id i = t) ignore_inputs)"

fun gather_inputs ::
  "bool \<Rightarrow> u64 \<Rightarrow> available list \<Rightarrow> available list \<Rightarrow> u64 \<Rightarrow> (available list \<times> u64, 'e) result"
where
  "gather_inputs chk target_balance [] used_inputs current_funds = Ok (used_inputs, current_funds)"
| "gather_inputs chk target_balance ((t, out, index) # available_inputs) used_inputs current_funds =
     bind_res (add_u chk current_funds (amount out)) (\<lambda>funds.
       if target_balance \<le> funds then Ok (used_inputs @ [(t, out, index)], funds)
       else gather_inputs chk target_balance available_inputs (used_inputs @ [(t, out, index)]) funds)"

definition input_from :: "Public \<Rightarrow> available \<Rightarrow> TransactionInput" where
  "input_from owner av =
     (case av of (t, out, index) \<Rightarrow>
        \<lparr>input_tx_id = t, output_index = index, signature = None, output_owner = owner\<rparr>)"

definition output_to :: "Public \<times> u64 \<Rightarrow> TransactionOutput" where
  "output_to r = \<lparr>amount = snd r, receiver = fst r\<rparr>"

definition build_transaction ::
  "'z tx_env_scheme \<Rightarrow> u64 \<Rightarrow> data_provider \<Rightarrow> Private \<Rightarrow> (Public \<times> u64) list
     \<Rightarrow> TransactionInput list \<Rightarrow> (Transaction, UtilError) result"
where
  "build_transaction E now provider sender receivers ignore_inputs =
     (let chk = overflow_checks E; me = to_public E sender
      in bind_res (for_each (\<lambda>r acc. add_u chk acc (snd r)) receivers 0) (\<lambda>target_balance.
         bind_res (map_err BlockchainDataProviderErrorU (p_available_outputs provider me))
           (\<lambda>available_inputs.
         bind_res (gather_inputs chk target_balance
             (List.filter (not_ignored ignore_inputs) available_inputs) [] 0) (\<lambda>(used_inputs, current_funds).
         if current_funds < target_balance then Err InsufficientFunds
         else
           let receivers = (if target_balance < current_funds
                            then receivers @ [(me, current_funds - target_balance)] else receivers)
           in if MAX_TRANSACTION_IO < length used_inputs + length receivers then Err TooMuchIOU
              else
                let used_inputs = sort_key (\<lambda>a. amount (fst (snd a))) used_inputs
                in map_err EncodeErrorU
                     (new_transaction_now E now (map (input_from me) used_inputs)
                       (map output_to receivers) (replicate (length used_inputs) sender))))))"

text \<open>The last transaction of the block is its reward.\<close>

definition reward_outputs :: "u64 \<Rightarrow> Public \<Rightarrow> TransactionOutput list" where
  "reward_outputs reward miner =
     [\<lparr>amount = calculate_dev_fee reward, receiver = DEV_WALLET\<rparr>,
      \<lparr>amount = reward - calculate_dev_fee reward, receiver = miner\<rparr>]"

fun completed_ids :: "Transaction list \<Rightarrow> (TransactionId list, TransactionError) result" where
  "completed_ids [] = Ok []"
| "completed_ids (tx # txs) =
     bind_res (tx_check_completeness tx) (\<lambda>_.
     bind_res (expect (transaction_id tx)) (\<lambda>i.
     bind_res (completed_ids txs) (\<lambda>ids. Ok (i # ids))))"

text \<open>The unmined reward, and the target it is mined for.\<close>

definition build_reward ::
  "'z block_env_scheme \<Rightarrow> u64 \<Rightarrow> data_provider \<Rightarrow> Transaction list \<Rightarrow> Public
     \<Rightarrow> (Transaction \<times> buf32, UtilError) result"
where
  "build_reward E now provider txs miner =
     bind_res (map_err BlockchainDataProviderErrorU (p_height provider)) (\<lambda>height.
     bind_res (get_block_reward (overflow_checks E) height) (\<lambda>reward.
     bind_res (sub_u (overflow_checks E) reward (calculate_dev_fee reward)) (\<lambda>_.
     bind_res (map_err EncodeErrorU
         (new_transaction_now E now [] (reward_outputs reward miner) [])) (\<lambda>reward_tx.
     if MAX_TRANSACTIONS_PER_BLOCK < length txs + 1 then Err TooManyTransactionsU
     else bind_res (map_err BlockchainDataProviderErrorU (p_transaction_difficulty provider))
       (\<lambda>tx_difficulty. Ok (reward_tx, tx_difficulty))))))"

text \<open>The block over all its transactions.\<close>

definition finish_block ::
  "'z block_env_scheme \<Rightarrow> u64 \<Rightarrow> data_provider \<Rightarrow> Transaction list \<Rightarrow> (Block, UtilError) result"
where
  "finish_block E now provider txs =
     bind_res (map_err TransactionErrorU (completed_ids txs)) (\<lambda>ids.
     bind_res (map_err AddressInclusionFilterU (create_filter E txs)) (\<lambda>filt.
     bind_res (map_err BlockchainDataProviderErrorU (p_height provider)) (\<lambda>height.
     bind_res (map_err BlockchainDataProviderErrorU (p_block_hash_by_height provider (height - 1)))
       (\<lambda>previous.
     bind_res (map_err BlockchainDataProviderErrorU (p_block_difficulty provider)) (\<lambda>block_difficulty.
     bind_res (map_err BlockchainDataProviderErrorU (p_transaction_difficulty provider)) (\<lambda>tx_difficulty.
       Ok (new_block_now now txs block_difficulty tx_difficulty
             (case previous of None \<Rightarrow> GENESIS_PREVIOUS_BLOCK_HASH | Some h \<Rightarrow> h)
             (root_hash (merkle_build E ids)) filt)))))))"

text \<open>\<open>None\<close>: none of the nonces drawn so far meets the target.\<close>

definition build_block ::
  "'z block_env_scheme \<Rightarrow> u64 \<Rightarrow> u64 \<Rightarrow> u64 list \<Rightarrow> data_provider \<Rightarrow> Transaction list \<Rightarrow> Public
     \<Rightarrow> (Block, UtilError) result option"
where
  "build_block E now now' nonces provider txs miner =
     (case build_reward E now provider txs miner of
        Err e \<Rightarrow> Some (Err e)
      | Panic \<Rightarrow> Some Panic
      | Ok (reward_tx, tx_difficulty) \<Rightarrow>
          map_option (\<lambda>mined. bind_res (map_err EncodeErrorU mined) (\<lambda>reward_tx.
              finish_block E now' provider (txs @ [reward_tx])))
            (tx_compute_pow E (pow_target tx_difficulty None) nonces reward_tx))"

section \<open>Choosing the inputs\<close>

lemma sum_words_Ok:
  assumes "for_each (\<lambda>x acc. add_u chk acc (f x)) xs s = (Ok r :: (_, 'e) result)"
    and "unat s + (\<Sum>x \<leftarrow> xs. unat (f x)) < 2 ^ LENGTH('a)"
  shows "unat (r :: 'a::len word) = unat s + (\<Sum>x \<leftarrow> xs. unat (f x))"
  using assms
proof (induction xs arbitrary: s)
  case (Cons x xs)
  then have small: "unat s + unat (f x) < 2 ^ LENGTH('a)" by simp
  with Cons.prems(1) have "for_each (\<lambda>x acc. add_u chk acc (f x)) xs (s + f x) = (Ok r :: (_, 'e) result)"
    by simp
  moreover have "unat (s + f x) = unat s + unat (f x)" using small by (rule unat_add_no_overflow)
  ultimately show ?case using Cons.IH [of "s + f x"] Cons.prems(2) by (simp add: add.assoc)
qed simp

definition available_amount :: "available \<Rightarrow> nat" where
  "available_amount av = unat (amount (fst (snd av)))"

lemma gather_inputs_Ok:
  assumes "gather_inputs chk target av used funds = (Ok (used', funds') :: (_, 'e) result)"
    and "unat funds + (\<Sum>a \<leftarrow> av. available_amount a) < 2 ^ 64"
  shows "\<exists>n \<le> length av. used' = used @ take n av
    \<and> unat funds' = unat funds + (\<Sum>a \<leftarrow> take n av. available_amount a) \<and> (av \<noteq> [] \<longrightarrow> 0 < n)"
  using assms
proof (induction av arbitrary: used funds)
  case (Cons a av)
  obtain t out i where a: "a = (t, out, i)" by (cases a)
  have small: "unat funds + unat (amount out) < 2 ^ LENGTH(64)"
    using Cons.prems(2) by (simp add: a available_amount_def)
  have sum: "unat (funds + amount out) = unat funds + available_amount a"
    using unat_add_no_overflow [OF small] by (simp add: a available_amount_def)
  show ?case
  proof (cases "target \<le> funds + amount out")
    case True
    then have "used' = used @ take 1 (a # av)" "funds' = funds + amount out"
      using Cons.prems(1) small by (simp_all add: a)
    then show ?thesis using sum by (intro exI [of _ 1]) simp
  next
    case False
    then have "gather_inputs chk target av (used @ [a]) (funds + amount out) =
        (Ok (used', funds') :: (_, 'e) result)"
      using Cons.prems(1) small by (simp add: a)
    from Cons.IH [OF this] obtain n where "n \<le> length av" "used' = (used @ [a]) @ take n av"
      "unat funds' = unat (funds + amount out) + (\<Sum>a \<leftarrow> take n av. available_amount a)"
      using Cons.prems(2) sum by auto
    then show ?thesis using sum by (intro exI [of _ "Suc n"]) simp
  qed
qed simp

text \<open>What a built transaction is.\<close>

definition payments :: "Public \<Rightarrow> (Public \<times> u64) list \<Rightarrow> nat \<Rightarrow> TransactionOutput list \<Rightarrow> bool" where
  "payments me receivers funds outs \<longleftrightarrow>
     (let target = (\<Sum>r \<leftarrow> receivers. unat (snd r))
      in target \<le> funds \<and> (outs = map output_to receivers \<and> target = funds
         \<or> (\<exists>change. outs = map output_to receivers @ [\<lparr>amount = change, receiver = me\<rparr>]
              \<and> unat change = funds - target \<and> target < funds)))"

lemma payments_sum:
  assumes "payments me receivers funds outs"
  shows "(\<Sum>out \<leftarrow> outs. unat (amount out)) = funds"
proof -
  have "(\<Sum>out \<leftarrow> map output_to receivers. unat (amount out)) = (\<Sum>r \<leftarrow> receivers. unat (snd r))"
    by (simp add: comp_def output_to_def)
  then show ?thesis using assms by (auto simp: payments_def Let_def)
qed

definition total_amount :: "available list \<Rightarrow> nat" where
  "total_amount av = (\<Sum>a \<leftarrow> av. available_amount a)"

lemma total_amount_filter_le: "total_amount (List.filter P av) \<le> total_amount av"
  by (induction av) (auto simp: total_amount_def)

lemma build_transaction_Ok:
  assumes ok: "build_transaction E now provider sender receivers ignore_inputs = Ok tx"
    and av: "p_available_outputs provider (to_public E sender) = Ok av"
    and small: "total_amount av < 2 ^ 64" "(\<Sum>r \<leftarrow> receivers. unat (snd r)) < 2 ^ 64"
  obtains used n buf where "n \<le> length (List.filter (not_ignored ignore_inputs) av)"
    and "mset used = mset (take n (List.filter (not_ignored ignore_inputs) av))"
    and "List.filter (not_ignored ignore_inputs) av \<noteq> [] \<longrightarrow> used \<noteq> []"
    and "get_input_signing_buf E tx = Ok buf"
    and "inputs tx = map (\<lambda>a. (input_from (to_public E sender) a)
           \<lparr>signature := Some (new_signature E sender buf)\<rparr>) used"
    and "payments (to_public E sender) receivers (total_amount used) (outputs tx)"
    and "length (inputs tx) + length (outputs tx) \<le> MAX_TRANSACTION_IO"
    and "transaction_id tx = None" and "tx_timestamp tx = now"
proof -
  let ?me = "to_public E sender" and ?chk = "overflow_checks E"
  let ?av = "List.filter (not_ignored ignore_inputs) av"
  from ok av obtain target gathered funds where
    target: "for_each (\<lambda>r acc. add_u ?chk acc (snd r)) receivers 0 = (Ok target :: (_, UtilError) result)"
    and gather: "gather_inputs ?chk target ?av [] 0 = (Ok (gathered, funds) :: (_, UtilError) result)"
    and rest: "(if funds < target then Err InsufficientFunds
      else let receivers = (if target < funds then receivers @ [(?me, funds - target)] else receivers)
       in if MAX_TRANSACTION_IO < length gathered + length receivers then Err TooMuchIOU
          else let used_inputs = sort_key (\<lambda>a. amount (fst (snd a))) gathered
            in map_err EncodeErrorU (new_transaction_now E now (map (input_from ?me) used_inputs)
                 (map output_to receivers) (replicate (length used_inputs) sender))) = Ok tx"
    by (auto simp: build_transaction_def Let_def res_simps)
  have target': "unat target = (\<Sum>r \<leftarrow> receivers. unat (snd r))"
    using sum_words_Ok [OF target] small(2) by simp
  have "unat (0 :: u64) + total_amount ?av < 2 ^ 64"
    using total_amount_filter_le [of "not_ignored ignore_inputs" av] small(1) by simp
  from gather_inputs_Ok [OF gather this [unfolded total_amount_def]] obtain n where
    n: "n \<le> length ?av" "gathered = take n ?av" "unat funds = total_amount (take n ?av)"
    "?av \<noteq> [] \<longrightarrow> 0 < n" by (auto simp: total_amount_def)
  define used where "used = sort_key (\<lambda>a. amount (fst (snd a))) gathered"
  have used: "mset used = mset (take n ?av)" by (simp add: used_def n(2))
  then have len: "length used = length gathered" by (metis n(2) size_mset)
  define outs where
    "outs = (if target < funds then receivers @ [(?me, funds - target)] else receivers)"
  have enough: "target \<le> funds" "length gathered + length outs \<le> MAX_TRANSACTION_IO"
    and new: "new_transaction_now E now (map (input_from ?me) used) (map output_to outs)
      (replicate (length used) sender) = Ok tx"
    using rest by (auto simp: outs_def used_def Let_def res_simps not_less split: if_splits)
  obtain buf where buf: "get_input_signing_buf E tx = Ok buf"
    "inputs tx = sign_inputs E buf (map (input_from ?me) used) (replicate (length used) sender)"
    "outputs tx = map output_to outs" "transaction_id tx = None" "tx_timestamp tx = now"
    by (rule new_transaction_now_Ok [OF new])
  have ins: "inputs tx =
    map (\<lambda>a. (input_from ?me a)\<lparr>signature := Some (new_signature E sender buf)\<rparr>) used"
    unfolding buf(2) by (rule nth_equalityI) (simp_all add: sign_inputs_nth)
  have funds: "unat funds = total_amount used"
    unfolding n(3) total_amount_def using used by (metis mset_map sum_mset_sum_list)
  have "payments ?me receivers (total_amount used) (outputs tx)"
    using enough(1) target' funds
    by (auto simp: payments_def outs_def buf(3) output_to_def word_le_nat_alt word_less_nat_alt unat_sub
        Let_def)
  moreover have "?av \<noteq> [] \<longrightarrow> used \<noteq> []"
    using n(2,4) len by (metis length_0_conv n(1) length_take min.absorb2 not_gr_zero)
  moreover have "length (inputs tx) + length (outputs tx) \<le> MAX_TRANSACTION_IO"
    using enough(2) len by (simp add: ins buf(3))
  ultimately show ?thesis using that n(1) used buf ins by blast
qed

section \<open>What is built is accepted\<close>

definition signs_verify :: "'z crypto_scheme \<Rightarrow> Private \<Rightarrow> bool" where
  "signs_verify C k \<longleftrightarrow>
     (\<forall>buf. validate_with_public C (new_signature C k buf) (to_public C k) buf = Ok True)"

lemma payments_nonzero:
  assumes "payments me receivers funds outs" and "\<forall>r \<in> set receivers. snd r \<noteq> 0"
  shows "\<forall>out \<in> set outs. amount out \<noteq> 0"
proof -
  have "amount out \<noteq> 0" if "out \<in> set (map output_to receivers)" for out
    using that assms(2) by (auto simp: output_to_def)
  moreover have "change \<noteq> 0" if "unat change = funds - t" "t < funds" for change :: u64 and t
    using that by auto
  ultimately show ?thesis using assms(1) unfolding payments_def Let_def by fastforce
qed

text \<open>Part of the available outputs, in another order.\<close>

lemma used_part:
  assumes "mset used = mset (take n (List.filter P av))" and "distinct (map available_key av)"
  shows "set used \<subseteq> set av \<and> distinct (map available_key used)"
proof -
  have "set used = set (take n (List.filter P av))" using assms(1) by (metis set_mset_mset)
  then have "set used \<subseteq> set av" using set_take_subset by fastforce
  moreover have "distinct (map available_key (List.filter P av))"
    using assms(2) by (simp add: distinct_map_filter)
  then have "distinct (take n (map available_key (List.filter P av)))" by (rule distinct_take)
  then have "distinct (map available_key (take n (List.filter P av)))" by (simp add: take_map)
  then have "distinct (map available_key used)"
    using assms(1) by (metis mset_map distinct_count_atmost_1 set_mset_mset)
  ultimately show ?thesis ..
qed

context output_provider
begin

lemma available_le_unspent:
  assumes good: "good s"
    and av: "\<And>t out i. (t, out, i) \<in> set av \<longleftrightarrow> unspent s (t, i) = Some out \<and> receiver out = a"
      "distinct (map available_key av)"
  shows "total_amount av \<le> ledger_sum (\<lambda>_. True) (unspent s)"
proof -
  let ?L = "unspent s"
  have amounts: "available_amount x = value_for (\<lambda>_. True) (the (?L (available_key x)))" if "x \<in> set av" for x
    using av(1) [of "fst x" "fst (snd x)" "snd (snd x)"] that
    by (cases x) (simp add: available_amount_def value_for_def)
  have "total_amount av = (\<Sum>k \<leftarrow> map available_key av. value_for (\<lambda>_. True) (the (?L k)))"
    unfolding total_amount_def map_map comp_def
    by (intro arg_cong [of _ _ sum_list] map_cong refl) (simp add: amounts)
  also have "\<dots> = (\<Sum>k \<in> available_key ` set av. value_for (\<lambda>_. True) (the (?L k)))"
    using sum_list_distinct_conv_sum_set [OF av(2)] by simp
  also have "\<dots> \<le> ledger_sum (\<lambda>_. True) ?L"
    unfolding ledger_sum_def using av(1) finite_unspent [OF good]
    by (intro sum_mono2) auto
  finally show ?thesis .
qed

text \<open>Signed and mined, a transaction that was built from such a provider is a valid transfer.\<close>

lemma built_transfer_valid:
  assumes ok: "build_transaction E now (provider s) sender receivers ignore_inputs = Ok tx"
    and good: "good s"
    and receivers: "(\<Sum>r \<leftarrow> receivers. unat (snd r)) < 2 ^ 64" "\<forall>r \<in> set receivers. snd r \<noteq> 0"
      "receivers \<noteq> []"
    and key: "signs_verify E sender"
    and mined: "tx_compute_pow E (unat difficulty) nonces tx = Some (Ok tx')"
  shows "valid_transfer E (unspent s) (unat difficulty) False tx'"
proof -
  let ?me = "to_public E sender" and ?L = "unspent s"
  obtain av where av: "p_available_outputs (provider s) ?me = Ok av"
    "\<And>t out i. (t, out, i) \<in> set av \<longleftrightarrow> ?L (t, i) = Some out \<and> receiver out = ?me"
    "distinct (map available_key av)"
    using lists_outputs [OF good, of ?me] by blast
  let ?av = "List.filter (not_ignored ignore_inputs) av"
  have small: "total_amount av < 2 ^ 64"
    using available_le_unspent [OF good av(2,3)] unspent_fits [OF good] by (rule le_less_trans)
  obtain used n buf where built:
    "mset used = mset (take n ?av)" "?av \<noteq> [] \<longrightarrow> used \<noteq> []"
    "get_input_signing_buf E tx = Ok buf"
    "inputs tx = map (\<lambda>a. (input_from ?me a)\<lparr>signature := Some (new_signature E sender buf)\<rparr>) used"
    "payments ?me receivers (total_amount used) (outputs tx)"
    "length (inputs tx) + length (outputs tx) \<le> MAX_TRANSACTION_IO"
    by (rule build_transaction_Ok [OF ok av(1) small receivers(1)]) blast
  have sub: "set used \<subseteq> set av" and dist: "distinct (map available_key used)"
    using built(1) used_part [OF built(1) av(3)] by blast+
  obtain m hbuf where m: "tx' = tx\<lparr>tx_nonce := m, transaction_id := Some (hash_new E hbuf)\<rparr>"
    "get_tx_hashing_buf E (tx\<lparr>tx_nonce := m\<rparr>) = Ok hbuf" "unat (hash_buf (hash_new E hbuf)) \<le> unat difficulty"
    using tx_compute_pow_Ok [OF mined] by blast
  have bufs: "get_input_signing_buf E tx' = Ok buf" "get_tx_hashing_buf E tx' = Ok hbuf"
    using built(3) m(2) by (simp_all add: m(1) get_input_signing_buf_def)
  have key_of: "input_key ((input_from ?me a)\<lparr>signature := x\<rparr>) = available_key a" for a x
    by (cases a) (simp add: input_key_def input_from_def)
  have entry: "?L (available_key a) = Some (fst (snd a)) \<and> receiver (fst (snd a)) = ?me"
    if "a \<in> set used" for a
    using sub that av(2) by (cases a) auto
  have keys: "map input_key (inputs tx') = map available_key used"
    by (simp add: m(1) built(4) key_of comp_def)
  have ins: "\<forall>i \<in> set (inputs tx'). input_ok E ?L buf i"
  proof -
    have "input_ok E ?L buf ((input_from ?me a)\<lparr>signature := Some (new_signature E sender buf)\<rparr>)"
      if "a \<in> set used" for a
    proof -
      have "output_owner (input_from ?me a) = ?me" by (cases a) (simp add: input_from_def)
      then show ?thesis
        using entry [OF that] key unfolding input_ok_def key_of
        by (simp add: signature_accepted_def signs_verify_def)
    qed
    then show ?thesis by (auto simp: m(1) built(4))
  qed
  have "input_amount ?L ((input_from ?me a)\<lparr>signature := x\<rparr>) = available_amount a" if "a \<in> set used" for a x
    using entry [OF that] by (simp add: input_amount_def key_of available_amount_def)
  then have sums: "(\<Sum>i \<leftarrow> inputs tx'. input_amount ?L i) = total_amount used"
    by (simp add: total_amount_def m(1) built(4) comp_def cong: map_cong)
  have outs: "(\<Sum>out \<leftarrow> outputs tx'. unat (amount out)) = total_amount used"
    using payments_sum [OF built(5)] by (simp add: m(1))
  have "(\<Sum>r \<leftarrow> receivers. unat (snd r)) \<noteq> 0"
    using receivers(2,3) by (cases receivers) (auto simp: unat_eq_zero)
  moreover have "(\<Sum>r \<leftarrow> receivers. unat (snd r)) \<le> total_amount used"
    using built(5) by (simp add: payments_def Let_def)
  ultimately have "total_amount used \<noteq> 0" by linarith
  then have "used \<noteq> []" by (auto simp: total_amount_def)
  have "total_amount used < 2 ^ 64"
  proof -
    have "total_amount used = total_amount (take n ?av)"
      unfolding total_amount_def using built(1) by (metis mset_map sum_mset_sum_list)
    also have "\<dots> \<le> total_amount ?av"
      unfolding total_amount_def by (metis append_take_drop_id le_add1 map_append sum_list_append)
    also have "\<dots> \<le> total_amount av" by (rule total_amount_filter_le)
    finally show ?thesis using small by simp
  qed
  moreover have "inputs tx' \<noteq> []" using \<open>used \<noteq> []\<close> by (simp add: m(1) built(4))
  moreover have "length (inputs tx') + length (outputs tx') \<le> MAX_TRANSACTION_IO"
    using built(6) by (simp add: m(1))
  moreover have "\<forall>out \<in> set (outputs tx'). amount out \<noteq> 0"
    using payments_nonzero [OF built(5) receivers(2)] by (simp add: m(1))
  moreover have "transaction_id tx' = Some (hash_new E hbuf)" by (simp add: m(1))
  ultimately show ?thesis
    unfolding valid_transfer_def using bufs ins keys dist sums outs m(3) by simp
qed

end

subsection \<open>Blocks\<close>

lemma completed_ids_Ok_iff:
  "completed_ids txs = Ok ids \<longleftrightarrow>
     (\<forall>tx \<in> set txs. tx_check_completeness tx = Ok ()) \<and> map transaction_id txs = map Some ids"
  by (induction txs arbitrary: ids)
    (auto simp: res_simps Cons_eq_map_conv tx_check_completeness_Ok_iff)

lemma build_block_Ok:
  assumes "build_block E now now' nonces (chain_provider (overflow_checks E) bc) txs miner = Some (Ok b)"
  obtains reward reward_tx mined ids filt previous where
    "get_block_reward (overflow_checks E) (get_height (block_store bc)) = (Ok reward :: (u64, UtilError) result)"
    "new_transaction_now E now [] (reward_outputs reward miner) [] = Ok reward_tx"
    "length txs + 1 \<le> MAX_TRANSACTIONS_PER_BLOCK"
    "tx_compute_pow E (unat (chain_transaction_difficulty bc)) nonces reward_tx = Some (Ok mined)"
    "completed_ids (txs @ [mined]) = Ok ids"
    "create_filter E (txs @ [mined]) = Ok filt"
    "get_block_hash_by_height (block_store bc) (get_height (block_store bc) - 1) =
       (Ok previous :: (Hash option, BlockchainDataProviderError) result)"
    "b = new_block_now now' (txs @ [mined]) (chain_block_difficulty bc) (chain_transaction_difficulty bc)
       (case previous of None \<Rightarrow> GENESIS_PREVIOUS_BLOCK_HASH | Some h \<Rightarrow> h)
       (root_hash (merkle_build E ids)) filt"
proof -
  let ?p = "chain_provider (overflow_checks E) bc"
  obtain reward_tx d where r: "build_reward E now ?p txs miner = Ok (reward_tx, d)"
    using assms by (auto simp: build_block_def split: result.splits)
  obtain reward where reward:
    "get_block_reward (overflow_checks E) (get_height (block_store bc)) = (Ok reward :: (u64, UtilError) result)"
    "new_transaction_now E now [] (reward_outputs reward miner) [] = Ok reward_tx"
    "length txs + 1 \<le> MAX_TRANSACTIONS_PER_BLOCK" "d = chain_transaction_difficulty bc"
    using r by (auto simp: build_reward_def chain_provider_def res_simps not_less split: if_splits)
  obtain mined where mined:
    "tx_compute_pow E (unat (chain_transaction_difficulty bc)) nonces reward_tx = Some (Ok mined)"
    "finish_block E now' ?p (txs @ [mined]) = Ok b"
    using assms r by (auto simp: build_block_def reward(4) pow_target_def res_simps)
  from mined(2) obtain ids filt previous where
    "completed_ids (txs @ [mined]) = Ok ids" "create_filter E (txs @ [mined]) = Ok filt"
    "get_block_hash_by_height (block_store bc) (get_height (block_store bc) - 1) =
       (Ok previous :: (Hash option, BlockchainDataProviderError) result)"
    "b = new_block_now now' (txs @ [mined]) (chain_block_difficulty bc) (chain_transaction_difficulty bc)
       (case previous of None \<Rightarrow> GENESIS_PREVIOUS_BLOCK_HASH | Some h \<Rightarrow> h)
       (root_hash (merkle_build E ids)) filt"
    by (auto simp: finish_block_def chain_provider_def res_simps)
  with that reward mined(1) show ?thesis by blast
qed

lemma reward_outputs_sum:
  assumes "calculate_dev_fee reward \<le> reward"
  shows "(\<Sum>out \<leftarrow> reward_outputs reward miner. unat (amount out)) = unat reward"
  using assms by (simp add: reward_outputs_def unat_sub word_le_nat_alt)

lemma built_reward_valid:
  assumes reward: "get_block_reward (overflow_checks E) h = (Ok reward :: (u64, UtilError) result)"
    and h: "h < 64000000"
    and new: "new_transaction_now E now [] (reward_outputs reward miner) [] = Ok reward_tx"
    and mined: "tx_compute_pow E target nonces reward_tx = Some (Ok mined)"
  shows "is_reward mined \<and> valid_reward E h False mined"
proof -
  obtain r where "get_block_reward (overflow_checks E) h = (Ok r :: (u64, UtilError) result)"
    "unat r = reward_spec h" using get_block_reward_spec [OF h] by blast
  then have "unat reward \<le> 10000000000" using reward by (simp add: reward_spec_def)
  then have "calculate_dev_fee reward \<le> reward" by (intro dev_fee_le) simp
  note sum = reward_outputs_sum [OF this, of miner]
  obtain buf where tx: "inputs reward_tx = []" "outputs reward_tx = reward_outputs reward miner"
    using new by (auto elim!: new_transaction_now_Ok)
  obtain n hbuf where m: "mined = reward_tx\<lparr>tx_nonce := n, transaction_id := Some (hash_new E hbuf)\<rparr>"
    "get_tx_hashing_buf E (reward_tx\<lparr>tx_nonce := n\<rparr>) = Ok hbuf"
    using tx_compute_pow_Ok [OF mined] by blast
  have "get_tx_hashing_buf E mined = Ok hbuf" using m(2) by (simp add: m(1))
  moreover have "get_block_reward (overflow_checks E) h = (Ok reward :: (u64, BlockchainError) result)"
    using reward by (rule get_block_reward_any [THEN iffD1])
  moreover have "2 \<le> length (reward_outputs reward miner)"
    "\<exists>out \<in> set (reward_outputs reward miner). receiver out = DEV_WALLET \<and> amount out = calculate_dev_fee reward"
    by (simp_all add: reward_outputs_def)
  ultimately show ?thesis
    using sum by (auto simp: valid_reward_def is_reward_def m(1) tx)
qed

text \<open>Mined, a block that was built from valid transfers passes the checks of the chain it was built on.\<close>

lemma built_block_valid:
  assumes inv: "store_represents (block_store bc) chain" and h: "length chain < 64000000"
    and ok: "build_block E now now' nonces (chain_provider (overflow_checks E) bc) txs miner = Some (Ok b)"
    and txs: "\<forall>tx \<in> set txs. valid_transfer E (ledger_of (utxos bc))
        (unat (chain_transaction_difficulty bc)) False tx
      \<and> validate_transaction_timestamp_in_block (overflow_checks E) tx b = Ok ()"
    and dist: "distinct (map input_key (all_inputs txs))"
    and mined: "block_compute_pow E (block_pow_target b) nonces' b = Some (Ok b')"
  shows "check_block E b' False False bc = Ok ()"
proof -
  have height: "get_height (block_store bc) = length chain" "get_last_block_hash (block_store bc) = tip_hash chain"
    using inv by (simp_all add: store_represents_def get_height_def get_last_block_hash_def)
  obtain reward reward_tx r ids filt previous where built:
    "get_block_reward (overflow_checks E) (length chain) = (Ok reward :: (u64, UtilError) result)"
    "new_transaction_now E now [] (reward_outputs reward miner) [] = Ok reward_tx"
    "length txs + 1 \<le> MAX_TRANSACTIONS_PER_BLOCK"
    "tx_compute_pow E (unat (chain_transaction_difficulty bc)) nonces reward_tx = Some (Ok r)"
    "completed_ids (txs @ [r]) = Ok ids" "create_filter E (txs @ [r]) = Ok filt"
    "get_block_hash_by_height (block_store bc) (length chain - 1) =
       (Ok previous :: (Hash option, BlockchainDataProviderError) result)"
    "b = new_block_now now' (txs @ [r]) (chain_block_difficulty bc) (chain_transaction_difficulty bc)
       (case previous of None \<Rightarrow> GENESIS_PREVIOUS_BLOCK_HASH | Some h \<Rightarrow> h)
       (root_hash (merkle_build E ids)) filt"
    by (rule build_block_Ok [OF ok, unfolded height(1)]) blast
  have r: "is_reward r" "valid_reward E (length chain) False r"
    using built_reward_valid [OF built(1) h built(2,4)] by simp_all
  have "previous = (if chain = [] then None else Some (entry_hash (last chain)))"
    using built(7) get_block_hash_by_height_represents [OF inv, of "length chain - 1",
        where ?'a = BlockchainDataProviderError] h
    by (auto simp: last_conv_nth)
  then have tip: "(case previous of None \<Rightarrow> GENESIS_PREVIOUS_BLOCK_HASH | Some h \<Rightarrow> h) = tip_hash chain"
    by (simp add: tip_hash_def)
  obtain n buf where b': "b' = b\<lparr>nonce := n, meta := (meta b)\<lparr>hash := Some (hash_new E buf)\<rparr>\<rparr>"
    using block_compute_pow_Ok [OF mined] by blast
  have complete: "complete_ids (txs @ [r]) = Ok ids"
    using built(5) by (simp add: complete_ids_Ok_iff completed_ids_Ok_iff)
  have "check_meta_ignore_hash E b' = Ok ()"
    using built(6) complete
    by (simp add: check_meta_ignore_hash_def check_completeness_def validate_address_inclusion_filter_def
        validate_merkle_tree_def b' built(8) new_block_now_def)
  then have "check_meta E b' = Ok ()"
    using mined_block_valid(1) [OF mined] by (simp add: check_meta_ignores_hash)
  moreover have "validate_difficulties b' (chain_block_difficulty bc) (chain_transaction_difficulty bc) = Ok ()"
    using mined_block_valid(2) [OF mined] by (simp add: built(8) new_block_now_def)
  moreover have "previous_block (meta b') = tip_hash chain"
    by (simp add: b' built(8) new_block_now_def tip)
  moreover have "valid_transactions E (ledger_of (utxos bc)) (length chain)
      (chain_transaction_difficulty bc) False b' (txs @ [r])"
  proof -
    have transfers: "\<not> is_reward tx" if "tx \<in> set txs" for tx
      using txs that by (auto simp: valid_transfer_def is_reward_def)
    then have "filter is_reward txs = []" by (simp add: filter_empty_conv)
    moreover have "validate_transaction_timestamp_in_block (overflow_checks E) tx b' =
        validate_transaction_timestamp_in_block (overflow_checks E) tx b" for tx
      by (simp add: validate_transaction_timestamp_in_block_def b')
    moreover have "all_inputs (txs @ [r]) = all_inputs txs"
      using r(1) by (simp add: all_inputs_def is_reward_def)
    ultimately show ?thesis using txs dist r transfers by (simp add: valid_transactions_def)
  qed
  moreover have "transactions b' = txs @ [r]" by (simp add: b' built(8) new_block_now_def)
  ultimately show ?thesis using built(3) by (simp add: check_block_Ok_iff height)
qed

end
