(* ===== verification/Demo_Payment.thy ===== *)
theory Demo_Payment
  imports Demo_Chain Builders Supply
begin

text \<open>
  A payment for the witnesses: from the reward of the one-block chain, built by its owner, mined, and
  valid on that chain.
\<close>

definition reward_id :: TransactionId where "reward_id = demo_stamp 900"

lemma reward_id: "transaction_id demo_reward = Some reward_id"
  by (simp add: demo_reward_def reward_id_def demo_stamp_def)

lemma demo_ledger:
  "ledger_of_chain demo_chain (t, i) =
     (if t = reward_id then row_at (map Some (outputs demo_reward)) i else None)"
  by (simp add: demo_chain_def demo_block_def demo_block_of_def ledger_of_chain_def ledger_block_def
      ledger_step_def reward_id create_row_def empty_ledger_def spend_all_def)

lemma demo_state_inv:
  "utxos_wf (utxos demo_state)" "ledger_of (utxos demo_state) = ledger_of_chain demo_chain"
  "store_represents (block_store demo_state) demo_chain"
  using demo_state(2) by (simp_all add: chain_inv_def)

definition demo_output :: TransactionOutput where
  "demo_output = \<lparr>amount = 9800000000, receiver = demo_miner\<rparr>"

lemma row_demo_reward:
  "row_at (map Some (outputs demo_reward)) i = Some out \<and> receiver out = demo_miner \<longleftrightarrow> i = 0 \<and> out = demo_output"
  by (auto simp: row_at_def demo_reward_def demo_output_def demo_miner_def DEV_WALLET_def less_Suc_eq nth_Cons'
      public_new_from_buf_def word_from_be_bytes_def from_bytes_be_def)

lemma demo_available:
  "get_available_transaction_outputs demo_state demo_miner = Ok [(reward_id, demo_output, 0)]"
proof -
  obtain av where av: "get_available_transaction_outputs demo_state demo_miner = Ok av"
    "\<And>t out i. (t, out, i) \<in> set av \<longleftrightarrow> ledger_of (utxos demo_state) (t, i) = Some out \<and> receiver out = demo_miner"
    "distinct (map available_key av)"
    using available_outputs_ledger [OF demo_state_inv(1)] by blast
  have "(t, out, i) \<in> set av \<longleftrightarrow> (t, out, i) = (reward_id, demo_output, 0)" for t out i
    using row_demo_reward [of i out] by (auto simp: av(2) demo_state_inv demo_ledger)
  then have "set av = {(reward_id, demo_output, 0)}" by auto
  moreover have "distinct av" using av(3) by (simp add: distinct_map)
  ultimately have "av = [(reward_id, demo_output, 0)]"
    by (cases av; cases "tl av") (auto simp: insert_eq_iff)
  with av(1) show ?thesis by simp
qed

definition demo_payment :: Transaction where
  "demo_payment =
     \<lparr>inputs = [\<lparr>input_tx_id = reward_id, output_index = 0, signature = Some (Signature 7), output_owner = demo_miner\<rparr>],
      outputs = [\<lparr>amount = 5000000000, receiver = Public 9\<rparr>, \<lparr>amount = 4800000000, receiver = demo_miner\<rparr>],
      transaction_id = None, tx_nonce = 0, tx_timestamp = 1200\<rparr>"

definition demo_paid :: Transaction where
  "demo_paid = demo_payment\<lparr>tx_nonce := 5, transaction_id := Some (demo_stamp 1200)\<rparr>"

lemma demo_sender: "to_public demo (Private 7) = demo_miner" "signs_verify demo (Private 7)"
  "new_signature demo (Private 7) buf = Signature 7"
  by (simp_all add: to_public_def demo_miner_def signs_verify_def validate_with_public_def new_signature_def)

lemma demo_built:
  "build_transaction demo 1200 (chain_provider chk demo_state) (Private 7) [(Public 9, 5000000000)] [] = Ok demo_payment"
  by (simp add: build_transaction_def chain_provider_def demo_sender demo_available not_ignored_def
     demo_output_def add_u_def checked_add_def word_le_nat_alt word_less_nat_alt MAX_TRANSACTION_IO_def new_transaction_now_def get_input_signing_buf_def
    input_from_def output_to_def demo_payment_def)

lemma below_all_ones: "unat (w :: buf32) \<le> unat (- 1 :: buf32)"
  by (rule buf32_le_max [unfolded word_le_nat_alt])

lemma demo_mined:
  "tx_compute_pow demo (unat (- 1 :: buf32)) [5] demo_payment = Some (Ok demo_paid)"
  by (simp add: get_tx_hashing_buf_def demo_payment_def demo_paid_def demo_stamp_def biguint_of_unat Let_def
      below_all_ones)

lemma demo_valid: "valid_transfer demo (ledger_of (utxos demo_state)) (unat (- 1 :: buf32)) False demo_paid"
  by (simp add: valid_transfer_def demo_paid_def demo_payment_def get_input_signing_buf_def get_tx_hashing_buf_def
     demo_stamp_def MAX_TRANSACTION_IO_def input_ok_def input_key_def demo_state_inv demo_ledger row_at_def demo_reward_def
    signature_accepted_def demo_miner_def validate_with_public_def input_amount_def below_all_ones)

lemma demo_state_targets:
  "chain_transaction_difficulty demo_state = - 1" "chain_block_difficulty demo_state = - 1"
  "difficulty_state demo_state = difficulty_of_chain 0 demo_chain"
proof -
  have "difficulty_of_chain 0 [] = \<lparr>block_difficulty = - 1, transaction_difficulty = - 1, last_timestamp = 0\<rparr>"
    using demo_good_empty by (simp add: demo_good_def)
  then have "difficulty_of_chain 0 demo_chain =
      \<lparr>block_difficulty = - 1, transaction_difficulty = - 1, last_timestamp = timestamp demo_block\<rparr>"
    using demo_targets [of "difficulty_of_chain 0 []" 0 demo_block] chain_snoc(2) [of 0 "[]"]
    by (simp add: demo_chain_def) (simp add: demo_block_def demo_block_of_def econ word_le_nat_alt)
  moreover show "difficulty_state demo_state = difficulty_of_chain 0 demo_chain"
    using demo_state(2) by (simp add: chain_inv_def)
  ultimately show "chain_transaction_difficulty demo_state = - 1" "chain_block_difficulty demo_state = - 1"
    by (simp_all add: chain_transaction_difficulty_def get_transaction_difficulty_def
        chain_block_difficulty_def get_block_difficulty_def)
qed

end
