(* ===== verification/Ledger_Properties.thy ===== *)
theory Ledger_Properties
  imports Demo_Payment
begin

text \<open>
  The properties of transactions, of the unspent outputs and of the block store: what validation accepts,
  what execution does to the set of unspent outputs, that a block can be taken back, and that the files
  and the index are the list of blocks they stand for.
\<close>

section \<open>Transactions\<close>

text \<open>
  C8. \<open>validate_transaction\<close> accepts exactly the valid transfers: the id is the hash of the transaction and
  meets the target, every input spends an unspent output of its owner with the owner's signature and
  none twice, no output is empty, and what goes in comes out, within 64 bits.
\<close>

theorem validate_transaction_accepts_exactly_transfers:
  "validate_transaction E u tx difficulty is_ibd = Ok v \<longleftrightarrow>
     (\<exists>tx_id buf hbuf. transaction_id tx = Some tx_id
       \<and> get_input_signing_buf E tx = Ok buf \<and> get_tx_hashing_buf E tx = Ok hbuf
       \<and> (is_ibd \<or> tx_id = hash_new E hbuf) \<and> unat (hash_buf tx_id) \<le> difficulty
       \<and> inputs tx \<noteq> [] \<and> length (inputs tx) + length (outputs tx) \<le> MAX_TRANSACTION_IO
       \<and> (\<forall>i \<in> set (inputs tx). \<exists>out. ledger_of u (input_key i) = Some out
            \<and> receiver out = output_owner i \<and> signature_accepted E (signature i) (output_owner i) buf)
       \<and> distinct (map input_key (inputs tx)) \<and> (\<forall>out \<in> set (outputs tx). amount out \<noteq> 0)
       \<and> (\<Sum>i \<leftarrow> inputs tx. input_amount (ledger_of u) i) = (\<Sum>out \<leftarrow> outputs tx. unat (amount out))
       \<and> (\<Sum>out \<leftarrow> outputs tx. unat (amount out)) < 2 ^ 64)"
  unfolding validate_transaction_Ok_iff valid_transfer_def input_ok_def by (rule refl)

theorem validate_transaction_accepts_exactly_transfers_witness:
  "validate_transaction demo (utxos demo_state) demo_paid (unat (- 1 :: buf32)) False = Ok ()"
  unfolding validate_transaction_accepts_exactly_transfers
  using demo_valid unfolding valid_transfer_def input_ok_def .


lemma demo_paid_new: "unused (ledger_of (utxos demo_state)) (the (transaction_id demo_paid))"
  by (simp add: unused_def demo_state_inv demo_ledger demo_paid_def reward_id_def demo_stamp_inject)


text \<open>
  Recalling the differences of a block undoes it: the unspent outputs are those of before, whatever
  the transactions of the block spent and created.
\<close>

theorem recall_undoes_execution:
  assumes "runnable txs (ledger_of u)"
  shows "\<exists>d u' u''. execute_all txs diff_new_empty u = (Ok d, u') \<and> ledger_of u' = ledger_block txs (ledger_of u)
    \<and> recall_block_utxos d u' = (Ok (), u'') \<and> ledger_of u'' = ledger_of u"
proof -
  from execute_all_ledger [OF assms, of diff_new_empty] obtain u' where
    "execute_all txs diff_new_empty u = (Ok (block_diff (ledger_of u) txs), u')"
    "ledger_of u' = ledger_block txs (ledger_of u)"
    by (auto simp: diff_new_empty_def block_diff_def)
  with recall_block_ledger [OF assms, of u'] show ?thesis by blast
qed

theorem recall_undoes_execution_witness:
  "\<exists>d u' u''. execute_all [demo_paid] diff_new_empty (utxos demo_state) = (Ok d, u')
    \<and> recall_block_utxos d u' = (Ok (), u'') \<and> ledger_of u'' (reward_id, 0) = Some demo_output"
proof -
  have "runnable [demo_paid] (ledger_of (utxos demo_state))"
    using valid_transfer_executable [OF demo_valid] demo_paid_new
    by (auto simp: runnable_def executable_on_def all_inputs_def)
  from recall_undoes_execution [OF this] show ?thesis
    by (auto simp: demo_state_inv demo_ledger row_at_def demo_reward_def demo_output_def)
qed

section \<open>The block store\<close>

text \<open>
  C26. The store is the list of its blocks: an added block is found at its height and by its hash, the
  blocks below are still there, and taking the last block off gives the list of before.
\<close>

theorem store_refines_log:
  assumes "store_represents st chain" and "can_append E chain (b, ds)"
  shows "\<exists>st' st''. store_add_block E b ds st = (Ok (), st')
    \<and> (\<forall>h. get_block_by_height st' h = (if h < length chain then Some (fst (chain ! h))
         else if h = length chain then Some b else None))
    \<and> get_block_by_hash st' (entry_hash (b, ds)) = Ok (Some b)
    \<and> get_block_height_by_hash st' (entry_hash (b, ds)) = Ok (Some (length chain))
    \<and> get_last_utxo_diffs chk st' = Ok (Some ds)
    \<and> store_pop_block st' = (Ok (), st'') \<and> store_represents st'' chain"
proof -
  let ?e = "(b, ds)"
  obtain st' where add: "store_add_block E b ds st = (Ok (), st')" and st': "store_represents st' (chain @ [?e])"
    using store_add_block_represents [OF assms] by blast
  obtain st'' where "store_pop_block st' = (Ok (), st'')" "store_represents st'' chain"
    using store_pop_block_represents [OF st'] by blast
  have "distinct (map entry_hash (chain @ [?e]))" using st' by (simp add: store_represents_def)
  moreover from this have "position (\<lambda>e. entry_hash e = entry_hash ?e) chain = None"
    by (auto simp: position_None) (metis imageI)
  ultimately have "find (\<lambda>e. entry_hash e = entry_hash ?e) (chain @ [?e]) = Some ?e"
    "position (\<lambda>e. entry_hash e = entry_hash ?e) (chain @ [?e]) = Some (length chain)"
    using find_distinct_key [of entry_hash "chain @ [?e]" ?e]
    by (auto simp: position_snoc)
  moreover have "get_block_by_height st' h = (if h < length chain then Some (fst (chain ! h))
      else if h = length chain then Some b else None)" for h
    by (auto simp: get_block_by_height_represents [OF st'] nth_append)
  ultimately show ?thesis
    using add \<open>store_pop_block st' = (Ok (), st'')\<close> \<open>store_represents st'' chain\<close>
    by (auto simp: get_last_utxo_diffs_represents [OF st'] get_block_by_hash_represents [OF st']
        get_block_height_by_hash_represents [OF st'])
qed

theorem store_refines_log_witness:
  "\<exists>st' st''. store_add_block demo demo_block (block_diff empty_ledger [demo_reward]) (block_store (fresh_chain [])) = (Ok (), st')
    \<and> get_block_by_height st' 0 = Some demo_block \<and> store_pop_block st' = (Ok (), st'')"
proof -
  have "store_represents (block_store (fresh_chain [])) []"
    using fresh_chain_inv [of True "[]"] by (simp add: chain_inv_def)
  moreover have "can_append demo [] (demo_block, block_diff empty_ledger [demo_reward])"
    using demo_appendable by (simp add: appendable_def can_append_def)
  ultimately show ?thesis using store_refines_log [of _ "[]" demo demo_block] by fastforce
qed

section \<open>Balances\<close>

text \<open>
  On a reachable chain of up to 64 million blocks the confirmed balance of an address is the sum of
  its unspent outputs, computed without an overflow, and it is part of the amount there is.
\<close>

theorem balance_is_what_the_ledger_holds:
  assumes "chain_inv (overflow_checks E) t0 chain bc" and "length chain \<le> 64000000"
  shows "\<exists>r. calculate_confirmed_balance chk (utxos bc) a = (Ok r :: (u64, 'e) result)
    \<and> unat r = ledger_sum (\<lambda>p. p = a) (ledger_of_chain chain) \<and> unat r \<le> total_supply (utxos bc)"
proof -
  have wf: "utxos_wf (utxos bc)" and ledger: "ledger_of (utxos bc) = ledger_of_chain chain"
    using assms(1) by (simp_all add: chain_inv_def)
  have "total_supply (utxos bc) \<le> (\<Sum>h<length chain. reward_spec h)"
    using assms by (rule chain_supply_bound)
  moreover have "(\<Sum>h<length chain. reward_spec h) < 2 ^ 64"
    using reward_sum_bound [of "length chain"] assms(2) by simp
  moreover have le: "utxo_sum (\<lambda>p. p = a) (utxos bc) \<le> total_supply (utxos bc)" by (rule balance_le_supply)
  ultimately have "utxo_sum (\<lambda>p. p = a) (utxos bc) < 2 ^ 64" by simp
  from confirmed_balance [OF this, of chk] le show ?thesis
    by (auto simp: utxo_sum_ledger [OF wf] ledger)
qed

theorem balance_is_what_the_ledger_holds_witness:
  "\<exists>r. calculate_confirmed_balance True (utxos demo_state) demo_miner = (Ok r :: (u64, unit) result)
    \<and> unat r \<le> total_supply (utxos demo_state)"
  using balance_is_what_the_ledger_holds [of demo 0 demo_chain demo_state True demo_miner] demo_state(2)
  by (auto simp: demo_chain_def)

end
