(* ===== verification/Light_Utxos.thy ===== *)
theory Light_Utxos
  imports Block_Ledger Block_Store "HOL-Library.Product_Lexorder"
begin

text \<open>
  \<open>light_node/utxos.rs\<close> and \<open>light_node/transaction_store.rs\<close>: what a light node keeps of the outputs
  of the addresses it watches, row by row for the block that created them, with a log of the rows a
  block changed so that the block can be taken back.  The trees are ordered maps whose operations
  succeed and whose rows are held decoded; a key of 32 bytes of address and 8 bytes of height, most
  significant first, is the pair, which orders the same way.
\<close>

section \<open>The transaction store\<close>

type_synonym TransactionStore = "(TransactionId, TransactionAndInfo) fmap"

definition ts_get_transaction_and_info :: "TransactionStore \<Rightarrow> TransactionId \<Rightarrow> TransactionAndInfo option" where
  "ts_get_transaction_and_info ts tx_id = fmlookup ts tx_id"

definition remove_transactions_at_height :: "usize \<Rightarrow> TransactionStore \<Rightarrow> TransactionStore" where
  "remove_transactions_at_height height ts =
     fold (\<lambda>(tx_id, tx) s. if at_height tx = word_of_nat height then fmdrop tx_id s else s)
       (sorted_list_of_fmap ts) ts"

definition remove_transaction :: "TransactionId \<Rightarrow> TransactionStore \<Rightarrow> TransactionStore" where
  "remove_transaction tx_id ts = fmdrop tx_id ts"

definition put_transaction :: "TransactionAndInfo \<Rightarrow> TransactionStore \<Rightarrow> (TransactionStore, 'e) result" where
  "put_transaction tx ts =
     bind_res (expect (transaction_id (info_transaction tx))) (\<lambda>i. Ok (fmupd i tx ts))"

definition iter_transactions :: "TransactionStore \<Rightarrow> TransactionAndInfo list" where
  "iter_transactions ts = map snd (sorted_list_of_fmap ts)"

section \<open>The outputs of watched addresses\<close>

type_synonym utxo_key = "Public \<times> usize"

type_synonym owned_row = "(TransactionId \<times> TransactionOutput \<times> usize) list"

record LightNodeUTXOs =
  lu_utxos :: "(utxo_key, owned_row) fmap"
  watched :: "Public fset"
  spends :: "(usize, (utxo_key \<times> owned_row) list) fmap"

definition light_utxos_new :: LightNodeUTXOs where
  "light_utxos_new = \<lparr>lu_utxos = fmempty, watched = {||}, spends = fmempty\<rparr>"

text \<open>\<open>scan_prefix\<close>: the rows of one address, in the order of their heights.\<close>

definition scan_prefix :: "Public \<Rightarrow> LightNodeUTXOs \<Rightarrow> (utxo_key \<times> owned_row) list" where
  "scan_prefix a u = List.filter (\<lambda>((a', h), row). a' = a) (sorted_list_of_fmap (lu_utxos u))"

definition light_get_utxos :: "LightNodeUTXOs \<Rightarrow> Public \<Rightarrow> owned_row option" where
  "light_get_utxos u a = (if a |\<notin>| watched u then None else Some (concat (map snd (scan_prefix a u))))"

definition light_confirmed_balance :: "bool \<Rightarrow> LightNodeUTXOs \<Rightarrow> Public \<Rightarrow> (u64, 'e) result" where
  "light_confirmed_balance chk u a =
     (case light_get_utxos u a of
        Some utxos \<Rightarrow> for_each (\<lambda>(_, utxo, _) acc. add_u chk acc (amount utxo)) utxos 0
      | None \<Rightarrow> Ok 0)"

definition add_address :: "Public \<Rightarrow> LightNodeUTXOs \<Rightarrow> LightNodeUTXOs" where
  "add_address a u = u\<lparr>watched := finsert a (watched u)\<rparr>"

definition get_watched :: "LightNodeUTXOs \<Rightarrow> Public list" where
  "get_watched u = sorted_list_of_fset (watched u)"

text \<open>The stored transactions that no watched address is part of any more are removed.\<close>

definition drop_unwatched :: "LightNodeUTXOs \<Rightarrow> TransactionStore \<Rightarrow> (TransactionStore, 'e) result" where
  "drop_unwatched u ts =
     for_each (\<lambda>tx s.
         if list_ex (contains_address (info_transaction tx)) (get_watched u) then Ok s
         else bind_res (expect (transaction_id (info_transaction tx))) (\<lambda>i. Ok (remove_transaction i s)))
       (iter_transactions ts) ts"

definition delete_address ::
  "Public \<Rightarrow> LightNodeUTXOs \<times> TransactionStore \<Rightarrow> (unit, 'e, LightNodeUTXOs \<times> TransactionStore) run"
where
  "delete_address a s =
     (case s of (u, ts) \<Rightarrow>
        let u = u\<lparr>watched := watched u |-| {|a|},
                  lu_utxos := fold fmdrop (map fst (scan_prefix a u)) (lu_utxos u)\<rparr>
        in case drop_unwatched u ts of
             Ok ts' \<Rightarrow> (Ok (), (u, ts')) | Err e \<Rightarrow> (Err e, (u, ts)) | Panic \<Rightarrow> (Panic, (u, ts)))"

section \<open>Scanning a block\<close>

definition append_spend_log :: "usize \<Rightarrow> utxo_key \<Rightarrow> owned_row \<Rightarrow> LightNodeUTXOs \<Rightarrow> LightNodeUTXOs" where
  "append_spend_log height k old_value u =
     (let entries = (case fmlookup (spends u) height of None \<Rightarrow> [] | Some es \<Rightarrow> es)
      in u\<lparr>spends := fmupd height (entries @ [(k, old_value)]) (spends u)\<rparr>)"

definition remaining_row :: "TransactionInput \<Rightarrow> owned_row \<Rightarrow> owned_row" where
  "remaining_row input row =
     List.filter (\<lambda>(tx_id, _, output_i). \<not> (tx_id = input_tx_id input \<and> output_i = output_index input)) row"

text \<open>One of the rows read for an input: it is changed only if the spent output is in it.\<close>

definition spend_in_row ::
  "usize \<Rightarrow> TransactionInput \<Rightarrow> utxo_key \<times> owned_row \<Rightarrow> LightNodeUTXOs \<Rightarrow> LightNodeUTXOs"
where
  "spend_in_row height input kv u =
     (case kv of (k, row) \<Rightarrow>
        let remaining = remaining_row input row
        in if length remaining = length row then u
           else
             let u = (case fmlookup (lu_utxos u) k of
                        None \<Rightarrow> u | Some old_val \<Rightarrow> append_spend_log height k old_val u)
             in if remaining = [] then u\<lparr>lu_utxos := fmdrop k (lu_utxos u)\<rparr>
                else u\<lparr>lu_utxos := fmupd k remaining (lu_utxos u)\<rparr>)"

definition light_spend_input :: "Public \<Rightarrow> usize \<Rightarrow> TransactionInput \<Rightarrow> LightNodeUTXOs \<Rightarrow> LightNodeUTXOs" where
  "light_spend_input a height input u =
     (if output_owner input = a then fold (spend_in_row height input) (scan_prefix a u) u else u)"

definition received_outputs :: "Public \<Rightarrow> TransactionId \<Rightarrow> TransactionOutput list \<Rightarrow> owned_row" where
  "received_outputs a tx_id outs =
     map (\<lambda>(output_i, out). (tx_id, out, output_i))
       (List.filter (\<lambda>(output_i, out). receiver out = a) (enumerate_list outs))"

definition scan_transaction ::
  "Block \<Rightarrow> usize \<Rightarrow> Public \<Rightarrow> Transaction \<Rightarrow> LightNodeUTXOs \<times> TransactionStore
     \<Rightarrow> (LightNodeUTXOs \<times> TransactionStore, 'e) result"
where
  "scan_transaction b height a tx s =
     (case s of (u, ts) \<Rightarrow>
        bind_res
          (if contains_address tx a
           then bind_res (expect (hash (meta b))) (\<lambda>h.
                  put_transaction \<lparr>info_transaction = tx, at_height = word_of_nat height, in_block = h\<rparr> ts)
           else Ok ts) (\<lambda>ts.
        let u = fold (light_spend_input a height) (inputs tx) u
        in if contains_address tx a
           then bind_res (expect (transaction_id tx)) (\<lambda>tx_id.
                  Ok (u\<lparr>lu_utxos := fmupd (a, height) (received_outputs a tx_id (outputs tx)) (lu_utxos u)\<rparr>, ts))
           else Ok (u, ts)))"

definition scan_address ::
  "Block \<Rightarrow> usize \<Rightarrow> Public \<Rightarrow> LightNodeUTXOs \<times> TransactionStore
     \<Rightarrow> (LightNodeUTXOs \<times> TransactionStore, 'e) result"
where
  "scan_address b height a s =
     (if fmlookup (lu_utxos (fst s)) (a, height) \<noteq> None then Ok s
      else for_each (scan_transaction b height a) (transactions b) s)"

definition scan_block ::
  "Block \<Rightarrow> usize \<Rightarrow> LightNodeUTXOs \<times> TransactionStore \<Rightarrow> (LightNodeUTXOs \<times> TransactionStore, 'e) result"
where
  "scan_block b height s = for_each (scan_address b height) (get_watched (fst s)) s"

section \<open>Taking a block back\<close>

definition restore_rows :: "(utxo_key \<times> owned_row) list \<Rightarrow> (utxo_key, owned_row) fmap \<Rightarrow> (utxo_key, owned_row) fmap" where
  "restore_rows entries m = fold (\<lambda>(k, v). fmupd k v) entries m"

definition light_pop_utxos :: "usize \<Rightarrow> LightNodeUTXOs \<Rightarrow> LightNodeUTXOs" where
  "light_pop_utxos height u =
     (let u = (case fmlookup (spends u) height of
                 None \<Rightarrow> u
               | Some entries \<Rightarrow>
                   u\<lparr>lu_utxos := restore_rows entries (lu_utxos u), spends := fmdrop height (spends u)\<rparr>);
          keys_to_remove = List.filter (\<lambda>k. snd k = height) (map fst (sorted_list_of_fmap (lu_utxos u)))
      in u\<lparr>lu_utxos := fold fmdrop keys_to_remove (lu_utxos u)\<rparr>)"

section \<open>Lookups\<close>

lemma fold_fmdrop_lookup':
  "fmlookup (fold fmdrop ks m) k = (if k \<in> set ks then None else fmlookup m k)"
  by (induction ks arbitrary: m) auto

lemma in_scan_prefix: "((a', h), row) \<in> set (scan_prefix a u) \<longleftrightarrow> a' = a \<and> fmlookup (lu_utxos u) (a, h) = Some row"
  by (auto simp: scan_prefix_def set_sorted_list_of_fmap)

lemma distinct_scan_prefix: "distinct (map fst (scan_prefix a u))"
  unfolding scan_prefix_def by (rule distinct_map_filter) (rule distinct_sorted_list_of_fmap)

lemma restore_rows_lookup:
  assumes "distinct (map fst entries)"
  shows "fmlookup (restore_rows entries m) k =
    (case map_of entries k of Some v \<Rightarrow> Some v | None \<Rightarrow> fmlookup m k)"
  using assms
proof (induction entries arbitrary: m)
  case (Cons e entries)
  obtain k' v where e: "e = (k', v)" by (meson surj_pair)
  have "map_of entries k' = None" using Cons.prems by (simp add: e map_of_eq_None_iff)
  with Cons show ?case by (auto simp: e restore_rows_def split: option.split)
qed (simp add: restore_rows_def)

definition log_at :: "LightNodeUTXOs \<Rightarrow> usize \<Rightarrow> (utxo_key \<times> owned_row) list" where
  "log_at u height = (case fmlookup (spends u) height of None \<Rightarrow> [] | Some es \<Rightarrow> es)"

lemma light_pop_lookup:
  "fmlookup (lu_utxos (light_pop_utxos height u)) k =
     (if snd k = height then None else fmlookup (restore_rows (log_at u height) (lu_utxos u)) k)"
  "fmlookup (spends (light_pop_utxos height u)) h = (if h = height then None else fmlookup (spends u) h)"
  "watched (light_pop_utxos height u) = watched u"
proof -
  have keys: "k \<in> fst ` set (sorted_list_of_fmap m) \<longleftrightarrow> fmlookup m k \<noteq> None"
    for m :: "(utxo_key, owned_row) fmap" and k
    by (force simp: set_sorted_list_of_fmap)
  have drop: "fmlookup (fold fmdrop (List.filter (\<lambda>k. snd k = height) (map fst (sorted_list_of_fmap m))) m) k =
      (if snd k = height then None else fmlookup m k)" for m :: "(utxo_key, owned_row) fmap"
    by (simp add: fold_fmdrop_lookup' keys)
  show "fmlookup (lu_utxos (light_pop_utxos height u)) k =
     (if snd k = height then None else fmlookup (restore_rows (log_at u height) (lu_utxos u)) k)"
    by (cases "fmlookup (spends u) height")
      (simp_all add: light_pop_utxos_def Let_def drop log_at_def restore_rows_def)
  show "fmlookup (spends (light_pop_utxos height u)) h = (if h = height then None else fmlookup (spends u) h)"
    "watched (light_pop_utxos height u) = watched u"
    by (cases "fmlookup (spends u) height"; simp add: light_pop_utxos_def Let_def)+
qed

lemma remove_transactions_at_height_lookup:
  "fmlookup (remove_transactions_at_height height ts) i =
     (case fmlookup ts i of
        Some tx \<Rightarrow> if at_height tx = word_of_nat height then None else Some tx | None \<Rightarrow> None)"
proof -
  have "fmlookup (fold (\<lambda>(tx_id, tx) s. if at_height tx = word_of_nat height then fmdrop tx_id s else s) kvs s) i =
      (if \<exists>tx. (i, tx) \<in> set kvs \<and> at_height tx = word_of_nat height then None else fmlookup s i)"
    for kvs :: "(TransactionId \<times> TransactionAndInfo) list" and s :: TransactionStore
    by (induction kvs arbitrary: s) (auto split: prod.splits)
  then show ?thesis
    by (auto simp: remove_transactions_at_height_def set_sorted_list_of_fmap split: option.split)
qed

section \<open>A block that is taken back\<close>

text \<open>
  The log undoes the changes so far: if no row was logged twice, restoring it gives the rows of
  before, but for the rows of the block's own height.
\<close>

definition undoes :: "usize \<Rightarrow> LightNodeUTXOs \<Rightarrow> LightNodeUTXOs \<Rightarrow> bool" where
  "undoes height u0 u \<longleftrightarrow>
     watched u = watched u0
     \<and> (\<forall>h. h \<noteq> height \<longrightarrow> fmlookup (spends u) h = fmlookup (spends u0) h)
     \<and> (distinct (map fst (log_at u height)) \<longrightarrow>
          (\<forall>k. snd k \<noteq> height \<longrightarrow>
             fmlookup (restore_rows (log_at u height) (lu_utxos u)) k = fmlookup (lu_utxos u0) k))"

lemma undoes_refl: "fmlookup (spends u) height = None \<Longrightarrow> undoes height u u"
  by (simp add: undoes_def log_at_def restore_rows_def)

lemma log_at_append [simp]:
  "log_at (append_spend_log height k v u) height = log_at u height @ [(k, v)]"
  "lu_utxos (append_spend_log height k v u) = lu_utxos u"
  "watched (append_spend_log height k v u) = watched u"
  "h \<noteq> height \<Longrightarrow> fmlookup (spends (append_spend_log height k v u)) h = fmlookup (spends u) h"
  by (simp_all add: append_spend_log_def log_at_def Let_def)

lemma log_at_update [simp]: "log_at (u\<lparr>lu_utxos := m\<rparr>) height = log_at u height"
  by (simp add: log_at_def)

lemma undoes_logged:
  assumes u: "undoes height u0 u" and old: "fmlookup (lu_utxos u) k = Some old"
    and m: "\<And>k'. k' \<noteq> k \<Longrightarrow> fmlookup m k' = fmlookup (lu_utxos u) k'"
  shows "undoes height u0 ((append_spend_log height k old u)\<lparr>lu_utxos := m\<rparr>)"
proof -
  let ?log = "log_at u height"
  have "fmlookup (restore_rows (?log @ [(k, old)]) m) k' = fmlookup (lu_utxos u0) k'"
    if d: "distinct (map fst (?log @ [(k, old)]))" "snd k' \<noteq> height" for k'
  proof -
    have log: "distinct (map fst ?log)" "k \<notin> fst ` set ?log" using d by auto
    then have "map_of ?log k = None" by (simp add: map_of_eq_None_iff)
    then have "fmlookup (restore_rows (?log @ [(k, old)]) m) k' = fmlookup (restore_rows ?log (lu_utxos u)) k'"
      using m [of k'] old restore_rows_lookup [OF d(1), of m k'] restore_rows_lookup [OF log(1)]
      by (cases "k' = k") (auto simp: map_add_def split: option.split)
    then show ?thesis using u d log by (cases k') (simp add: undoes_def)
  qed
  then show ?thesis using u by (simp add: undoes_def)
qed

lemma undoes_spend_in_row:
  assumes "undoes height u0 u" and "fmlookup (lu_utxos u) (fst kv) = Some (snd kv)"
  shows "undoes height u0 (spend_in_row height input kv u)"
proof -
  obtain k row where kv: "kv = (k, row)" by (meson surj_pair)
  show ?thesis
    using undoes_logged [OF assms(1), of k row] assms
    by (auto simp: kv spend_in_row_def Let_def)
qed

lemma spend_in_row_other:
  "k \<noteq> fst kv \<Longrightarrow> fmlookup (lu_utxos (spend_in_row height input kv u)) k = fmlookup (lu_utxos u) k"
  by (cases kv) (auto simp: spend_in_row_def Let_def split: option.split)

lemma undoes_light_spend_input:
  assumes "undoes height u0 u"
  shows "undoes height u0 (light_spend_input a height input u)"
proof -
  have "undoes height u0 (fold (spend_in_row height input) kvs u)"
    if "undoes height u0 u" "distinct (map fst kvs)" "\<forall>kv \<in> set kvs. fmlookup (lu_utxos u) (fst kv) = Some (snd kv)"
    for kvs u
    using that
  proof (induction kvs arbitrary: u)
    case (Cons kv kvs)
    have "fmlookup (lu_utxos (spend_in_row height input kv u)) (fst kv') = Some (snd kv')" if "kv' \<in> set kvs" for kv'
    proof -
      have "fst kv' \<noteq> fst kv" using Cons.prems(2) that by (metis distinct.simps(2) image_eqI list.set_map list.simps(9))
      then show ?thesis using Cons.prems(3) that by (simp add: spend_in_row_other)
    qed
    with Cons show ?case by (simp add: undoes_spend_in_row)
  qed simp
  moreover have "\<forall>kv \<in> set (scan_prefix a u). fmlookup (lu_utxos u) (fst kv) = Some (snd kv)"
    by (auto simp: in_scan_prefix)
  ultimately show ?thesis using assms distinct_scan_prefix by (simp add: light_spend_input_def)
qed

lemma undoes_own_row:
  assumes "undoes height u0 u"
  shows "undoes height u0 (u\<lparr>lu_utxos := fmupd (a, height) row (lu_utxos u)\<rparr>)"
proof -
  have "fmlookup (restore_rows es (fmupd (a, height) row m)) k = fmlookup (restore_rows es m) k"
    if "distinct (map fst es)" "snd k \<noteq> height" for es k and m :: "(utxo_key, owned_row) fmap"
    using that by (auto simp: restore_rows_lookup [OF that(1)] split: option.split)
  with assms show ?thesis by (simp add: undoes_def)
qed

lemma undoes_scan_transaction:
  assumes "scan_transaction b height a tx s = Ok s'" and "undoes height u0 (fst s)"
  shows "undoes height u0 (fst s')"
proof -
  have "undoes height u0 (fold (light_spend_input a height) is u)" if "undoes height u0 u" for "is" u
    using that by (induction "is" arbitrary: u) (simp_all add: undoes_light_spend_input)
  with assms show ?thesis
    by (cases s) (auto simp: scan_transaction_def Let_def res_simps undoes_own_row split: if_splits)
qed

lemma undoes_scan_block:
  assumes "scan_block b height s = Ok s'" and "undoes height u0 (fst s)"
  shows "undoes height u0 (fst s')"
proof -
  have "undoes height u0 (fst t')" if "scan_address b height a t = Ok t'" "undoes height u0 (fst t)" for a t t'
    using that for_each_inv [of "scan_transaction b height a" "transactions b" t t' "\<lambda>s. undoes height u0 (fst s)"]
      undoes_scan_transaction
    by (metis (no_types, lifting) result.inject(1) scan_address_def)
  with assms show ?thesis
    using for_each_inv [of "scan_address b height" "get_watched (fst s)" s s' "\<lambda>s. undoes height u0 (fst s)"]
    by (metis scan_block_def)
qed

lemma pop_undoes_scan:
  assumes "scan_block b height (u, ts) = Ok (u', ts')" and "fmlookup (spends u) height = None"
    and "\<And>a. fmlookup (lu_utxos u) (a, height) = None"
    and "distinct (map fst (log_at u' height))"
  shows "light_pop_utxos height u' = u"
proof -
  have "undoes height u u'" using undoes_scan_block [OF assms(1)] undoes_refl [OF assms(2)] by simp
  with assms(4) have eq: "watched u' = watched u"
    "\<And>h. h \<noteq> height \<Longrightarrow> fmlookup (spends u') h = fmlookup (spends u) h"
    "\<And>k. snd k \<noteq> height \<Longrightarrow> fmlookup (restore_rows (log_at u' height) (lu_utxos u')) k = fmlookup (lu_utxos u) k"
    unfolding undoes_def by blast+
  have "lu_utxos (light_pop_utxos height u') = lu_utxos u"
  proof (rule fmap_ext)
    fix k
    show "fmlookup (lu_utxos (light_pop_utxos height u')) k = fmlookup (lu_utxos u) k"
      using eq(3) [of k] assms(3) [of "fst k"] by (cases k) (simp add: light_pop_lookup)
  qed
  moreover have "spends (light_pop_utxos height u') = spends u"
    by (rule fmap_ext) (simp add: light_pop_lookup eq(2) assms(2))
  ultimately show ?thesis
    using eq(1) by (intro LightNodeUTXOs.equality) (simp_all add: light_pop_lookup)
qed

end
