(* ===== verification/Light_Ledger.thy ===== *)
theory Light_Ledger
  imports Light_Utxos
begin

text \<open>
  What \<open>scan_block\<close> promises: as long as each block has at most one transaction that involves a
  watched address, the rows of that address are its part of the full node's ledger.
\<close>

section \<open>Views\<close>

definition row_set :: "LightNodeUTXOs \<Rightarrow> utxo_key \<Rightarrow> (TransactionId \<times> TransactionOutput \<times> usize) set" where
  "row_set u k = (case fmlookup (lu_utxos u) k of None \<Rightarrow> {} | Some row \<Rightarrow> set row)"

definition light_view :: "LightNodeUTXOs \<Rightarrow> Public \<Rightarrow> (TransactionId \<times> TransactionOutput \<times> usize) set" where
  "light_view u a = (\<Union>h. row_set u (a, h))"

definition ledger_view :: "ledger \<Rightarrow> Public \<Rightarrow> (TransactionId \<times> TransactionOutput \<times> usize) set" where
  "ledger_view L a = {(t, out, i). L (t, i) = Some out \<and> receiver out = a}"

lemma light_get_utxos_view:
  "a |\<in>| watched u \<Longrightarrow> \<exists>xs. light_get_utxos u a = Some xs \<and> set xs = light_view u a"
proof -
  have "(\<Union>kv \<in> set (scan_prefix a u). set (snd kv)) = light_view u a"
  proof (intro equalityI subsetI)
    fix x assume "x \<in> (\<Union>kv \<in> set (scan_prefix a u). set (snd kv))"
    then obtain kv where kv: "kv \<in> set (scan_prefix a u)" "x \<in> set (snd kv)" by blast
    obtain a' h row where "kv = ((a', h), row)" by (metis surj_pair)
    with kv have "fmlookup (lu_utxos u) (a, h) = Some row" "x \<in> set row" by (simp_all add: in_scan_prefix)
    then have "x \<in> row_set u (a, h)" by (simp add: row_set_def)
    then show "x \<in> light_view u a" unfolding light_view_def by blast
  next
    fix x assume "x \<in> light_view u a"
    then obtain h row where "fmlookup (lu_utxos u) (a, h) = Some row" "x \<in> set row"
      by (auto simp: light_view_def row_set_def split: option.splits)
    then have "((a, h), row) \<in> set (scan_prefix a u)" "x \<in> set (snd ((a, h), row))"
      by (simp_all add: in_scan_prefix)
    then show "x \<in> (\<Union>kv \<in> set (scan_prefix a u). set (snd kv))" by blast
  qed
  then show "a |\<in>| watched u \<Longrightarrow> \<exists>xs. light_get_utxos u a = Some xs \<and> set xs = light_view u a"
    by (simp add: light_get_utxos_def)
qed

section \<open>Spending\<close>

definition spends_of :: "TransactionInput \<Rightarrow> Public \<Rightarrow> (TransactionId \<times> TransactionOutput \<times> usize) set" where
  "spends_of input a = {(t, out, i). output_owner input = a \<and> input_key input = (t, i)}"

definition spent_by :: "TransactionInput list \<Rightarrow> Public \<Rightarrow> (TransactionId \<times> TransactionOutput \<times> usize) set" where
  "spent_by is a = (\<Union>i \<in> set is. spends_of i a)"

lemma spent_by_simps [simp]:
  "spent_by [] a = {}"
  "spent_by (i # is) a = spends_of i a \<union> spent_by is a"
  "spent_by (is @ js) a = spent_by is a \<union> spent_by js a"
  by (auto simp: spent_by_def)

lemma row_set_spend_in_row:
  assumes "fmlookup (lu_utxos u) (fst kv) = Some (snd kv)" and "output_owner input = a"
  shows "row_set (spend_in_row height input kv u) k =
    (if k = fst kv then row_set u k - spends_of input a else row_set u k)"
proof (cases "k = fst kv")
  case False
  then show ?thesis by (simp add: row_set_def spend_in_row_other)
next
  case True
  obtain row where kv: "kv = (k, row)" using True by (cases kv) simp
  let ?keep = "remaining_row input row"
  have keep: "set ?keep = set row - spends_of input a"
    using assms(2) by (auto simp: remaining_row_def spends_of_def input_key_def)
  have same: "?keep = row" if "length ?keep = length row"
    using that length_filter_less [of _ row] unfolding remaining_row_def
    by (metis (no_types, lifting) filter_True less_irrefl)
  have lookup: "fmlookup (lu_utxos u) k = Some row" using assms(1) by (simp add: kv)
  have "row_set (spend_in_row height input kv u) k = set ?keep"
  proof (cases "length ?keep = length row")
    case True
    then have "spend_in_row height input kv u = u" by (simp add: kv spend_in_row_def)
    then show ?thesis using same [OF True] by (simp add: row_set_def lookup)
  next
    case False
    then show ?thesis by (cases "?keep = []") (simp_all add: kv row_set_def spend_in_row_def Let_def lookup)
  qed
  then show ?thesis using keep by (simp add: kv row_set_def lookup)
qed

lemma watched_spend [simp]: "watched (light_spend_input a height input u) = watched u"
proof -
  have "watched (spend_in_row height input kv u) = watched u" for kv u
    by (cases kv) (simp add: spend_in_row_def Let_def split: option.split)
  then have "watched (fold (spend_in_row height input) kvs u) = watched u" for kvs u
    by (induction kvs arbitrary: u) simp_all
  then show ?thesis by (simp add: light_spend_input_def)
qed

lemma row_set_light_spend_input:
  "row_set (light_spend_input a height input u) (a', h) =
     (if a' = a then row_set u (a', h) - spends_of input a else row_set u (a', h))"
proof (cases "output_owner input = a")
  case False
  then have "spends_of input a = {}" by (simp add: spends_of_def)
  with False show ?thesis by (simp add: light_spend_input_def)
next
  case True
  have rows: "row_set (fold (spend_in_row height input) kvs u) k =
      (if k \<in> fst ` set kvs then row_set u k - spends_of input a else row_set u k)"
    if "distinct (map fst kvs)" "\<forall>kv \<in> set kvs. fmlookup (lu_utxos u) (fst kv) = Some (snd kv)" for kvs k u
    using that
  proof (induction kvs arbitrary: u)
    case (Cons kv kvs)
    let ?u = "spend_in_row height input kv u"
    have "fst kv' \<noteq> fst kv" if "kv' \<in> set kvs" for kv'
      using Cons.prems(1) that by (metis distinct.simps(2) image_eqI list.set_map list.simps(9))
    then have "\<forall>kv' \<in> set kvs. fmlookup (lu_utxos ?u) (fst kv') = Some (snd kv')"
      using Cons.prems(2) by (simp add: spend_in_row_other)
    then have "row_set (fold (spend_in_row height input) kvs ?u) k =
        (if k \<in> fst ` set kvs then row_set ?u k - spends_of input a else row_set ?u k)"
      using Cons by simp
    moreover have "row_set ?u k = (if k = fst kv then row_set u k - spends_of input a else row_set u k)"
      using Cons.prems(2) True by (intro row_set_spend_in_row) auto
    moreover have "fst kv \<notin> fst ` set kvs" using Cons.prems(1) by simp
    ultimately show ?case by auto
  qed simp
  have prefix: "\<forall>kv \<in> set (scan_prefix a u). fmlookup (lu_utxos u) (fst kv) = Some (snd kv)"
    by (auto simp: in_scan_prefix)
  have "(a', h) \<in> fst ` set (scan_prefix a u) \<longleftrightarrow> a' = a \<and> fmlookup (lu_utxos u) (a, h) \<noteq> None"
    unfolding Domain_fst [symmetric] Domain_iff by (auto simp: in_scan_prefix)
  moreover have "row_set u (a, h) = {}" if "fmlookup (lu_utxos u) (a, h) = None"
    using that by (simp add: row_set_def)
  ultimately show ?thesis
    using rows [OF distinct_scan_prefix prefix, of "(a', h)"] True
    by (auto simp: light_spend_input_def)
qed

lemma fold_light_spend:
  "row_set (fold (light_spend_input a height) is u) (a', h) =
     (if a' = a then row_set u (a', h) - spent_by is a else row_set u (a', h))"
  "watched (fold (light_spend_input a height) is u) = watched u"
proof (induction "is" arbitrary: u)
  case (Cons i "is")
  { case 1 then show ?case by (simp add: Cons(1) row_set_light_spend_input) blast }
  { case 2 then show ?case by (simp add: Cons(2)) }
qed simp_all

section \<open>Scanning for one address\<close>

definition received_of :: "Transaction \<Rightarrow> Public \<Rightarrow> (TransactionId \<times> TransactionOutput \<times> usize) set" where
  "received_of tx a =
     {(t, out, i). transaction_id tx = Some t \<and> row_at (map Some (outputs tx)) i = Some out \<and> receiver out = a}"

definition received_by :: "Transaction list \<Rightarrow> Public \<Rightarrow> (TransactionId \<times> TransactionOutput \<times> usize) set" where
  "received_by txs a = (\<Union>tx \<in> set txs. received_of tx a)"

lemma received_by_simps [simp]:
  "received_by [] a = {}" "received_by (tx # txs) a = received_of tx a \<union> received_by txs a"
  by (simp_all add: received_by_def)

lemma set_received_outputs:
  assumes "transaction_id tx = Some t"
  shows "set (received_outputs a t (outputs tx)) = received_of tx a"
  using assms
  by (auto simp: received_outputs_def received_of_def set_enumerate_list row_at_def image_iff split: if_splits)

lemma fold_light_spend_none:
  "\<forall>i \<in> set is. output_owner i \<noteq> a \<Longrightarrow> fold (light_spend_input a height) is u = u"
  by (induction "is") (simp_all add: light_spend_input_def)

lemma not_involved:
  assumes "\<not> contains_address tx a"
  shows "spent_by (inputs tx) a = {}" and "received_of tx a = {}"
    and "fold (light_spend_input a height) (inputs tx) u = u"
proof -
  have none: "\<forall>i \<in> set (inputs tx). output_owner i \<noteq> a" "\<forall>out \<in> set (outputs tx). receiver out \<noteq> a"
    using assms by (auto simp: contains_address_iff)
  from none(1) show "spent_by (inputs tx) a = {}" by (simp add: spent_by_def spends_of_def)
  from none(2) show "received_of tx a = {}"
    by (auto simp: received_of_def row_at_def split: if_splits)
  from none(1) show "fold (light_spend_input a height) (inputs tx) u = u" by (rule fold_light_spend_none)
qed

definition only_at :: "Public \<Rightarrow> LightNodeUTXOs \<Rightarrow> LightNodeUTXOs \<Rightarrow> bool" where
  "only_at a u u' \<longleftrightarrow> watched u' = watched u
     \<and> (\<forall>a' h. a' \<noteq> a \<longrightarrow> row_set u' (a', h) = row_set u (a', h))"

lemma only_at_trans: "only_at a u v \<Longrightarrow> only_at a v w \<Longrightarrow> only_at a u w"
  by (simp add: only_at_def)

lemma scan_transaction_not_involved:
  assumes "\<not> contains_address tx a"
  shows "scan_transaction b height a tx (u, ts) = Ok (u, ts)"
  using assms by (simp add: scan_transaction_def not_involved(3) Let_def)

lemma scan_transaction_involved:
  assumes "scan_transaction b height a tx (u, ts) = Ok (u', ts')" and "contains_address tx a"
    and "row_set u (a, height) = {}"
  shows "light_view u' a = (light_view u a - spent_by (inputs tx) a) \<union> received_of tx a"
    and "only_at a u u'"
proof -
  let ?v = "fold (light_spend_input a height) (inputs tx) u"
  obtain t where t: "transaction_id tx = Some t"
    "u' = ?v\<lparr>lu_utxos := fmupd (a, height) (received_outputs a t (outputs tx)) (lu_utxos ?v)\<rparr>"
    using assms(1) unfolding scan_transaction_def prod.case Let_def bind_res_Ok_iff if_P [OF assms(2)]
      expect_Ok_iff
    by blast
  have rows: "row_set u' (a', h) = (if (a', h) = (a, height) then received_of tx a else row_set ?v (a', h))"
    for a' h
    using set_received_outputs [OF t(1), of a] by (auto simp: t(2) row_set_def)
  have "row_set u' (a, h) = (if h = height then received_of tx a else row_set u (a, h) - spent_by (inputs tx) a)"
    for h by (simp add: rows fold_light_spend)
  then have "light_view u' a = (\<Union>h. if h = height then received_of tx a
      else row_set u (a, h) - spent_by (inputs tx) a)" by (simp add: light_view_def)
  also have "\<dots> = (light_view u a - spent_by (inputs tx) a) \<union> received_of tx a"
  proof -
    have "row_set u (a, h) - spent_by (inputs tx) a = {}" if "h = height" for h
      using assms(3) that by simp
    then show ?thesis unfolding light_view_def by (auto split: if_splits)
  qed
  finally show "light_view u' a = (light_view u a - spent_by (inputs tx) a) \<union> received_of tx a" .
  show "only_at a u u'" by (auto simp: only_at_def rows fold_light_spend) (simp_all add: t(2) fold_light_spend)
qed

text \<open>At most one transaction of the block involves the address.\<close>

definition solo :: "Public \<Rightarrow> Transaction list \<Rightarrow> bool" where
  "solo a txs \<longleftrightarrow> length (List.filter (\<lambda>tx. contains_address tx a) txs) \<le> 1"

lemma scan_nobody:
  assumes "List.filter (\<lambda>tx. contains_address tx a) txs = []"
  shows "for_each (scan_transaction b height a) txs (u, ts) = Ok (u, ts)"
    and "spent_by (all_inputs txs) a = {}" and "received_by txs a = {}"
proof -
  show "for_each (scan_transaction b height a) txs (u, ts) = Ok (u, ts)"
    using assms by (induction txs) (simp_all add: scan_transaction_not_involved split: if_splits)
  show "spent_by (all_inputs txs) a = {}" "received_by txs a = {}"
    using assms by (induction txs) (simp_all add: all_inputs_def not_involved split: if_splits)
qed

lemma scan_solo:
  assumes "for_each (scan_transaction b height a) txs (u, ts) = (Ok (u', ts') :: (_, 'e) result)"
    and "solo a txs"
    and "row_set u (a, height) = {}"
  shows "light_view u' a = (light_view u a - spent_by (all_inputs txs) a) \<union> received_by txs a
    \<and> only_at a u u'"
  using assms
proof (induction txs arbitrary: u ts)
  case Nil
  then show ?case by (simp add: all_inputs_def only_at_def)
next
  case (Cons tx txs)
  show ?case
  proof (cases "contains_address tx a")
    case False
    then show ?thesis
      using Cons by (simp add: scan_transaction_not_involved not_involved all_inputs_def solo_def)
  next
    case True
    with Cons.prems(2) have nobody: "List.filter (\<lambda>tx. contains_address tx a) txs = []"
      by (simp add: solo_def)
    obtain v tv where v: "scan_transaction b height a tx (u, ts) = (Ok (v, tv) :: (_, 'e) result)"
      "for_each (scan_transaction b height a) txs (v, tv) = (Ok (u', ts') :: (_, 'e) result)"
      using Cons.prems(1) by (auto simp: res_simps)
    then have "u' = v" unfolding scan_nobody(1) [OF nobody] by simp
    then show ?thesis
      using scan_transaction_involved [OF v(1) True Cons.prems(3)] scan_nobody(2,3) [OF nobody]
      by (simp add: all_inputs_def)
  qed
qed

section \<open>Scanning a block\<close>

lemma scan_address_solo:
  assumes "scan_address b height a (u, ts) = (Ok (u', ts') :: (_, 'e) result)"
    and "solo a (transactions b)" and "fmlookup (lu_utxos u) (a, height) = None"
  shows "light_view u' a = (light_view u a - spent_by (all_inputs (transactions b)) a)
      \<union> received_by (transactions b) a
    \<and> only_at a u u'"
  using assms by (intro scan_solo) (auto simp: scan_address_def row_set_def)

text \<open>A row that is not there stays away from the other addresses.\<close>

definition rows_only_at :: "Public \<Rightarrow> LightNodeUTXOs \<Rightarrow> LightNodeUTXOs \<Rightarrow> bool" where
  "rows_only_at a u u' \<longleftrightarrow> (\<forall>a' h. a' \<noteq> a \<longrightarrow> fmlookup (lu_utxos u') (a', h) = fmlookup (lu_utxos u) (a', h))"

lemma rows_only_at_fold:
  "rows_only_at a u (fold (light_spend_input a height) is u)"
proof (induction "is" arbitrary: u)
  case (Cons i "is")
  have "fmlookup (lu_utxos (fold (spend_in_row height i) kvs u)) (a', h) = fmlookup (lu_utxos u) (a', h)"
    if "a' \<noteq> a" "\<forall>kv \<in> set kvs. fst (fst kv) = a" for kvs a' h u
    using that by (induction kvs arbitrary: u) (auto simp: spend_in_row_other)
  moreover have "\<forall>kv \<in> set (scan_prefix a u). fst (fst kv) = a" by (auto simp: in_scan_prefix)
  ultimately have "rows_only_at a u (light_spend_input a height i u)"
    by (simp add: rows_only_at_def light_spend_input_def)
  with Cons.IH [of "light_spend_input a height i u"] show ?case by (simp add: rows_only_at_def)
qed (simp add: rows_only_at_def)

lemma rows_only_at_tx:
  "scan_transaction b height a tx t = Ok t' \<Longrightarrow> rows_only_at a (fst t) (fst t')"
  using rows_only_at_fold [of a "fst t" height "inputs tx"]
  by (cases t) (auto simp: scan_transaction_def Let_def res_simps rows_only_at_def split: if_splits)

lemma rows_only_at_trans: "rows_only_at a u v \<Longrightarrow> rows_only_at a v w \<Longrightarrow> rows_only_at a u w"
  by (simp add: rows_only_at_def)

lemma rows_only_at_scan:
  assumes "scan_address b height a s = (Ok s' :: (_, 'e) result)"
  shows "rows_only_at a (fst s) (fst s')"
proof (cases "fmlookup (lu_utxos (fst s)) (a, height)")
  case None
  then have "for_each (scan_transaction b height a) (transactions b) s = (Ok s' :: (_, 'e) result)"
    using assms by (simp add: scan_address_def)
  then show ?thesis
    by (rule for_each_inv [where P = "\<lambda>t. rows_only_at a (fst s) (fst t)"])
      (simp add: rows_only_at_def, rule rows_only_at_trans, assumption, rule rows_only_at_tx)
next
  case (Some row)
  then show ?thesis using assms by (simp add: scan_address_def rows_only_at_def)
qed

lemma scan_addresses:
  assumes "for_each (scan_address b height) as (u, ts) = (Ok (u', ts') :: (_, 'e) result)" and "distinct as"
    and "\<forall>a \<in> set as. solo a (transactions b) \<and> fmlookup (lu_utxos u) (a, height) = None"
  shows "watched u' = watched u \<and> (\<forall>a. light_view u' a =
    (if a \<in> set as
     then (light_view u a - spent_by (all_inputs (transactions b)) a) \<union> received_by (transactions b) a
     else light_view u a))"
  using assms
proof (induction as arbitrary: u ts)
  case (Cons a as)
  obtain v tv where v: "scan_address b height a (u, ts) = (Ok (v, tv) :: (_, 'e) result)"
    "for_each (scan_address b height) as (v, tv) = (Ok (u', ts') :: (_, 'e) result)"
    using Cons.prems(1) by (auto simp: res_simps)
  have a: "light_view v a = (light_view u a - spent_by (all_inputs (transactions b)) a)
      \<union> received_by (transactions b) a" "only_at a u v"
    using scan_address_solo [OF v(1)] Cons.prems(3) by simp_all
  have other: "light_view v a' = light_view u a'" if "a' \<noteq> a" for a'
    using a(2) that by (simp add: light_view_def only_at_def)
  have "fmlookup (lu_utxos v) (a', height) = None" if "a' \<in> set as" for a'
  proof -
    have "a' \<noteq> a" using Cons.prems(2) that by auto
    then show ?thesis
      using rows_only_at_scan [OF v(1)] Cons.prems(3) that by (simp add: rows_only_at_def)
  qed
  with Cons.IH [OF v(2)] Cons.prems have
    "watched u' = watched v" "\<forall>a'. light_view u' a' =
      (if a' \<in> set as
       then (light_view v a' - spent_by (all_inputs (transactions b)) a') \<union> received_by (transactions b) a'
       else light_view v a')" by simp_all
  moreover have "watched v = watched u" using a(2) by (simp add: only_at_def)
  moreover have "a \<notin> set as" using Cons.prems(2) by simp
  moreover have "light_view v a' = light_view u a'" if "a' \<in> set as" for a'
    using other [of a'] that \<open>a \<notin> set as\<close> by blast
  ultimately show ?case using a(1) other by simp
qed simp

section \<open>The ledger's view\<close>

definition owners_match :: "Transaction list \<Rightarrow> ledger \<Rightarrow> bool" where
  "owners_match txs L \<longleftrightarrow>
     (\<forall>input \<in> set (all_inputs txs). \<forall>out. L (input_key input) = Some out \<longrightarrow> receiver out = output_owner input)"

lemma ledger_step_view:
  assumes t: "transaction_id tx = Some t" "unused L t" and own: "owners_match [tx] L"
  shows "ledger_view (ledger_step tx L) a = (ledger_view L a - spent_by (inputs tx) a) \<union> received_of tx a"
proof (intro equalityI subsetI)
  fix x assume x: "x \<in> ledger_view (ledger_step tx L) a"
  obtain t' out i where x': "x = (t', out, i)" by (metis surj_pair)
  show "x \<in> (ledger_view L a - spent_by (inputs tx) a) \<union> received_of tx a"
  proof (cases "t' = t")
    case True
    with x t(1) show ?thesis by (simp add: x' ledger_view_def ledger_step_def create_row_def received_of_def)
  next
    case False
    then have "(t', i) \<notin> input_key ` set (inputs tx)" "L (t', i) = Some out" "receiver out = a"
      using x t(1) by (simp_all add: x' ledger_view_def ledger_step_def create_row_def spend_all_def split: if_splits)
    then have "x \<notin> spent_by (inputs tx) a" by (force simp: x' spent_by_def spends_of_def)
    with \<open>L (t', i) = Some out\<close> \<open>receiver out = a\<close> show ?thesis by (simp add: x' ledger_view_def)
  qed
next
  fix x assume x: "x \<in> (ledger_view L a - spent_by (inputs tx) a) \<union> received_of tx a"
  obtain t' out i where x': "x = (t', out, i)" by (metis surj_pair)
  show "x \<in> ledger_view (ledger_step tx L) a"
  proof (cases "x \<in> received_of tx a")
    case True
    with t(1) show ?thesis by (simp add: x' ledger_view_def ledger_step_def create_row_def received_of_def)
  next
    case False
    with x have L: "L (t', i) = Some out" "receiver out = a" "x \<notin> spent_by (inputs tx) a"
      by (simp_all add: x' ledger_view_def)
    then have new: "t' \<noteq> t" using t(2) by (auto simp: unused_def)
    have no_key: "input_key j \<noteq> (t', i)" if j: "j \<in> set (inputs tx)" for j
    proof
      assume k: "input_key j = (t', i)"
      with own j L(1,2) have "output_owner j = a" by (simp add: owners_match_def all_inputs_def)
      with k j L(3) show False by (simp add: x' spent_by_def spends_of_def)
    qed
    then have "(t', i) \<notin> input_key ` set (inputs tx)" by (metis imageE no_key)
    with new show ?thesis
      using L(1,2) t(1) by (simp add: x' ledger_view_def ledger_step_def create_row_def spend_all_def)
  qed
qed

lemma ledger_block_view:
  assumes "runnable txs L" and "owners_match txs L"
  shows "ledger_view (ledger_block txs L) a = (ledger_view L a - spent_by (all_inputs txs) a) \<union> received_by txs a"
  using assms
proof (induction txs arbitrary: L)
  case Nil
  then show ?case by (simp add: ledger_block_def all_inputs_def)
next
  case (Cons tx txs)
  note r = runnable_Cons [OF Cons.prems(1)]
  obtain t where t: "transaction_id tx = Some t" "unused L t" using Cons.prems(1) by (auto simp: runnable_def)
  have "owners_match [tx] L" using Cons.prems(2) by (simp add: owners_match_def all_inputs_def)
  note step = ledger_step_view [OF t this, of a]
  have "owners_match txs (ledger_step tx L)"
    using Cons.prems(2) r(4) by (simp add: owners_match_def all_inputs_def)
  note IH = Cons.IH [OF r(3) this]
  have "received_of tx a \<inter> spent_by (all_inputs txs) a = {}"
  proof -
    have "(t, i) \<notin> input_key ` set (all_inputs txs)" for i
      using runnable_new(2) [OF Cons.prems(1), of tx t i] t(1) by (auto simp: all_inputs_def)
    then show ?thesis using t(1) by (force simp: received_of_def spent_by_def spends_of_def)
  qed
  moreover have "ledger_block (tx # txs) L = ledger_block txs (ledger_step tx L)" by (simp add: ledger_block_def)
  moreover have "all_inputs (tx # txs) = inputs tx @ all_inputs txs" by (simp add: all_inputs_def)
  ultimately show ?case
    by (simp only: IH step spent_by_simps received_by_simps) blast
qed

text \<open>The light node's rows follow the full ledger.\<close>

definition tracks :: "LightNodeUTXOs \<Rightarrow> ledger \<Rightarrow> bool" where
  "tracks u L \<longleftrightarrow> (\<forall>a. a |\<in>| watched u \<longrightarrow> light_view u a = ledger_view L a)"

lemma scan_block_tracks:
  assumes "scan_block b height (u, ts) = (Ok (u', ts') :: (_, 'e) result)" and "tracks u L"
    and "runnable (transactions b) L" and "owners_match (transactions b) L"
    and "\<forall>a. a |\<in>| watched u \<longrightarrow> solo a (transactions b) \<and> fmlookup (lu_utxos u) (a, height) = None"
  shows "tracks u' (ledger_block (transactions b) L) \<and> watched u' = watched u"
proof -
  have as: "distinct (get_watched u)" "set (get_watched u) = {a. a |\<in>| watched u}"
    by (simp_all add: get_watched_def sorted_list_of_fset.rep_eq)
  have "for_each (scan_address b height) (get_watched u) (u, ts) = (Ok (u', ts') :: (_, 'e) result)"
    using assms(1) by (simp add: scan_block_def)
  from scan_addresses [OF this as(1)] assms(5) have *: "watched u' = watched u"
    "\<forall>a. light_view u' a = (if a |\<in>| watched u
      then (light_view u a - spent_by (all_inputs (transactions b)) a) \<union> received_by (transactions b) a
      else light_view u a)" by (simp_all add: as(2))
  then show ?thesis using assms(2) ledger_block_view [OF assms(3,4)] by (simp add: tracks_def)
qed

end
