(* ===== verification/Light_Node.thy ===== *)
theory Light_Node
  imports Light_Ledger Full_Behavior
begin

text \<open>
  \<open>light_node/light_node_state.rs\<close> and \<open>light_node/mod.rs\<close>: the state of a light node and how it
  accepts and takes back blocks.  The database entries \<open>height\<close> and \<open>block_hashes\<close> are fields that may
  be absent.  \<open>held\<close> tells whether the task that calls an operation holds the \<open>processing\<close> lock
  already: the lock is not reentrant, so waiting for it then never ends, which is the result \<open>None\<close>.
\<close>

section \<open>State\<close>

record LightNodeState =
  ln_utxos :: LightNodeUTXOs
  transaction_store :: TransactionStore
  ln_connected_peers :: "(SocketAddr \<times> PeerHandle) list"
  ln_mempool :: MemPool
  ln_client_health_scores :: ClientHealthScores
  ln_is_syncing :: bool
  ln_transaction_difficulty :: buf32
  ln_last_seen_block :: Hash
  ln_last_seen_transactions :: "TransactionId list"
  stored_height :: "usize option"
  stored_block_hashes :: "Hash list option"
  ln_forwarded :: "Command list"

text \<open>A new database is empty; \<open>ln_forwarded\<close> collects the commands sent to all peers.\<close>

definition light_node_state_new :: LightNodeState where
  "light_node_state_new =
     \<lparr>ln_utxos = light_utxos_new, transaction_store = fmempty, ln_connected_peers = [],
      ln_mempool = mempool_new, ln_client_health_scores = fmempty, ln_is_syncing = False,
      ln_transaction_difficulty = STARTING_BLOCK_DIFFICULTY, ln_last_seen_block = hash_new_from_buf 0,
      ln_last_seen_transactions = [], stored_height = None, stored_block_hashes = None,
      ln_forwarded = []\<rparr>"

definition light_get_height :: "LightNodeState \<Rightarrow> usize" where
  "light_get_height s = (case stored_height s of None \<Rightarrow> 0 | Some h \<Rightarrow> h)"

definition set_height :: "usize \<Rightarrow> LightNodeState \<Rightarrow> LightNodeState" where
  "set_height h s = s\<lparr>stored_height := Some h\<rparr>"

definition increment_height :: "LightNodeState \<Rightarrow> LightNodeState" where
  "increment_height s = set_height (light_get_height s + 1) s"

definition decrement_height :: "bool \<Rightarrow> LightNodeState \<Rightarrow> (LightNodeState, 'e) result" where
  "decrement_height chk s =
     bind_res (sub_usize chk (light_get_height s) 1) (\<lambda>h. Ok (set_height h s))"

definition last_seen_block_hashes :: "LightNodeState \<Rightarrow> Hash list" where
  "last_seen_block_hashes s = (case stored_block_hashes s of None \<Rightarrow> [] | Some hs \<Rightarrow> hs)"

text \<open>
  In the database the history is one row of bytes, 32 for each hash; a rest that is no hash is a panic.  The
  field holds what reading the row gives.
\<close>

definition save_block_hashes :: "Hash list \<Rightarrow> u8 list" where
  "save_block_hashes hs = concat (map hash_dump_buf hs)"

function hash_chunks_of :: "u8 list \<Rightarrow> (Hash list, 'e) result" where
  "hash_chunks_of bs =
     (if bs = [] then Ok []
      else if length bs < 32 then Panic
      else bind_res (hash_chunks_of (drop 32 bs)) (\<lambda>hs.
        Ok (hash_new_from_buf (word_from_be_bytes (take 32 bs)) # hs)))"
  by pat_completeness auto
termination
  by (relation "measure length") auto

declare hash_chunks_of.simps [simp del]

definition load_block_hashes :: "u8 list option \<Rightarrow> (Hash list, 'e) result" where
  "load_block_hashes row = (case row of None \<Rightarrow> Ok [] | Some bs \<Rightarrow> hash_chunks_of bs)"

lemma load_saved_block_hashes: "load_block_hashes (Some (save_block_hashes hs)) = Ok hs"
proof -
  have "hash_chunks_of (concat (map hash_dump_buf hs)) = (Ok hs :: (_, 'e) result)" for hs
  proof (induction hs)
    case (Cons h hs)
    have len: "length (hash_dump_buf h) = 32" by (simp add: hash_dump_buf_def)
    have "hash_new_from_buf (word_from_be_bytes (hash_dump_buf h)) = h"
      by (cases h) (simp add: hash_dump_buf_def hash_new_from_buf_def word_be_bytes_inverse)
    with Cons len show ?case by (subst hash_chunks_of.simps) auto
  qed (simp add: hash_chunks_of.simps)
  then show ?thesis by (simp add: load_block_hashes_def save_block_hashes_def)
qed

definition push_block_hash :: "Hash \<Rightarrow> LightNodeState \<Rightarrow> LightNodeState" where
  "push_block_hash h s =
     (let hs = h # last_seen_block_hashes s
      in s\<lparr>stored_block_hashes := Some (if 1000 < length hs then butlast hs else hs)\<rparr>)"

definition light_set_last_seen_block :: "Hash \<Rightarrow> LightNodeState \<Rightarrow> LightNodeState" where
  "light_set_last_seen_block h s = s\<lparr>ln_last_seen_block := h\<rparr>"

definition light_add_recent :: "TransactionId \<Rightarrow> TransactionId list \<Rightarrow> TransactionId list" where
  "light_add_recent tx_id txs =
     (if tx_id \<in> set txs then txs
      else let txs = txs @ [tx_id] in if 500 < length txs then tl txs else txs)"

definition light_add_last_seen_transaction :: "TransactionId \<Rightarrow> LightNodeState \<Rightarrow> LightNodeState" where
  "light_add_last_seen_transaction tx_id s =
     s\<lparr>ln_last_seen_transactions := light_add_recent tx_id (ln_last_seen_transactions s)\<rparr>"

definition light_live_transaction_difficulty :: "buf32 \<Rightarrow> LightNodeState \<Rightarrow> buf32" where
  "light_live_transaction_difficulty d s =
     calculate_live_transaction_difficulty d (mempool_size (ln_mempool s))"

text \<open>Punishment is that of the full node, on the light node's scores.\<close>

definition light_punish_ip :: "bool \<Rightarrow> IpAddr \<Rightarrow> LightNodeState \<Rightarrow> (LightNodeState, 'e) result" where
  "light_punish_ip chk a s =
     bind_res (add_u chk (score_of a (ln_client_health_scores s)) PUNISHMENT) (\<lambda>score.
       Ok (s\<lparr>ln_client_health_scores := fmupd a score (ln_client_health_scores s)\<rparr>))"

definition light_decrement_punishments :: "LightNodeState \<Rightarrow> LightNodeState" where
  "light_decrement_punishments s =
     (let lowered = fmmap (\<lambda>score. saturating_sub score PUNISHMENT) (ln_client_health_scores s)
      in s\<lparr>ln_client_health_scores := fmfilter (\<lambda>a. fmlookup lowered a \<noteq> Some 0) lowered\<rparr>)"

definition light_get_banned_ips :: "LightNodeState \<Rightarrow> IpAddr set" where
  "light_get_banned_ips s =
     fmdom' (fmfilter (\<lambda>a. BAN_SCORE_THRESHOLD < score_of a (ln_client_health_scores s))
       (ln_client_health_scores s))"

section \<open>Accepting a block\<close>

type_synonym ('a, 'e) light_run = "('a, 'e, LightNodeState) run option"

definition bind_light ::
  "('a, 'e) light_run \<Rightarrow> ('a \<Rightarrow> LightNodeState \<Rightarrow> ('b, 'e) light_run) \<Rightarrow> ('b, 'e) light_run"
where
  "bind_light m f =
     (case m of
        None \<Rightarrow> None
      | Some (Ok x, s) \<Rightarrow> f x s | Some (Err e, s) \<Rightarrow> Some (Err e, s) | Some (Panic, s) \<Rightarrow> Some (Panic, s))"

definition with_lock :: "bool \<Rightarrow> ('a, 'e, LightNodeState) run \<Rightarrow> ('a, 'e) light_run" where
  "with_lock held r = (if held then None else Some r)"

text \<open>The hash the new block's parent is compared with.\<close>

definition newest_hash :: "LightNodeState \<Rightarrow> Hash" where
  "newest_hash s = (case last_seen_block_hashes s of [] \<Rightarrow> hash_new_from_buf 0 | h # _ \<Rightarrow> h)"

definition difficulty_after :: "Block \<Rightarrow> buf32" where
  "difficulty_after b =
     get_transaction_difficulty
       (update_difficulty b (difficulty_new_default\<lparr>transaction_difficulty := tx_pow_difficulty (meta b)\<rparr>))"

text \<open>What \<open>accept_block\<close> does under the lock.\<close>

definition apply_light_block ::
  "'z block_env_scheme \<Rightarrow> Block \<Rightarrow> bool \<Rightarrow> LightNodeState \<Rightarrow> (unit, BlockchainError, LightNodeState) run"
where
  "apply_light_block E b is_historical s =
     (if newest_hash s = previous_block (meta b) then (Err InvalidPreviousBlockHash, s)
      else
        bind_run (if is_historical then Ok () else map_err BlockC (validate_block_hash E b), s) (\<lambda>_ s.
        bind_run (unwrap_ids (transactions b), s) (\<lambda>ids s.
        let s = s\<lparr>ln_mempool := spend_transactions ids (ln_mempool s)\<rparr>
        in bind_run (scan_block b (light_get_height s) (ln_utxos s, transaction_store s), s) (\<lambda>(u, ts) s.
             (Ok (), increment_height
                (s\<lparr>ln_utxos := u, transaction_store := ts, ln_transaction_difficulty := difficulty_after b\<rparr>))))))"

definition light_accept_block ::
  "'z block_env_scheme \<Rightarrow> bool \<Rightarrow> Block \<Rightarrow> bool \<Rightarrow> LightNodeState \<Rightarrow> (unit, BlockchainError) light_run"
where
  "light_accept_block E held b is_historical s =
     bind_light (Some (bind_res (map_err BlockC (check_completeness b)) (\<lambda>_.
         bind_res (map_err BlockC (validate_block_hash E b)) (\<lambda>_. expect (hash (meta b)))), s)) (\<lambda>block_hash s.
       if ln_last_seen_block s = block_hash then Some (Ok (), s)
       else with_lock held (apply_light_block E b is_historical (light_set_last_seen_block block_hash s)))"

section \<open>Accepting a transaction\<close>

text \<open>\<open>ed25519_text\<close> is how the signature library prints its error.\<close>

fun check_input_signatures ::
  "'z tx_env_scheme \<Rightarrow> string \<Rightarrow> Transaction \<Rightarrow> TransactionId \<Rightarrow> TransactionInput list
     \<Rightarrow> (unit, BlockchainError) result"
where
  "check_input_signatures E ed25519_text tx tx_id [] = Ok ()"
| "check_input_signatures E ed25519_text tx tx_id (i # is) =
     bind_res (expect (signature i)) (\<lambda>sig.
     bind_res (map_err BincodeEncode (get_input_signing_buf E tx)) (\<lambda>buf.
     bind_res (map_err (\<lambda>_. BincodeEncode ed25519_text) (validate_with_public E sig (output_owner i) buf))
       (\<lambda>valid.
     if \<not> valid then Err (of_tx_error (InvalidSignature (hash_dump_base36 tx_id)))
     else check_input_signatures E ed25519_text tx tx_id is)))"

definition light_accept_transaction ::
  "'z tx_env_scheme \<Rightarrow> string \<Rightarrow> u64 \<Rightarrow> u64 \<Rightarrow> u64 \<Rightarrow> Transaction \<Rightarrow> bool \<Rightarrow> LightNodeState
     \<Rightarrow> (unit, BlockchainError, LightNodeState) run"
where
  "light_accept_transaction E ed25519_text now now' now'' tx trusted s =
     bind_run (map_err of_tx_error (tx_check_completeness tx), s) (\<lambda>_ s.
     bind_run (expect (transaction_id tx), s) (\<lambda>tx_id s.
     if tx_id \<in> set (ln_last_seen_transactions s) then (Ok (), s)
     else
       bind_run (validate_transaction_timestamp (overflow_checks E) now now' tx,
           light_add_last_seen_transaction tx_id s) (\<lambda>_ s.
       bind_run (check_input_signatures E ed25519_text tx tx_id (inputs tx), s) (\<lambda>_ s.
       if \<not> mempool_validate_transaction (ln_mempool s) tx
       then (Err (of_tx_error (DoubleSpendT (hash_dump_base36 tx_id))), s)
       else
         bind_run (mempool_add_transaction (overflow_checks E) now'' tx (ln_mempool s), s) (\<lambda>pool s.
           let s = s\<lparr>ln_mempool := pool\<rparr>
           in (Ok (), if trusted then s\<lparr>ln_forwarded := ln_forwarded s @ [NewTransaction tx]\<rparr> else s))))))"

section \<open>Taking back, tracking\<close>

definition light_pop_block :: "bool \<Rightarrow> bool \<Rightarrow> LightNodeState \<Rightarrow> (unit, BlockchainError) light_run" where
  "light_pop_block chk held s =
     with_lock held
       (bind_run (decrement_height chk s, s) (\<lambda>s _.
          let height = light_get_height s
          in (Ok (), s\<lparr>transaction_store := remove_transactions_at_height height (transaction_store s),
                       ln_utxos := light_pop_utxos height (ln_utxos s)\<rparr>)))"

text \<open>The part of \<open>start_tracking\<close> before the synchronisation; true if there is one to start.\<close>

definition begin_tracking :: "Public \<Rightarrow> usize \<Rightarrow> LightNodeState \<Rightarrow> bool \<times> LightNodeState" where
  "begin_tracking a restore_height s =
     (if a \<in> set (get_watched (ln_utxos s)) then (False, s)
      else (True, set_height restore_height (s\<lparr>ln_utxos := add_address a (ln_utxos s)\<rparr>)))"

definition stop_tracking :: "Public \<Rightarrow> LightNodeState \<Rightarrow> (unit, 'e, LightNodeState) run" where
  "stop_tracking a s =
     (case delete_address a (ln_utxos s, transaction_store s) of
        (r, (u, ts)) \<Rightarrow> (r, s\<lparr>ln_utxos := u, transaction_store := ts\<rparr>))"

text \<open>A peer that \<open>connect_peer\<close> has connected to.\<close>

definition light_register_peer :: "SocketAddr \<Rightarrow> PeerHandle \<Rightarrow> LightNodeState \<Rightarrow> LightNodeState" where
  "light_register_peer a peer s =
     s\<lparr>ln_connected_peers := List.filter (\<lambda>(b, _). b \<noteq> a) (ln_connected_peers s) @ [(a, peer)]\<rparr>"

section \<open>What accepting does\<close>

lemma bind_light_Some_iff [res_simps]:
  "bind_light m f = Some (Ok y, t) \<longleftrightarrow> (\<exists>x s. m = Some (Ok x, s) \<and> f x s = Some (Ok y, t))"
  by (auto simp: bind_light_def split: option.splits prod.splits result.splits)

lemma bind_light_simps [simp]:
  "bind_light None f = None" "bind_light (Some (Ok x, s)) f = f x s"
  "bind_light (Some (Err e, s)) f = Some (Err e, s)" "bind_light (Some (Panic, s)) f = Some (Panic, s)"
  by (simp_all add: bind_light_def)

lemma with_lock_simps [simp]: "with_lock True r = None" "with_lock False r = Some r"
  by (simp_all add: with_lock_def)

lemma light_height_simps [simp]:
  "light_get_height (set_height h s) = h"
  "light_get_height (increment_height s) = light_get_height s + 1"
  "ln_utxos (increment_height s) = ln_utxos s"
  "ln_connected_peers (increment_height s) = ln_connected_peers s"
  "ln_last_seen_block (increment_height s) = ln_last_seen_block s"
  "stored_block_hashes (increment_height s) = stored_block_hashes s"
  "transaction_store (increment_height s) = transaction_store s"
  by (simp_all add: light_get_height_def set_height_def increment_height_def)

text \<open>Scanning never fails on a block whose hash and transaction ids are there.\<close>

lemma scan_transaction_complete:
  assumes "hash (meta b) \<noteq> None" and "transaction_id tx \<noteq> None"
  shows "\<exists>s'. scan_transaction b height a tx s = (Ok s' :: (_, 'e) result)"
  using assms by (cases s) (auto simp: scan_transaction_def put_transaction_def Let_def)

lemma for_each_total:
  assumes "\<And>x s. x \<in> set xs \<Longrightarrow> \<exists>s'. f x s = (Ok s' :: (_, 'e) result)"
  shows "\<exists>s'. for_each f xs s = (Ok s' :: (_, 'e) result)"
  using assms
proof (induction xs arbitrary: s)
  case (Cons x xs)
  from Cons.prems [of x s] obtain s1 where s1: "f x s = (Ok s1 :: (_, 'e) result)" by auto
  from Cons.IH [of s1] Cons.prems show ?case by (simp add: s1)
qed simp

lemma scan_block_complete:
  assumes "hash (meta b) \<noteq> None" and "\<forall>tx \<in> set (transactions b). transaction_id tx \<noteq> None"
  shows "\<exists>s'. scan_block b height s = (Ok s' :: (_, 'e) result)"
proof -
  have "\<exists>s'. scan_address b height a s = (Ok s' :: (_, 'e) result)" for a s
  proof (cases "fmlookup (lu_utxos (fst s)) (a, height) = None")
    case True
    have "\<exists>s'. for_each (scan_transaction b height a) (transactions b) s = (Ok s' :: (_, 'e) result)"
      by (rule for_each_total) (use assms scan_transaction_complete in blast)
    with True show ?thesis by (simp add: scan_address_def)
  qed (simp add: scan_address_def)
  then show ?thesis unfolding scan_block_def by (intro for_each_total) auto
qed

text \<open>A block with its hash and ids is accepted unless its parent hash is the newest one.\<close>

lemma apply_light_block_Ok:
  assumes "newest_hash s \<noteq> previous_block (meta b)" and "validate_block_hash E b = Ok ()"
    and ids: "map transaction_id (transactions b) = map Some ids"
  obtains u ts where
    "scan_block b (light_get_height s) (ln_utxos s, transaction_store s) = (Ok (u, ts) :: (_, BlockchainError) result)"
    "apply_light_block E b is_historical s = (Ok (), increment_height (s\<lparr>
       ln_mempool := spend_transactions ids (ln_mempool s), ln_utxos := u, transaction_store := ts,
       ln_transaction_difficulty := difficulty_after b\<rparr>))"
proof -
  have "hash (meta b) \<noteq> None" using assms(2) by (auto simp: validate_block_hash_Ok_iff)
  moreover have "\<forall>tx \<in> set (transactions b). transaction_id tx \<noteq> None"
  proof
    fix tx assume "tx \<in> set (transactions b)"
    then have "transaction_id tx \<in> set (map transaction_id (transactions b))" by simp
    then show "transaction_id tx \<noteq> None" unfolding ids by auto
  qed
  ultimately obtain s' where "scan_block b (light_get_height s) (ln_utxos s, transaction_store s)
      = (Ok s' :: (_, BlockchainError) result)"
    using scan_block_complete [of b "light_get_height s" "(ln_utxos s, transaction_store s)",
        where ?'e = BlockchainError] by blast
  then obtain u ts where *: "scan_block b (light_get_height s) (ln_utxos s, transaction_store s)
      = (Ok (u, ts) :: (_, BlockchainError) result)" by (cases s') auto
  have h: "light_get_height (s\<lparr>ln_mempool := p\<rparr>) = light_get_height s" for p
    by (simp add: light_get_height_def)
  have "unwrap_ids (transactions b) = (Ok ids :: (_, BlockchainError) result)"
    using ids by (simp add: unwrap_ids_Ok_iff)
  with assms(1,2) * have "apply_light_block E b is_historical s = (Ok (), increment_height (s\<lparr>
       ln_mempool := spend_transactions ids (ln_mempool s), ln_utxos := u, transaction_store := ts,
       ln_transaction_difficulty := difficulty_after b\<rparr>))"
    by (simp add: apply_light_block_def h Let_def)
  with * show ?thesis by (rule that)
qed

lemma light_accept_block_new:
  assumes "validate_block_hash E b = Ok ()" and "hash (meta b) = Some h" and "h \<noteq> ln_last_seen_block s"
  shows "light_accept_block E held b is_historical s =
    with_lock held (apply_light_block E b is_historical (light_set_last_seen_block h s))"
  using assms by (simp add: light_accept_block_def check_completeness_def)

lemma apply_light_block_hashes [simp]:
  "stored_block_hashes (snd (apply_light_block E b is_historical s)) = stored_block_hashes s"
  by (auto simp: apply_light_block_def Let_def bind_run_def split: prod.splits result.splits)

end
