(* ===== verification/Light_Sync.thy ===== *)
theory Light_Sync
  imports Light_Node
begin

text \<open>
  \<open>light_node/sync.rs\<close>: a light node catches up by asking all full nodes it is connected to for the
  metadata of the blocks, and for the blocks themselves whose filter may contain a watched address.
  What the network does is an argument: for the number of the request that is broadcast and its
  command, the replies in the order in which they arrive before the deadline, where a request that
  fails is \<open>None\<close>.  The tasks that wait for the replies of different chunks share nothing, so they are
  a map over the chunks.
\<close>

section \<open>Agreeing\<close>

definition QUORUM_RATIO :: f64 where "QUORUM_RATIO = fl (1 / 2)"

datatype LightNodeSyncError =
    BlockchainL BlockchainError
  | NoPeer
  | PeerErrorL PeerError
  | AddressInclusionFilterL AddressInclusionFilterError

definition quorum_of :: "nat \<Rightarrow> nat" where
  "quorum_of peer_count =
     max (f64_as_nat 64 (of_int \<lceil>fmul (f64_of_nat peer_count) QUORUM_RATIO\<rceil>)) 1"

definition agreeing :: "'a list \<Rightarrow> 'a \<Rightarrow> nat" where
  "agreeing responses c = length (List.filter (\<lambda>r. r = c) responses)"

definition best_count :: "'a list \<Rightarrow> nat" where
  "best_count responses = fold max (map (agreeing responses) responses) 0"

fun collect_responses :: "nat \<Rightarrow> 'a option list \<Rightarrow> 'a list \<Rightarrow> 'a list" where
  "collect_responses quorum [] responses = responses"
| "collect_responses quorum (payload # arrivals) responses =
     (if quorum \<le> length responses then responses
      else case payload of
        None \<Rightarrow> collect_responses quorum arrivals responses
      | Some m \<Rightarrow>
          if quorum \<le> best_count (responses @ [m]) then responses @ [m]
          else collect_responses quorum arrivals (responses @ [m]))"

text \<open>\<open>max_by_key\<close>: the last of the elements with the largest key.\<close>

fun max_by_key :: "('a \<Rightarrow> nat) \<Rightarrow> 'a list \<Rightarrow> 'a option" where
  "max_by_key f [] = None"
| "max_by_key f (x # xs) =
     (case max_by_key f xs of None \<Rightarrow> Some x | Some y \<Rightarrow> Some (if f y < f x then x else y))"

definition canonical :: "'a list \<Rightarrow> 'a option" where
  "canonical responses = max_by_key (agreeing responses) responses"

section \<open>Requests\<close>

type_synonym network = "nat \<Rightarrow> Command \<Rightarrow> Command option list"

definition quorum_request ::
  "nat \<Rightarrow> network \<Rightarrow> nat \<Rightarrow> Command \<Rightarrow> (Command \<Rightarrow> 'a option) \<Rightarrow> 'a option"
where
  "quorum_request peer_count net k c extract =
     (if peer_count = 0 then None
      else canonical (collect_responses (quorum_of peer_count)
             (map (\<lambda>reply. Option.bind reply extract) (net k c)) []))"

fun first_metadata :: "Command \<Rightarrow> BlockMetadata option" where
  "first_metadata (GetBlockMetadatasResponse (m # _)) = Some m"
| "first_metadata _ = None"

fun reply_block :: "Command \<Rightarrow> Block option" where
  "reply_block (GetBlockResponse b) = b"
| "reply_block _ = None"

fun reply_metadatas :: "Command \<Rightarrow> BlockMetadata list option" where
  "reply_metadatas (GetBlockMetadatasResponse ms) = Some ms"
| "reply_metadatas _ = None"

text \<open>The peers that are asked are those that serve blocks.\<close>

definition full_peers :: "LightNodeState \<Rightarrow> (SocketAddr \<times> PeerHandle) list" where
  "full_peers s =
     List.filter (\<lambda>(_, p). and (flags p) FULL_NODE_CAPABILITY = FULL_NODE_CAPABILITY) (ln_connected_peers s)"

function chunk_ranges :: "usize \<Rightarrow> usize \<Rightarrow> (usize \<times> usize) list" where
  "chunk_ranges chunk_start remote_height =
     (if chunk_start < remote_height
      then let chunk_end = min (chunk_start + METADATA_FETCH_MAX_COUNT) remote_height
           in (chunk_start, chunk_end) # chunk_ranges chunk_end remote_height
      else [])"
  by pat_completeness auto
termination
  by (relation "measure (\<lambda>(a, b). b - a)") (auto simp: METADATA_FETCH_MAX_COUNT_def)

declare chunk_ranges.simps [simp del]

definition fetch_all_metadata_chunks ::
  "nat \<Rightarrow> network \<Rightarrow> nat \<Rightarrow> (usize \<times> usize) list \<Rightarrow> BlockMetadata list option list"
where
  "fetch_all_metadata_chunks peer_count net k ranges =
     map (\<lambda>(i, (a, b)). quorum_request peer_count net (k + i) (GetBlockMetadatas a b) reply_metadatas)
       (enumerate_list ranges)"

section \<open>Synchronising\<close>

fun any_interested ::
  "'z crypto_scheme \<Rightarrow> AddressInclusionFilter \<Rightarrow> Public list \<Rightarrow> (bool, LightNodeSyncError) result"
where
  "any_interested C f [] = Ok False"
| "any_interested C f (a # as) =
     bind_res (map_err AddressInclusionFilterL (search_filter C f a)) (\<lambda>found.
       if found then Ok True else any_interested C f as)"

definition map_light_err :: "('e \<Rightarrow> 'f) \<Rightarrow> ('a, 'e) light_run \<Rightarrow> ('a, 'f) light_run" where
  "map_light_err f m = map_option (\<lambda>(r, s). (map_err f r, s)) m"

text \<open>The number of the next request is passed along.\<close>

fun sync_metadatas ::
  "'z block_env_scheme \<Rightarrow> bool \<Rightarrow> network \<Rightarrow> nat \<Rightarrow> BlockMetadata list \<Rightarrow> LightNodeState
     \<Rightarrow> (unit, LightNodeSyncError) light_run"
where
  "sync_metadatas E held net k [] s = Some (Ok (), s)"
| "sync_metadatas E held net k (m # ms) s =
     bind_light (Some (expect (hash m), s)) (\<lambda>block_hash s.
     bind_light (Some (any_interested E (address_inclusion_filter m) (get_watched (ln_utxos s)), s))
       (\<lambda>interested s.
     if interested
     then case quorum_request (length (full_peers s)) net k (GetBlock block_hash) reply_block of
         Some b \<Rightarrow>
           bind_light (map_light_err BlockchainL (light_accept_block E held b True s)) (\<lambda>_ s.
             sync_metadatas E held net (k + 1) ms s)
       | None \<Rightarrow> Some (Err (PeerErrorL IncorrectResponseP), s)
     else sync_metadatas E held net k ms (increment_height s)))"

fun pop_times ::
  "nat \<Rightarrow> bool \<Rightarrow> bool \<Rightarrow> LightNodeState \<Rightarrow> (unit, LightNodeSyncError) light_run"
where
  "pop_times 0 chk held s = Some (Ok (), s)"
| "pop_times (Suc n) chk held s =
     bind_light (map_light_err BlockchainL (light_pop_block chk held s)) (\<lambda>_ s. pop_times n chk held s)"

text \<open>\<open>iter().last()\<close>\<close>

definition oldest_hash :: "LightNodeState \<Rightarrow> Hash option" where
  "oldest_hash s =
     (if last_seen_block_hashes s = [] then None else Some (last (last_seen_block_hashes s)))"

text \<open>From the height of the first peer on; the chunks that failed are left out.\<close>

definition sync_from ::
  "'z block_env_scheme \<Rightarrow> bool \<Rightarrow> network \<Rightarrow> (Command \<Rightarrow> (Command, PeerError) result) \<Rightarrow> LightNodeState
     \<Rightarrow> (unit, LightNodeSyncError) light_run"
where
  "sync_from E held net probe s =
     (let start_height = light_get_height s
      in if ln_connected_peers s = [] then Some (Err NoPeer, s)
         else
           bind_light (Some (map_err PeerErrorL (probe (Ping start_height)), s)) (\<lambda>response s.
             case response of
               Pong remote_height \<Rightarrow>
                 if remote_height \<le> start_height then Some (Ok (), s)
                 else
                   let ranges = chunk_ranges start_height remote_height;
                       results = fetch_all_metadata_chunks (length (full_peers s)) net 1 ranges;
                       all_metadatas = concat (map (\<lambda>r. case r of None \<Rightarrow> [] | Some ms \<Rightarrow> ms) results)
                   in sync_metadatas E held net (1 + length ranges) all_metadatas s
             | _ \<Rightarrow> Some (Err (PeerErrorL IncorrectResponseP), s)))"

definition start_sync ::
  "'z block_env_scheme \<Rightarrow> bool \<Rightarrow> network \<Rightarrow> (Command \<Rightarrow> (Command, PeerError) result) \<Rightarrow> LightNodeState
     \<Rightarrow> (unit, LightNodeSyncError) light_run"
where
  "start_sync E held net probe s =
     (let height = light_get_height s;
          first_meta = quorum_request (length (full_peers s)) net 0
            (GetBlockMetadatas height (height + 1)) first_metadata
      in bind_light
           (case first_meta of
              Some m \<Rightarrow>
                if height \<noteq> 0 \<and> oldest_hash s \<noteq> Some (previous_block m)
                then pop_times 20 (overflow_checks E) held s else Some (Ok (), s)
            | None \<Rightarrow> Some (Ok (), s)) (\<lambda>_. sync_from E held net probe))"

definition start_tracking ::
  "'z block_env_scheme \<Rightarrow> network \<Rightarrow> (Command \<Rightarrow> (Command, PeerError) result) \<Rightarrow> Public \<Rightarrow> usize
     \<Rightarrow> LightNodeState \<Rightarrow> (unit, LightNodeSyncError) light_run"
where
  "start_tracking E net probe a restore_height s =
     (case begin_tracking a restore_height s of
        (False, s) \<Rightarrow> Some (Ok (), s)
      | (True, s) \<Rightarrow> start_sync E False net probe s)"

section \<open>The quorum\<close>

lemma quorum_of_eq:
  assumes "0 < n" and "n < 2 ^ 53" shows "quorum_of n = (n + 1) div 2"
proof -
  have half: "QUORUM_RATIO = 1 / 2"
    using fl_representable [of "1 / 2" 1 "-1"] by (simp add: QUORUM_RATIO_def power_int_def)
  have "fl (of_nat n / 2 :: rat) = of_nat n / 2"
    using fl_representable [of "of_nat n / 2" "int n" "-1"] assms by (simp add: power_int_def field_simps)
  then have prod: "fmul (f64_of_nat n) QUORUM_RATIO = of_nat n / 2"
    using assms by (simp add: fmul_def half f64_of_nat_exact)
  have up: "\<lceil>of_nat n / 2 :: rat\<rceil> = int ((n + 1) div 2)"
    by (rule ceiling_unique) (simp_all add: field_simps)
  have "f64_as_nat 64 (of_int \<lceil>fmul (f64_of_nat n) QUORUM_RATIO\<rceil>) = (n + 1) div 2"
    unfolding prod up using f64_as_nat_of_nat [of "(n + 1) div 2" 64] assms(2) by simp
  then show ?thesis using assms(1) by (simp add: quorum_of_def)
qed

lemma collect_responses_prefix:
  "\<exists>n. collect_responses q arrivals rs = rs @ take n (List.map_filter (\<lambda>x. x) arrivals)"
proof (induction q arrivals rs rule: collect_responses.induct)
  case (1 q rs)
  then show ?case by simp
next
  case (2 q payload arrivals rs)
  show ?case
  proof (cases "q \<le> length rs")
    case True
    then show ?thesis by (intro exI [of _ 0]) simp
  next
    case False
    show ?thesis
    proof (cases payload)
      case None
      with 2 False show ?thesis by (simp add: List.map_filter_simps)
    next
      case (Some m)
      show ?thesis
      proof (cases "q \<le> best_count (rs @ [m])")
        case True
        with False Some show ?thesis by (intro exI [of _ 1]) (simp add: List.map_filter_simps)
      next
        case ne: False
        from 2(2) [OF False Some ne] obtain n where
          "collect_responses q arrivals (rs @ [m]) = (rs @ [m]) @ take n (List.map_filter (\<lambda>x. x) arrivals)" by blast
        with False Some ne show ?thesis by (intro exI [of _ "Suc n"]) (simp add: List.map_filter_simps)
      qed
    qed
  qed
qed

lemma max_by_key_in: "max_by_key f xs = Some x \<Longrightarrow> x \<in> set xs \<and> (\<forall>y \<in> set xs. f y \<le> f x)"
proof (induction xs arbitrary: x)
  case (Cons z xs)
  show ?case
  proof (cases "max_by_key f xs")
    case None
    then have "xs = []" by (cases xs) (auto split: option.splits)
    with Cons.prems show ?thesis by simp
  next
    case (Some y)
    with Cons.IH [OF Some] Cons.prems show ?thesis by (auto split: if_splits intro: order_trans less_imp_le)
  qed
qed simp

lemma max_by_key_None [simp]: "max_by_key f xs = None \<longleftrightarrow> xs = []"
  by (cases xs) (auto split: option.splits)

lemma canonical_in: "canonical rs = Some x \<Longrightarrow> x \<in> set rs"
  unfolding canonical_def by (drule max_by_key_in) simp

text \<open>The value that more than half of the collected replies have is the one that is chosen.\<close>

lemma agreeing_two:
  "x \<noteq> y \<Longrightarrow> agreeing rs x + agreeing rs y \<le> length rs"
  by (induction rs) (auto simp: agreeing_def)

lemma canonical_majority:
  assumes "length rs < 2 * agreeing rs x"
  shows "canonical rs = Some x"
proof -
  have "rs \<noteq> []" using assms by (auto simp: agreeing_def)
  then obtain y where y: "max_by_key (agreeing rs) rs = Some y" by (metis max_by_key_None not_None_eq)
  have "agreeing rs x \<noteq> 0" using assms by simp
  then have "List.filter (\<lambda>r. r = x) rs \<noteq> []" by (simp add: agreeing_def)
  then have "x \<in> set rs" by (metis (mono_tags, lifting) filter_False)
  with max_by_key_in [OF y] have "agreeing rs x \<le> agreeing rs y" by blast
  with assms agreeing_two [of x y rs] have "x = y" by linarith
  with y show ?thesis by (simp add: canonical_def)
qed

text \<open>Only the first replies count: as many as the quorum.\<close>

lemma collect_responses_length:
  "length rs \<le> q \<Longrightarrow> length (collect_responses q arrivals rs) \<le> q"
  by (induction q arrivals rs rule: collect_responses.induct) (auto split: option.splits)

lemma all_agree:
  assumes "n \<noteq> 0" and "net k c \<noteq> []" and "\<forall>r \<in> set (net k c). Option.bind r extract = Some x"
  shows "quorum_request n net k c extract = Some x"
proof -
  let ?as = "map (\<lambda>reply. Option.bind reply extract) (net k c)"
  let ?rs = "collect_responses (quorum_of n) ?as []"
  have "List.map_filter (\<lambda>x. x) ?as = map (\<lambda>_. x) (net k c)"
  proof -
    have "List.map_filter (\<lambda>x. x) (map (\<lambda>reply. Option.bind reply extract) as) = map (\<lambda>_. x) as"
      if "\<forall>r \<in> set as. Option.bind r extract = Some x" for as
      using that by (induction as) (simp_all add: List.map_filter_simps)
    then show ?thesis using assms(3) by simp
  qed
  moreover obtain i where "?rs = [] @ take i (List.map_filter (\<lambda>x. x) ?as)"
    using collect_responses_prefix [of "quorum_of n" ?as "[]"] by blast
  ultimately have rs: "set ?rs \<subseteq> {x}" by (auto simp: take_map)
  have "1 \<le> quorum_of n" by (simp add: quorum_of_def)
  then have "?rs \<noteq> []"
  proof -
    obtain r arr where "net k c = r # arr" using assms(2) by (cases "net k c") auto
    moreover from this have "Option.bind r extract = Some x" using assms(3) by simp
    moreover have "\<exists>i. collect_responses (quorum_of n) bs [x] = [x] @ take i (List.map_filter (\<lambda>x. x) bs)" for bs
      by (rule collect_responses_prefix)
    ultimately show ?thesis using \<open>1 \<le> quorum_of n\<close> by simp (metis list.distinct(1))
  qed
  then obtain y where "canonical ?rs = Some y" unfolding canonical_def by (metis max_by_key_None not_None_eq)
  with canonical_in [OF this] rs have "canonical ?rs = Some x" by auto
  with assms(1) show ?thesis by (simp add: quorum_request_def)
qed

section \<open>The chunks\<close>

lemma chunk_ranges_Nil [simp]: "b \<le> a \<Longrightarrow> chunk_ranges a b = []"
  by (simp add: chunk_ranges.simps)

lemma chunk_ranges_Cons:
  "a < b \<Longrightarrow> chunk_ranges a b = (a, min (a + 1024) b) # chunk_ranges (min (a + 1024) b) b"
  by (subst chunk_ranges.simps) (simp add: METADATA_FETCH_MAX_COUNT_def Let_def)

text \<open>The chunks are non-empty, small enough to be served, and cover the range in order.\<close>

lemma chunk_ranges_cover:
  assumes "a \<le> b" and "b \<le> length xs"
  shows "concat (map (\<lambda>(i, j). take (j - i) (drop i xs)) (chunk_ranges a b)) = take (b - a) (drop a xs)
    \<and> (\<forall>(i, j) \<in> set (chunk_ranges a b). i < j \<and> j - i \<le> METADATA_FETCH_MAX_COUNT \<and> j \<le> b)"
  using assms
proof (induction a b rule: chunk_ranges.induct)
  case (1 a b)
  show ?case
  proof (cases "a < b")
    case True
    let ?e = "min (a + 1024) b"
    have e: "a < ?e" "?e \<le> b" using True by auto
    have IH: "concat (map (\<lambda>(i, j). take (j - i) (drop i xs)) (chunk_ranges ?e b)) = take (b - ?e) (drop ?e xs)
      \<and> (\<forall>(i, j) \<in> set (chunk_ranges ?e b). i < j \<and> j - i \<le> METADATA_FETCH_MAX_COUNT \<and> j \<le> b)"
      using 1(1) [OF True refl] 1(3) e(2) by (simp add: METADATA_FETCH_MAX_COUNT_def)
    have "take (?e - a) (drop a xs) @ take (b - ?e) (drop ?e xs) = take (b - a) (drop a xs)"
    proof -
      have "b - a = (?e - a) + (b - ?e)" using e by linarith
      moreover have "drop (?e - a) (drop a xs) = drop ?e xs" using e by simp
      ultimately show ?thesis by (metis take_add)
    qed
    with IH e show ?thesis by (simp add: chunk_ranges_Cons [OF True] METADATA_FETCH_MAX_COUNT_def)
  qed (use 1 in simp)
qed

end
