(* ===== verification/Light_Behavior.thy ===== *)
theory Light_Behavior
  imports Light_Sync
begin

text \<open>
  \<open>light_node/behavior.rs\<close>: what a light node does with a message from a peer.  A synchronisation that
  a ping starts is a task of its own, which runs \<open>run_light_sync\<close> with the \<open>processing\<close> lock held.
\<close>

record LightPeer =
  light :: LightNodeState
  light_sync_tasks :: "PeerHandle list"

definition light_peer_addresses :: "LightNodeState \<Rightarrow> string list" where
  "light_peer_addresses s =
     map (\<lambda>(_, p). address_to_string (address p))
       (List.filter (\<lambda>(_, p). \<not> is_client p) (ln_connected_peers s))"

definition light_ping :: "PeerHandle \<Rightarrow> usize \<Rightarrow> LightPeer \<Rightarrow> LightPeer" where
  "light_ping peer height s =
     (if light_get_height (light s) + 1 < height \<and> \<not> ln_is_syncing (light s)
      then s\<lparr>light := (light s)\<lparr>ln_is_syncing := True\<rparr>, light_sync_tasks := light_sync_tasks s @ [peer]\<rparr>
      else s)"

definition light_resolved ::
  "Command \<Rightarrow> (unit, 'f) light_run \<Rightarrow> LightPeer \<Rightarrow> (Command, 'e, LightPeer) run option"
where
  "light_resolved c r s =
     map_option (\<lambda>(x, n). (case x of Panic \<Rightarrow> Panic | _ \<Rightarrow> Ok c, s\<lparr>light := n\<rparr>)) r"

text \<open>The handlers do not hold the lock; \<open>None\<close> never happens here.\<close>

definition light_handle_command ::
  "'z block_env_scheme \<Rightarrow> string \<Rightarrow> u64 \<Rightarrow> u64 \<Rightarrow> u64 \<Rightarrow> PeerHandle \<Rightarrow> Message \<Rightarrow> LightPeer
     \<Rightarrow> (Command, PeerError, LightPeer) run option"
where
  "light_handle_command E ed25519_text now now' now'' peer m s =
     (let n = light s
      in case command m of
        Connect \<Rightarrow>
          Some (Ok (if 4 \<le> version m then AcknowledgeConnectionWithFlags 0 else AcknowledgeConnection), s)
      | AcknowledgeConnection \<Rightarrow> Some (unhandled ''AcknowledgeConnection'', s)
      | AcknowledgeConnectionWithFlags _ \<Rightarrow> Some (unhandled ''AcknowledgeConnectionWithFlags'', s)
      | Ping height \<Rightarrow> Some (Ok (Pong (light_get_height n)), light_ping peer height s)
      | Pong _ \<Rightarrow> Some (unhandled ''Pong'', s)
      | GetPeers \<Rightarrow> Some (Ok (SendPeers (light_peer_addresses n)), s)
      | SendPeers _ \<Rightarrow> Some (unhandled ''SendPeers'', s)
      | NewBlock b \<Rightarrow>
          if ln_is_syncing n then Some (Ok NewBlockResolved, s)
          else light_resolved NewBlockResolved (light_accept_block E False b False n) s
      | NewBlockResolved \<Rightarrow> Some (unhandled ''NewBlockAccepted'', s)
      | NewTransaction tx \<Rightarrow>
          if ln_is_syncing n then Some (Ok NewTransactionResolved, s)
          else light_resolved NewTransactionResolved
            (Some (light_accept_transaction E ed25519_text now now' now'' tx False n)) s
      | NewTransactionResolved \<Rightarrow> Some (unhandled ''NewTransactionAccepted'', s)
      | GetBlock _ \<Rightarrow> Some (Ok (GetBlockResponse None), s)
      | GetBlockResponse _ \<Rightarrow> Some (unhandled ''GetBlockResponse'', s)
      | GetBlockHashes _ _ \<Rightarrow> Some (Ok (GetBlockHashesResponse []), s)
      | GetBlockHashesResponse _ \<Rightarrow> Some (unhandled ''GetBlockResponse'', s)
      | GetTransactionMerkleProof _ _ \<Rightarrow> Some (Ok (GetTransactionMerkleProofResponse None), s)
      | GetTransactionMerkleProofResponse _ \<Rightarrow> Some (unhandled ''GetTransactionMerkleProofResponse'', s)
      | GetBlockMetadata _ \<Rightarrow> Some (Ok (GetBlockMetadataResponse None), s)
      | GetBlockMetadataResponse _ \<Rightarrow> Some (unhandled ''GetBlockMetadataResponse'', s)
      | GetBlockMetadatas _ _ \<Rightarrow> Some (Ok (GetBlockMetadatasResponse []), s)
      | GetBlockMetadatasResponse _ \<Rightarrow> Some (unhandled ''GetBlockMetadatasResponse'', s))"

definition light_on_message ::
  "'z block_env_scheme \<Rightarrow> string \<Rightarrow> u64 \<Rightarrow> u64 \<Rightarrow> u64 \<Rightarrow> PeerHandle \<Rightarrow> Message \<Rightarrow> LightPeer
     \<Rightarrow> (Message, PeerError, LightPeer) run option"
where
  "light_on_message E ed25519_text now now' now'' peer m s =
     map_option (\<lambda>r. bind_run r (\<lambda>c s. (Ok (make_response m c), s)))
       (light_handle_command E ed25519_text now now' now'' peer m s)"

definition light_behavior_get_height :: "LightPeer \<Rightarrow> usize" where
  "light_behavior_get_height s = light_get_height (light s)"

text \<open>The task; \<open>Some\<close> error is what the peer is killed for.\<close>

definition run_light_sync ::
  "'z block_env_scheme \<Rightarrow> network \<Rightarrow> (Command \<Rightarrow> (Command, PeerError) result) \<Rightarrow> LightNodeState
     \<Rightarrow> (LightNodeSyncError option, LightNodeSyncError) light_run"
where
  "run_light_sync E net probe s =
     map_option (\<lambda>(r, s). case r of
         Ok _ \<Rightarrow> (Ok None, s\<lparr>ln_is_syncing := False\<rparr>)
       | Err e \<Rightarrow> (Ok (Some e), s\<lparr>ln_is_syncing := False\<rparr>)
       | Panic \<Rightarrow> (Panic, s))
       (start_sync E True net probe (s\<lparr>ln_mempool := mempool_clear (ln_mempool s)\<rparr>))"

primrec light_punish_times :: "bool \<Rightarrow> nat \<Rightarrow> IpAddr \<Rightarrow> LightNodeState \<Rightarrow> (LightNodeState, 'e) result" where
  "light_punish_times chk 0 a s = Ok s"
| "light_punish_times chk (Suc n) a s = bind_res (light_punish_ip chk a s) (light_punish_times chk n a)"

definition light_on_kill :: "bool \<Rightarrow> PeerHandle \<Rightarrow> LightNodeState \<Rightarrow> (LightNodeState, 'e) result" where
  "light_on_kill chk peer s =
     bind_res (light_punish_ip chk (ip (address peer))
         (s\<lparr>ln_connected_peers := List.filter (\<lambda>(a, _). a \<noteq> address peer) (ln_connected_peers s)\<rparr>)) (\<lambda>s.
       if BAN_SCORE_THRESHOLD < score_of (ip (address peer)) (ln_client_health_scores s)
       then light_punish_times chk 10 (ip (address peer)) s else Ok s)"

end
