(* ===== verification/Light_Tracking.thy ===== *)
theory Light_Tracking
  imports Light_Behavior Full_Sync
begin

text \<open>
  What a light node's synchronisation promises: with full nodes that serve a valid chain, and as long
  as no block has two transactions of a watched address, the rows of every watched address end up as
  its part of the chain's ledger.  The blocks that the filters leave out are exactly as good as scanned.
\<close>

section \<open>The filters\<close>

lemma any_interested_created:
  assumes "ln_signs C" and "create_filter C txs = Ok f"
  obtains x where "any_interested C f as = Ok x"
    and "\<not> x \<Longrightarrow> \<forall>a \<in> set as. List.filter (\<lambda>tx. contains_address tx a) txs = []"
proof -
  have "\<exists>x. any_interested C f as = Ok x
      \<and> (\<not> x \<longrightarrow> (\<forall>a \<in> set as. List.filter (\<lambda>tx. contains_address tx a) txs = []))"
  proof (induction as)
    case (Cons a as)
    then obtain x where x: "any_interested C f as = Ok x"
      "\<not> x \<longrightarrow> (\<forall>a \<in> set as. List.filter (\<lambda>tx. contains_address tx a) txs = [])" by blast
    obtain y where y: "search_filter C f a = Ok y" using created_filter_search(1) [OF assms] by blast
    have "List.filter (\<lambda>tx. contains_address tx a) txs = []" if "\<not> y"
      unfolding filter_empty_conv using created_filter_search(2) [OF assms] y that by auto
    with x y show ?case by (cases y) auto
  qed auto
  with that show ?thesis by blast
qed

section \<open>Rows stay at or below the height\<close>

definition rows_below :: "usize \<Rightarrow> LightNodeUTXOs \<Rightarrow> bool" where
  "rows_below i u \<longleftrightarrow> (\<forall>a h. i \<le> h \<longrightarrow> fmlookup (lu_utxos u) (a, h) = None)"

definition no_new_rows :: "usize \<Rightarrow> LightNodeUTXOs \<Rightarrow> LightNodeUTXOs \<Rightarrow> bool" where
  "no_new_rows height u u' \<longleftrightarrow>
     (\<forall>k. snd k \<noteq> height \<longrightarrow> fmlookup (lu_utxos u) k = None \<longrightarrow> fmlookup (lu_utxos u') k = None)"

lemma no_new_rows_trans: "no_new_rows h u v \<Longrightarrow> no_new_rows h v w \<Longrightarrow> no_new_rows h u w"
  by (simp add: no_new_rows_def)

lemma no_new_rows_spend: "no_new_rows h u (light_spend_input a h i u)"
proof -
  have other: "fmlookup (lu_utxos (fold (spend_in_row h i) kvs v)) k = fmlookup (lu_utxos v) k"
    if "\<forall>kv \<in> set kvs. fst kv \<noteq> k" for kvs k v
    using that by (induction kvs arbitrary: v) (simp_all add: spend_in_row_other not_sym)
  show ?thesis
    unfolding no_new_rows_def
  proof (intro allI impI)
    fix k assume none: "fmlookup (lu_utxos u) k = None"
    have "\<forall>kv \<in> set (scan_prefix a u). fst kv \<noteq> k" using none by (auto simp: in_scan_prefix)
    with none show "fmlookup (lu_utxos (light_spend_input a h i u)) k = None"
      by (simp add: light_spend_input_def other)
  qed
qed

lemma no_new_rows_fold: "no_new_rows h u (fold (light_spend_input a h) is u)"
proof (induction "is" arbitrary: u)
  case (Cons i "is")
  show ?case using no_new_rows_trans [OF no_new_rows_spend Cons.IH] by simp
qed (simp add: no_new_rows_def)

lemma no_new_rows_tx:
  assumes "scan_transaction b h a tx s = (Ok s' :: (_, 'e) result)" shows "no_new_rows h (fst s) (fst s')"
proof -
  obtain u ts where s: "s = (u, ts)" by (cases s)
  show ?thesis
    using assms no_new_rows_fold [of h u a "inputs tx"]
    by (auto simp: s scan_transaction_def Let_def res_simps no_new_rows_def split: if_splits)
qed

lemma no_new_rows_scan:
  assumes "scan_block b h s = (Ok s' :: (_, 'e) result)" shows "no_new_rows h (fst s) (fst s')"
proof -
  have addr: "no_new_rows h (fst s) (fst s')" if "scan_address b h a s = (Ok s' :: (_, 'e) result)" for a s s'
  proof (cases "fmlookup (lu_utxos (fst s)) (a, h) = None")
    case True
    then have "for_each (scan_transaction b h a) (transactions b) s = (Ok s' :: (_, 'e) result)"
      using that by (simp add: scan_address_def)
    then show ?thesis
      by (rule for_each_inv [where P = "\<lambda>t. no_new_rows h (fst s) (fst t)"])
        (simp add: no_new_rows_def, rule no_new_rows_trans, assumption, rule no_new_rows_tx)
  next
    case False
    then show ?thesis using that by (simp add: scan_address_def no_new_rows_def)
  qed
  from assms have "for_each (scan_address b h) (get_watched (fst s)) s = (Ok s' :: (_, 'e) result)"
    by (simp add: scan_block_def)
  then show ?thesis
    by (rule for_each_inv [where P = "\<lambda>t. no_new_rows h (fst s) (fst t)"])
      (simp add: no_new_rows_def, rule no_new_rows_trans, assumption, rule addr)
qed

section \<open>What the network serves\<close>

definition network_serves :: "network \<Rightarrow> log_entry list \<Rightarrow> bool" where
  "network_serves net P \<longleftrightarrow>
     (\<forall>k. (\<forall>a b. a < b \<longrightarrow> b \<le> length P \<longrightarrow> b - a \<le> METADATA_FETCH_MAX_COUNT \<longrightarrow>
             net k (GetBlockMetadatas a b) \<noteq> []
             \<and> (\<forall>r \<in> set (net k (GetBlockMetadatas a b)). r = Some
                  (GetBlockMetadatasResponse (map (meta \<circ> fst) (take (b - a) (drop a P))))))
        \<and> (\<forall>h. net k (GetBlock h) \<noteq> []
             \<and> (\<forall>r \<in> set (net k (GetBlock h)). r = Some
                  (GetBlockResponse (map_option fst (find (\<lambda>e. entry_hash e = h) P))))))"

text \<open>Peers that are asked one after the other; a reply that fails is no reply.\<close>

definition network_of :: "('s \<Rightarrow> nat \<Rightarrow> Command \<Rightarrow> (Command, PeerError) result) \<Rightarrow> 's list \<Rightarrow> network" where
  "network_of replies peers k c =
     map (\<lambda>p. case replies p k c of Ok reply \<Rightarrow> Some reply | _ \<Rightarrow> None) peers"

text \<open>Servers that all hold the chain are such a network.\<close>

context chain_server
begin

lemma network_of_servers:
  assumes "peers \<noteq> []" and "\<forall>p \<in> set peers. holds p P"
  shows "network_serves (network_of answer peers) P"
  using assms by (auto simp: network_serves_def network_of_def answer_block answer_metadatas)

end

section \<open>The chain that is served\<close>

definition light_valid :: "'z block_env_scheme \<Rightarrow> log_entry list \<Rightarrow> bool" where
  "light_valid E P \<longleftrightarrow>
     distinct (map entry_hash P)
     \<and> (\<forall>i < length P. let b = fst (P ! i); L = ledger_of_chain (take i P) in
          validate_block_hash E b = Ok ()
          \<and> (0 < i \<longrightarrow> previous_block (meta b) \<noteq> hash_new_from_buf 0)
          \<and> create_filter E (transactions b) = Ok (address_inclusion_filter (meta b))
          \<and> runnable (transactions b) L \<and> owners_match (transactions b) L)"

definition light_synced :: "LightNodeState \<Rightarrow> log_entry list \<Rightarrow> nat \<Rightarrow> bool" where
  "light_synced s P i \<longleftrightarrow>
     light_get_height s = i \<and> tracks (ln_utxos s) (ledger_of_chain (take i P))
     \<and> rows_below i (ln_utxos s) \<and> stored_block_hashes s = None
     \<and> ln_last_seen_block s \<notin> entry_hash ` set (drop i P)"

lemma ledger_of_chain_take:
  "i < length P \<Longrightarrow> ledger_of_chain (take (Suc i) P) =
     ledger_block (transactions (fst (P ! i))) (ledger_of_chain (take i P))"
  by (simp add: take_Suc_conv_app_nth ledger_of_chain_def)

lemma entry_hash_drop:
  assumes "distinct (map entry_hash P)" and "i < length P"
  shows "drop i P = P ! i # drop (Suc i) P" and "entry_hash (P ! i) \<notin> entry_hash ` set (drop (Suc i) P)"
proof -
  show d: "drop i P = P ! i # drop (Suc i) P" using assms(2) by (simp add: Cons_nth_drop_Suc)
  have "distinct (map entry_hash (drop i P))" using assms(1) by (simp add: drop_map [symmetric] distinct_drop)
  then show "entry_hash (P ! i) \<notin> entry_hash ` set (drop (Suc i) P)" by (simp add: d)
qed

text \<open>A block that no watched address is part of changes nothing for them.\<close>

lemma light_synced_skip:
  assumes synced: "light_synced s P i" and i: "i < length P" and P: "light_valid E P"
    and none: "\<forall>a \<in> set (get_watched (ln_utxos s)).
      List.filter (\<lambda>tx. contains_address tx a) (transactions (fst (P ! i))) = []"
  shows "light_synced (increment_height s) P (Suc i)"
proof -
  let ?b = "fst (P ! i)" and ?L = "ledger_of_chain (take i P)"
  have r: "runnable (transactions ?b) ?L" "owners_match (transactions ?b) ?L"
    and d: "distinct (map entry_hash P)"
    using P i by (auto simp: light_valid_def Let_def)
  have "light_view (ln_utxos s) a = ledger_view (ledger_block (transactions ?b) ?L) a"
    if "a |\<in>| watched (ln_utxos s)" for a
  proof -
    have "a \<in> set (get_watched (ln_utxos s))" using that by (simp add: get_watched_def sorted_list_of_fset.rep_eq)
    with none have "List.filter (\<lambda>tx. contains_address tx a) (transactions ?b) = []" by blast
    from scan_nobody(2,3) [OF this] ledger_block_view [OF r, of a]
    have "ledger_view (ledger_block (transactions ?b) ?L) a = ledger_view ?L a" by simp
    with synced that show ?thesis by (simp add: light_synced_def tracks_def)
  qed
  then show ?thesis
    using synced by (auto simp: light_synced_def tracks_def ledger_of_chain_take [OF i] rows_below_def
        entry_hash_drop(1) [OF d i])
qed

text \<open>A block that is scanned brings the rows of the watched addresses up to date.\<close>

lemma light_synced_block:
  assumes synced: "light_synced s P i" and i: "0 < i" "i < length P" and P: "light_valid E P"
    and solo: "\<forall>a. a |\<in>| watched (ln_utxos s) \<longrightarrow> solo a (transactions (fst (P ! i)))"
  obtains s' where "light_accept_block E False (fst (P ! i)) is_historical s = Some (Ok (), s')"
    and "light_synced s' P (Suc i)" and "watched (ln_utxos s') = watched (ln_utxos s)"
    and "ln_connected_peers s' = ln_connected_peers s"
proof -
  let ?b = "fst (P ! i)" and ?L = "ledger_of_chain (take i P)"
  have v: "validate_block_hash E ?b = Ok ()" "previous_block (meta ?b) \<noteq> hash_new_from_buf 0"
    "runnable (transactions ?b) ?L" "owners_match (transactions ?b) ?L" "distinct (map entry_hash P)"
    using P i by (auto simp: light_valid_def Let_def)
  have h: "hash (meta ?b) = Some (entry_hash (P ! i))"
    using v(1) by (auto simp: validate_block_hash_Ok_iff entry_hash_def)
  note drop = entry_hash_drop [OF v(5) i(2)]
  let ?t = "light_set_last_seen_block (entry_hash (P ! i)) s"
  have seen: "entry_hash (P ! i) \<noteq> ln_last_seen_block s" using synced by (auto simp: light_synced_def drop(1))
  have "newest_hash ?t \<noteq> previous_block (meta ?b)"
    using synced v(2)
    by (simp add: newest_hash_def last_seen_block_hashes_def light_synced_def light_set_last_seen_block_def)
  moreover obtain ids where "map transaction_id (transactions ?b) = map Some ids"
  proof -
    have "\<forall>tx \<in> set (transactions ?b). transaction_id tx = Some (the (transaction_id tx))"
      using v(3) by (auto simp: runnable_def)
    then have "map transaction_id (transactions ?b) = map Some (map (the \<circ> transaction_id) (transactions ?b))"
      by simp
    then show ?thesis by (rule that)
  qed
  moreover have "light_get_height ?t = i" "ln_utxos ?t = ln_utxos s" "transaction_store ?t = transaction_store s"
    using synced by (simp_all add: light_synced_def light_get_height_def light_set_last_seen_block_def)
  ultimately obtain u ts where scan:
    "scan_block ?b i (ln_utxos s, transaction_store s) = (Ok (u, ts) :: (_, BlockchainError) result)"
    and "apply_light_block E ?b is_historical ?t = (Ok (), increment_height (?t\<lparr>
       ln_mempool := spend_transactions ids (ln_mempool ?t), ln_utxos := u, transaction_store := ts,
       ln_transaction_difficulty := difficulty_after ?b\<rparr>))"
    using apply_light_block_Ok [of ?t ?b E ids is_historical] v(1) by metis
  moreover define s' where "s' = increment_height (?t\<lparr>
       ln_mempool := spend_transactions ids (ln_mempool ?t), ln_utxos := u, transaction_store := ts,
       ln_transaction_difficulty := difficulty_after ?b\<rparr>)"
  ultimately have "light_accept_block E False ?b is_historical s = Some (Ok (), s')"
    using light_accept_block_new [OF v(1) h seen, where held = False and is_historical = is_historical] by simp
  moreover have "light_get_height s' = Suc i"
    using synced unfolding s'_def light_height_simps(2)
    by (simp add: light_synced_def light_get_height_def light_set_last_seen_block_def)
  moreover have fields: "ln_utxos s' = u" "stored_block_hashes s' = None"
    "ln_last_seen_block s' = entry_hash (P ! i)" "ln_connected_peers s' = ln_connected_peers s"
    using synced by (simp_all add: s'_def light_synced_def light_set_last_seen_block_def)
  moreover have "tracks u (ledger_block (transactions ?b) ?L) \<and> watched u = watched (ln_utxos s)"
    using scan_block_tracks [OF scan _ v(3,4)] synced solo
    by (simp add: light_synced_def rows_below_def)
  moreover have "rows_below (Suc i) u"
    using no_new_rows_scan [OF scan] synced
    by (simp add: no_new_rows_def rows_below_def light_synced_def)
  ultimately show ?thesis
    using drop(2) by (intro that [of s']) (simp_all add: light_synced_def ledger_of_chain_take [OF i(2)])
qed

section \<open>Synchronising with a served chain\<close>

lemma all_agree_served:
  assumes "net k c \<noteq> []" and "\<forall>r \<in> set (net k c). r = Some reply" and "extract reply = Some x"
    and "n \<noteq> 0"
  shows "quorum_request n net k c extract = Some x"
  using assms by (intro all_agree) auto

lemma served_block_request:
  assumes "network_serves net P" and "distinct (map entry_hash P)" and "i < length P" and "n \<noteq> 0"
  shows "quorum_request n net k (GetBlock (entry_hash (P ! i))) reply_block = Some (fst (P ! i))"
proof -
  have "find (\<lambda>e. entry_hash e = entry_hash (P ! i)) P = Some (P ! i)"
    using assms(2,3) by (simp add: find_distinct_key)
  then have "GetBlockResponse (map_option fst (find (\<lambda>e. entry_hash e = entry_hash (P ! i)) P)) =
      GetBlockResponse (Some (fst (P ! i)))" by simp
  then have "net k (GetBlock (entry_hash (P ! i))) \<noteq> []"
    "\<forall>r \<in> set (net k (GetBlock (entry_hash (P ! i)))). r = Some (GetBlockResponse (Some (fst (P ! i))))"
    using assms(1) unfolding network_serves_def by metis+
  then show ?thesis by (rule all_agree_served [OF _ _ _ assms(4)]) simp
qed

lemma sync_metadatas_tracks:
  assumes net: "network_serves net P" and P: "light_valid E P" and ln: "ln_signs E"
    and synced: "light_synced s P i" and peers: "full_peers s \<noteq> []" and i: "i \<le> length P"
    and first: "i = 0 \<Longrightarrow> P \<noteq> [] \<Longrightarrow> any_interested E (address_inclusion_filter (meta (fst (P ! 0))))
      (get_watched (ln_utxos s)) = Ok False"
    and solo: "\<forall>e \<in> set P. \<forall>a. a |\<in>| watched (ln_utxos s) \<longrightarrow> solo a (transactions (fst e))"
  shows "\<exists>s'. sync_metadatas E False net k (map (meta \<circ> fst) (drop i P)) s = Some (Ok (), s')
    \<and> light_synced s' P (length P) \<and> watched (ln_utxos s') = watched (ln_utxos s)"
  using synced peers i first solo
proof (induction "length P - i" arbitrary: i k s)
  case 0
  then show ?case by simp
next
  case (Suc m)
  then have i: "i < length P" by simp
  let ?b = "fst (P ! i)"
  have v: "validate_block_hash E ?b = Ok ()"
    "create_filter E (transactions ?b) = Ok (address_inclusion_filter (meta ?b))"
    and d: "distinct (map entry_hash P)"
    using P i by (auto simp: light_valid_def Let_def)
  have h: "hash (meta ?b) = Some (entry_hash (P ! i))"
    using v(1) by (auto simp: validate_block_hash_Ok_iff entry_hash_def)
  obtain x where x: "any_interested E (address_inclusion_filter (meta ?b)) (get_watched (ln_utxos s)) = Ok x"
    "\<not> x \<Longrightarrow> \<forall>a \<in> set (get_watched (ln_utxos s)).
      List.filter (\<lambda>tx. contains_address tx a) (transactions ?b) = []"
    using any_interested_created [OF ln v(2)] by metis
  have m: "m = length P - Suc i" "Suc i \<le> length P" using Suc.hyps(2) i by simp_all
  show ?case
  proof (cases x)
    case False
    let ?s = "increment_height s"
    have "light_synced ?s P (Suc i)"
      using light_synced_skip [OF Suc.prems(1) i P] x(2) False by blast
    moreover have "full_peers ?s \<noteq> []" using Suc.prems(2) by (simp add: full_peers_def)
    ultimately obtain s' where
      "sync_metadatas E False net k (map (meta \<circ> fst) (drop (Suc i) P)) ?s = Some (Ok (), s')"
      "light_synced s' P (length P)" "watched (ln_utxos s') = watched (ln_utxos s)"
      using Suc.hyps(1) [OF m(1), of ?s k] m(2) Suc.prems(5) by auto
    with False show ?thesis by (simp add: entry_hash_drop(1) [OF d i] h x(1))
  next
    case True
    have "0 < i"
    proof (rule ccontr)
      assume "\<not> 0 < i"
      then have "i = 0" "P \<noteq> []" using i by auto
      with Suc.prems(4) x(1) True show False by auto
    qed
    moreover have "\<forall>a. a |\<in>| watched (ln_utxos s) \<longrightarrow> solo a (transactions ?b)"
      using Suc.prems(5) i by simp
    ultimately obtain t where t: "light_accept_block E False ?b True s = Some (Ok (), t)"
      "light_synced t P (Suc i)" "watched (ln_utxos t) = watched (ln_utxos s)"
      "ln_connected_peers t = ln_connected_peers s"
      using light_synced_block [OF Suc.prems(1) _ i P] by blast
    have "full_peers t \<noteq> []" using Suc.prems(2) t(4) by (simp add: full_peers_def)
    then obtain s' where
      "sync_metadatas E False net (k + 1) (map (meta \<circ> fst) (drop (Suc i) P)) t = Some (Ok (), s')"
      "light_synced s' P (length P)" "watched (ln_utxos s') = watched (ln_utxos s)"
      using Suc.hyps(1) [OF m(1) t(2), of "k + 1"] m(2) Suc.prems(5) t(3) by auto
    moreover have "quorum_request (length (full_peers s)) net k (GetBlock (entry_hash (P ! i))) reply_block
        = Some ?b"
      using served_block_request [OF net d i] Suc.prems(2) by simp
    ultimately show ?thesis
      using True by (simp add: entry_hash_drop(1) [OF d i] h x(1) t(1) map_light_err_def)
  qed
qed

lemma fetched_chunks:
  assumes "network_serves net P" and "n \<noteq> 0" and "a \<le> length P"
  shows "concat (map (\<lambda>r. case r of None \<Rightarrow> [] | Some ms \<Rightarrow> ms)
      (fetch_all_metadata_chunks n net k (chunk_ranges a (length P)))) = map (meta \<circ> fst) (drop a P)"
proof -
  let ?rs = "chunk_ranges a (length P)" and ?ms = "map (meta \<circ> fst) P"
  have cover: "concat (map (\<lambda>(i, j). take (j - i) (drop i ?ms)) ?rs) = take (length P - a) (drop a ?ms)"
    "\<forall>(i, j) \<in> set ?rs. i < j \<and> j - i \<le> METADATA_FETCH_MAX_COUNT \<and> j \<le> length P"
    using chunk_ranges_cover [of a "length P" ?ms] assms(3) by simp_all
  have "quorum_request n net j (GetBlockMetadatas x y) reply_metadatas = Some (take (y - x) (drop x ?ms))"
    if "(x, y) \<in> set ?rs" for x y j
  proof -
    have "x < y" "y \<le> length P" "y - x \<le> METADATA_FETCH_MAX_COUNT" using cover(2) that by auto
    with assms(1) show ?thesis
      by (intro all_agree_served [OF _ _ _ assms(2), of net j _
            "GetBlockMetadatasResponse (map (meta \<circ> fst) (take (y - x) (drop x P)))"])
        (auto simp: network_serves_def take_map drop_map)
  qed
  then have "fetch_all_metadata_chunks n net k ?rs =
      map (\<lambda>(i, (x, y)). Some (take (y - x) (drop x ?ms))) (enumerate_list ?rs)"
    unfolding fetch_all_metadata_chunks_def
    by (intro map_cong refl) (auto simp: enumerate_list_def dest: set_zip_rightD)
  also have "\<dots> = map (\<lambda>(x, y). Some (take (y - x) (drop x ?ms))) (map snd (enumerate_list ?rs))"
    by (simp add: case_prod_beta comp_def)
  finally have "fetch_all_metadata_chunks n net k ?rs = map (\<lambda>(x, y). Some (take (y - x) (drop x ?ms))) ?rs"
    by (simp only: enumerate_list_snd)
  then have "concat (map (\<lambda>r. case r of None \<Rightarrow> [] | Some ms \<Rightarrow> ms) (fetch_all_metadata_chunks n net k ?rs)) =
      concat (map (\<lambda>(i, j). take (j - i) (drop i ?ms)) ?rs)"
    by (simp add: comp_def case_prod_beta')
  then show ?thesis using cover(1) by (simp add: drop_map)
qed

text \<open>From a new database, or one whose height was set to zero.\<close>

lemma start_sync_tracks:
  assumes net: "network_serves net P" and probe: "probe (Ping 0) = Ok (Pong (length P))"
    and P: "light_valid E P" and ln: "ln_signs E" and synced: "light_synced s P 0"
    and peers: "full_peers s \<noteq> []"
    and first: "P \<noteq> [] \<Longrightarrow> any_interested E (address_inclusion_filter (meta (fst (P ! 0))))
      (get_watched (ln_utxos s)) = Ok False"
    and solo: "\<forall>e \<in> set P. \<forall>a. a |\<in>| watched (ln_utxos s) \<longrightarrow> solo a (transactions (fst e))"
  shows "\<exists>s'. start_sync E False net probe s = Some (Ok (), s')
    \<and> light_get_height s' = length P
    \<and> (\<forall>a. a |\<in>| watched (ln_utxos s) \<longrightarrow> light_view (ln_utxos s') a = ledger_view (ledger_of_chain P) a)"
proof -
  have height: "light_get_height s = 0" using synced by (simp add: light_synced_def)
  have "ln_connected_peers s \<noteq> []" using peers by (auto simp: full_peers_def)
  then have start: "start_sync E False net probe s =
      (if length P = 0 then Some (Ok (), s)
       else sync_metadatas E False net (1 + length (chunk_ranges 0 (length P))) (map (meta \<circ> fst) P) s)"
    using fetched_chunks [OF net, of "length (full_peers s)" 0 1] peers
    by (simp add: start_sync_def sync_from_def height probe Let_def split: option.split)
  obtain s' where "sync_metadatas E False net (1 + length (chunk_ranges 0 (length P)))
      (map (meta \<circ> fst) (drop 0 P)) s = Some (Ok (), s')"
    "light_synced s' P (length P)" "watched (ln_utxos s') = watched (ln_utxos s)"
    using sync_metadatas_tracks [OF net P ln synced peers _ _ solo] first by blast
  moreover have "light_get_height s' = length P" "tracks (ln_utxos s') (ledger_of_chain P)"
    using \<open>light_synced s' P (length P)\<close> by (simp_all add: light_synced_def)
  ultimately show ?thesis
  proof (cases "P = []")
    case True
    have "tracks (ln_utxos s) (ledger_of_chain P)" using synced True by (simp add: light_synced_def)
    then show ?thesis using start height True by (simp add: tracks_def)
  next
    case False
    with start have "start_sync E False net probe s = Some (Ok (), s')"
      using \<open>sync_metadatas _ _ _ _ _ _ = _\<close> by simp
    with \<open>light_get_height s' = length P\<close> \<open>tracks _ _\<close> \<open>watched (ln_utxos s') = _\<close> show ?thesis
      unfolding tracks_def by simp
  qed
qed

context chain_server
begin

lemma start_sync_with_servers:
  assumes p: "p \<in> set peers" and servers: "\<forall>p \<in> set peers. holds p P"
    and "light_valid E P" and "ln_signs E" and "light_synced s P 0" and "full_peers s \<noteq> []"
    and "P \<noteq> [] \<Longrightarrow> any_interested E (address_inclusion_filter (meta (fst (P ! 0))))
      (get_watched (ln_utxos s)) = Ok False"
    and "\<forall>e \<in> set P. \<forall>a. a |\<in>| watched (ln_utxos s) \<longrightarrow> solo a (transactions (fst e))"
  shows "\<exists>s'. start_sync E False (network_of answer peers) (answer p 0) s = Some (Ok (), s')
    \<and> light_get_height s' = length P
    \<and> (\<forall>a. a |\<in>| watched (ln_utxos s) \<longrightarrow> light_view (ln_utxos s') a = ledger_view (ledger_of_chain P) a)"
proof -
  have "peers \<noteq> []" "holds p P" using p servers by auto
  then have "network_serves (network_of answer peers) P" "answer p 0 (Ping 0) = Ok (Pong (length P))"
    using servers by (auto intro: network_of_servers answer_ping)
  then show ?thesis using assms(3-) by (rule start_sync_tracks)
qed

end

end
