(* ===== verification/Data_Properties.thy ===== *)
theory Data_Properties
  imports Demo_Payment Light_Tracking
begin

text \<open>
  The properties of the data a block is made of: how far a block moves the targets, Merkle proofs, the
  filter of addresses, the printed form of keys and hashes, mining, and what the hash of a block covers.
\<close>

section \<open>Targets\<close>

text \<open>
  C27. One block moves the block target by at most five hundredths after SCIP-2 and by at most a fifth
  before, and the transaction target by at most a fifth; targets stay within 256 bits.
\<close>

theorem retarget_is_bounded:
  "(let t = unat (block_difficulty d); t' = unat (block_difficulty (update_difficulty b d));
        x = unat (transaction_difficulty d); x' = unat (transaction_difficulty (update_difficulty b d))
    in (if SCIP_2_MIGRATION < timestamp b
        then min (t * 950000 div 1000000) max_256_bui \<le> t' \<and> t' \<le> t * 1050000 div 1000000
        else min (t * 800 div 1000) max_256_bui \<le> t' \<and> t' \<le> t * 1200 div 1000)
       \<and> min (x * 800 div 1000) max_256_bui \<le> x' \<and> x' \<le> x * 1200 div 1000
       \<and> t' \<le> max_256_bui \<and> x' \<le> max_256_bui)"
  unfolding Let_def update_difficulty_fields
  using scale_capped_bounds [OF scip2_bounds, where d = "block_difficulty d" and s = 1000000]
    scale_capped_bounds [OF time_ratio_bounds, where d = "block_difficulty d" and s = 1000]
    scale_capped_bounds [OF tx_ratio_bounds, where d = "transaction_difficulty d" and s = 1000]
  by (auto simp: scale_capped_def)

section \<open>Merkle proofs\<close>

text \<open>
  C29. The tree over the ids of a block includes exactly their leaf hashes, makes a proof for exactly
  these, and a proof it makes, like one made from the list of leaf hashes, validates against its root.  And
  two proofs for the same position that validate against one root are for the same leaf, or they contain two
  different inputs of SHA-256 with the same digest, which \<open>path_collision\<close> finds.
\<close>

theorem merkle_proofs_are_complete_and_binding:
  assumes "ids \<noteq> []"
  shows "(verify_inclusion (merkle_build C ids) h \<longleftrightarrow> h \<in> leaf_hash C ` set ids)
    \<and> (\<exists>p. generate_proof (merkle_build C ids) h = (Ok p :: (_, 'e) result)
         \<and> (p \<noteq> None \<longleftrightarrow> h \<in> leaf_hash C ` set ids)
         \<and> (\<forall>q. p = Some q \<longrightarrow> proof_tx_hash q = h \<and> proof_validate C q (root_hash (merkle_build C ids))))
    \<and> (case create_proof C (map (leaf_hash C) ids) h of
         None \<Rightarrow> h \<notin> leaf_hash C ` set ids
       | Some q \<Rightarrow> proof_tx_hash q = h \<and> proof_validate C q (root_hash (merkle_build C ids)))
    \<and> (\<forall>p q r. proof_validate C p r \<longrightarrow> proof_validate C q r \<longrightarrow> map snd (proof_path p) = map snd (proof_path q) \<longrightarrow>
         proof_tx_hash p \<noteq> proof_tx_hash q \<longrightarrow>
         (\<exists>x y. path_collision C (proof_path p) (proof_tx_hash p) (proof_path q) (proof_tx_hash q) = Some (x, y)
            \<and> x \<noteq> y \<and> sha256 C x = sha256 C y))"
proof (intro conjI allI impI)
  show "verify_inclusion (merkle_build C ids) h \<longleftrightarrow> h \<in> leaf_hash C ` set ids"
    by (rule verify_inclusion_build [OF assms])
  show "\<exists>p. generate_proof (merkle_build C ids) h = (Ok p :: (_, 'e) result)
       \<and> (p \<noteq> None \<longleftrightarrow> h \<in> leaf_hash C ` set ids)
       \<and> (\<forall>q. p = Some q \<longrightarrow> proof_tx_hash q = h \<and> proof_validate C q (root_hash (merkle_build C ids)))"
    by (rule generate_proof_build [OF assms])
  show "case create_proof C (map (leaf_hash C) ids) h of None \<Rightarrow> h \<notin> leaf_hash C ` set ids
     | Some q \<Rightarrow> proof_tx_hash q = h \<and> proof_validate C q (root_hash (merkle_build C ids))"
    using create_proof_root [where hs = "map (leaf_hash C) ids" and h = h and C = C] by (simp add: root_hash_build split: option.splits)
  fix p q r
  assume "proof_validate C p r" "proof_validate C q r"
    and pq: "map snd (proof_path p) = map snd (proof_path q)" "proof_tx_hash p \<noteq> proof_tx_hash q"
  then have "fold (path_step C) (proof_path p) (proof_tx_hash p) = fold (path_step C) (proof_path q) (proof_tx_hash q)"
    by (simp add: proof_validate_def)
  from path_collision_complete [OF pq this]
  show "\<exists>x y. path_collision C (proof_path p) (proof_tx_hash p) (proof_path q) (proof_tx_hash q) = Some (x, y)
      \<and> x \<noteq> y \<and> sha256 C x = sha256 C y"
    using path_collision_sound by fast
qed

theorem merkle_proofs_are_complete_and_binding_witness:
  "verify_inclusion (merkle_build demo [reward_id, demo_stamp 1200]) (leaf_hash demo reward_id)
    \<and> create_proof demo (map (leaf_hash demo) [reward_id, demo_stamp 1200]) (leaf_hash demo reward_id) \<noteq> None
    \<and> (\<exists>x y. path_collision demo [(1, False)] 2 [(3, False)] 4 = Some (x, y) \<and> x \<noteq> y \<and> sha256 demo x = sha256 demo y)"
proof -
  let ?p = "\<lparr>proof_tx_hash = 2, proof_path = [(1, False)]\<rparr>" and ?q = "\<lparr>proof_tx_hash = 4, proof_path = [(3, False)]\<rparr>"
  have valid: "proof_validate demo ?p 64" "proof_validate demo ?q 64"
    by (simp_all add: proof_validate_def path_step_def hash_pair_def)
  note all = merkle_proofs_are_complete_and_binding
    [of "[reward_id, demo_stamp 1200]" demo "leaf_hash demo reward_id", OF list.distinct(2)]
  note tree = all [THEN conjunct1] and made = all [THEN conjunct2, THEN conjunct2, THEN conjunct1]
    and binding = all [THEN conjunct2, THEN conjunct2, THEN conjunct2]
  from binding [rule_format, OF valid]
  have "\<exists>x y. path_collision demo [(1, False)] 2 [(3, False)] 4 = Some (x, y) \<and> x \<noteq> y \<and> sha256 demo x = sha256 demo y"
    by simp
  moreover from made have "create_proof demo (map (leaf_hash demo) [reward_id, demo_stamp 1200]) (leaf_hash demo reward_id) \<noteq> None"
    by (auto split: option.splits)
  ultimately show ?thesis using tree by simp
qed

section \<open>The filter of addresses\<close>

text \<open>
  C28. The filter of a block can always be made and always be searched, and it never misses an address
  that a transaction of the block involves.
\<close>

theorem filter_never_misses:
  assumes "ln_signs E"
  shows "\<exists>f. create_filter E txs = Ok f \<and> (\<forall>a. \<exists>x. search_filter E f a = Ok x)
    \<and> (\<forall>tx \<in> set txs. \<forall>a. contains_address tx a \<longrightarrow> search_filter E f a = Ok True)"
proof -
  obtain f where "create_filter E txs = Ok f" using create_filter_spec [OF assms] by blast
  then show ?thesis using created_filter_search [OF assms] by blast
qed

theorem filter_never_misses_witness:
  "\<exists>f. create_filter demo [demo_reward] = Ok f \<and> search_filter demo f demo_miner = Ok True"
  using filter_never_misses [OF demo_ln_signs, of "[demo_reward]"]
  by (auto simp: contains_address_iff demo_reward_def)

section \<open>Printed form\<close>

text \<open>
  The base 36 form of an address, a hash, a private key or a signature reads back as what was
  printed, so no two of a kind print alike.
\<close>

theorem base36_reads_back:
  "public_new_from_base36 (public_dump_base36 p) = Some p \<and> hash_new_from_base36 (hash_dump_base36 h) = Some h
    \<and> private_new_from_base36 (private_dump_base36 k) = Some k \<and> sig_new_from_base36 (sig_dump_base36 s) = Some s"
  by (simp add: public36.base36_roundtrip hash36.base36_roundtrip private36.base36_roundtrip
      sig36.base36_roundtrip)

section \<open>Mining\<close>

text \<open>
  C33. Mining a transaction ends as soon as a nonce that meets the target is drawn, and what it returns
  is the transaction with a nonce and with the id that validation asks for.
\<close>

theorem mining_finds_a_nonce:
  assumes "\<And>m. m \<in> set nonces \<Longrightarrow> \<exists>b. get_tx_hashing_buf E (tx\<lparr>tx_nonce := m\<rparr>) = Ok b"
    and "n \<in> set nonces" and "get_tx_hashing_buf E (tx\<lparr>tx_nonce := n\<rparr>) = Ok buf"
    and "unat (hash_buf (hash_new E buf)) \<le> target"
  shows "\<exists>m \<in> set nonces. \<exists>b. get_tx_hashing_buf E (tx\<lparr>tx_nonce := m\<rparr>) = Ok b
    \<and> tx_compute_pow E target nonces tx = Some (Ok (tx\<lparr>tx_nonce := m, transaction_id := Some (hash_new E b)\<rparr>))
    \<and> unat (hash_buf (hash_new E b)) \<le> target"
proof -
  obtain tx' where "tx_compute_pow E target nonces tx = Some (Ok tx')"
    using tx_compute_pow_enough [OF assms] by blast
  with tx_compute_pow_Ok [OF this] show ?thesis by blast
qed

theorem mining_finds_a_nonce_witness:
  "\<exists>m \<in> {3, 5}. tx_compute_pow demo 5000 [3, 5] demo_payment =
     Some (Ok (demo_payment\<lparr>tx_nonce := m, transaction_id := Some (demo_stamp 1200)\<rparr>))"
proof -
  have buf: "get_tx_hashing_buf demo (demo_payment\<lparr>tx_nonce := m\<rparr>) = Ok (word_to_be_bytes 8 (1200 :: u64))" for m
    by (simp add: get_tx_hashing_buf_def demo_payment_def)
  have "unat (hash_buf (hash_new demo (word_to_be_bytes 8 (1200 :: u64)))) = 1200"
    by (simp add: hash_new_def randomx_hash_def word_from_be_bytes_def word_to_be_bytes_def from_bytes_be_be_bytes)
  then show ?thesis
    using mining_finds_a_nonce [of "[3, 5]" demo demo_payment 3 "word_to_be_bytes 8 (1200 :: u64)" 5000]
    by (auto simp: buf demo_stamp_def)
qed

section \<open>What the hash of a block covers\<close>

text \<open>
  C40. The bytes a block is hashed over do not depend on the outputs of its transactions: they cover the
  ids, nonces and times and, after SCIP-1, the inputs (twice), so only the ids bind the outputs.
\<close>

theorem block_hash_ignores_outputs:
  assumes "list_all2 same_but_outputs (transactions b) us"
  shows "get_hashing_buf E (b\<lparr>transactions := us\<rparr>) = get_hashing_buf E b"
  using assms by (rule get_hashing_buf_outputs)

theorem block_hash_ignores_outputs_witness:
  "get_hashing_buf demo (demo_block\<lparr>transactions := [demo_reward\<lparr>outputs := []\<rparr>]\<rparr>) = get_hashing_buf demo demo_block"
  by (rule block_hash_ignores_outputs) (simp add: demo_block_def demo_block_of_def same_but_outputs_def)

end
