(* ===== verification/Addresses.thy ===== *)
theory Addresses
  imports Node_State
begin

text \<open>
  Reading the addresses that peers are sent as text: \<open>SocketAddr\<close>'s \<open>FromStr\<close>, the parser of the standard
  library that \<open>auto_peer.rs\<close> relies on, and that it reads back what \<open>Display\<close> prints.  A parser takes a
  text to a value and the rest, and a failed one consumes nothing.  A scope id is read and left out, since
  the model's addresses have none.
\<close>

section \<open>Numbers\<close>

definition digit_value :: "char \<Rightarrow> nat \<Rightarrow> nat option" where
  "digit_value c radix =
     (let n = of_char c :: nat;
          d = (if 48 \<le> n \<and> n \<le> 57 then n - 48 else if 97 \<le> n \<and> n \<le> 122 then n - 87
               else if 65 \<le> n \<and> n \<le> 90 then n - 55 else radix)
      in if d < radix then Some d else None)"

definition is_digit :: "nat \<Rightarrow> char \<Rightarrow> bool" where
  "is_digit radix c \<longleftrightarrow> digit_value c radix \<noteq> None"

definition digits_value :: "nat \<Rightarrow> string \<Rightarrow> nat" where
  "digits_value radix ds = foldl (\<lambda>a c. a * radix + the (digit_value c radix)) 0 ds"

text \<open>
  The digits up to the first character that is none: too many, too large a number, or a leading zero where
  there may be none, fail.
\<close>

definition read_number ::
  "nat \<Rightarrow> nat option \<Rightarrow> bool \<Rightarrow> nat \<Rightarrow> string \<Rightarrow> (nat \<times> string) option"
where
  "read_number radix max_digits allow_zero_prefix bound s =
     (let ds = takeWhile (is_digit radix) s; n = digits_value radix ds
      in if ds = [] then None
         else if (case max_digits of None \<Rightarrow> False | Some m \<Rightarrow> m < length ds) then None
         else if \<not> allow_zero_prefix \<and> hd ds = CHR ''0'' \<and> 1 < length ds then None
         else if n < bound then Some (n, dropWhile (is_digit radix) s) else None)"

fun read_char :: "char \<Rightarrow> string \<Rightarrow> string option" where
  "read_char c [] = None"
| "read_char c (d # s) = (if c = d then Some s else None)"

definition read_separator :: "char \<Rightarrow> nat \<Rightarrow> (string \<Rightarrow> ('a \<times> string) option) \<Rightarrow> string \<Rightarrow> ('a \<times> string) option" where
  "read_separator sep i inner s =
     (if 0 < i then (case read_char sep s of None \<Rightarrow> None | Some s \<Rightarrow> inner s) else inner s)"

section \<open>IPv4\<close>

definition read_octet :: "nat \<Rightarrow> string \<Rightarrow> (nat \<times> string) option" where
  "read_octet i = read_separator (CHR ''.'') i (read_number 10 (Some 3) False 256)"

definition read_ipv4 :: "string \<Rightarrow> (nat list \<times> string) option" where
  "read_ipv4 s =
     (case read_octet 0 s of None \<Rightarrow> None | Some (a, s) \<Rightarrow>
     (case read_octet 1 s of None \<Rightarrow> None | Some (b, s) \<Rightarrow>
     (case read_octet 2 s of None \<Rightarrow> None | Some (c, s) \<Rightarrow>
     (case read_octet 3 s of None \<Rightarrow> None | Some (d, s) \<Rightarrow> Some ([a, b, c, d], s)))))"

definition from_digits :: "nat \<Rightarrow> nat list \<Rightarrow> nat" where
  "from_digits radix ds = foldl (\<lambda>a d. a * radix + d) 0 ds"

section \<open>IPv6\<close>

text \<open>
  Up to \<open>limit\<close> groups from number \<open>i\<close> on, the last two of which may be an IPv4 address; the flag tells
  whether they were.
\<close>

fun read_groups :: "nat \<Rightarrow> nat \<Rightarrow> nat \<Rightarrow> string \<Rightarrow> nat list \<times> bool \<times> string" where
  "read_groups 0 limit i s = ([], False, s)"
| "read_groups (Suc fuel) limit i s =
     (case (if i + 1 < limit then read_separator (CHR '':'') i read_ipv4 s else None) of
        Some ([a, b, c, d], s) \<Rightarrow> ([a * 256 + b, c * 256 + d], True, s)
      | _ \<Rightarrow>
        (case read_separator (CHR '':'') i (read_number 16 (Some 4) True 65536) s of
           None \<Rightarrow> ([], False, s)
         | Some (g, s) \<Rightarrow> (case read_groups fuel limit (i + 1) s of (gs, v4, s) \<Rightarrow> (g # gs, v4, s))))"

definition read_ipv6 :: "string \<Rightarrow> (nat list \<times> string) option" where
  "read_ipv6 s =
     (case read_groups 8 8 0 s of (head, head_ipv4, s) \<Rightarrow>
        if length head = 8 then Some (head, s)
        else if head_ipv4 then None
        else (case read_char (CHR '':'') s of None \<Rightarrow> None | Some s \<Rightarrow>
          (case read_char (CHR '':'') s of None \<Rightarrow> None | Some s \<Rightarrow>
             (let limit = 8 - (length head + 1)
              in case read_groups limit limit 0 s of (tail, _, s) \<Rightarrow>
                Some (head @ replicate (8 - (length head + length tail)) 0 @ tail, s)))))"

section \<open>Socket addresses\<close>

definition read_port :: "string \<Rightarrow> (nat \<times> string) option" where
  "read_port s = (case read_char (CHR '':'') s of None \<Rightarrow> None | Some s \<Rightarrow> read_number 10 None True (2 ^ 16) s)"

definition read_scope :: "string \<Rightarrow> string" where
  "read_scope s =
     (case read_char (CHR ''%'') s of None \<Rightarrow> s | Some s' \<Rightarrow>
       (case read_number 10 None True (2 ^ 32) s' of None \<Rightarrow> s | Some (_, s'') \<Rightarrow> s''))"

definition read_socket_v4 :: "string \<Rightarrow> (SocketAddr \<times> string) option" where
  "read_socket_v4 s =
     (case read_ipv4 s of None \<Rightarrow> None | Some (ds, s) \<Rightarrow>
     (case read_port s of None \<Rightarrow> None | Some (p, s) \<Rightarrow>
        Some (\<lparr>ip = V4 (word_of_nat (from_digits 256 ds)), port = word_of_nat p\<rparr>, s)))"

definition read_socket_v6 :: "string \<Rightarrow> (SocketAddr \<times> string) option" where
  "read_socket_v6 s =
     (case read_char (CHR ''['') s of None \<Rightarrow> None | Some s \<Rightarrow>
     (case read_ipv6 s of None \<Rightarrow> None | Some (gs, s) \<Rightarrow>
     (case read_char (CHR '']'') (read_scope s) of None \<Rightarrow> None | Some s \<Rightarrow>
     (case read_port s of None \<Rightarrow> None | Some (p, s) \<Rightarrow>
        Some (\<lparr>ip = V6 (word_of_nat (from_digits 65536 gs)), port = word_of_nat p\<rparr>, s)))))"

definition parse_address :: "string \<Rightarrow> SocketAddr option" where
  "parse_address s =
     (case (case read_socket_v4 s of None \<Rightarrow> read_socket_v6 s | r \<Rightarrow> r) of
        Some (a, []) \<Rightarrow> Some a
      | _ \<Rightarrow> None)"

section \<open>Numbers are read back\<close>

lemmas [simp del] = hex.simps

lemma digits_value_append:
  "digits_value radix (xs @ ys) = foldl (\<lambda>a c. a * radix + the (digit_value c radix)) (digits_value radix xs) ys"
  by (simp add: digits_value_def)

lemma is_digit_value: "digit_value c radix = Some d \<Longrightarrow> is_digit radix c"
  by (simp add: is_digit_def)

lemma digit_value_dec: "d < 10 \<Longrightarrow> digit_value (char_of (48 + d)) 10 = Some d"
  by (simp add: digit_value_def Let_def)

lemma dec_spec:
  "list_all (is_digit 10) (dec n) \<and> digits_value 10 (dec n) = n \<and> (hd (dec n) = CHR ''0'' \<longrightarrow> n = 0)
     \<and> (n < 10 ^ k \<longrightarrow> 0 < k \<longrightarrow> length (dec n) \<le> k)"
proof (induction n arbitrary: k rule: dec.induct)
  case (1 n)
  show ?case
  proof (cases "n < 10")
    case True
    then have "digit_value (char_of (48 + n)) 10 = Some n" by (rule digit_value_dec)
    moreover have "char_of (48 + n) = CHR ''0'' \<Longrightarrow> n = 0"
    proof -
      assume "char_of (48 + n) = CHR ''0''"
      moreover have "digit_value (CHR ''0'') 10 = Some 0" by (simp add: digit_value_def)
      ultimately show "n = 0" using \<open>digit_value (char_of (48 + n)) 10 = Some n\<close> by simp
    qed
    ultimately show ?thesis using True by (simp add: dec.simps [of n] is_digit_def digits_value_def)
  next
    case False
    have IH: "list_all (is_digit 10) (dec (n div 10))" "digits_value 10 (dec (n div 10)) = n div 10"
      "hd (dec (n div 10)) = CHR ''0'' \<longrightarrow> n div 10 = 0"
      "\<And>k. n div 10 < 10 ^ k \<longrightarrow> 0 < k \<longrightarrow> length (dec (n div 10)) \<le> k"
      using "1.IH" [OF False] by blast+
    have d: "digit_value (char_of (48 + n mod 10)) 10 = Some (n mod 10)" by (rule digit_value_dec) simp
    have "length (dec (n div 10)) \<le> k - 1" if "n < 10 ^ k" "0 < k"
    proof (rule IH(4) [rule_format])
      show "n div 10 < 10 ^ (k - 1)" using that by (cases k) (simp_all add: less_mult_imp_div_less mult.commute)
      show "0 < k - 1" using that False by (cases "k = 1") auto
    qed
    then show ?thesis
      using False IH(1-3) d by (auto simp: dec.simps [of n] is_digit_value [OF d] digits_value_append hd_append)
  qed
qed

lemma digit_value_hex:
  assumes "d < 16"
  shows "digit_value (hex_digit d) 16 = Some d"
proof -
  have "list_all (\<lambda>d. digit_value (hex_digit d) 16 = Some d) [0, 1, 2, 3, 4, 5, 6, 7, 8, 9, 10, 11, 12, 13, 14, 15]"
    by (simp add: hex_digit_def digit_value_def)
  moreover have "[0, 1, 2, 3, 4, 5, 6, 7, 8, 9, 10, 11, 12, 13, 14, 15] = [0..<16]" by (simp add: upt_rec)
  ultimately have "list_all (\<lambda>d. digit_value (hex_digit d) 16 = Some d) [0..<16]" by (simp only:)
  moreover have "d \<in> set [0..<16]" using assms by simp
  ultimately show ?thesis unfolding list_all_iff by blast
qed

lemma hex_spec:
  "list_all (is_digit 16) (hex n) \<and> digits_value 16 (hex n) = n \<and> hex n \<noteq> []
     \<and> (n < 16 ^ k \<longrightarrow> 0 < k \<longrightarrow> length (hex n) \<le> k)"
proof (induction n arbitrary: k rule: hex.induct)
  case (1 n)
  show ?case
  proof (cases "n < 16")
    case True
    then show ?thesis using digit_value_hex [OF True] by (simp add: hex.simps [of n] is_digit_def digits_value_def)
  next
    case False
    have IH: "list_all (is_digit 16) (hex (n div 16))" "digits_value 16 (hex (n div 16)) = n div 16"
      "\<And>k. n div 16 < 16 ^ k \<longrightarrow> 0 < k \<longrightarrow> length (hex (n div 16)) \<le> k"
      using "1.IH" [OF False] by blast+
    have d: "digit_value (hex_digit (n mod 16)) 16 = Some (n mod 16)" by (rule digit_value_hex) simp
    have "length (hex (n div 16)) \<le> k - 1" if "n < 16 ^ k" "0 < k"
    proof (rule IH(3) [rule_format])
      show "n div 16 < 16 ^ (k - 1)" using that by (cases k) (simp_all add: less_mult_imp_div_less mult.commute)
      show "0 < k - 1" using that False by (cases "k = 1") auto
    qed
    then show ?thesis
      using False IH(1,2) d by (auto simp: hex.simps [of n] is_digit_value [OF d] digits_value_append)
  qed
qed

definition ends_number :: "nat \<Rightarrow> string \<Rightarrow> bool" where
  "ends_number radix s \<longleftrightarrow> s = [] \<or> \<not> is_digit radix (hd s)"

lemma read_number_digits:
  assumes "list_all (is_digit radix) ds" and "ds \<noteq> []" and "ends_number radix rest"
    and "case max_digits of None \<Rightarrow> True | Some m \<Rightarrow> length ds \<le> m"
    and "allow \<or> hd ds \<noteq> CHR ''0'' \<or> length ds = 1" and "digits_value radix ds < bound"
  shows "read_number radix max_digits allow bound (ds @ rest) = Some (digits_value radix ds, rest)"
proof -
  have "\<forall>c \<in> set ds. is_digit radix c" using assms(1) by (simp add: list_all_iff)
  then have "takeWhile (is_digit radix) (ds @ rest) = ds @ takeWhile (is_digit radix) rest"
    "dropWhile (is_digit radix) (ds @ rest) = dropWhile (is_digit radix) rest"
    by (simp_all add: takeWhile_append2 dropWhile_append2)
  moreover have "takeWhile (is_digit radix) rest = []" "dropWhile (is_digit radix) rest = rest"
    using assms(3) by (cases rest; simp add: ends_number_def)+
  ultimately show ?thesis
    using assms(2,4-6) by (cases ds) (auto simp: read_number_def Let_def split: option.splits)
qed

lemma read_dec:
  assumes "n < bound" and "ends_number 10 rest" and "case max_digits of None \<Rightarrow> True | Some m \<Rightarrow> 0 < m \<and> n < 10 ^ m"
  shows "read_number 10 max_digits allow bound (dec n @ rest) = Some (n, rest)"
proof -
  note s = dec_spec [of n]
  have "length (dec n) = 1" if "hd (dec n) = CHR ''0''"
  proof -
    have "n = 0" using that s by blast
    then show ?thesis by (simp add: dec.simps)
  qed
  then show ?thesis
    using read_number_digits [of 10 "dec n" rest max_digits allow bound] s assms by (auto split: option.splits)
qed

lemma read_hex:
  assumes "n < 65536" and "ends_number 16 rest"
  shows "read_number 16 (Some 4) True 65536 (hex n @ rest) = Some (n, rest)"
  using read_number_digits [of 16 "hex n" rest "Some 4" True 65536] hex_spec [of n 4] assms by simp

lemma number_needs_digit: "ends_number radix s \<Longrightarrow> read_number radix m allow bound s = None"
  by (cases s) (simp_all add: read_number_def ends_number_def)

section \<open>IPv4 addresses are read back\<close>

lemma separators_are_no_digits [simp]:
  "\<not> is_digit 10 (CHR ''.'')" "\<not> is_digit 16 (CHR ''.'')" "\<not> is_digit 10 (CHR '':'')" "\<not> is_digit 16 (CHR '':'')"
  "\<not> is_digit 10 (CHR '']'')" "\<not> is_digit 16 (CHR '']'')" "\<not> is_digit 10 (CHR ''['')"
  by (simp_all add: is_digit_def digit_value_def)

lemma ends_number_simps [simp]: "ends_number radix []" "ends_number radix (c # s) \<longleftrightarrow> \<not> is_digit radix c"
  by (simp_all add: ends_number_def)

lemma read_octet_dec:
  assumes "n < 256" and "ends_number 10 rest"
  shows "read_octet 0 (dec n @ rest) = Some (n, rest)"
    and "0 < i \<Longrightarrow> read_octet i (CHR ''.'' # dec n @ rest) = Some (n, rest)"
  using read_dec [OF assms, of "Some 3" False] assms(1) by (simp_all add: read_octet_def read_separator_def)

lemma four_bytes: obtains x y z w where "word_to_be_bytes 4 a = [x, y, z, w]"
proof -
  define bs where "bs = word_to_be_bytes 4 a"
  have "length bs = Suc (Suc (Suc (Suc 0)))" by (simp add: bs_def)
  then obtain x y z w where "bs = [x, y, z, w]" by (auto simp: length_Suc_conv)
  then show ?thesis using that by (simp add: bs_def)
qed

lemma read_ipv4_print:
  assumes "ends_number 10 rest"
  shows "read_ipv4 (ipv4_to_string a @ rest) = Some (map unat (word_to_be_bytes 4 a), rest)"
proof -
  obtain x y z w where b: "word_to_be_bytes 4 a = [x, y, z, w]" by (rule four_bytes)
  have small: "unat v < 256" for v :: u8 using unat_lt [of v] by simp
  show ?thesis
    using assms by (simp add: ipv4_to_string_def b read_ipv4_def read_octet_dec small)
qed

lemma from_digits_bytes: "from_digits 256 (map unat bs) = from_bytes_be bs"
  by (simp add: from_digits_def from_bytes_be_def foldl_map)

text \<open>What is no IPv4 address: the first character after the digits is no dot.\<close>

lemma no_ipv4:
  assumes "dropWhile (is_digit 10) s = c # r" and "c \<noteq> CHR ''.''"
  shows "read_ipv4 s = None"
proof -
  have "read_octet 0 s = None \<or> (\<exists>n. read_octet 0 s = Some (n, c # r))"
    using assms(1) by (auto simp: read_octet_def read_separator_def read_number_def Let_def split: option.split)
  moreover have "read_octet 1 (c # r) = None" using assms(2) by (simp add: read_octet_def read_separator_def)
  ultimately show ?thesis by (auto simp: read_ipv4_def)
qed

lemma no_ipv4_hex:
  assumes "list_all (is_digit 16) xs" and "\<not> is_digit 10 c" and "c \<noteq> CHR ''.''"
  shows "read_ipv4 (xs @ c # r) = None"
proof -
  have "\<exists>d t. dropWhile (is_digit 10) (xs @ c # r) = d # t \<and> d \<noteq> CHR ''.''"
    using assms(1)
  proof (induction xs)
    case Nil
    then show ?case using assms(2,3) by simp
  next
    case (Cons x xs)
    then have "x \<noteq> CHR ''.''" by auto
    with Cons show ?case by simp
  qed
  then show ?thesis using no_ipv4 by blast
qed

section \<open>IPv6 addresses are read back\<close>

definition colon_groups :: "nat list \<Rightarrow> string" where
  "colon_groups gs = concat (map (\<lambda>g. CHR '':'' # hex g) gs)"

lemma join_hex_Cons: "join_hex (g # gs) = hex g @ colon_groups gs"
  by (induction gs arbitrary: g) (simp_all add: colon_groups_def)

text \<open>What ends the groups: the bracket, or the gap.\<close>

definition ends_groups :: "string \<Rightarrow> bool" where
  "ends_groups s \<longleftrightarrow> (\<exists>r. s = CHR '']'' # r \<or> s = CHR '':'' # CHR '':'' # r)"

lemma group_text:
  assumes "ends_groups rest" and "g < 65536"
  shows "read_ipv4 (hex g @ colon_groups gs @ rest) = None"
    and "read_number 16 (Some 4) True 65536 (hex g @ colon_groups gs @ rest) = Some (g, colon_groups gs @ rest)"
proof -
  obtain c r where c: "colon_groups gs @ rest = c # r" "c = CHR '':'' \<or> c = CHR '']''"
    using assms(1) by (cases gs) (auto simp: colon_groups_def ends_groups_def)
  show "read_ipv4 (hex g @ colon_groups gs @ rest) = None"
    unfolding c(1) by (rule no_ipv4_hex) (use hex_spec [of g] c(2) in auto)
  show "read_number 16 (Some 4) True 65536 (hex g @ colon_groups gs @ rest) = Some (g, colon_groups gs @ rest)"
    by (rule read_hex [OF assms(2)]) (use c in auto)
qed

lemma no_group:
  assumes "ends_groups rest"
  shows "read_groups fuel limit i rest = ([], False, rest)"
proof -
  have none: "read_ipv4 (c # r) = None" "read_number 16 (Some 4) True 65536 (c # r) = None"
    if "c = CHR '':'' \<or> c = CHR '']''" for c r
    using no_ipv4_hex [of "[]" c r] number_needs_digit [of 16 "c # r"] that by auto
  obtain r where "rest = CHR '']'' # r \<or> rest = CHR '':'' # CHR '':'' # r"
    using assms by (auto simp: ends_groups_def)
  then show ?thesis by (cases fuel) (auto simp: read_separator_def none)
qed

lemma read_colon_groups:
  assumes "ends_groups rest" and "\<forall>g \<in> set gs. g < 65536" and "length gs \<le> fuel" and "0 < i"
  shows "read_groups fuel limit i (colon_groups gs @ rest) = (gs, False, rest)"
  using assms(2-)
proof (induction gs arbitrary: fuel i)
  case Nil
  then show ?case using no_group [OF assms(1)] by (simp add: colon_groups_def)
next
  case (Cons g gs)
  then obtain f where f: "fuel = Suc f" by (cases fuel) auto
  have split: "colon_groups (g # gs) @ rest = CHR '':'' # hex g @ colon_groups gs @ rest"
    by (simp add: colon_groups_def)
  have "g < 65536" using Cons.prems(1) by simp
  note g = group_text [OF assms(1) this, of gs]
  show ?case
    unfolding split f using Cons.IH [of f "i + 1"] Cons.prems f g by (simp add: read_separator_def)
qed

lemma read_groups_join:
  assumes "ends_groups rest" and "\<forall>g \<in> set gs. g < 65536" and "length gs \<le> fuel"
  shows "read_groups fuel limit 0 (join_hex gs @ rest) = (gs, False, rest)"
proof (cases gs)
  case Nil
  then show ?thesis using no_group [OF assms(1)] by simp
next
  case (Cons g gs')
  then obtain f where f: "fuel = Suc f" using assms(3) by (cases fuel) auto
  have "g < 65536" using assms(2) Cons by simp
  note g = group_text [OF assms(1) this, of gs']
  show ?thesis
    unfolding Cons join_hex_Cons f
    using read_colon_groups [OF assms(1), of gs' f 1 limit] assms(2,3) Cons f g by (simp add: read_separator_def)
qed

text \<open>The digits of a number in a base.\<close>

lemma from_digits_snoc: "from_digits B (ds @ [d]) = from_digits B ds * B + d"
  by (simp add: from_digits_def)

lemma from_digits_div_mod:
  "from_digits B (map (\<lambda>i. n div B ^ (k - Suc i) mod B) [0..<k]) = n mod B ^ k"
proof (induction k arbitrary: n)
  case 0
  then show ?case by (simp add: from_digits_def)
next
  case (Suc k)
  have "map (\<lambda>i. n div B ^ (Suc k - Suc i) mod B) [0..<k] = map (\<lambda>i. (n div B) div B ^ (k - Suc i) mod B) [0..<k]"
  proof (rule map_cong [OF refl])
    fix i assume "i \<in> set [0..<k]"
    then have "Suc k - Suc i = Suc (k - Suc i)" by auto
    then show "n div B ^ (Suc k - Suc i) mod B = n div B div B ^ (k - Suc i) mod B"
      by (simp add: div_mult2_eq)
  qed
  then have "map (\<lambda>i. n div B ^ (Suc k - Suc i) mod B) [0..<Suc k] =
      map (\<lambda>i. (n div B) div B ^ (k - Suc i) mod B) [0..<k] @ [n mod B]"
    by simp
  then have "from_digits B (map (\<lambda>i. n div B ^ (Suc k - Suc i) mod B) [0..<Suc k]) =
      (n div B) mod B ^ k * B + n mod B"
    by (simp only: from_digits_snoc Suc.IH)
  also have "\<dots> = n mod B ^ Suc k" by (simp add: mod_mult2_eq mult.commute)
  finally show ?case .
qed

lemma from_digits_segments: "from_digits 65536 (segments a) = unat a"
proof -
  have "segments a = map (\<lambda>i. unat a div 65536 ^ (8 - Suc i) mod 65536) [0..<8]"
    unfolding segments_def by (intro map_cong refl) (simp add: power_mult)
  then have "from_digits 65536 (segments a) = unat a mod 65536 ^ 8" by (simp only: from_digits_div_mod)
  also have "\<dots> = unat a" using unat_lt [of a] by simp
  finally show ?thesis .
qed

lemma segments_facts: "length (segments a) = 8" "\<forall>g \<in> set (segments a). g < 65536"
  by (auto simp: segments_def)

text \<open>The gap stands for zeros.\<close>

definition zeros_at :: "nat list \<Rightarrow> nat \<times> nat \<Rightarrow> bool" where
  "zeros_at xs r \<longleftrightarrow> (\<forall>j. fst r \<le> j \<longrightarrow> j < fst r + snd r \<longrightarrow> j < length xs \<and> xs ! j = 0)"

lemma zero_span_zeros:
  assumes "zeros_at (pre @ ss) longest" and "zeros_at (pre @ ss) current"
    and "snd current \<noteq> 0 \<longrightarrow> fst current + snd current = length pre"
  shows "zeros_at (pre @ ss) (zero_span ss (length pre) current longest)"
  using assms
proof (induction ss arbitrary: pre current longest)
  case Nil
  then show ?case by simp
next
  case (Cons s ss)
  obtain start len where c: "current = (start, len)" by force
  have split: "pre @ s # ss = (pre @ [s]) @ ss" by simp
  let ?c = "if len = 0 then (length pre, 1) else (start, len + 1)"
  show ?case
  proof (cases "s = 0")
    case False
    have "zeros_at ((pre @ [s]) @ ss) (zero_span ss (length (pre @ [s])) (0, 0) longest)"
      by (rule Cons.IH) (use Cons.prems in \<open>auto simp: zeros_at_def\<close>)
    then show ?thesis using False by (simp add: c)
  next
    case True
    have new: "zeros_at ((pre @ [s]) @ ss) ?c"
      using Cons.prems(2,3) True by (auto simp: zeros_at_def c nth_append less_Suc_eq)
    have "zeros_at ((pre @ [s]) @ ss) (zero_span ss (length (pre @ [s])) ?c (if snd longest < snd ?c then ?c else longest))"
      by (rule Cons.IH) (use Cons.prems new in \<open>auto simp: c\<close>)
    then show ?thesis using True by (simp add: c Let_def)
  qed
qed

lemma split_gap:
  assumes "zeros_at xs (start, len)" and "0 < len"
  shows "xs = take start xs @ replicate len 0 @ drop (start + len) xs" and "start + len \<le> length xs"
proof -
  have z: "j < length xs \<and> xs ! j = 0" if "start \<le> j" "j < start + len" for j
    using assms(1) that by (simp add: zeros_at_def)
  have "start + len - 1 < length xs" using z [of "start + len - 1"] assms(2) by simp
  then show le: "start + len \<le> length xs" using assms(2) by simp
  have "take len (drop start xs) = replicate len 0"
    by (rule nth_equalityI) (use le z in auto)
  then show "xs = take start xs @ replicate len 0 @ drop (start + len) xs"
    by (metis append_take_drop_id drop_drop add.commute)
qed

lemma read_ipv6_gap:
  assumes "\<forall>g \<in> set (gs @ hs). g < 65536" and "length gs + length hs < 7"
  shows "read_ipv6 (join_hex gs @ ''::'' @ join_hex hs @ CHR '']'' # r) =
    Some (gs @ replicate (8 - (length gs + length hs)) 0 @ hs, CHR '']'' # r)"
proof -
  have "read_groups 8 8 0 (join_hex gs @ ''::'' @ join_hex hs @ CHR '']'' # r) =
      (gs, False, ''::'' @ join_hex hs @ CHR '']'' # r)"
    by (rule read_groups_join) (use assms in \<open>auto simp: ends_groups_def\<close>)
  moreover have "read_groups (8 - (length gs + 1)) (8 - (length gs + 1)) 0 (join_hex hs @ CHR '']'' # r) =
      (hs, False, CHR '']'' # r)"
    by (rule read_groups_join) (use assms in \<open>auto simp: ends_groups_def\<close>)
  ultimately show ?thesis using assms(2) by (simp add: read_ipv6_def Let_def)
qed

lemma read_ipv6_full:
  assumes "\<forall>g \<in> set gs. g < 65536" and "length gs = 8"
  shows "read_ipv6 (join_hex gs @ CHR '']'' # r) = Some (gs, CHR '']'' # r)"
proof -
  have "read_groups 8 8 0 (join_hex gs @ CHR '']'' # r) = (gs, False, CHR '']'' # r)"
    by (rule read_groups_join) (use assms in \<open>auto simp: ends_groups_def\<close>)
  then show ?thesis using assms(2) by (simp add: read_ipv6_def)
qed

text \<open>IPv4 addresses in IPv6 notation.\<close>

lemma read_ipv6_mapped:
  assumes "map unat (word_to_be_bytes 4 v) = [a, b, c, d]"
  shows "read_ipv6 (''::ffff:'' @ ipv4_to_string v @ CHR '']'' # r) =
    Some ([0, 0, 0, 0, 0, 65535, a * 256 + b, c * 256 + d], CHR '']'' # r)"
proof -
  let ?v = "ipv4_to_string v @ CHR '']'' # r"
  have hex: "hex 65535 = ''ffff''" by (simp add: hex.simps hex_digit_def)
  have v: "read_ipv4 ?v = Some ([a, b, c, d], CHR '']'' # r)" using read_ipv4_print [of "CHR '']'' # r" v] assms by simp
  have six: "6 = Suc 5" and seven: "7 = Suc 6" by simp_all
  have "read_groups (Suc 5) 7 1 (CHR '':'' # ?v) = ([a * 256 + b, c * 256 + d], True, CHR '']'' # r)"
    unfolding read_groups.simps read_separator_def using v by simp
  then have 1: "read_groups 6 7 1 (CHR '':'' # ?v) = ([a * 256 + b, c * 256 + d], True, CHR '']'' # r)"
    by (simp only: six)
  have 2: "read_ipv4 (''ffff'' @ CHR '':'' # ?v) = None"
    by (rule no_ipv4_hex) (simp_all add: is_digit_def digit_value_def)
  have 3: "read_number 16 (Some 4) True 65536 (''ffff'' @ CHR '':'' # ?v) = Some (65535, CHR '':'' # ?v)"
    using read_hex [of 65535 "CHR '':'' # ?v"] by (simp add: hex)
  have "read_groups (Suc 6) 7 0 (''ffff'' @ CHR '':'' # ?v) =
      ([65535, a * 256 + b, c * 256 + d], True, CHR '']'' # r)"
    using 1 2 3 by (simp only: read_groups.simps read_separator_def) simp
  then have "read_groups 7 7 0 (''ffff:'' @ ?v) = ([65535, a * 256 + b, c * 256 + d], True, CHR '']'' # r)"
    unfolding seven [symmetric] by simp
  moreover have "read_groups 8 8 0 (''::'' @ ''ffff:'' @ ?v) = ([], False, ''::'' @ ''ffff:'' @ ?v)"
    by (rule no_group) (simp add: ends_groups_def)
  moreover have "replicate 5 0 = [0, 0, 0, 0, 0 :: nat]" by (simp add: numeral_eq_Suc)
  ultimately show ?thesis by (simp add: read_ipv6_def Let_def)
qed

lemma read_ipv6_print:
  "\<exists>gs. read_ipv6 (ipv6_to_string a @ CHR '']'' # r) = Some (gs, CHR '']'' # r) \<and> from_digits 65536 gs = unat a"
proof -
  let ?s = "segments a"
  note s = segments_facts [of a]
  obtain start len where span: "zero_span ?s 0 (0, 0) (0, 0) = (start, len)" by force
  show ?thesis
  proof (cases "take 6 ?s = [0, 0, 0, 0, 0, 65535]")
    case True
    define v :: u32 where "v = ucast a"
    obtain b0 b1 b2 b3 where b: "word_to_be_bytes 4 v = [b0, b1, b2, b3]" by (rule four_bytes)
    let ?g = "unat b0 * 256 + unat b1" and ?h = "unat b2 * 256 + unat b3"
    define t where "t = drop 6 ?s"
    have "length t = Suc (Suc 0)" using s(1) by (simp add: t_def)
    then obtain x y where "t = [x, y]" by (auto simp: length_Suc_conv)
    then have split: "?s = [0, 0, 0, 0, 0, 65535, x, y]" using True append_take_drop_id [of 6 ?s] by (simp add: t_def)
    then have small: "x < 65536" "y < 65536" using s(2) by auto
    have a: "unat a = 65535 * 2 ^ 32 + (x * 65536 + y)"
      using from_digits_segments [of a] by (simp add: split from_digits_def)
    have "unat v = unat a mod 2 ^ 32" by (simp add: v_def unsigned_ucast_eq take_bit_eq_mod)
    also have "\<dots> = (x * 65536 + y) mod 2 ^ 32" unfolding a by (rule mod_mult_self3)
    also have "\<dots> = x * 65536 + y" using small by simp
    finally have "unat v = x * 65536 + y" .
    moreover have "unat v = from_bytes_be (word_to_be_bytes 4 v)"
      using unat_lt [of v] by (simp add: word_to_be_bytes_def from_bytes_be_be_bytes)
    ultimately have "?g * 65536 + ?h = x * 65536 + y" by (simp add: b from_bytes_be_def)
    then have "from_digits 65536 [0, 0, 0, 0, 0, 65535, ?g, ?h] = unat a" using a by (simp add: from_digits_def)
    moreover have "ipv6_to_string a = ''::ffff:'' @ ipv4_to_string v" by (simp add: ipv6_to_string_def True v_def)
    ultimately show ?thesis
      using read_ipv6_mapped [of v "unat b0" "unat b1" "unat b2" "unat b3" r] b by simp
  next
    case False
    show ?thesis
    proof (cases "1 < len")
      case True
      have "zeros_at ([] @ ?s) (zero_span ?s (length ([] :: nat list)) (0, 0) (0, 0))"
        by (rule zero_span_zeros) (simp_all add: zeros_at_def)
      then have z: "zeros_at ?s (start, len)" by (simp add: span)
      have gap: "?s = take start ?s @ replicate len 0 @ drop (start + len) ?s" "start + len \<le> 8"
        using split_gap [OF z] True s(1) by simp_all
      have "read_ipv6 (join_hex (take start ?s) @ ''::'' @ join_hex (drop (start + len) ?s) @ CHR '']'' # r) =
          Some (take start ?s @ replicate (8 - (length (take start ?s) + length (drop (start + len) ?s))) 0
            @ drop (start + len) ?s, CHR '']'' # r)"
        by (rule read_ipv6_gap) (use s gap(2) True in \<open>auto dest: in_set_takeD in_set_dropD\<close>)
      moreover have "8 - (length (take start ?s) + length (drop (start + len) ?s)) = len"
        using s(1) gap(2) by simp
      ultimately have "read_ipv6 (join_hex (take start ?s) @ ''::'' @ join_hex (drop (start + len) ?s) @ CHR '']'' # r) =
          Some (?s, CHR '']'' # r)" using gap(1) by simp
      then show ?thesis
        using False True span from_digits_segments [of a] by (simp add: ipv6_to_string_def Let_def)
    next
      case no_gap: False
      then show ?thesis
        using False span read_ipv6_full [OF s(2,1), of r] from_digits_segments [of a]
        by (simp add: ipv6_to_string_def Let_def)
    qed
  qed
qed

section \<open>Socket addresses are read back\<close>

lemma read_port_print: "read_port (CHR '':'' # dec (unat (p :: u16))) = Some (unat p, [])"
  using read_dec [of "unat p" "2 ^ 16" "[]" None True] unat_lt [of p] by (simp add: read_port_def)

lemma parse_printed: "parse_address (address_to_string a) = Some a"
proof (cases "ip a")
  case (V4 v)
  have "from_digits 256 (map unat (word_to_be_bytes 4 v)) = unat v"
    using unat_lt [of v] by (simp add: from_digits_bytes word_to_be_bytes_def from_bytes_be_be_bytes)
  then have "read_socket_v4 (address_to_string a) = Some (\<lparr>ip = V4 v, port = port a\<rparr>, [])"
    using read_ipv4_print [of "CHR '':'' # dec (unat (port a))" v]
    by (simp add: address_to_string_def V4 read_socket_v4_def read_port_print)
  then show ?thesis using V4 by (simp add: parse_address_def)
next
  case (V6 v)
  let ?rest = "CHR '':'' # dec (unat (port a))"
  have s: "address_to_string a = CHR ''['' # (ipv6_to_string v @ CHR '']'' # ?rest)"
    by (simp add: address_to_string_def V6)
  have "read_ipv4 (address_to_string a) = None" using no_ipv4 [of "address_to_string a" "CHR ''[''"] by (simp add: s)
  then have "read_socket_v4 (address_to_string a) = None" by (simp add: read_socket_v4_def)
  moreover obtain gs where gs: "read_ipv6 (ipv6_to_string v @ CHR '']'' # ?rest) = Some (gs, CHR '']'' # ?rest)"
    "from_digits 65536 gs = unat v" using read_ipv6_print by blast
  then have "read_socket_v6 (address_to_string a) = Some (\<lparr>ip = V6 v, port = port a\<rparr>, [])"
    by (simp add: s read_socket_v6_def read_scope_def read_port_print)
  ultimately show ?thesis using V6 by (simp add: parse_address_def)
qed

end
