(* ===== verification/Peer_Connection.thy ===== *)
theory Peer_Connection
  imports Full_Behavior
begin

text \<open>
  \<open>node/peer.rs\<close>: the tasks of one connection to a peer.  A reader, a writer and a pinger run until one of
  them ends or a kill signal arrives; requests wait for the response with their id.  The state holds the
  queue between the handles and the writer, the requests that wait, the bytes that have arrived and those
  that were written.  The channel that a request waits on is the number of the request: its entry in
  \<open>callbacks\<close> tells whether it still waits, was answered, or was dropped, which the waiting task sees as an
  error.  The steps of the tasks interleave in any order.
\<close>

section \<open>The handshake\<close>

fun message_error_to_string :: "MessageError \<Rightarrow> string" where
  "message_error_to_string (EncodingM _) = ''Failed to encode command''"
| "message_error_to_string (DecodingM _) = ''Failed to decode command''"
| "message_error_to_string (StreamM _) = ''Failed to write or read to / from stream''"
| "message_error_to_string HeaderLength = ''Received header length is not correct''"
| "message_error_to_string HeaderItemLength = ''Received header version or size bytes length is not correct''"
| "message_error_to_string IncorrectNetwork = ''Incorrect network''"

text \<open>
  \<open>create_peer\<close> up to the spawning of the tasks: the bytes it writes, and the handle with the bytes that
  are left to read.  The address of the socket, the id of the first message and whether writing succeeds are
  arguments.
\<close>

definition create_peer ::
  "'z message_env_scheme \<Rightarrow> string + SocketAddr \<Rightarrow> bool \<Rightarrow> MessageId \<Rightarrow> bool \<Rightarrow> u8 list
     \<Rightarrow> u8 list \<times> (PeerHandle, PeerError, u8 list) run"
where
  "create_peer E peer_addr writable random client stream =
     (case peer_addr of
        Inl e \<Rightarrow> ([], Err (IoP (''IO error: '' @ e)), stream)
      | Inr a \<Rightarrow>
        (case serialize E (message_new random Connect) of
           Ok bytes \<Rightarrow>
             if \<not> writable then ([], Err (UnknownP ''Failed to send connection req''), stream)
             else (bytes,
               case from_stream E stream of
                 (Ok m, rest) \<Rightarrow>
                   (case command m of
                      AcknowledgeConnection \<Rightarrow>
                        (Ok \<lparr>address = a, is_client = client, flags = FULL_NODE_CAPABILITY\<rparr>, rest)
                    | AcknowledgeConnectionWithFlags capabilities \<Rightarrow>
                        (Ok \<lparr>address = a, is_client = client, flags = capabilities\<rparr>, rest)
                    | _ \<Rightarrow> (Err (UnknownP ''Got unhandled AcknowledgeConnection''), rest))
               | (Err _, rest) \<Rightarrow> (Err (UnknownP ''Failed to receive connection ack''), rest)
               | (Panic, rest) \<Rightarrow> (Panic, rest))
         | Err _ \<Rightarrow> ([], Err (UnknownP ''Failed to send connection req''), stream)
         | Panic \<Rightarrow> ([], Panic, stream)))"

section \<open>State of a connection\<close>

type_synonym callback = nat

datatype Outgoing = OutRequest Message callback | OneWay Message

datatype reply = Waiting | Replied Message | Dropped

text \<open>
  \<open>requests\<close> lists the requests made so far, for reference only.  \<open>ending\<close> is how the select ended, with
  the error of the task that ended first or with a panic.
\<close>

record Connection =
  outgoing :: "Outgoing list"
  pending :: "(MessageId, callback) fmap"
  arrived :: "u8 list"
  stream_closed :: bool
  written :: "u8 list"
  response :: "Message option"
  ping :: "callback option"
  kill_sender :: bool
  kill_signal :: "string option"
  ending :: "(unit, PeerError) result option"
  callbacks :: "reply list"
  requests :: "Message list"

definition QUEUE_CAPACITY :: nat where "QUEUE_CAPACITY = 64"

definition connection_new :: "u8 list \<Rightarrow> Connection" where
  "connection_new rest =
     \<lparr>outgoing = [], pending = fmempty, arrived = rest, stream_closed = False, written = [], response = None,
      ping = None, kill_sender = True, kill_signal = None, ending = None, callbacks = [], requests = []\<rparr>"

text \<open>Dropping the sender of a callback that still waits.\<close>

definition drop_callback :: "callback \<Rightarrow> reply list \<Rightarrow> reply list" where
  "drop_callback c cs = (if c < length cs \<and> cs ! c = Waiting then cs[c := Dropped] else cs)"

text \<open>
  When the select ends, the queue's receiver and the map of waiting requests are dropped, and with them
  the senders of all callbacks that wait.
\<close>

definition drop_waiting :: "reply list \<Rightarrow> reply list" where
  "drop_waiting = map (\<lambda>r. if r = Waiting then Dropped else r)"

definition end_connection :: "(unit, PeerError) result \<Rightarrow> Connection \<Rightarrow> Connection" where
  "end_connection r p =
     p\<lparr>outgoing := [], pending := fmempty, response := None, ending := Some r,
       callbacks := drop_waiting (callbacks p)\<rparr>"

section \<open>The handle\<close>

text \<open>
  Queueing a request: \<open>None\<close> is a queue that is full, where the sender waits for space.  The callback of a
  request that cannot be queued is dropped with it.
\<close>

definition send_request ::
  "Message \<Rightarrow> Connection \<Rightarrow> (callback, PeerError, Connection) run option"
where
  "send_request m p =
     (if ending p \<noteq> None then Some (Err (SendErrorP ''channel closed''), p)
      else if QUEUE_CAPACITY \<le> length (outgoing p) then None
      else let c = length (callbacks p)
        in Some (Ok c, p\<lparr>outgoing := outgoing p @ [OutRequest m c],
             callbacks := callbacks p @ [Waiting], requests := requests p @ [m]\<rparr>))"

definition send_message :: "Message \<Rightarrow> Connection \<Rightarrow> (unit, PeerError, Connection) run option" where
  "send_message m p =
     (if ending p \<noteq> None then Some (Err (SendErrorP ''channel closed''), p)
      else if QUEUE_CAPACITY \<le> length (outgoing p) then None
      else Some (Ok (), p\<lparr>outgoing := outgoing p @ [OneWay m]\<rparr>))"

definition kill :: "string \<Rightarrow> Connection \<Rightarrow> (unit, PeerError, Connection) run" where
  "kill reason p =
     (if \<not> kill_sender p then (Ok (), p)
      else if ending p \<noteq> None then (Err (KilledP reason), p\<lparr>kill_sender := False\<rparr>)
      else (Ok (), p\<lparr>kill_sender := False, kill_signal := Some reason\<rparr>))"

text \<open>The queue stayed full for the five seconds of the time-out.\<close>

definition request_timed_out :: "Connection \<Rightarrow> (callback, PeerError, Connection) run" where
  "request_timed_out p = bind_run (kill ''Peer timed out'' p) (\<lambda>_ p. (Err TimeoutP, p))"

text \<open>What the task of a request gets from its channel.\<close>

fun await_reply :: "reply \<Rightarrow> (Message, PeerError) result option" where
  "await_reply Waiting = None"
| "await_reply (Replied m) = Some (Ok m)"
| "await_reply Dropped = Some (Err (ReceiveErrorP ''channel closed''))"

section \<open>The tasks\<close>

text \<open>
  One turn of the reader, when a message, or what cannot be one, has arrived: the handler is a function of
  the node's state.  Its response is queued in a turn of its own, since the queue may be full.
\<close>

definition reader_turn ::
  "'z message_env_scheme \<Rightarrow> (Message \<Rightarrow> 's \<Rightarrow> (Message, PeerError, 's) run) \<Rightarrow> 's \<times> Connection \<Rightarrow> 's \<times> Connection"
where
  "reader_turn E handler = (\<lambda>(s, p).
     case from_stream E (arrived p) of
       (Err e, rest) \<Rightarrow>
         (s, end_connection (Err (MessageDecodeP (message_error_to_string e))) (p\<lparr>arrived := rest\<rparr>))
     | (Panic, rest) \<Rightarrow> (s, end_connection Panic (p\<lparr>arrived := rest\<rparr>))
     | (Ok m, rest) \<Rightarrow>
         (case fmlookup (pending p) (message_id m) of
            Some c \<Rightarrow> (s, p\<lparr>arrived := rest, pending := fmdrop (message_id m) (pending p),
              callbacks := (callbacks p)[c := Replied m]\<rparr>)
          | None \<Rightarrow>
              (case handler m s of
                 (Ok r, s') \<Rightarrow> (s', p\<lparr>arrived := rest, response := Some r\<rparr>)
               | (Err e, s') \<Rightarrow> (s', end_connection (Err e) (p\<lparr>arrived := rest\<rparr>))
               | (Panic, s') \<Rightarrow> (s', end_connection Panic (p\<lparr>arrived := rest\<rparr>)))))"

text \<open>
  One turn of the writer, when the queue has something: a request takes the place of one with the same id
  that waits.
\<close>

definition write_message :: "'z message_env_scheme \<Rightarrow> bool \<Rightarrow> Message \<Rightarrow> Connection \<Rightarrow> Connection" where
  "write_message E writable m p =
     (case serialize E m of
        Ok bytes \<Rightarrow>
          if writable then p\<lparr>written := written p @ bytes\<rparr>
          else end_connection (Err (MessageEncodeP (message_error_to_string (StreamM [])))) p
      | Err e \<Rightarrow> end_connection (Err (MessageEncodeP (message_error_to_string e))) p
      | Panic \<Rightarrow> end_connection Panic p)"

definition writer_turn :: "'z message_env_scheme \<Rightarrow> bool \<Rightarrow> Connection \<Rightarrow> Connection" where
  "writer_turn E writable p =
     (case outgoing p of
        [] \<Rightarrow> p
      | OneWay m # out \<Rightarrow> write_message E writable m (p\<lparr>outgoing := out\<rparr>)
      | OutRequest m c # out \<Rightarrow>
          write_message E writable m
            (p\<lparr>outgoing := out, pending := fmupd (message_id m) c (pending p),
               callbacks := (case fmlookup (pending p) (message_id m) of
                 None \<Rightarrow> callbacks p | Some old \<Rightarrow> drop_callback old (callbacks p))\<rparr>))"

text \<open>
  The pinger: a request every five seconds, after the last one was answered with anything.
\<close>

definition pinger_turn :: "MessageId \<Rightarrow> usize \<Rightarrow> Connection \<Rightarrow> Connection option" where
  "pinger_turn random height p =
     (case ping p of
        None \<Rightarrow>
          (case send_request (message_new random (Ping height)) p of
             None \<Rightarrow> None
           | Some (Ok c, p) \<Rightarrow> Some (p\<lparr>ping := Some c\<rparr>)
           | Some (Err e, p) \<Rightarrow> Some (end_connection (Err e) p)
           | Some (Panic, p) \<Rightarrow> Some (end_connection Panic p))
      | Some c \<Rightarrow>
          (case await_reply (callbacks p ! c) of
             None \<Rightarrow> None
           | Some (Err e) \<Rightarrow> Some (end_connection (Err e) p)
           | Some _ \<Rightarrow> Some (p\<lparr>ping := None\<rparr>)))"

text \<open>
  After the end: the behaviour hears of the error that ended the connection.  A task that panicked takes the
  others with it, and nobody is told.
\<close>

definition after_end ::
  "(PeerHandle \<Rightarrow> 's \<Rightarrow> ('s, 'e) result) \<Rightarrow> PeerHandle \<Rightarrow> (unit, PeerError) result \<Rightarrow> 's \<Rightarrow> ('s, 'e) result"
where
  "after_end killed peer r s = (case r of Err _ \<Rightarrow> killed peer s | _ \<Rightarrow> Ok s)"

section \<open>Steps\<close>

text \<open>
  A turn of one of the tasks, or of one that uses the handle.  The reader acts on a whole message, and on
  less only when the stream is closed.
\<close>

inductive task_step ::
  "'z message_env_scheme \<Rightarrow> ('s \<Rightarrow> usize) \<Rightarrow> (Message \<Rightarrow> 's \<Rightarrow> (Message, PeerError, 's) run)
     \<Rightarrow> 's \<times> Connection \<Rightarrow> 's \<times> Connection \<Rightarrow> bool"
for E height handler where
  requested: "send_request m p = Some (r, p') \<Longrightarrow> task_step E height handler (s, p) (s, p')"
| sent: "send_message m p = Some (r, p') \<Longrightarrow> task_step E height handler (s, p) (s, p')"
| killed: "kill reason p = (r, p') \<Longrightarrow> task_step E height handler (s, p) (s, p')"
| timed_out: "QUEUE_CAPACITY \<le> length (outgoing p) \<Longrightarrow> request_timed_out p = (r, p') \<Longrightarrow>
    task_step E height handler (s, p) (s, p')"
| reads: "ending p = None \<Longrightarrow> response p = None \<Longrightarrow>
    fst (from_stream E (arrived p)) \<noteq> Err (StreamM early_eof) \<or> stream_closed p \<Longrightarrow>
    reader_turn E handler (s, p) = x' \<Longrightarrow> task_step E height handler (s, p) x'"
| responds: "ending p = None \<Longrightarrow> response p = Some m \<Longrightarrow>
    send_message m (p\<lparr>response := None\<rparr>) = Some (Ok (), p') \<Longrightarrow> task_step E height handler (s, p) (s, p')"
| writes: "ending p = None \<Longrightarrow> outgoing p \<noteq> [] \<Longrightarrow> task_step E height handler (s, p) (s, writer_turn E writable p)"
| pings: "ending p = None \<Longrightarrow> pinger_turn random (height s) p = Some p' \<Longrightarrow> task_step E height handler (s, p) (s, p')"
| ping_timed_out: "ending p = None \<Longrightarrow> ping p = None \<Longrightarrow> QUEUE_CAPACITY \<le> length (outgoing p) \<Longrightarrow>
    task_step E height handler (s, p) (s, end_connection (Err TimeoutP) (snd (request_timed_out p)))"
| kill_arrives: "ending p = None \<Longrightarrow> kill_signal p = Some reason \<Longrightarrow>
    task_step E height handler (s, p) (s, end_connection (Err (KilledP reason)) p)"

text \<open>With what the socket and the other tasks of the node do.\<close>

inductive connection_step ::
  "'z message_env_scheme \<Rightarrow> ('s \<Rightarrow> usize) \<Rightarrow> (Message \<Rightarrow> 's \<Rightarrow> (Message, PeerError, 's) run)
     \<Rightarrow> 's \<times> Connection \<Rightarrow> 's \<times> Connection \<Rightarrow> bool"
for E height handler where
  task: "task_step E height handler x x' \<Longrightarrow> connection_step E height handler x x'"
| bytes_arrive: "\<not> stream_closed p \<Longrightarrow> connection_step E height handler (s, p) (s, p\<lparr>arrived := arrived p @ bytes\<rparr>)"
| stream_closes: "connection_step E height handler (s, p) (s, p\<lparr>stream_closed := True\<rparr>)"
| elsewhere: "connection_step E height handler (s, p) (s', p)"

text \<open>Two ends: what one has written arrives at the other.\<close>

inductive link_step ::
  "'z message_env_scheme \<Rightarrow> ('s \<Rightarrow> usize) \<Rightarrow> (Message \<Rightarrow> 's \<Rightarrow> (Message, PeerError, 's) run)
     \<Rightarrow> ('t \<Rightarrow> usize) \<Rightarrow> (Message \<Rightarrow> 't \<Rightarrow> (Message, PeerError, 't) run)
     \<Rightarrow> ('s \<times> Connection) \<times> ('t \<times> Connection) \<Rightarrow> ('s \<times> Connection) \<times> ('t \<times> Connection) \<Rightarrow> bool"
for E left_height left_handler right_height right_handler where
  left: "task_step E left_height left_handler x x' \<Longrightarrow> link_step E left_height left_handler right_height right_handler (x, y) (x', y)"
| right: "task_step E right_height right_handler y y' \<Longrightarrow> link_step E left_height left_handler right_height right_handler (x, y) (x, y')"
| to_right: "link_step E left_height left_handler right_height right_handler ((s, p), (t, q))
    ((s, p\<lparr>written := []\<rparr>), (t, q\<lparr>arrived := arrived q @ written p\<rparr>))"
| to_left: "link_step E left_height left_handler right_height right_handler ((s, p), (t, q))
    ((s, p\<lparr>arrived := arrived p @ written q\<rparr>), (t, q\<lparr>written := []\<rparr>))"

inductive_cases task_stepE: "task_step E height handler x x'"
inductive_cases connection_stepE: "connection_step E height handler x x'"

section \<open>Who waits for what\<close>

fun queued :: "Outgoing list \<Rightarrow> callback list" where
  "queued [] = []"
| "queued (OutRequest m c # out) = c # queued out"
| "queued (OneWay m # out) = queued out"

definition request_ok :: "Connection \<Rightarrow> Message \<Rightarrow> callback \<Rightarrow> bool" where
  "request_ok p m c \<longleftrightarrow> c < length (callbacks p) \<and> callbacks p ! c = Waiting \<and> requests p ! c = m"

text \<open>
  Every request that waits is either queued or in the map under its id, in one place only, and what a
  request was answered with has its id.
\<close>

definition connection_inv :: "Connection \<Rightarrow> bool" where
  "connection_inv p \<longleftrightarrow>
     length (callbacks p) = length (requests p) \<and> length (outgoing p) \<le> QUEUE_CAPACITY
     \<and> distinct (queued (outgoing p))
     \<and> (\<forall>m c. OutRequest m c \<in> set (outgoing p) \<longrightarrow> request_ok p m c)
     \<and> (\<forall>i c. fmlookup (pending p) i = Some c \<longrightarrow>
           request_ok p (requests p ! c) c \<and> message_id (requests p ! c) = i \<and> c \<notin> set (queued (outgoing p)))
     \<and> (\<forall>c < length (callbacks p). callbacks p ! c = Waiting \<longrightarrow>
           c \<in> set (queued (outgoing p)) \<or> fmlookup (pending p) (message_id (requests p ! c)) = Some c)
     \<and> (\<forall>c < length (callbacks p). \<forall>m. callbacks p ! c = Replied m \<longrightarrow> message_id m = message_id (requests p ! c))
     \<and> (ending p \<noteq> None \<longrightarrow> outgoing p = [] \<and> pending p = fmempty)"

lemma in_queued: "c \<in> set (queued out) \<longleftrightarrow> (\<exists>m. OutRequest m c \<in> set out)"
  by (induction out rule: queued.induct) auto

lemma queued_append [simp]: "queued (xs @ ys) = queued xs @ queued ys"
  by (induction xs rule: queued.induct) simp_all

lemma connection_inv_new: "connection_inv (connection_new rest)"
  by (simp add: connection_inv_def connection_new_def)

text \<open>Fields the invariant does not look at.\<close>

lemma connection_inv_cong:
  assumes "connection_inv p" and "outgoing p' = outgoing p" and "pending p' = pending p"
    and "callbacks p' = callbacks p" and "requests p' = requests p" and "ending p' = ending p"
  shows "connection_inv p'"
  using assms(1) unfolding connection_inv_def request_ok_def assms(2-) .

lemma drop_waiting_nth:
  assumes "c < length cs"
  shows "drop_waiting cs ! c \<noteq> Waiting" and "drop_waiting cs ! c = Replied m \<longleftrightarrow> cs ! c = Replied m"
  using assms by (auto simp: drop_waiting_def)

lemma length_drop_waiting [simp]: "length (drop_waiting cs) = length cs"
  by (simp add: drop_waiting_def)

lemma end_connection_fields [simp]:
  "outgoing (end_connection r p) = []" "pending (end_connection r p) = fmempty"
  "ending (end_connection r p) = Some r" "requests (end_connection r p) = requests p"
  "callbacks (end_connection r p) = drop_waiting (callbacks p)"
  by (simp_all add: end_connection_def)

lemma end_connection_inv:
  assumes "length (callbacks p) = length (requests p)"
    and "\<forall>c < length (callbacks p). \<forall>m. callbacks p ! c = Replied m \<longrightarrow> message_id m = message_id (requests p ! c)"
  shows "connection_inv (end_connection r p)"
  unfolding connection_inv_def end_connection_fields length_drop_waiting
proof (intro conjI allI impI)
  fix c m assume "c < length (callbacks p)" "drop_waiting (callbacks p) ! c = Replied m"
  with assms(2) show "message_id m = message_id (requests p ! c)" by (simp add: drop_waiting_nth)
qed (use assms(1) in \<open>auto simp: drop_waiting_nth QUEUE_CAPACITY_def\<close>)

lemma connection_inv_end:
  assumes "connection_inv p"
  shows "connection_inv (end_connection r p)"
  by (rule end_connection_inv; use assms in \<open>unfold connection_inv_def\<close>; blast)

lemma connection_invD:
  assumes "connection_inv p"
  shows "length (callbacks p) = length (requests p)" and "length (outgoing p) \<le> QUEUE_CAPACITY"
    and "distinct (queued (outgoing p))"
    and "OutRequest m c \<in> set (outgoing p) \<Longrightarrow> request_ok p m c"
    and "fmlookup (pending p) i = Some c \<Longrightarrow>
      request_ok p (requests p ! c) c \<and> message_id (requests p ! c) = i \<and> c \<notin> set (queued (outgoing p))"
    and "c < length (callbacks p) \<Longrightarrow> callbacks p ! c = Waiting \<Longrightarrow>
      c \<in> set (queued (outgoing p)) \<or> fmlookup (pending p) (message_id (requests p ! c)) = Some c"
    and "c < length (callbacks p) \<Longrightarrow> callbacks p ! c = Replied m \<Longrightarrow>
      message_id m = message_id (requests p ! c)"
    and "ending p \<noteq> None \<Longrightarrow> outgoing p = [] \<and> pending p = fmempty"
  using assms unfolding connection_inv_def by blast+

lemma connection_invI:
  assumes "length (callbacks p) = length (requests p)" and "length (outgoing p) \<le> QUEUE_CAPACITY"
    and "distinct (queued (outgoing p))"
    and "\<And>m c. OutRequest m c \<in> set (outgoing p) \<Longrightarrow> request_ok p m c"
    and "\<And>i c. fmlookup (pending p) i = Some c \<Longrightarrow>
      request_ok p (requests p ! c) c \<and> message_id (requests p ! c) = i \<and> c \<notin> set (queued (outgoing p))"
    and "\<And>c. c < length (callbacks p) \<Longrightarrow> callbacks p ! c = Waiting \<Longrightarrow>
      c \<in> set (queued (outgoing p)) \<or> fmlookup (pending p) (message_id (requests p ! c)) = Some c"
    and "\<And>c m. c < length (callbacks p) \<Longrightarrow> callbacks p ! c = Replied m \<Longrightarrow>
      message_id m = message_id (requests p ! c)"
    and "ending p \<noteq> None \<Longrightarrow> outgoing p = [] \<and> pending p = fmempty"
  shows "connection_inv p"
  using assms unfolding connection_inv_def by blast

lemma send_request_inv:
  assumes inv: "connection_inv p" and step: "send_request m p = Some (r, p')"
  shows "connection_inv p'"
proof (cases "ending p")
  case (Some x)
  with step inv show ?thesis by (simp add: send_request_def)
next
  case None
  let ?c = "length (callbacks p)"
  note d = connection_invD [OF inv]
  have p': "p' = p\<lparr>outgoing := outgoing p @ [OutRequest m ?c], callbacks := callbacks p @ [Waiting],
      requests := requests p @ [m]\<rparr>" and space: "length (outgoing p) < QUEUE_CAPACITY"
    using step None by (auto simp: send_request_def Let_def split: if_splits)
  have old: "request_ok p' n c" if "request_ok p n c" for n c
    using that d(1) by (auto simp: request_ok_def p' nth_append)
  have fresh: "c < ?c" if "c \<in> set (queued (outgoing p))" for c
    using that d(4) by (auto simp: in_queued request_ok_def)
  show ?thesis
  proof (rule connection_invI)
    show "length (callbacks p') = length (requests p')" "length (outgoing p') \<le> QUEUE_CAPACITY"
      using d(1) space by (simp_all add: p')
    show "distinct (queued (outgoing p'))" using d(3) fresh by (auto simp: p')
    show "request_ok p' n c" if "OutRequest n c \<in> set (outgoing p')" for n c
    proof (cases "OutRequest n c \<in> set (outgoing p)")
      case True
      then show ?thesis using d(4) old by blast
    next
      case False
      then show ?thesis using that d(1) by (auto simp: p' request_ok_def nth_append)
    qed
    show "request_ok p' (requests p' ! c) c \<and> message_id (requests p' ! c) = i \<and> c \<notin> set (queued (outgoing p'))"
      if "fmlookup (pending p') i = Some c" for i c
    proof -
      have "fmlookup (pending p) i = Some c" using that by (simp add: p')
      note e = d(5) [OF this]
      then have "c < ?c" "requests p' ! c = requests p ! c" using d(1) by (auto simp: request_ok_def p' nth_append)
      with e old show ?thesis by (auto simp: p')
    qed
    show "c \<in> set (queued (outgoing p')) \<or> fmlookup (pending p') (message_id (requests p' ! c)) = Some c"
      if "c < length (callbacks p')" "callbacks p' ! c = Waiting" for c
      using that d(1) d(6) [of c] by (cases "c = ?c") (auto simp: p' nth_append less_Suc_eq)
    show "message_id n = message_id (requests p' ! c)"
      if "c < length (callbacks p')" "callbacks p' ! c = Replied n" for c n
      using that d(1) d(7) [of c n] by (cases "c = ?c") (auto simp: p' nth_append less_Suc_eq)
    show "outgoing p' = [] \<and> pending p' = fmempty" if "ending p' \<noteq> None"
      using that None by (simp add: p')
  qed
qed

lemma send_message_inv:
  assumes inv: "connection_inv p" and step: "send_message m p = Some (r, p')"
  shows "connection_inv p'"
proof (cases "ending p")
  case (Some x)
  with step inv show ?thesis by (simp add: send_message_def)
next
  case None
  note d = connection_invD [OF inv]
  have p': "p' = p\<lparr>outgoing := outgoing p @ [OneWay m]\<rparr>" and space: "length (outgoing p) < QUEUE_CAPACITY"
    using step None by (auto simp: send_message_def split: if_splits)
  have fields: "outgoing p' = outgoing p @ [OneWay m]" "pending p' = pending p" "callbacks p' = callbacks p"
    "requests p' = requests p" "ending p' = None" by (simp_all add: p' None)
  have same: "request_ok p' = request_ok p" by (simp add: request_ok_def fields fun_eq_iff)
  show ?thesis
  proof (rule connection_invI)
    show "length (outgoing p') \<le> QUEUE_CAPACITY" using space by (simp add: fields)
    show "request_ok p' n c" if "OutRequest n c \<in> set (outgoing p')" for n c
      using that d(4) by (simp add: fields same)
    have q: "queued (outgoing p') = queued (outgoing p)" by (simp add: fields)
    show "request_ok p' (requests p' ! c) c \<and> message_id (requests p' ! c) = i \<and> c \<notin> set (queued (outgoing p'))"
      if "fmlookup (pending p') i = Some c" for i c
      using that d(5) unfolding q fields(2-) same by blast
    show "c \<in> set (queued (outgoing p')) \<or> fmlookup (pending p') (message_id (requests p' ! c)) = Some c"
      if "c < length (callbacks p')" "callbacks p' ! c = Waiting" for c
      using that d(6) unfolding q fields(2-) by blast
    show "message_id n = message_id (requests p' ! c)"
      if "c < length (callbacks p')" "callbacks p' ! c = Replied n" for c n
      using that d(7) unfolding fields(2-) by blast
  qed (simp_all add: fields d(1,3))
qed

lemma kill_inv:
  assumes "connection_inv p" and "kill reason p = (r, p')"
  shows "connection_inv p'"
  by (rule connection_inv_cong [OF assms(1)]) (use assms(2) in \<open>auto simp: kill_def split: if_splits\<close>)

lemma request_timed_out_inv:
  assumes "connection_inv p" and "request_timed_out p = (r, p')"
  shows "connection_inv p'"
proof -
  obtain r' q where k: "kill ''Peer timed out'' p = (r', q)" by force
  then have "q = p'" using assms(2) by (cases r') (auto simp: request_timed_out_def)
  then show ?thesis using kill_inv [OF assms(1) k] by simp
qed

lemma write_message_inv:
  assumes "connection_inv p"
  shows "connection_inv (write_message E writable m p)"
proof -
  have "connection_inv (p\<lparr>written := bytes\<rparr>)" for bytes
    by (rule connection_inv_cong [OF assms]) simp_all
  then show ?thesis
    using connection_inv_end [OF assms] by (auto simp: write_message_def split: result.split)
qed

text \<open>Moving a request from the queue to the map drops the one that waits under its id.\<close>

lemma move_request_inv:
  assumes inv: "connection_inv p" and out: "outgoing p = OutRequest m c # out" and running: "ending p = None"
    and p': "outgoing p' = out" "pending p' = fmupd (message_id m) c (pending p)"
      "callbacks p' = (case fmlookup (pending p) (message_id m) of
         None \<Rightarrow> callbacks p | Some old \<Rightarrow> drop_callback old (callbacks p))"
      "requests p' = requests p" "ending p' = ending p"
  shows "connection_inv p'"
proof -
  note d = connection_invD [OF inv]
  let ?i = "message_id m"
  have c: "request_ok p m c" "c \<notin> set (queued out)" using d(4) [of m c] d(3) by (simp_all add: out)
  have not_pending: "fmlookup (pending p) i \<noteq> Some c" for i using d(5) [of i c] by (auto simp: out)
  have len: "length (callbacks p') = length (callbacks p)"
    by (simp add: p'(3) drop_callback_def split: option.split)
  have nth: "callbacks p' ! e = (if fmlookup (pending p) ?i = Some e then Dropped else callbacks p ! e)"
    if "e < length (callbacks p)" for e
    using that d(5) [of ?i] by (auto simp: p'(3) drop_callback_def request_ok_def split: option.split)
  have keep: "request_ok p' n e" if "request_ok p n e" "fmlookup (pending p) ?i \<noteq> Some e" for n e
    using that by (simp add: request_ok_def len p'(4) nth)
  show ?thesis
  proof (rule connection_invI)
    show "length (callbacks p') = length (requests p')" using d(1) by (simp add: len p'(4))
    show "length (outgoing p') \<le> QUEUE_CAPACITY" "distinct (queued (outgoing p'))"
      using d(2,3) by (simp_all add: out p'(1))
    show "request_ok p' n e" if "OutRequest n e \<in> set (outgoing p')" for n e
    proof (rule keep)
      show "request_ok p n e" using that d(4) by (simp add: out p'(1))
      have "e \<in> set (queued (outgoing p))" using that by (auto simp: in_queued out p'(1))
      then show "fmlookup (pending p) ?i \<noteq> Some e" using d(5) by blast
    qed
    show "request_ok p' (requests p' ! e) e \<and> message_id (requests p' ! e) = i \<and> e \<notin> set (queued (outgoing p'))"
      if "fmlookup (pending p') i = Some e" for i e
    proof (cases "i = ?i")
      case True
      then have "e = c" using that by (simp add: p'(2))
      then show ?thesis
        using keep [OF c(1) not_pending] c True by (simp add: request_ok_def p'(1,4))
    next
      case False
      then have e: "fmlookup (pending p) i = Some e" using that by (simp add: p'(2))
      then have "request_ok p (requests p ! e) e" "message_id (requests p ! e) = i" "e \<notin> set (queued (outgoing p))"
        using d(5) by blast+
      moreover have "fmlookup (pending p) ?i \<noteq> Some e" using d(5) [of ?i e] False \<open>message_id (requests p ! e) = i\<close> by auto
      ultimately show ?thesis using keep by (simp add: p'(1,4) out)
    qed
    show "e \<in> set (queued (outgoing p')) \<or> fmlookup (pending p') (message_id (requests p' ! e)) = Some e"
      if "e < length (callbacks p')" "callbacks p' ! e = Waiting" for e
    proof -
      have e: "e < length (callbacks p)" "callbacks p ! e = Waiting" "fmlookup (pending p) ?i \<noteq> Some e"
        using that nth [of e] by (auto simp: len split: if_splits)
      have "requests p ! c = m" using c(1) by (simp add: request_ok_def)
      then show ?thesis using d(6) [OF e(1,2)] e(3) by (auto simp: out p')
    qed
    show "message_id n = message_id (requests p' ! e)"
      if "e < length (callbacks p')" "callbacks p' ! e = Replied n" for e n
    proof -
      have "e < length (callbacks p)" "callbacks p ! e = Replied n"
        using that nth [of e] by (auto simp: len split: if_splits)
      then show ?thesis using d(7) by (simp add: p'(4))
    qed
    show "outgoing p' = [] \<and> pending p' = fmempty" if "ending p' \<noteq> None" using that running p'(5) by simp
  qed
qed

lemma writer_turn_inv:
  assumes inv: "connection_inv p" and running: "ending p = None"
  shows "connection_inv (writer_turn E writable p)"
proof (cases "outgoing p")
  case Nil
  with inv show ?thesis by (simp add: writer_turn_def)
next
  case (Cons x out)
  show ?thesis
  proof (cases x)
    case (OutRequest m c)
    have "connection_inv (p\<lparr>outgoing := out, pending := fmupd (message_id m) c (pending p),
        callbacks := (case fmlookup (pending p) (message_id m) of
          None \<Rightarrow> callbacks p | Some old \<Rightarrow> drop_callback old (callbacks p))\<rparr>)"
      by (rule move_request_inv [OF inv Cons [unfolded OutRequest] running]) simp_all
    then show ?thesis using Cons OutRequest by (simp add: writer_turn_def write_message_inv)
  next
    case (OneWay m)
    note d = connection_invD [OF inv]
    have "connection_inv (p\<lparr>outgoing := out\<rparr>)"
    proof -
      have "queued (outgoing p) = queued out" using Cons OneWay by simp
      moreover have "OutRequest n c \<in> set (outgoing p) \<longleftrightarrow> OutRequest n c \<in> set out" for n c
        using Cons OneWay by simp
      moreover have "length out \<le> length (outgoing p)" using Cons by simp
      moreover have "request_ok (p\<lparr>outgoing := out\<rparr>) = request_ok p" by (simp add: request_ok_def fun_eq_iff)
      ultimately show ?thesis
        using inv running unfolding connection_inv_def by (simp del: split_paired_All)
    qed
    then show ?thesis using Cons OneWay by (simp add: writer_turn_def write_message_inv)
  qed
qed

text \<open>A response settles the request under its id.\<close>

lemma deliver_inv:
  assumes inv: "connection_inv p" and c: "fmlookup (pending p) (message_id m) = Some c"
    and p': "outgoing p' = outgoing p" "pending p' = fmdrop (message_id m) (pending p)"
      "callbacks p' = (callbacks p)[c := Replied m]" "requests p' = requests p" "ending p' = ending p"
  shows "connection_inv p'"
proof -
  note d = connection_invD [OF inv]
  have own: "request_ok p (requests p ! c) c" "message_id (requests p ! c) = message_id m"
    "c \<notin> set (queued (outgoing p))" using d(5) [OF c] by simp_all
  have keep: "request_ok p' n e" if "request_ok p n e" "e \<noteq> c" for n e
    using that by (simp add: request_ok_def p'(3,4))
  show ?thesis
  proof (rule connection_invI)
    show "length (callbacks p') = length (requests p')" using d(1) by (simp add: p'(3,4))
    show "length (outgoing p') \<le> QUEUE_CAPACITY" "distinct (queued (outgoing p'))"
      using d(2,3) by (simp_all add: p'(1))
    show "request_ok p' n e" if "OutRequest n e \<in> set (outgoing p')" for n e
    proof (rule keep)
      show "request_ok p n e" using that d(4) by (simp add: p'(1))
      show "e \<noteq> c" using that own(3) by (auto simp: in_queued p'(1))
    qed
    show "request_ok p' (requests p' ! e) e \<and> message_id (requests p' ! e) = i \<and> e \<notin> set (queued (outgoing p'))"
      if e: "fmlookup (pending p') i = Some e" for i e
    proof -
      have "i \<noteq> message_id m" "fmlookup (pending p) i = Some e"
        using e by (auto simp: p'(2) split: if_splits)
      then have "request_ok p (requests p ! e) e \<and> message_id (requests p ! e) = i \<and> e \<notin> set (queued (outgoing p))"
        using d(5) by blast
      moreover have "e \<noteq> c" using calculation own(2) \<open>i \<noteq> message_id m\<close> by auto
      ultimately show ?thesis using keep by (simp add: p'(1,4))
    qed
    show "e \<in> set (queued (outgoing p')) \<or> fmlookup (pending p') (message_id (requests p' ! e)) = Some e"
      if e: "e < length (callbacks p')" "callbacks p' ! e = Waiting" for e
    proof -
      have "e \<noteq> c" "e < length (callbacks p)" "callbacks p ! e = Waiting"
        using e by (cases "e = c"; simp add: p'(3))+
      then show ?thesis using d(6) [of e] c by (auto simp: p'(1,2,4))
    qed
    show "message_id n = message_id (requests p' ! e)"
      if e: "e < length (callbacks p')" "callbacks p' ! e = Replied n" for e n
      using e d(7) [of e n] own(2) by (cases "e = c") (simp_all add: p'(3,4))
    show "outgoing p' = [] \<and> pending p' = fmempty" if "ending p' \<noteq> None"
      using that d(8) c by (simp add: p'(5))
  qed
qed

lemma reader_turn_inv:
  assumes inv: "connection_inv p"
  shows "connection_inv (snd (reader_turn E handler (s, p)))"
proof -
  obtain r rest where f: "from_stream E (arrived p) = (r, rest)" by force
  have p1: "connection_inv (p\<lparr>arrived := rest\<rparr>)" by (rule connection_inv_cong [OF inv]) simp_all
  have p2: "connection_inv (p\<lparr>arrived := rest, response := x\<rparr>)" for x
    by (rule connection_inv_cong [OF inv]) simp_all
  note ended = connection_inv_end [OF p1]
  show ?thesis
  proof (cases r)
    case (Ok m)
    show ?thesis
    proof (cases "fmlookup (pending p) (message_id m)")
      case (Some c)
      have "connection_inv (p\<lparr>arrived := rest, pending := fmdrop (message_id m) (pending p),
          callbacks := (callbacks p)[c := Replied m]\<rparr>)"
        by (rule deliver_inv [OF inv Some]) simp_all
      then show ?thesis using f Ok Some by (simp add: reader_turn_def)
    next
      case None
      then show ?thesis
        using f Ok ended p2 by (cases "handler m s"; cases "fst (handler m s)") (auto simp: reader_turn_def)
    qed
  qed (use f ended in \<open>simp_all add: reader_turn_def\<close>)
qed

lemma pinger_turn_inv:
  assumes inv: "connection_inv p" and step: "pinger_turn random height p = Some p'"
  shows "connection_inv p'"
proof -
  have upd: "connection_inv (q\<lparr>ping := x\<rparr>)" if "connection_inv q" for q x
    by (rule connection_inv_cong [OF that]) simp_all
  show ?thesis
    using step send_request_inv [OF inv, of "message_new random (Ping height)"] upd connection_inv_end inv
    by (auto simp: pinger_turn_def split: option.splits result.splits prod.splits)
qed

lemma task_step_inv:
  assumes "task_step E height handler x x'" and "connection_inv (snd x)"
  shows "connection_inv (snd x')"
  using assms
proof (induction rule: task_step.induct)
  case (reads p s x')
  then show ?case using reader_turn_inv by force
next
  case (responds p m p' s)
  then have "connection_inv p" by simp
  then have "connection_inv (p\<lparr>response := None\<rparr>)" by (rule connection_inv_cong) simp_all
  then show ?case using responds send_message_inv by auto
next
  case (ping_timed_out p s)
  obtain r q where "request_timed_out p = (r, q)" by force
  with ping_timed_out show ?case using request_timed_out_inv connection_inv_end by auto
qed (auto intro: send_request_inv send_message_inv kill_inv request_timed_out_inv writer_turn_inv
      pinger_turn_inv connection_inv_end)

lemma connection_step_inv:
  assumes "connection_step E height handler x x'" and "connection_inv (snd x)"
  shows "connection_inv (snd x')"
  using assms
proof (induction rule: connection_step.induct)
  case (bytes_arrive p s bytes)
  then have "connection_inv p" by simp
  then have "connection_inv (p\<lparr>arrived := arrived p @ bytes\<rparr>)" by (rule connection_inv_cong) simp_all
  then show ?case by simp
next
  case (stream_closes s p)
  then have "connection_inv p" by simp
  then have "connection_inv (p\<lparr>stream_closed := True\<rparr>)" by (rule connection_inv_cong) simp_all
  then show ?case by simp
qed (auto dest: task_step_inv)

lemma reachable_connection_inv:
  assumes "(connection_step E height handler)\<^sup>*\<^sup>* (s0, connection_new rest) x"
  shows "connection_inv (snd x)"
  using assms by (induction rule: rtranclp_induct) (auto simp: connection_inv_new intro: connection_step_inv)

section \<open>What is settled stays\<close>

definition keeps_settled :: "Connection \<Rightarrow> Connection \<Rightarrow> bool" where
  "keeps_settled p p' \<longleftrightarrow>
     length (callbacks p) \<le> length (callbacks p')
     \<and> (\<forall>c < length (callbacks p). callbacks p ! c \<noteq> Waiting \<longrightarrow> callbacks p' ! c = callbacks p ! c)"

lemma keeps_settled_refl: "callbacks p' = callbacks p \<Longrightarrow> keeps_settled p p'"
  by (simp add: keeps_settled_def)

lemma keeps_settled_trans: "keeps_settled p q \<Longrightarrow> keeps_settled q r \<Longrightarrow> keeps_settled p r"
  by (auto simp: keeps_settled_def)

lemma keeps_settled_end: "keeps_settled p q \<Longrightarrow> keeps_settled p (end_connection r q)"
  by (auto simp: keeps_settled_def drop_waiting_def)

lemma keeps_settled_drop: "callbacks p' = drop_callback c (callbacks p) \<Longrightarrow> keeps_settled p p'"
  by (auto simp: keeps_settled_def drop_callback_def nth_list_update)

lemma keeps_settled_send: "send_request m p = Some (r, p') \<Longrightarrow> keeps_settled p p'"
  by (auto simp: keeps_settled_def send_request_def Let_def nth_append split: if_splits)

lemma keeps_settled_write: "keeps_settled p q \<Longrightarrow> keeps_settled p (write_message E writable m q)"
  using keeps_settled_trans [OF _ keeps_settled_refl, of p q "q\<lparr>written := w\<rparr>" for w]
  by (auto simp: write_message_def keeps_settled_end split: result.split)

lemma keeps_settled_writer: "keeps_settled p (writer_turn E writable p)"
  by (auto simp: writer_turn_def split: list.split Outgoing.split option.split
      intro!: keeps_settled_write intro: keeps_settled_refl keeps_settled_drop)

lemma keeps_settled_reader:
  assumes inv: "connection_inv p"
  shows "keeps_settled p (snd (reader_turn E handler (s, p)))"
proof -
  have deliver: "keeps_settled p (p\<lparr>arrived := rest, pending := pend, callbacks := (callbacks p)[c := Replied m]\<rparr>)"
    if "fmlookup (pending p) i = Some c" for rest pend c m i
    using connection_invD(5) [OF inv that] by (auto simp: keeps_settled_def request_ok_def nth_list_update)
  show ?thesis
    by (simp add: reader_turn_def deliver keeps_settled_end keeps_settled_refl
        split: prod.split result.split option.split)
qed

lemma keeps_settled_pinger:
  assumes "pinger_turn random height p = Some p'"
  shows "keeps_settled p p'"
proof (cases "ping p")
  case (Some c)
  then show ?thesis
    using assms by (auto simp: pinger_turn_def keeps_settled_end keeps_settled_refl split: option.splits result.splits)
next
  case None
  obtain r q where q: "send_request (message_new random (Ping height)) p = Some (r, q)"
    using assms None by (auto simp: pinger_turn_def split: option.splits)
  then have "keeps_settled p q" by (rule keeps_settled_send)
  moreover have "callbacks (q\<lparr>ping := x\<rparr>) = callbacks q" for x by simp
  ultimately have "keeps_settled p (q\<lparr>ping := x\<rparr>)" for x
    using keeps_settled_refl keeps_settled_trans by blast
  then show ?thesis
    using assms None q \<open>keeps_settled p q\<close>
    by (cases r) (auto simp: pinger_turn_def keeps_settled_end)
qed

lemma kill_callbacks: "kill reason p = (r, p') \<Longrightarrow> callbacks p' = callbacks p"
  by (auto simp: kill_def split: if_splits)

lemma timed_out_callbacks: "callbacks (snd (request_timed_out p)) = callbacks p"
  by (auto simp: request_timed_out_def kill_def)

lemma keeps_settled_step:
  assumes "connection_step E height handler x x'" and "connection_inv (snd x)"
  shows "keeps_settled (snd x) (snd x')"
  using assms(1)
proof cases
  case task
  then show ?thesis
    using assms(2)
  proof (induction rule: task_step.induct)
    case (reads p s x')
    then show ?case using keeps_settled_reader by force
  next
    case (sent m p r p' s)
    then have "callbacks p' = callbacks p" by (auto simp: send_message_def split: if_splits)
    then show ?case by (simp add: keeps_settled_refl)
  next
    case (responds p m p' s)
    then have "callbacks p' = callbacks p" by (auto simp: send_message_def split: if_splits)
    then show ?case by (simp add: keeps_settled_refl)
  next
    case (timed_out p r p' s)
    then show ?case using timed_out_callbacks [of p] by (simp add: keeps_settled_refl)
  next
    case (ping_timed_out p s)
    then show ?case using timed_out_callbacks [of p] by (simp add: keeps_settled_end keeps_settled_refl)
  qed (auto intro: keeps_settled_send keeps_settled_refl keeps_settled_writer keeps_settled_pinger
      keeps_settled_end dest: kill_callbacks)
qed (auto intro: keeps_settled_refl)

lemma keeps_settled_reachable:
  assumes "(connection_step E height handler)\<^sup>*\<^sup>* x x'" and "connection_inv (snd x)"
  shows "keeps_settled (snd x) (snd x') \<and> connection_inv (snd x')"
  using assms(1)
proof (induction rule: rtranclp_induct)
  case base
  then show ?case using assms(2) by (simp add: keeps_settled_refl)
next
  case (step y z)
  then show ?case using keeps_settled_step connection_step_inv keeps_settled_trans by blast
qed

section \<open>Nodes that run this handshake\<close>

text \<open>
  Each end starts with writing \<open>Connect\<close> and then takes the first message of the other for the
  acknowledgement, which it is not.
\<close>

lemma message_new_fields [simp]:
  "command (message_new i c) = c" "message_id (message_new i c) = i"
  by (simp_all add: message_new_def)

lemma create_peer_writes_connect:
  assumes "serialize E (message_new random Connect) = Ok bytes"
  shows "fst (create_peer E (Inr a) True random client stream) = bytes"
  using assms by (simp add: create_peer_def)

lemma create_peer_refuses_connect:
  assumes codec: "faithful_codec E Connect"
  shows "snd (create_peer E (Inr a) True random client
      (fst (create_peer E (Inr b) True random' client' stream) @ rest)) =
    (Err (UnknownP ''Got unhandled AcknowledgeConnection''), rest)"
proof -
  have ok: "\<exists>bytes. serialize E (message_new i Connect) = Ok bytes" for i
    using codec by (auto simp: faithful_codec_def serialize_Ok_iff message_new_def)
  obtain bytes bytes' where b: "serialize E (message_new random Connect) = Ok bytes"
    "serialize E (message_new random' Connect) = Ok bytes'" using ok by blast
  have "from_stream E (bytes' @ rest) = (Ok (message_new random' Connect), rest)"
    by (rule from_stream_serialize [OF _ b(2)]) (simp add: message_new_def codec)
  then show ?thesis
    unfolding create_peer_writes_connect [OF b(2)] by (simp add: create_peer_def b(1))
qed

section \<open>A request is answered\<close>

text \<open>A connection on which nothing is under way.\<close>

definition quiet :: "Connection \<Rightarrow> bool" where
  "quiet p \<longleftrightarrow> ending p = None \<and> outgoing p = [] \<and> arrived p = [] \<and> written p = [] \<and> response p = None"

lemma request_answered:
  assumes p: "quiet p" and q: "quiet q" and free: "fmlookup (pending q) (message_id m) = None"
    and codec: "faithful_codec E (command m)" "faithful_codec E (command r)"
    and right: "right_handler m t = (Ok r, t')" and id: "message_id r = message_id m"
    and asked: "send_request m p = Some (Ok c, p')"
  shows "\<exists>p'' q'. (link_step E left_height left_handler right_height right_handler)\<^sup>*\<^sup>* ((s, p'), (t, q)) ((s, p''), (t', q'))
    \<and> callbacks p'' ! c = Replied r \<and> quiet p'' \<and> quiet q'"
proof -
  obtain bm where bm: "serialize E m = Ok bm" using codec(1) by (auto simp: faithful_codec_def serialize_Ok_iff)
  obtain br where br: "serialize E r = Ok br" using codec(2) by (auto simp: faithful_codec_def serialize_Ok_iff)
  have read: "from_stream E bm = (Ok m, [])" "from_stream E br = (Ok r, [])"
    using from_stream_serialize [OF codec(1) bm, of "[]"] from_stream_serialize [OF codec(2) br, of "[]"] by simp_all
  note quiet = p [unfolded quiet_def] q [unfolded quiet_def]
  let ?link = "link_step E left_height left_handler right_height right_handler"
  let ?cs = "callbacks p @ [Waiting]"
  let ?dropped = "case fmlookup (pending p) (message_id m) of None \<Rightarrow> ?cs | Some old \<Rightarrow> drop_callback old ?cs"
  have p': "p' = p\<lparr>outgoing := [OutRequest m c], callbacks := ?cs, requests := requests p @ [m]\<rparr>"
    and c: "c = length (callbacks p)"
    using asked quiet by (auto simp: send_request_def Let_def split: if_splits)
  have len: "length ?dropped = Suc c" by (simp add: c drop_callback_def split: option.split)
  define p2 where "p2 = p'\<lparr>outgoing := [], pending := fmupd (message_id m) c (pending p), callbacks := ?dropped, written := bm\<rparr>"
  define p3 where "p3 = p2\<lparr>written := []\<rparr>"
  define p4 where "p4 = p3\<lparr>arrived := br\<rparr>"
  define p5 where "p5 = p4\<lparr>arrived := [], pending := fmdrop (message_id m) (pending p4),
      callbacks := (callbacks p4)[c := Replied r]\<rparr>"
  define q2 where "q2 = q\<lparr>arrived := bm\<rparr>"
  define q3 where "q3 = q2\<lparr>arrived := [], response := Some r\<rparr>"
  define q4 where "q4 = q3\<lparr>response := None, outgoing := [OneWay r]\<rparr>"
  define q5 where "q5 = q4\<lparr>outgoing := [], written := br\<rparr>"
  define q6 where "q6 = q5\<lparr>written := []\<rparr>"
  have "writer_turn E True p' = p2"
    using quiet by (simp add: writer_turn_def p' p2_def write_message_def bm split: option.split)
  then have "task_step E left_height left_handler (s, p') (s, p2)"
    using task_step.writes [of p' E left_height left_handler s True] quiet by (simp add: p')
  then have 1: "?link ((s, p'), (t, q)) ((s, p2), (t, q))" by (rule link_step.left)
  have 2: "?link ((s, p2), (t, q)) ((s, p3), (t, q2))"
    using link_step.to_right [of E left_height left_handler right_height right_handler s p2 t q] quiet by (simp add: p3_def q2_def p2_def p')
  have "reader_turn E right_handler (t, q2) = (t', q3)"
    using free right by (simp add: reader_turn_def q2_def q3_def read)
  then have "task_step E right_height right_handler (t, q2) (t', q3)"
    by (rule task_step.reads [rotated 3]) (use quiet in \<open>simp_all add: q2_def read\<close>)
  then have 3: "?link ((s, p3), (t, q2)) ((s, p3), (t', q3))" by (rule link_step.right)
  have "send_message r (q3\<lparr>response := None\<rparr>) = Some (Ok (), q4)"
    using quiet by (simp add: send_message_def q3_def q4_def q2_def QUEUE_CAPACITY_def)
  then have "task_step E right_height right_handler (t', q3) (t', q4)"
    by (rule task_step.responds [rotated 2]) (use quiet in \<open>simp_all add: q3_def q2_def\<close>)
  then have 4: "?link ((s, p3), (t', q3)) ((s, p3), (t', q4))" by (rule link_step.right)
  have "writer_turn E True q4 = q5"
    using quiet by (simp add: writer_turn_def q5_def q4_def q3_def q2_def write_message_def br)
  then have "task_step E right_height right_handler (t', q4) (t', q5)"
    using task_step.writes [of q4 E right_height right_handler t' True] quiet by (simp add: q4_def q3_def q2_def)
  then have 5: "?link ((s, p3), (t', q4)) ((s, p3), (t', q5))" by (rule link_step.right)
  have 6: "?link ((s, p3), (t', q5)) ((s, p4), (t', q6))"
    using link_step.to_left [of E left_height left_handler right_height right_handler s p3 t' q5] quiet
    by (simp add: p4_def q6_def q5_def p3_def p2_def p')
  have "reader_turn E left_handler (s, p4) = (s, p5)"
    by (simp add: reader_turn_def p5_def p4_def p3_def p2_def read id)
  then have "task_step E left_height left_handler (s, p4) (s, p5)"
    by (rule task_step.reads [rotated 3]) (use quiet in \<open>simp_all add: p4_def p3_def p2_def p' read\<close>)
  then have 7: "?link ((s, p4), (t', q6)) ((s, p5), (t', q6))" by (rule link_step.left)
  have "?link\<^sup>*\<^sup>* ((s, p'), (t, q)) ((s, p5), (t', q6))"
    using 1 2 3 4 5 6 7 by (meson converse_rtranclp_into_rtranclp rtranclp.rtrancl_refl)
  moreover have "callbacks p5 ! c = Replied r"
    using len by (simp add: p5_def p4_def p3_def p2_def)
  moreover have "quiet p5" "quiet q6"
    using quiet by (simp_all add: quiet_def p5_def p4_def p3_def p2_def p' q6_def q5_def q4_def q3_def q2_def)
  ultimately show ?thesis by blast
qed

end
