(* ===== verification/Ibd.thy ===== *)
theory Ibd
  imports Full_Sync
begin

text \<open>
  \<open>full_node/ibd.rs\<close>: the initial block download.  The hashes of the missing blocks come from one
  peer, the blocks are fetched in rounds from all peers and applied in order; most of them are added
  without checking their proof of work, which other threads check meanwhile.  The measured speeds only
  decide how many blocks each peer is asked for: the contributions of the peers in each round are an
  argument, as is what they reply.  Here the three tasks run one after the other; \<open>Ibd_Pipeline\<close> lets them, and
  the hashing threads, interleave, and shows that it makes no difference.
\<close>

section \<open>Applying\<close>

definition IBD_SAFE_SKIP_HASHING :: usize where "IBD_SAFE_SKIP_HASHING = 500"

definition DOWNLOAD_BATCH :: usize where "DOWNLOAD_BATCH = 2000"

datatype IbdError =
    NoConnectedPeers
  | PeerI PeerError
  | NoPeerHeight
  | NoPeerHashes
  | BlockI BlockError
  | BlockchainI BlockchainError
  | TaskPanicked
  | ChannelClosed

definition speed_up :: "bool \<Rightarrow> usize \<Rightarrow> usize \<Rightarrow> bool" where
  "speed_up full_ibd remote_height current_processing_height \<longleftrightarrow>
     \<not> full_ibd \<and> IBD_SAFE_SKIP_HASHING < remote_height - current_processing_height"

text \<open>The chain, and the blocks sent to the hashing threads.\<close>

fun apply_downloaded ::
  "'z chain_env_scheme \<Rightarrow> bool \<Rightarrow> usize \<Rightarrow> usize \<Rightarrow> Block list \<Rightarrow> Blockchain \<times> Block list
     \<Rightarrow> (unit, IbdError, Blockchain \<times> Block list) run"
where
  "apply_downloaded E full_ibd remote_height current [] s = (Ok (), s)"
| "apply_downloaded E full_ibd remote_height current (b # bs) (bc, sent) =
     (let fast = speed_up full_ibd remote_height current
      in case add_block E b fast fast bc of (r, bc) \<Rightarrow>
         bind_run (map_err BlockchainI r, (bc, sent)) (\<lambda>_ (bc, sent).
           let s = (bc, if fast then sent @ [b] else sent)
           in if current + 1 = remote_height then (Ok (), s)
              else apply_downloaded E full_ibd remote_height (current + 1) bs s))"

fun check_hashes :: "'z block_env_scheme \<Rightarrow> Block list \<Rightarrow> (unit, IbdError) result" where
  "check_hashes E [] = Ok ()"
| "check_hashes E (b # bs) = bind_res (map_err BlockI (validate_block_hash E b)) (\<lambda>_. check_hashes E bs)"

text \<open>What \<open>await\<close> gets from a task: its panic is an error.\<close>

fun joined :: "('a, IbdError) result \<Rightarrow> ('a, IbdError) result" where
  "joined (Ok x) = Ok x"
| "joined (Err e) = Err e"
| "joined Panic = Err TaskPanicked"

text \<open>The hashing threads are waited for first.\<close>

definition process_downloaded ::
  "'z chain_env_scheme \<Rightarrow> bool \<Rightarrow> usize \<Rightarrow> usize \<Rightarrow> Block list \<Rightarrow> Blockchain
     \<Rightarrow> (unit, IbdError, Blockchain) run"
where
  "process_downloaded E full_ibd remote_height local_height bs bc =
     (case apply_downloaded E full_ibd remote_height local_height bs (bc, []) of
        (r, (bc, sent)) \<Rightarrow> (bind_res (joined (check_hashes E sent)) (\<lambda>_. joined r), bc))"

section \<open>Downloading\<close>

definition peer_share :: "nat \<Rightarrow> f64 \<Rightarrow> usize" where
  "peer_share peer_count contribution =
     f64_as_nat 64 (fmul (f64_of_nat (DOWNLOAD_BATCH div peer_count)) contribution)"

text \<open>One round: the batch of every peer, and the index the next round starts at.\<close>

fun plan_round ::
  "Hash list \<Rightarrow> nat \<Rightarrow> usize \<Rightarrow> f64 list \<Rightarrow> (Hash list list \<times> usize, 'e) result"
where
  "plan_round hs peer_count downloader_height [] = Ok ([], downloader_height)"
| "plan_round hs peer_count downloader_height (c # cs) =
     (let download_end = min (downloader_height + peer_share peer_count c) (length hs)
      in bind_res (slice_vec hs downloader_height download_end) (\<lambda>batch.
         bind_res (plan_round hs peer_count download_end cs) (\<lambda>(batches, h). Ok (batch # batches, h))))"

definition download_batch :: "(Hash \<Rightarrow> (Command, PeerError) result) \<Rightarrow> Hash list \<Rightarrow> Block list" where
  "download_batch reply batch =
     List.map_filter (\<lambda>h. case reply h of Ok (GetBlockResponse (Some b)) \<Rightarrow> Some b | _ \<Rightarrow> None) batch"

text \<open>
  Rounds until everything was asked for; \<open>None\<close> is a download that the given rounds have not finished.
  \<open>reply\<close> is by the number of the round and of the peer.
\<close>

fun download_rounds ::
  "Hash list \<Rightarrow> nat \<Rightarrow> (nat \<Rightarrow> nat \<Rightarrow> Hash \<Rightarrow> (Command, PeerError) result) \<Rightarrow> f64 list list \<Rightarrow> nat \<Rightarrow> usize
     \<Rightarrow> (Block list, 'e) result option"
where
  "download_rounds hs peer_count reply [] k h = None"
| "download_rounds hs peer_count reply (cs # rounds) k h =
     (case plan_round hs peer_count h cs of
        Ok (batches, h') \<Rightarrow>
          let blocks = concat (map (\<lambda>(i, batch). download_batch (reply k i) batch) (enumerate_list batches))
          in if h' = length hs then Some (Ok blocks)
             else map_option (\<lambda>r. bind_res r (\<lambda>rest. Ok (blocks @ rest)))
               (download_rounds hs peer_count reply rounds (k + 1) h')
      | Err e \<Rightarrow> Some (Err e) | Panic \<Rightarrow> Some Panic)"

definition ibd_blockchain ::
  "'z chain_env_scheme \<Rightarrow> bool \<Rightarrow> PeerHandle list \<Rightarrow> (Command \<Rightarrow> (Command, PeerError) result)
     \<Rightarrow> (nat \<Rightarrow> nat \<Rightarrow> Hash \<Rightarrow> (Command, PeerError) result) \<Rightarrow> f64 list list \<Rightarrow> Blockchain
     \<Rightarrow> (unit, IbdError, Blockchain) run option"
where
  "ibd_blockchain E full_ibd peers initial reply rounds bc =
     (let local_height = get_height (block_store bc)
      in if peers = [] then Some (Err NoConnectedPeers, bc)
         else if find (\<lambda>p. and (flags p) FULL_NODE_CAPABILITY = FULL_NODE_CAPABILITY) peers = None
         then Some (Panic, bc)
         else case initial (Ping local_height) of
           Err e \<Rightarrow> Some (Err (PeerI e), bc)
         | Panic \<Rightarrow> Some (Panic, bc)
         | Ok (Pong remote_height) \<Rightarrow>
             if remote_height \<le> local_height then Some (Ok (), bc)
             else (case initial (GetBlockHashes local_height remote_height) of
               Err e \<Rightarrow> Some (Err (PeerI e), bc)
             | Panic \<Rightarrow> Some (Panic, bc)
             | Ok (GetBlockHashesResponse []) \<Rightarrow> Some (Panic, bc)
             | Ok (GetBlockHashesResponse hs) \<Rightarrow>
                 (case download_rounds hs (length peers) reply rounds 0 0 of
                    None \<Rightarrow> None
                  | Some (Ok bs) \<Rightarrow>
                      Some (process_downloaded E full_ibd remote_height local_height bs bc)
                  | Some r \<Rightarrow> Some (bind_res (joined r) (\<lambda>_. Ok ()), bc))
             | Ok _ \<Rightarrow> Some (Err NoPeerHashes, bc))
         | Ok _ \<Rightarrow> Some (Err NoPeerHeight, bc))"

section \<open>The plan covers the hashes in order\<close>

lemma plan_round_spec:
  assumes "h \<le> length hs"
  obtains batches h' where "plan_round hs n h cs = (Ok (batches, h') :: (_, 'e) result)"
    and "h \<le> h'" and "h' \<le> length hs" and "concat batches = take (h' - h) (drop h hs)"
proof -
  have "\<exists>batches h'. plan_round hs n h cs = (Ok (batches, h') :: (_, 'e) result)
      \<and> h \<le> h' \<and> h' \<le> length hs \<and> concat batches = take (h' - h) (drop h hs)"
    using assms
  proof (induction cs arbitrary: h)
    case Nil
    then show ?case by simp
  next
    case (Cons c cs)
    let ?e = "min (h + peer_share n c) (length hs)"
    have e: "h \<le> ?e" "?e \<le> length hs" using Cons.prems by auto
    obtain batches h' where IH: "plan_round hs n ?e cs = (Ok (batches, h') :: (_, 'e) result)"
      "?e \<le> h'" "h' \<le> length hs" "concat batches = take (h' - ?e) (drop ?e hs)"
      using Cons.IH [OF e(2)] by blast
    have "take (?e - h) (drop h hs) @ take (h' - ?e) (drop ?e hs) = take (h' - h) (drop h hs)"
    proof -
      have "h' - h = (?e - h) + (h' - ?e)" using e IH(2) by linarith
      moreover have "drop (?e - h) (drop h hs) = drop ?e hs" using e by simp
      ultimately show ?thesis by (metis take_add)
    qed
    with IH e show ?case
      by (auto simp: slice_vec_ordered [OF e(1)] Let_def intro: order_trans)
  qed
  with that show ?thesis by blast
qed

text \<open>Peers that serve the blocks deliver all of them in the order of the hashes.\<close>

lemma download_batch_served:
  assumes "\<forall>h \<in> set batch. reply h = Ok (GetBlockResponse (Some (f h)))"
  shows "download_batch reply batch = map f batch"
  using assms by (induction batch) (simp_all add: download_batch_def List.map_filter_simps)

lemma download_rounds_served:
  assumes reply: "\<And>k i h. h \<in> set hs \<Longrightarrow> reply k i h = Ok (GetBlockResponse (Some (f h)))"
    and "h \<le> length hs" and "download_rounds hs n reply rounds k h = Some r"
  shows "r = (Ok (map f (drop h hs)) :: (_, 'e) result)"
  using assms(2,3)
proof (induction rounds arbitrary: k h r)
  case Nil
  then show ?case by simp
next
  case (Cons cs rounds)
  obtain batches h' where plan: "plan_round hs n h cs = (Ok (batches, h') :: (_, 'e) result)"
    "h \<le> h'" "h' \<le> length hs" "concat batches = take (h' - h) (drop h hs)"
    using plan_round_spec [OF Cons.prems(1)] by metis
  have batch: "download_batch (reply k i) batch = map f batch" if "batch \<in> set batches" for i batch
  proof -
    have "set batch \<subseteq> set (concat batches)" using that by auto
    also have "\<dots> \<subseteq> set hs" unfolding plan(4) by (meson order_trans set_drop_subset set_take_subset)
    finally show ?thesis using reply by (intro download_batch_served) auto
  qed
  have "concat (map (\<lambda>(i, batch). download_batch (reply k i) batch) (enumerate_list batches)) =
      concat (map (\<lambda>(i, batch). map f batch) (enumerate_list batches))"
    by (intro arg_cong [of _ _ concat] map_cong refl)
      (auto simp: enumerate_list_def batch dest: set_zip_rightD)
  also have "\<dots> = map f (concat (map snd (enumerate_list batches)))"
    by (simp add: map_concat case_prod_beta' comp_def)
  finally have blocks: "concat (map (\<lambda>(i, batch). download_batch (reply k i) batch) (enumerate_list batches)) =
      map f (take (h' - h) (drop h hs))" by (simp add: enumerate_list_snd plan(4))
  show ?case
  proof (cases "h' = length hs")
    case True
    with Cons.prems(2) plan(1) blocks show ?thesis by simp
  next
    case False
    with Cons.prems(2) plan(1) blocks obtain r' where
      r': "download_rounds hs n reply rounds (k + 1) h' = Some r'"
      "r = bind_res r' (\<lambda>rest. Ok (map f (take (h' - h) (drop h hs)) @ rest))"
      by auto
    have "r' = Ok (map f (drop h' hs))" using Cons.IH [OF plan(3) r'(1)] .
    moreover have "take (h' - h) (drop h hs) @ drop h' hs = drop h hs"
      using plan(2) append_take_drop_id [of "h' - h" "drop h hs"] by simp
    ultimately show ?thesis using r'(2) by (metis bind_res.simps(1) map_append)
  qed
qed

text \<open>Every round in which some peer has a share gets on.\<close>

lemma plan_round_progress:
  assumes "h < length hs" and "plan_round hs n h cs = (Ok (batches, h') :: (_, 'e) result)"
    and "\<exists>c \<in> set cs. 0 < peer_share n c"
  shows "h < h'"
  using assms
proof (induction cs arbitrary: h batches)
  case (Cons c cs)
  let ?e = "min (h + peer_share n c) (length hs)"
  have e: "h \<le> ?e" "?e \<le> length hs" using Cons.prems(1) by auto
  obtain bs where rest: "plan_round hs n ?e cs = (Ok (bs, h') :: (_, 'e) result)"
    using Cons.prems(2) by (auto simp: Let_def res_simps)
  from plan_round_spec [OF e(2), of n cs, where ?'e = 'e] rest have "?e \<le> h'" by force
  show ?case
  proof (cases "0 < peer_share n c")
    case True
    then have "h < ?e" using Cons.prems(1) by simp
    with \<open>?e \<le> h'\<close> show ?thesis by linarith
  next
    case False
    then have "?e = h" using Cons.prems(1) by simp
    with rest False Cons.prems show ?thesis by (intro Cons.IH) auto
  qed
qed simp

text \<open>So as many rounds as there are hashes are enough, whatever the peers reply.\<close>

lemma download_rounds_end:
  assumes "h \<le> length hs" and "length hs - h \<le> length rounds" and "rounds \<noteq> []"
    and "\<forall>cs \<in> set rounds. \<exists>c \<in> set cs. 0 < peer_share n c"
  shows "\<exists>r. download_rounds hs n reply rounds k h = Some (r :: (_, 'e) result)"
  using assms
proof (induction rounds arbitrary: k h)
  case (Cons cs rounds)
  obtain batches h' where plan: "plan_round hs n h cs = (Ok (batches, h') :: (_, 'e) result)"
    "h \<le> h'" "h' \<le> length hs"
    using plan_round_spec [OF Cons.prems(1)] by metis
  show ?case
  proof (cases "h' = length hs")
    case True
    with plan(1) show ?thesis by (simp add: Let_def)
  next
    case False
    with plan(2,3) have "h < length hs" by simp
    with plan_round_progress [OF this plan(1)] Cons.prems(4) have "h < h'" by simp
    with False plan(3) Cons.prems(2) have "length hs - h' \<le> length rounds" "rounds \<noteq> []" by auto
    from Cons.IH [OF plan(3) this, of "k + 1"] Cons.prems(4) obtain r where
      "download_rounds hs n reply rounds (k + 1) h' = Some (r :: (_, 'e) result)" by auto
    with plan(1) False show ?thesis by (simp add: Let_def)
  qed
qed simp

section \<open>Skipping checks is safe for valid blocks\<close>

lemma check_meta_ignore: "check_meta E b = Ok u \<Longrightarrow> check_meta_ignore_hash E b = Ok ()"
  using check_meta_ignores_hash [of E b] by simp

lemma valid_ibd:
  "valid_transfer E L d False tx \<Longrightarrow> valid_transfer E L d True tx"
  "valid_reward E h False tx \<Longrightarrow> valid_reward E h True tx"
  unfolding valid_transfer_def valid_reward_def by blast+

lemma valid_transactions_ibd:
  "valid_transactions E L h t False b txs \<Longrightarrow> valid_transactions E L h t True b txs"
  unfolding valid_transactions_def using valid_ibd by (metis (mono_tags, lifting))

lemma check_block_fast:
  assumes "check_block E b False False bc = Ok ()"
  shows "check_block E b fast fast bc = Ok ()" and "validate_block_hash E b = Ok ()"
proof -
  have c: "check_meta E b = Ok ()"
    and v: "valid_transactions E (ledger_of (utxos bc)) (get_height (block_store bc))
         (chain_transaction_difficulty bc) False b (transactions b)"
    using assms by (simp_all add: check_block_Ok_iff)
  show "validate_block_hash E b = Ok ()" using c check_meta_ignores_hash [of E b] by simp
  show "check_block E b fast fast bc = Ok ()"
    using assms check_meta_ignore [OF c] valid_transactions_ibd [OF v]
    by (cases fast) (simp_all add: check_block_Ok_iff)
qed

lemma apply_downloaded_Ok:
  assumes acc: "acceptable_from E t0 P f" and inv: "chain_inv (overflow_checks E) t0 (take j P) bc"
    and "f \<le> j" and "j \<le> length P" and "\<forall>b \<in> set sent. validate_block_hash E b = Ok ()"
  shows "\<exists>bc' sent'. apply_downloaded E full_ibd (length P) j (map fst (drop j P)) (bc, sent) = (Ok (), (bc', sent'))
    \<and> chain_inv (overflow_checks E) t0 P bc' \<and> (\<forall>b \<in> set sent'. validate_block_hash E b = Ok ())"
  using assms(2-5)
proof (induction "length P - j" arbitrary: j bc sent)
  case 0
  then show ?case by simp
next
  case (Suc m)
  then have j: "j < length P" by simp
  let ?b = "fst (P ! j)" and ?fast = "speed_up full_ibd (length P) j"
  have a: "appendable E (take j P) ?b" and c: "check_block E ?b False False bc = Ok ()"
    and good: "good_chain (overflow_checks E) t0 P"
    using acc j Suc.prems(1,2) by (auto simp: acceptable_from_def)
  obtain bc' where bc': "add_block E ?b ?fast ?fast bc = (Ok (), bc')"
    "chain_inv (overflow_checks E) t0
      (take j P @ [(?b, block_diff (ledger_of_chain (take j P)) (transactions ?b))]) bc'"
    using add_block_Ok [OF Suc.prems(1) check_block_fast(1) [OF c] a] by blast
  then have inv': "chain_inv (overflow_checks E) t0 (take (Suc j) P) bc'"
    using good_chain_nth [OF good j] j by (simp add: take_Suc_conv_app_nth)
  let ?sent = "if ?fast then sent @ [?b] else sent"
  have sent: "\<forall>b \<in> set ?sent. validate_block_hash E b = Ok ()"
    using Suc.prems(4) check_block_fast(2) [OF c] by auto
  have drop: "drop j P = P ! j # drop (Suc j) P" using j by (simp add: Cons_nth_drop_Suc)
  show ?case
  proof (cases "Suc j = length P")
    case True
    with inv' have "chain_inv (overflow_checks E) t0 P bc'" by simp
    with True sent show ?thesis by (simp add: drop bc'(1) Let_def)
  next
    case False
    have "m = length P - Suc j" "f \<le> Suc j" "Suc j \<le> length P" using Suc.hyps(2) Suc.prems(2) j by simp_all
    from Suc.hyps(1) [OF this(1) inv' this(2,3) sent] False show ?thesis
      by (simp add: drop bc'(1) Let_def)
  qed
qed

lemma check_hashes_Ok: "\<forall>b \<in> set bs. validate_block_hash E b = Ok () \<Longrightarrow> check_hashes E bs = Ok ()"
  by (induction bs) simp_all

text \<open>
  With enough rounds the download ends and leaves the node with the chain that the peers serve, whether
  or not the checks were left to the hashing threads.
\<close>

lemma ibd_catches_up:
  assumes inv: "chain_inv (overflow_checks E) t0 chain bc" and prefix: "take (length chain) P = chain"
    and longer: "length chain < length P" "length P - length chain \<le> HASHES_FETCH_MAX_COUNT"
    and P: "distinct (map entry_hash P)" and acc: "acceptable_from E t0 P (length chain)"
    and peers: "p \<in> set peers" "and (flags p) FULL_NODE_CAPABILITY = FULL_NODE_CAPABILITY"
    and initial: "initial (Ping (length chain)) = Ok (Pong (length P))"
      "initial (GetBlockHashes (length chain) (length P)) =
        Ok (GetBlockHashesResponse (map entry_hash (drop (length chain) P)))"
    and reply: "\<And>k i e. e \<in> set P \<Longrightarrow> reply k i (entry_hash e) = Ok (GetBlockResponse (Some (fst e)))"
    and rounds: "length P - length chain \<le> length rounds"
      "\<forall>cs \<in> set rounds. \<exists>c \<in> set cs. 0 < peer_share (length peers) c"
  shows "\<exists>bc'. ibd_blockchain E full_ibd peers initial reply rounds bc = Some (Ok (), bc')
    \<and> chain_inv (overflow_checks E) t0 P bc'"
proof -
  let ?hs = "map entry_hash (drop (length chain) P)"
  let ?f = "\<lambda>h. fst (the (find (\<lambda>e. entry_hash e = h) P))"
  have height: "get_height (block_store bc) = length chain"
    using inv by (simp add: chain_inv_def store_represents_def get_height_def)
  have f: "?f (entry_hash e) = fst e" if "e \<in> set P" for e
    using find_distinct_key [OF P that] by simp
  have served: "reply k i h = Ok (GetBlockResponse (Some (?f h)))" if "h \<in> set ?hs" for k i h
    using that reply f by (auto dest: in_set_dropD)
  have blocks: "map ?f ?hs = map fst (drop (length chain) P)"
    using f by (auto dest: in_set_dropD)
  have hs: "?hs \<noteq> []" using longer(1) by simp
  obtain x xs where cons: "?hs = x # xs" using hs by (cases ?hs) auto
  have found: "(find (\<lambda>p. and (flags p) FULL_NODE_CAPABILITY = FULL_NODE_CAPABILITY) peers = None) = False"
    "(peers = []) = False"
    using peers by (auto simp: find_None_iff)
  have "rounds \<noteq> []" using longer(1) rounds(1) by auto
  then obtain q where q: "download_rounds ?hs (length peers) reply rounds 0 0 = Some (q :: (_, IbdError) result)"
    using download_rounds_end [of 0 ?hs rounds "length peers" reply 0] rounds by auto
  have "q = Ok (map ?f (drop 0 ?hs))"
    by (rule download_rounds_served [where f = ?f, OF served _ q]) simp_all
  then have "q = Ok (map fst (drop (length chain) P))" unfolding drop_0 blocks .
  with q have "ibd_blockchain E full_ibd peers initial reply rounds bc =
      Some (process_downloaded E full_ibd (length P) (length chain) (map fst (drop (length chain) P)) bc)"
    unfolding ibd_blockchain_def height Let_def found if_False cons
    using longer(1) by (simp add: initial cons)
  moreover obtain bc1 sent where
    "apply_downloaded E full_ibd (length P) (length chain) (map fst (drop (length chain) P)) (bc, []) =
      (Ok (), (bc1, sent))"
    "chain_inv (overflow_checks E) t0 P bc1" "\<forall>b \<in> set sent. validate_block_hash E b = Ok ()"
    using apply_downloaded_Ok [OF acc, of "length chain" bc "[]" full_ibd] inv prefix longer(1) by auto
  ultimately show ?thesis by (simp add: process_downloaded_def check_hashes_Ok)
qed

text \<open>In the terms of the contract: all peers are servers of the chain, which may differ otherwise.\<close>

context chain_server
begin

lemma ibd_with_servers:
  assumes inv: "chain_inv (overflow_checks E) t0 chain bc" and "take (length chain) P = chain"
    and longer: "length chain < length P" and few: "length P - length chain \<le> HASHES_FETCH_MAX_COUNT"
    and "acceptable_from E t0 P (length chain)"
    and "p \<in> set peers" and "and (flags p) FULL_NODE_CAPABILITY = FULL_NODE_CAPABILITY"
    and first: "holds s P" and servers: "\<And>i. holds (server i) P"
    and "length P - length chain \<le> length rounds"
    and "\<forall>cs \<in> set rounds. \<exists>c \<in> set cs. 0 < peer_share (length peers) c"
  shows "\<exists>bc'. ibd_blockchain E full_ibd peers (answer s 0) (\<lambda>k i h. answer (server i) k (GetBlock h)) rounds bc
      = Some (Ok (), bc')
    \<and> chain_inv (overflow_checks E) t0 P bc'"
  using assms holds_distinct [OF first] answer_ping [OF first] answer_own_hashes [OF first longer few]
    answer_own_block [OF servers]
  by (intro ibd_catches_up) blast+

end

end
