(* ===== verification/Peer_Discovery.thy ===== *)
theory Peer_Discovery
  imports Addresses Peer_Connection Ibd Light_Behavior
begin

text \<open>
  How a node comes to its peers: connecting (\<open>connect_peer\<close> of both kinds of node), accepting
  (\<open>p2p_server.rs\<close>), the round of the daemon that asks peers for peers (\<open>auto_peer.rs\<close> of both kinds), the
  round of the one that reconnects to a seed (\<open>auto_reconnect.rs\<close>), and sending to all peers.  What the
  socket, the random choice and the operating system give are arguments.
\<close>

section \<open>Connecting and accepting\<close>

text \<open>
  What the operating system makes of an attempt to connect: an error, or a stream with the address of its
  other end, whether it can be written to, and the bytes that arrive on it.
\<close>

type_synonym attempt = "string + (string + SocketAddr) \<times> bool \<times> u8 list"

definition make_peer :: "'z message_env_scheme \<Rightarrow> attempt \<Rightarrow> MessageId \<Rightarrow> (PeerHandle, PeerError) result" where
  "make_peer E attempt random =
     (case attempt of
        Inl e \<Rightarrow> Err (IoP (''IO error: '' @ e))
      | Inr (peer_addr, writable, stream) \<Rightarrow> fst (snd (create_peer E peer_addr writable random False stream)))"

definition connect_peer ::
  "'z message_env_scheme \<Rightarrow> attempt \<Rightarrow> MessageId \<Rightarrow> SocketAddr \<Rightarrow> NodeState \<Rightarrow> (PeerHandle, PeerError, NodeState) run"
where
  "connect_peer E attempt random a s =
     bind_run (make_peer E attempt random, s) (\<lambda>handle s. (Ok handle, register_peer a handle s))"

definition light_connect_peer ::
  "'z message_env_scheme \<Rightarrow> attempt \<Rightarrow> MessageId \<Rightarrow> SocketAddr \<Rightarrow> LightNodeState
     \<Rightarrow> (PeerHandle, PeerError, LightNodeState) run"
where
  "light_connect_peer E attempt random a s =
     bind_run (make_peer E attempt random, s) (\<lambda>handle s. (Ok handle, light_register_peer a handle s))"

text \<open>The outcome of connecting to an address, \<open>None\<close> when it does not come within the time-out.\<close>

type_synonym dialler = "SocketAddr \<Rightarrow> (PeerHandle, PeerError) result option"

definition dialled ::
  "'z message_env_scheme \<Rightarrow> (SocketAddr \<Rightarrow> (attempt \<times> MessageId) option) \<Rightarrow> dialler"
where
  "dialled E dial a = map_option (\<lambda>(attempt, random). make_peer E attempt random) (dial a)"

lemma made_peer_outbound: "make_peer E attempt random = Ok peer \<Longrightarrow> \<not> is_client peer"
  by (auto simp: make_peer_def create_peer_def split: sum.splits prod.splits result.splits if_splits Command.splits)

lemma connect_peer_registers:
  "dialled E dial a = Some (Ok peer) \<longleftrightarrow>
     (\<exists>attempt random. dial a = Some (attempt, random)
       \<and> (\<forall>s. connect_peer E attempt random a s = (Ok peer, register_peer a peer s)))"
  by (auto simp: dialled_def connect_peer_def res_simps split: result.splits)

text \<open>One accepted connection: a failed shutdown of a banned one is only logged.\<close>

definition accept_connection ::
  "'z message_env_scheme \<Rightarrow> SocketAddr \<Rightarrow> bool \<Rightarrow> (string + SocketAddr) \<times> bool \<times> u8 list \<Rightarrow> MessageId
     \<Rightarrow> NodeState \<Rightarrow> (unit, PeerError, NodeState) run"
where
  "accept_connection E a shutdown_ok stream random s =
     (if ip a \<in> get_banned_ips (client_health_scores s) \<and> shutdown_ok then (Ok (), s)
      else case stream of (peer_addr, writable, bytes) \<Rightarrow>
        (case fst (snd (create_peer E peer_addr writable random True bytes)) of
           Ok handle \<Rightarrow> (Ok (), register_peer a handle s)
         | Err _ \<Rightarrow> (Ok (), s)
         | Panic \<Rightarrow> (Panic, s)))"

text \<open>One round of the task that the server starts every minute.\<close>

definition forgive_round :: "NodeState \<Rightarrow> NodeState" where
  "forgive_round s = s\<lparr>client_health_scores := decrement_punishments (client_health_scores s)\<rparr>"

text \<open>A message to all peers: who is killed, for which error.\<close>

definition to_peers ::
  "(PeerHandle \<Rightarrow> (Message, PeerError) result) \<Rightarrow> (SocketAddr \<times> PeerHandle) list \<Rightarrow> (PeerHandle \<times> PeerError) list"
where
  "to_peers request peers =
     List.map_filter (\<lambda>(_, p). case request p of Err e \<Rightarrow> Some (p, e) | _ \<Rightarrow> None) peers"

definition light_to_peers ::
  "(PeerHandle \<Rightarrow> (Message, PeerError) result) \<Rightarrow> LightNodeState \<Rightarrow> (PeerHandle \<times> PeerError) list"
where
  "light_to_peers request s = to_peers request (ln_connected_peers s)"

section \<open>Asking peers for peers\<close>

definition TARGET_PEERS :: usize where "TARGET_PEERS = 24"

fun parse_referrals :: "string list \<Rightarrow> (SocketAddr list, PeerError) result" where
  "parse_referrals [] = Ok []"
| "parse_referrals (p # ps) =
     (case parse_address p of
        None \<Rightarrow> Err (UnknownP (''Peer address '' @ p @ '' is invalid''))
      | Some a \<Rightarrow> bind_res (parse_referrals ps) (\<lambda>as. Ok (a # as)))"

definition get_peer_referrals :: "(Command, PeerError) result \<Rightarrow> (SocketAddr list, PeerError) result" where
  "get_peer_referrals reply =
     bind_res reply (\<lambda>c. case c of
        SendPeers peers \<Rightarrow> parse_referrals peers
      | _ \<Rightarrow> Err (UnknownP ''GetPeers returned incorrect response''))"

fun is_loopback :: "IpAddr \<Rightarrow> bool" where
  "is_loopback (V4 a) = (unat a div 2 ^ 24 = 127)"
| "is_loopback (V6 a) = (a = 1)"

fun is_unspecified :: "IpAddr \<Rightarrow> bool" where
  "is_unspecified (V4 a) = (a = 0)"
| "is_unspecified (V6 a) = (a = 0)"

text \<open>The interfaces of the machine are asked for last; not getting them is a panic.\<close>

definition is_my_ip :: "IpAddr list \<Rightarrow> IpAddr list option \<Rightarrow> IpAddr \<Rightarrow> (bool, 'e) result" where
  "is_my_ip reserved interfaces a =
     (if is_loopback a \<or> is_unspecified a \<or> a \<in> set reserved then Ok True
      else bind_res (expect interfaces) (\<lambda>is. Ok (a \<in> set is)))"

type_synonym peer_map = "(SocketAddr \<times> PeerHandle) list"

definition insert_peer :: "SocketAddr \<Rightarrow> PeerHandle \<Rightarrow> peer_map \<Rightarrow> peer_map" where
  "insert_peer a peer ps = List.filter (\<lambda>(b, _). b \<noteq> a) ps @ [(a, peer)]"

lemma register_peer_insert: "register_peer a peer s = s\<lparr>connected_peers := insert_peer a peer (connected_peers s)\<rparr>"
  by (simp add: register_peer_def insert_peer_def)

text \<open>A connection that is not made within the time-out is one that is not made.\<close>

definition try_connect ::
  "IpAddr list \<Rightarrow> IpAddr list option \<Rightarrow> dialler \<Rightarrow> SocketAddr \<Rightarrow> peer_map \<Rightarrow> (peer_map, 'e) result"
where
  "try_connect reserved interfaces connect referral ps =
     bind_res (is_my_ip reserved interfaces (ip referral)) (\<lambda>mine.
       if mine then Ok ps
       else if referral \<in> fst ` set ps then Ok ps
       else case connect referral of
         Some (Ok peer) \<Rightarrow> Ok (insert_peer referral peer ps)
       | Some Panic \<Rightarrow> Panic
       | _ \<Rightarrow> Ok ps)"

definition outbound :: "peer_map \<Rightarrow> usize" where
  "outbound ps = length (List.filter (\<lambda>(_, p). \<not> is_client p) ps)"

text \<open>The random choice is the remainder of a random number.\<close>

definition choose_peer :: "nat \<Rightarrow> peer_map \<Rightarrow> PeerHandle option" where
  "choose_peer random ps = (if ps = [] then None else Some (snd (ps ! (random mod length ps))))"

definition auto_peer_round ::
  "(SocketAddr \<Rightarrow> peer_map \<Rightarrow> (peer_map, 'e) result) \<Rightarrow> nat \<Rightarrow> (PeerHandle \<Rightarrow> (Command, PeerError) result)
     \<Rightarrow> peer_map \<Rightarrow> (peer_map, 'e) result"
where
  "auto_peer_round connect_to random ask ps =
     (if TARGET_PEERS \<le> outbound ps then Ok ps
      else case choose_peer random ps of
        None \<Rightarrow> Ok ps
      | Some peer \<Rightarrow>
        (case get_peer_referrals (ask peer) of
           Ok referrals \<Rightarrow> for_each connect_to (take TARGET_PEERS referrals) ps
         | Err _ \<Rightarrow> Ok ps
         | Panic \<Rightarrow> Panic))"

definition full_auto_peer ::
  "IpAddr list \<Rightarrow> IpAddr list option \<Rightarrow> nat \<Rightarrow> (PeerHandle \<Rightarrow> (Command, PeerError) result)
     \<Rightarrow> dialler \<Rightarrow> NodeState \<Rightarrow> (NodeState, 'e) result"
where
  "full_auto_peer reserved interfaces random ask connect s =
     bind_res (auto_peer_round (try_connect reserved interfaces connect) random ask (connected_peers s)) (\<lambda>ps.
       Ok (s\<lparr>connected_peers := ps\<rparr>))"

text \<open>A light node reserves no addresses.\<close>

definition light_try_connect ::
  "IpAddr list option \<Rightarrow> dialler \<Rightarrow> SocketAddr \<Rightarrow> peer_map \<Rightarrow> (peer_map, 'e) result"
where
  "light_try_connect = try_connect []"

definition light_auto_peer ::
  "IpAddr list option \<Rightarrow> nat \<Rightarrow> (PeerHandle \<Rightarrow> (Command, PeerError) result)
     \<Rightarrow> dialler \<Rightarrow> LightNodeState \<Rightarrow> (LightNodeState, 'e) result"
where
  "light_auto_peer interfaces random ask connect s =
     bind_res (auto_peer_round (light_try_connect interfaces connect) random ask (ln_connected_peers s)) (\<lambda>ps.
       Ok (s\<lparr>ln_connected_peers := ps\<rparr>))"

section \<open>Reconnecting\<close>

text \<open>
  One round: without peers the first seed is connected to, here without a time-out, and the chain is
  downloaded.  A connection that is never made and a download that never ends are \<open>None\<close>.
\<close>

definition reconnect_round ::
  "SocketAddr list \<Rightarrow> dialler \<Rightarrow> (Blockchain \<Rightarrow> (unit, IbdError, Blockchain) run option)
     \<Rightarrow> FullNode \<Rightarrow> (unit, 'e, FullNode) run option"
where
  "reconnect_round resolved_peers connect ibd n =
     (if connected_peers (node_state n) \<noteq> [] then Some (Ok (), n)
      else case resolved_peers of
        [] \<Rightarrow> Some (Panic, n)
      | seed # _ \<Rightarrow>
        (case connect seed of
           None \<Rightarrow> None
         | Some (Err _) \<Rightarrow> Some (Ok (), n)
         | Some Panic \<Rightarrow> Some (Panic, n)
         | Some (Ok peer) \<Rightarrow>
           (let n = on_node_state (set_syncing True \<circ> register_peer seed peer) n
            in case ibd (blockchain n) of
                 None \<Rightarrow> None
               | Some (Panic, bc) \<Rightarrow> Some (Panic, n\<lparr>blockchain := bc\<rparr>)
               | Some (_, bc) \<Rightarrow> Some (Ok (), on_node_state (set_syncing False) (n\<lparr>blockchain := bc\<rparr>)))))"

section \<open>What a round of discovery does\<close>

lemma parse_referrals_printed: "parse_referrals (map address_to_string as) = Ok as"
  by (induction as) (simp_all add: parse_printed)

text \<open>What a full node answers to \<open>GetPeers\<close> is read as the addresses it has.\<close>

definition known_addresses :: "NodeState \<Rightarrow> SocketAddr list" where
  "known_addresses s =
     map (\<lambda>(_, p). address p) (List.filter (\<lambda>(_, p). \<not> is_client p) (connected_peers s))
       @ (case advertised_ip s of None \<Rightarrow> [] | Some a \<Rightarrow> [a])"

lemma referrals_of_node:
  "get_peer_referrals (node_replies E asker s k GetPeers) = Ok (known_addresses (node_state (node s)))"
proof -
  have "peer_addresses st = map address_to_string (known_addresses st)" for st
    by (simp add: peer_addresses_def known_addresses_def comp_def case_prod_beta split: option.split)
  then show ?thesis
    by (simp add: node_replies_def handle_command_def get_peer_referrals_def parse_referrals_printed)
qed

lemma insert_new_peer: "a \<notin> fst ` set ps \<Longrightarrow> insert_peer a h ps = ps @ [(a, h)]"
  by (auto simp: insert_peer_def filter_id_conv image_iff)

definition own_address :: "IpAddr list \<Rightarrow> IpAddr list \<Rightarrow> IpAddr \<Rightarrow> bool" where
  "own_address reserved interfaces a \<longleftrightarrow>
     is_loopback a \<or> is_unspecified a \<or> a \<in> set reserved \<or> a \<in> set interfaces"

lemma is_my_ip_own: "is_my_ip reserved (Some interfaces) a = Ok (own_address reserved interfaces a)"
  by (auto simp: is_my_ip_def own_address_def expect_def res_simps)

definition reached :: "IpAddr list \<Rightarrow> IpAddr list \<Rightarrow> dialler \<Rightarrow> SocketAddr \<Rightarrow> bool" where
  "reached reserved interfaces connect a \<longleftrightarrow>
     \<not> own_address reserved interfaces (ip a) \<and> (\<exists>h. connect a = Some (Ok h))"

definition joining :: "IpAddr list \<Rightarrow> IpAddr list \<Rightarrow> dialler \<Rightarrow> peer_map \<Rightarrow> SocketAddr \<Rightarrow> peer_map" where
  "joining reserved interfaces connect ps a =
     (if own_address reserved interfaces (ip a) \<or> a \<in> fst ` set ps then []
      else case connect a of Some (Ok h) \<Rightarrow> [(a, h)] | _ \<Rightarrow> [])"

lemma joining_addresses:
  "length (joining reserved interfaces connect ps a) \<le> 1" "distinct (map fst (joining reserved interfaces connect ps a))"
  "fst ` set (joining reserved interfaces connect ps a) =
     {b. b = a \<and> reached reserved interfaces connect a \<and> a \<notin> fst ` set ps}"
  "(b, h) \<in> set (joining reserved interfaces connect ps a) \<Longrightarrow> connect b = Some (Ok h)"
  by (cases "connect a"; auto simp: joining_def reached_def split: result.splits if_splits)+

lemma try_connect_joins:
  assumes "connect a \<noteq> Some Panic"
  shows "try_connect reserved (Some interfaces) connect a ps = Ok (ps @ joining reserved interfaces connect ps a)"
  using assms insert_new_peer [of a ps]
  by (auto simp: try_connect_def is_my_ip_own joining_def res_simps split: option.split result.split)

text \<open>The addresses a round adds are exactly those that are referred to, new and reached.\<close>

lemma try_all_reaches:
  assumes "\<And>a. connect a \<noteq> Some Panic"
  shows "\<exists>new. for_each (try_connect reserved (Some interfaces) connect) rs ps = (Ok (ps @ new) :: (_, 'e) result)
    \<and> length new \<le> length rs \<and> distinct (map fst new)
    \<and> fst ` set new = {a \<in> set rs. reached reserved interfaces connect a \<and> a \<notin> fst ` set ps}
    \<and> (\<forall>(a, h) \<in> set new. connect a = Some (Ok h))"
proof (induction rs arbitrary: ps)
  case (Cons r rs)
  let ?j = "joining reserved interfaces connect ps r"
  note j = joining_addresses [where reserved = reserved and interfaces = interfaces and connect = connect and ps = ps and a = r]
  obtain new where new: "for_each (try_connect reserved (Some interfaces) connect) rs (ps @ ?j) =
      (Ok ((ps @ ?j) @ new) :: (_, 'e) result)"
    "length new \<le> length rs" "distinct (map fst new)"
    "fst ` set new = {a \<in> set rs. reached reserved interfaces connect a \<and> a \<notin> fst ` set (ps @ ?j)}"
    "\<forall>(a, h) \<in> set new. connect a = Some (Ok h)"
    using Cons.IH [of "ps @ ?j"] by (elim exE conjE) (rule that)
  have "for_each (try_connect reserved (Some interfaces) connect) (r # rs) ps =
      (Ok (ps @ (?j @ new)) :: (_, 'e) result)"
    using new(1) by (simp add: try_connect_joins [OF assms] res_simps)
  moreover have "length (?j @ new) \<le> length (r # rs)" using new(2) j(1) by simp
  moreover have "fst ` set ?j \<inter> fst ` set new = {}" using new(4) by auto
  then have "distinct (map fst (?j @ new))" using new(3) j(2) by simp
  moreover have "fst ` set (?j @ new) = {a \<in> set (r # rs). reached reserved interfaces connect a \<and> a \<notin> fst ` set ps}"
    unfolding set_append image_Un new(4) j(3) by auto
  moreover have "\<forall>(a, h) \<in> set (?j @ new). connect a = Some (Ok h)"
    using new(5) j(4) by auto
  ultimately show ?case by blast
qed simp

lemma outbound_append: "\<forall>(a, h) \<in> set new. \<not> is_client h \<Longrightarrow> outbound (ps @ new) = outbound ps + length new"
  by (auto simp: outbound_def intro!: arg_cong [where f = length] filter_True)

lemma auto_peer_round_reaches:
  assumes "outbound ps < TARGET_PEERS" and "choose_peer random ps = Some p"
    and "get_peer_referrals (ask p) = Ok as" and "\<And>a. connect a \<noteq> Some Panic"
  shows "\<exists>new. auto_peer_round (try_connect reserved (Some interfaces) connect) random ask ps = (Ok (ps @ new) :: (_, 'e) result)
    \<and> length new \<le> TARGET_PEERS \<and> distinct (map fst new)
    \<and> fst ` set new =
        {a \<in> set (take TARGET_PEERS as). reached reserved interfaces connect a \<and> a \<notin> fst ` set ps}
    \<and> (\<forall>(a, h) \<in> set new. connect a = Some (Ok h))"
proof -
  have "(auto_peer_round (try_connect reserved (Some interfaces) connect) random ask ps :: (_, 'e) result) =
      for_each (try_connect reserved (Some interfaces) connect) (take TARGET_PEERS as) ps"
    using assms(1-3) by (simp add: auto_peer_round_def)
  moreover obtain new where new: "for_each (try_connect reserved (Some interfaces) connect) (take TARGET_PEERS as) ps =
      (Ok (ps @ new) :: (_, 'e) result)" "length new \<le> length (take TARGET_PEERS as)" "distinct (map fst new)"
    "fst ` set new = {a \<in> set (take TARGET_PEERS as). reached reserved interfaces connect a \<and> a \<notin> fst ` set ps}"
    "\<forall>(a, h) \<in> set new. connect a = Some (Ok h)"
    using try_all_reaches [of connect reserved interfaces "take TARGET_PEERS as" ps, OF assms(4)] by (elim exE conjE) (rule that)
  moreover have "length new \<le> TARGET_PEERS" using new(2) by simp
  ultimately show ?thesis by (intro exI [of _ new]) simp
qed

lemma auto_peer_round_enough: "TARGET_PEERS \<le> outbound ps \<Longrightarrow> auto_peer_round connect_to random ask ps = Ok ps"
  by (simp add: auto_peer_round_def)

section \<open>What a reconnection does\<close>

lemma reconnect_downloads:
  assumes "connected_peers (node_state n) = []" and "connect seed = Some (Ok peer)"
    and "ibd (blockchain n) = Some (r, bc)" and "r \<noteq> Panic"
  shows "reconnect_round (seed # seeds) connect ibd n =
    Some (Ok (), n\<lparr>blockchain := bc,
      node_state := (node_state n)\<lparr>connected_peers := [(seed, peer)], is_syncing := False\<rparr>\<rparr>)"
  using assms by (cases r) (simp_all add: reconnect_round_def register_peer_insert insert_peer_def set_syncing_def on_node_state_def)

text \<open>
  With a seed that is no full node the download panics, the flag that a synchronisation runs stays set, and
  from then on offered blocks are answered and dropped.
\<close>

lemma reconnect_to_light_seed:
  assumes "connected_peers (node_state n) = []" and "connect seed = Some (Ok peer)"
    and "and (flags peer) FULL_NODE_CAPABILITY \<noteq> FULL_NODE_CAPABILITY"
  shows "\<exists>n'. reconnect_round (seed # seeds) connect
      (ibd_blockchain E full_ibd [peer] initial reply rounds) n = Some (Panic, n')
    \<and> is_syncing (node_state n') \<and> blockchain n' = blockchain n"
  using assms by (simp add: reconnect_round_def ibd_blockchain_def Let_def set_syncing_def)

lemma syncing_ignores_blocks:
  assumes "is_syncing (node_state (node s))" and "command m = NewBlock b"
  shows "handle_command E now now' now'' peer m s = (Ok NewBlockResolved, s)"
  using assms by (simp add: handle_command_def)

end
