(* ===== verification/Requests.thy ===== *)
theory Requests
  imports Full_Behavior
begin

text \<open>
  \<open>requests.rs\<close>: what a client may ask a node and how a request or a response travels, as a length of
  four bytes and its JSON text.  The JSON library is the codec of \<open>request_env\<close>; a stream is the list of
  the bytes that are still to be read.
\<close>

datatype RequestResponseError = DecodingFailed | EncodingFailed | MalformedData | StreamR | IncorrectResponse

fun request_error_to_string :: "RequestResponseError \<Rightarrow> string" where
  "request_error_to_string DecodingFailed = ''Failed to deserialize message''"
| "request_error_to_string EncodingFailed = ''Failed to serialize message''"
| "request_error_to_string MalformedData = ''Malformed data error''"
| "request_error_to_string StreamR = ''Stream error''"
| "request_error_to_string IncorrectResponse = ''Request returned invalid response''"

datatype Request =
    HeightQ
  | BlockQ Hash
  | DifficultyQ
  | BlockHashQ u64
  | BlockHeightQ Hash
  | TransactionQ TransactionId
  | TransactionAndInfoQ TransactionId
  | TransactionsOfAddressQ Public u32
  | AvailableUTXOsQ Public u32
  | BalanceQ Public
  | RewardQ
  | PeersQ
  | MempoolQ u32
  | NewBlockQ Block
  | NewTransactionQ Transaction
  | LiveTransactionDifficultyQ
  | SubscribeToChainEventsQ

datatype Response =
    HeightR u64
  | BlockR "Block option"
  | DifficultyR buf32 buf32
  | BlockHashR "Hash option"
  | BlockHeightR "usize option"
  | TransactionR "Transaction option"
  | TransactionAndInfoR "TransactionAndInfo option"
  | TransactionsOfAddressR "TransactionId list" "u32 option"
  | AvailableUTXOsR "(TransactionId \<times> TransactionOutput \<times> usize) list" "u32 option"
  | BalanceR u64
  | RewardR u64
  | PeersR "SocketAddr list"
  | MempoolR "Transaction list" "u32 option"
  | NewBlockR "BlockchainError + unit"
  | NewTransactionR "BlockchainError + unit"
  | LiveTransactionDifficultyR buf32
  | ChainEventR ChainEvent

record request_env = chain_env +
  encode_request :: "Request \<Rightarrow> u8 list option"
  decode_request :: "u8 list \<Rightarrow> Request option"
  encode_response :: "Response \<Rightarrow> u8 list option"
  decode_response :: "u8 list \<Rightarrow> Response option"

section \<open>Framing\<close>

definition frame :: "u8 list \<Rightarrow> (u8 list, RequestResponseError) result" where
  "frame bytes =
     (if 2 ^ 32 - 1 < length bytes then Err MalformedData
      else Ok (word_to_be_bytes 4 (word_of_nat (length bytes) :: u32) @ bytes))"

definition request_encode :: "'z request_env_scheme \<Rightarrow> Request \<Rightarrow> (u8 list, RequestResponseError) result" where
  "request_encode E r = bind_res (ok_or (encode_request E r) EncodingFailed) frame"

definition response_encode :: "'z request_env_scheme \<Rightarrow> Response \<Rightarrow> (u8 list, RequestResponseError) result" where
  "response_encode E r = bind_res (ok_or (encode_response E r) EncodingFailed) frame"

definition read_bytes :: "nat \<Rightarrow> u8 list \<Rightarrow> (u8 list, RequestResponseError, u8 list) run" where
  "read_bytes n stream =
     (if n \<le> length stream then (Ok (take n stream), drop n stream) else (Err StreamR, []))"

definition read_frame :: "u8 list \<Rightarrow> (u8 list, RequestResponseError, u8 list) run" where
  "read_frame stream =
     bind_run (read_bytes 4 stream) (\<lambda>size_buf stream.
       read_bytes (unat (word_from_be_bytes size_buf :: u32)) stream)"

definition request_decode :: "'z request_env_scheme \<Rightarrow> u8 list \<Rightarrow> (Request, RequestResponseError, u8 list) run" where
  "request_decode E stream =
     bind_run (read_frame stream) (\<lambda>buf stream. (ok_or (decode_request E buf) DecodingFailed, stream))"

definition response_decode :: "'z request_env_scheme \<Rightarrow> u8 list \<Rightarrow> (Response, RequestResponseError, u8 list) run" where
  "response_decode E stream =
     bind_run (read_frame stream) (\<lambda>buf stream. (ok_or (decode_response E buf) DecodingFailed, stream))"

section \<open>What is read is what was written\<close>

lemma read_frame_frame:
  assumes "frame bytes = Ok framed" shows "read_frame (framed @ rest) = (Ok bytes, rest)"
proof -
  have small: "length bytes < 2 ^ 32" and f: "framed = word_to_be_bytes 4 (word_of_nat (length bytes) :: u32) @ bytes"
    using assms by (auto simp: frame_def split: if_splits)
  have "unat (word_of_nat (length bytes) :: u32) = length bytes"
    using small by (simp add: unsigned_of_nat take_bit_nat_eq_self)
  then show ?thesis by (simp add: read_frame_def read_bytes_def f)
qed

lemma frame_Ok: "length bytes < 2 ^ 32 \<Longrightarrow> \<exists>framed. frame bytes = Ok framed"
  by (simp add: frame_def)

lemma frame_too_long: "2 ^ 32 \<le> length bytes \<Longrightarrow> frame bytes = Err MalformedData"
  by (simp add: frame_def)

lemma read_frame_shorter:
  assumes "read_frame stream = (Ok buf, rest)" shows "length rest < length stream"
proof -
  obtain size where s: "read_bytes 4 stream = (Ok size, drop 4 stream)" "4 \<le> length stream"
    "read_bytes (unat (word_from_be_bytes size :: u32)) (drop 4 stream) = (Ok buf, rest)"
    using assms by (auto simp: read_frame_def read_bytes_def split: if_splits)
  then have "length rest \<le> length (drop 4 stream)" by (auto simp: read_bytes_def split: if_splits)
  with s(2) show ?thesis by simp
qed

lemma request_decode_shorter:
  "request_decode E stream = (Ok r, rest) \<Longrightarrow> length rest < length stream"
  by (auto simp: request_decode_def res_simps dest: read_frame_shorter)

lemma response_decode_shorter:
  "response_decode E stream = (Ok r, rest) \<Longrightarrow> length rest < length stream"
  by (auto simp: response_decode_def res_simps dest: read_frame_shorter)

lemma response_decode_not_Panic: "fst (response_decode E stream) \<noteq> Panic"
  by (auto simp: response_decode_def read_frame_def read_bytes_def split: if_splits)

text \<open>The JSON library's promise for one value: it is encoded in fewer than \<open>2 ^ 32\<close> bytes and decoded back.\<close>

definition json_request :: "'z request_env_scheme \<Rightarrow> Request \<Rightarrow> bool" where
  "json_request E r \<longleftrightarrow>
     (\<exists>bs. encode_request E r = Some bs \<and> length bs < 2 ^ 32 \<and> decode_request E bs = Some r)"

definition json_response :: "'z request_env_scheme \<Rightarrow> Response \<Rightarrow> bool" where
  "json_response E r \<longleftrightarrow>
     (\<exists>bs. encode_response E r = Some bs \<and> length bs < 2 ^ 32 \<and> decode_response E bs = Some r)"

lemma request_roundtrip:
  assumes "json_request E r"
  obtains framed where "request_encode E r = Ok framed"
    and "\<And>rest. request_decode E (framed @ rest) = (Ok r, rest)"
proof -
  obtain bs where bs: "encode_request E r = Some bs" "length bs < 2 ^ 32" "decode_request E bs = Some r"
    using assms by (auto simp: json_request_def)
  from frame_Ok [OF bs(2)] obtain framed where f: "frame bs = Ok framed" by blast
  show ?thesis
    by (rule that [of framed]) (simp_all add: request_encode_def request_decode_def bs f read_frame_frame [OF f])
qed

lemma response_roundtrip:
  assumes "json_response E r"
  obtains framed where "response_encode E r = Ok framed"
    and "\<And>rest. response_decode E (framed @ rest) = (Ok r, rest)"
proof -
  obtain bs where bs: "encode_response E r = Some bs" "length bs < 2 ^ 32" "decode_response E bs = Some r"
    using assms by (auto simp: json_response_def)
  from frame_Ok [OF bs(2)] obtain framed where f: "frame bs = Ok framed" by blast
  show ?thesis
    by (rule that [of framed]) (simp_all add: response_encode_def response_decode_def bs f read_frame_frame [OF f])
qed

end
