(* ===== verification/Full_Api.thy ===== *)
theory Full_Api
  imports Requests Data_Provider
begin

text \<open>
  \<open>full_node/api_server.rs\<close>: how a full node answers the requests of a client, page by page where an
  answer may be long, and the loop over the requests of one connection.  The clock readings and the
  events that arrive during a subscription are given by the number of the request on the connection.
\<close>

definition PAGE_SIZE :: u32 where "PAGE_SIZE = 200"

text \<open>What ends a connection.\<close>

datatype ApiFailure =
    RequestF RequestResponseError
  | StoreF BlockStoreError
  | TransactionF TransactionError
  | ProviderF BlockchainDataProviderError

section \<open>Pages\<close>

text \<open>A page of a list that is at hand, and the number of the next page if this one is full.\<close>

definition page_of :: "bool \<Rightarrow> 'a list \<Rightarrow> u32 \<Rightarrow> ('a list \<times> u32 option, 'e) result" where
  "page_of chk xs requested_page =
     bind_res (mul_u chk requested_page PAGE_SIZE) (\<lambda>start.
     bind_res (add_u chk requested_page 1) (\<lambda>next_page.
     bind_res (mul_u chk next_page PAGE_SIZE) (\<lambda>stop.
     bind_res (slice_vec xs (unat start) (unat stop)) (\<lambda>page.
       if length page \<noteq> unat PAGE_SIZE then Ok (page, None)
       else bind_res (add_u chk requested_page 1) (\<lambda>n. Ok (page, Some n))))))"

text \<open>
  The transactions of an address, from the newest block: \<open>Inl\<close> when the page is full and the loop is
  left, \<open>Inr\<close> with the number seen so far otherwise.
\<close>

fun scan_page ::
  "Public \<Rightarrow> usize \<Rightarrow> usize \<Rightarrow> Transaction list \<Rightarrow> TransactionId list \<Rightarrow> usize
     \<Rightarrow> (TransactionId list + TransactionId list \<times> usize, ApiFailure) result"
where
  "scan_page a start stop [] ids seen = Ok (Inr (ids, seen))"
| "scan_page a start stop (tx # txs) ids seen =
     (if contains_address tx a
      then bind_res
        (if start \<le> seen \<and> seen < stop
         then bind_res (ok_or (transaction_id tx) (TransactionF MissingId)) (\<lambda>i. Ok (ids @ [i]))
         else Ok ids) (\<lambda>ids.
        if stop \<le> seen + 1 then Ok (Inl ids) else scan_page a start stop txs ids (seen + 1))
      else scan_page a start stop txs ids seen)"

fun scan_blocks ::
  "Public \<Rightarrow> usize \<Rightarrow> usize \<Rightarrow> (Block, BlockStoreError) result list \<Rightarrow> TransactionId list \<Rightarrow> usize
     \<Rightarrow> (TransactionId list + TransactionId list \<times> usize, ApiFailure) result"
where
  "scan_blocks a start stop [] ids seen = Ok (Inr (ids, seen))"
| "scan_blocks a start stop (r # rs) ids seen =
     bind_res (map_err StoreF r) (\<lambda>b.
     bind_res (scan_page a start stop (transactions b) ids seen) (\<lambda>x.
       case x of Inl ids \<Rightarrow> Ok (Inl ids) | Inr (ids, seen) \<Rightarrow> scan_blocks a start stop rs ids seen))"

definition transactions_of_address ::
  "bool \<Rightarrow> BlockStore \<Rightarrow> Public \<Rightarrow> u32 \<Rightarrow> (Response, ApiFailure) result"
where
  "transactions_of_address chk st a requested_page =
     bind_res (mul_u chk requested_page PAGE_SIZE) (\<lambda>s.
     let start = unat s; stop = start + unat PAGE_SIZE
     in bind_res (scan_blocks a start stop (rev (iter_blocks st)) [] 0) (\<lambda>x.
          case x of
            Inl ids \<Rightarrow> bind_res (add_u chk requested_page 1) (\<lambda>n. Ok (TransactionsOfAddressR ids (Some n)))
          | Inr (ids, _) \<Rightarrow> Ok (TransactionsOfAddressR ids None)))"

section \<open>Answering\<close>

text \<open>The outcome of an acceptance is part of the response; a panic ends the connection's task.\<close>

definition status_response ::
  "(BlockchainError + unit \<Rightarrow> Response) \<Rightarrow> (unit, BlockchainError, FullNode) run
     \<Rightarrow> (Response, ApiFailure, FullNode) run"
where
  "status_response f r =
     (case r of
        (Ok _, n) \<Rightarrow> (Ok (f (Inr ())), n) | (Err e, n) \<Rightarrow> (Ok (f (Inl e)), n) | (Panic, n) \<Rightarrow> (Panic, n))"

fun handle_request ::
  "'z chain_env_scheme \<Rightarrow> u64 \<times> u64 \<times> u64 \<Rightarrow> Request \<Rightarrow> FullNode \<Rightarrow> (Response, ApiFailure, FullNode) run"
where
  "handle_request E now HeightQ n = (Ok (HeightR (word_of_nat (get_height (block_store (blockchain n))))), n)"
| "handle_request E now (BlockQ h) n =
     (bind_res (get_block_by_hash (block_store (blockchain n)) h) (\<lambda>b. Ok (BlockR b)), n)"
| "handle_request E now (BlockHashQ height) n =
     (bind_res (get_block_hash_by_height (block_store (blockchain n)) (unat height)) (\<lambda>h. Ok (BlockHashR h)), n)"
| "handle_request E now (TransactionQ i) n = (Ok (TransactionR (get_transaction (block_store (blockchain n)) i)), n)"
| "handle_request E now (TransactionAndInfoQ i) n =
     (Ok (TransactionAndInfoR (get_transaction_and_info (block_store (blockchain n)) i)), n)"
| "handle_request E now (TransactionsOfAddressQ a page) n =
     (transactions_of_address (overflow_checks E) (block_store (blockchain n)) a page, n)"
| "handle_request E now (AvailableUTXOsQ a page) n =
     (bind_res (map_err ProviderF (get_available_transaction_outputs (blockchain n) a)) (\<lambda>available.
      bind_res (page_of (overflow_checks E) available page) (\<lambda>(xs, next_page).
        Ok (AvailableUTXOsR xs next_page))), n)"
| "handle_request E now (BalanceQ a) n =
     (bind_res (calculate_confirmed_balance (overflow_checks E) (utxos (blockchain n)) a) (\<lambda>x. Ok (BalanceR x)), n)"
| "handle_request E now RewardQ n =
     (bind_res (get_block_reward (overflow_checks E) (get_height (block_store (blockchain n)))) (\<lambda>x. Ok (RewardR x)), n)"
| "handle_request E now PeersQ n = (Ok (PeersR (map fst (connected_peers (node_state n)))), n)"
| "handle_request E now (MempoolQ page) n =
     (bind_res (page_of (overflow_checks E) (get_mempool (mempool (node_state n))) page) (\<lambda>(xs, next_page).
        Ok (MempoolR xs next_page)), n)"
| "handle_request E (now, now', now'') (NewBlockQ b) n =
     status_response NewBlockR (accept_block E now now' b n)"
| "handle_request E (now, now', now'') (NewTransactionQ tx) n =
     status_response NewTransactionR (accept_transaction E now now' now'' tx n)"
| "handle_request E now DifficultyQ n =
     (Ok (DifficultyR (chain_transaction_difficulty (blockchain n)) (chain_block_difficulty (blockchain n))), n)"
| "handle_request E now (BlockHeightQ h) n =
     (bind_res (get_block_height_by_hash (block_store (blockchain n)) h) (\<lambda>x. Ok (BlockHeightR x)), n)"
| "handle_request E now LiveTransactionDifficultyQ n =
     (Ok (LiveTransactionDifficultyR (calculate_live_transaction_difficulty
        (chain_transaction_difficulty (blockchain n)) (mempool_size (mempool (node_state n))))), n)"
| "handle_request E now SubscribeToChainEventsQ n = (Panic, n)"

text \<open>
  The last equation is never used: the loop of the connection looks for the subscription first.  It
  writes the events until receiving one fails, and then goes on to the next request.
\<close>

fun write_events :: "'z request_env_scheme \<Rightarrow> ChainEvent list \<Rightarrow> u8 list \<times> bool" where
  "write_events E [] = ([], True)"
| "write_events E (e # es) =
     (case response_encode E (ChainEventR e) of
        Ok bytes \<Rightarrow> (case write_events E es of (out, go_on) \<Rightarrow> (bytes @ out, go_on))
      | _ \<Rightarrow> ([], False))"

function connection ::
  "'z request_env_scheme \<Rightarrow> (nat \<Rightarrow> u64 \<times> u64 \<times> u64) \<Rightarrow> (nat \<Rightarrow> ChainEvent list) \<Rightarrow> nat \<Rightarrow> u8 list
     \<Rightarrow> FullNode \<Rightarrow> u8 list \<times> FullNode"
where
  "connection E clock events k stream n =
     (case request_decode E stream of
        (Ok r, rest) \<Rightarrow>
          if r = SubscribeToChainEventsQ
          then case write_events E (events k) of
            (out, False) \<Rightarrow> (out, n)
          | (out, True) \<Rightarrow> (case connection E clock events (k + 1) rest n of (out', n) \<Rightarrow> (out @ out', n))
          else (case handle_request E (clock k) r n of
            (Ok response, n) \<Rightarrow>
              (case response_encode E response of
                 Ok bytes \<Rightarrow>
                   (case connection E clock events (k + 1) rest n of (out, n) \<Rightarrow> (bytes @ out, n))
               | _ \<Rightarrow> ([], n))
          | (_, n) \<Rightarrow> ([], n))
      | _ \<Rightarrow> ([], n))"
  by pat_completeness auto
termination
  by (relation "measure (\<lambda>(E, clock, events, k, stream, n). length stream)")
    (auto dest!: sym [of _ "request_decode _ _"] dest: request_decode_shorter)

declare connection.simps [simp del]

end
