(* ===== verification/Node_Invariant.thy ===== *)
theory Node_Invariant
  imports Peer_Discovery Full_Api
begin

text \<open>
  The steps of a running full node and what they keep: the chain is a chain, no two pending transactions
  spend one output, and the remembered transactions are at most 500 different ones.
\<close>

section \<open>Steps\<close>

text \<open>
  Of a block that is offered to the chain it is asked that it can be appended at all: it has a new hash and
  new transaction ids, and encoding it succeeds.
\<close>

definition block_appends :: "'z chain_env_scheme \<Rightarrow> Block \<Rightarrow> Blockchain \<Rightarrow> bool" where
  "block_appends E b bc \<longleftrightarrow> (\<forall>t chain. chain_inv (overflow_checks E) t chain bc \<longrightarrow> appendable E chain b)"

definition offered_blocks_append ::
  "'z chain_env_scheme \<Rightarrow> Message \<Rightarrow> Blockchain \<Rightarrow> bool"
where
  "offered_blocks_append E m bc \<longleftrightarrow> (\<forall>b. command m = NewBlock b \<longrightarrow> block_appends E b bc)"

text \<open>
  A message is handled, or a request of a client; the pool's watchdog makes a round; a connection is made, accepted or gone; a round of
  discovery or of forgiving is made.  A synchronisation clears the pool, takes back blocks, adds blocks of
  its peer and ends, and a download adds blocks with or without their proof of work checked: here these are
  single steps, which other tasks may interleave more freely than the locks of the code let them.
\<close>

inductive node_step :: "'z chain_env_scheme \<Rightarrow> FullPeer \<Rightarrow> FullPeer \<Rightarrow> bool" for E where
  handled: "handle_command E now now' now'' peer m s = (r, s') \<Longrightarrow>
    offered_blocks_append E m (blockchain (node s)) \<Longrightarrow> node_step E s s'"
| asked: "handle_request E clocks q (node s) = (x, n) \<Longrightarrow>
    \<forall>b. q = NewBlockQ b \<longrightarrow> block_appends E b (blockchain (node s)) \<Longrightarrow> node_step E s (s\<lparr>node := n\<rparr>)"
| expired: "node_step E s (s\<lparr>node := expire_mempool now (node s)\<rparr>)"
| killed: "on_kill (overflow_checks E) peer (node_state (node s)) = (Ok st :: (NodeState, unit) result) \<Longrightarrow>
    node_step E s (s\<lparr>node := on_node_state (\<lambda>_. st) (node s)\<rparr>)"
| connected: "connect_peer (net :: message_env) attempt random a (node_state (node s)) = (r, st) \<Longrightarrow>
    node_step E s (s\<lparr>node := on_node_state (\<lambda>_. st) (node s)\<rparr>)"
| accepted: "accept_connection (net :: message_env) a shutdown_ok stream random (node_state (node s)) = (r, st) \<Longrightarrow>
    node_step E s (s\<lparr>node := on_node_state (\<lambda>_. st) (node s)\<rparr>)"
| discovered: "full_auto_peer reserved interfaces random' ask connect (node_state (node s)) =
      (Ok st :: (NodeState, unit) result) \<Longrightarrow>
    node_step E s (s\<lparr>node := on_node_state (\<lambda>_. st) (node s)\<rparr>)"
| forgiven: "node_step E s (s\<lparr>node := on_node_state forgive_round (node s)\<rparr>)"
| cleared: "node_step E s (s\<lparr>node := on_node_state (on_mempool mempool_clear) (node s)\<rparr>)"
| taken_back: "on_chain (pop_block E) (node s) = (r', n) \<Longrightarrow> \<forall>d. \<exists>bs. encode_data E d = Inr bs \<Longrightarrow>
    node_step E s (s\<lparr>node := n\<rparr>)"
| caught_up: "accept_synced E b (node s) = (r'', n) \<Longrightarrow> block_appends E b (blockchain (node s)) \<Longrightarrow>
    node_step E s (s\<lparr>node := n\<rparr>)"
| downloaded: "on_chain (add_block E b fast fast) (node s) = (r', n) \<Longrightarrow> block_appends E b (blockchain (node s)) \<Longrightarrow>
    node_step E s (s\<lparr>node := n\<rparr>)"
| flagged: "node_step E s (s\<lparr>node := on_node_state (set_syncing syncing) (node s), sync_tasks := tasks\<rparr>)"

inductive_cases node_stepE: "node_step E s s'"

section \<open>The invariant\<close>

definition node_inv :: "bool \<Rightarrow> FullNode \<Rightarrow> bool" where
  "node_inv chk n \<longleftrightarrow>
     (\<exists>t chain. chain_inv chk t chain (blockchain n))
     \<and> mempool_inv (mempool (node_state n)) \<and> recent_inv (last_seen_transactions (node_state n))"

lemma node_inv_new:
  "node_inv chk \<lparr>blockchain = fresh_chain path, node_state = node_state_new_empty a, forwarded = out\<rparr>"
  using fresh_chain_inv [of chk path] recent_inv_new mempool_inv_new
  by (auto simp: node_inv_def node_state_new_empty_def)

lemma node_inv_cong:
  assumes "node_inv chk n" and "blockchain n' = blockchain n"
    and "mempool (node_state n') = mempool (node_state n)"
    and "last_seen_transactions (node_state n') = last_seen_transactions (node_state n)"
  shows "node_inv chk n'"
  using assms by (simp add: node_inv_def)

text \<open>Steps that only touch what is known of peers.\<close>

lemma node_inv_peers:
  assumes "node_inv chk n" and "mempool st = mempool (node_state n)"
    and "last_seen_transactions st = last_seen_transactions (node_state n)"
  shows "node_inv chk (on_node_state (\<lambda>_. st) n)"
  using assms by (auto intro: node_inv_cong)

lemma on_kill_peers:
  assumes "on_kill chk peer s = (Ok t :: (_, 'e) result)"
  shows "mempool t = mempool s \<and> last_seen_transactions t = last_seen_transactions s \<and> chain_events t = chain_events s"
  using assms by (auto simp: on_kill_def res_simps)

lemma connect_peer_peers:
  assumes "connect_peer net attempt random a s = (r, t)"
  shows "mempool t = mempool s \<and> last_seen_transactions t = last_seen_transactions s \<and> chain_events t = chain_events s"
  using assms by (auto simp: connect_peer_def bind_run_def register_peer_def split: result.splits)

lemma accept_connection_peers:
  assumes "accept_connection net a shutdown_ok stream random s = (r, t)"
  shows "mempool t = mempool s \<and> last_seen_transactions t = last_seen_transactions s \<and> chain_events t = chain_events s"
  using assms by (auto simp: accept_connection_def register_peer_def split: result.splits prod.splits if_splits)

lemma full_auto_peer_peers:
  assumes "full_auto_peer reserved interfaces random ask connect s = (Ok t :: (_, 'e) result)"
  shows "mempool t = mempool s \<and> last_seen_transactions t = last_seen_transactions s \<and> chain_events t = chain_events s"
  using assms by (auto simp: full_auto_peer_def res_simps)

lemmas peers_only = on_kill_peers connect_peer_peers accept_connection_peers full_auto_peer_peers

text \<open>Blocks that are added or taken back.\<close>

lemma node_inv_on_chain:
  assumes "node_inv chk n" and "chain_inv chk t chain (snd (f (blockchain n)))" and "on_chain f n = (r, n')"
  shows "node_inv chk n'"
proof -
  have "blockchain n' = snd (f (blockchain n))" "node_state n' = node_state n"
    using assms(3) by (auto simp: on_chain_eq)
  then show ?thesis using assms(1,2) unfolding node_inv_def by metis
qed

lemma add_block_node_inv:
  assumes inv: "node_inv (overflow_checks E) n" and app: "block_appends E b (blockchain n)"
    and run: "on_chain (add_block E b is_ibd skip) n = (r, n')"
  shows "node_inv (overflow_checks E) n'"
proof -
  obtain t chain where chain: "chain_inv (overflow_checks E) t chain (blockchain n)"
    using inv by (auto simp: node_inv_def)
  have "appendable E chain b" using app chain by (auto simp: block_appends_def)
  from add_block_outcome [OF chain this, of is_ibd skip]
  have "\<exists>t chain. chain_inv (overflow_checks E) t chain (snd (add_block E b is_ibd skip (blockchain n)))"
    using chain by (metis prod.collapse)
  then show ?thesis using node_inv_on_chain [OF inv _ run] by blast
qed

lemma pop_block_node_inv:
  assumes inv: "node_inv (overflow_checks E) n" and enc: "\<forall>d. \<exists>bs. encode_data E d = Inr bs"
    and run: "on_chain (pop_block E) n = (r, n')"
  shows "node_inv (overflow_checks E) n'"
proof -
  obtain t chain where chain: "chain_inv (overflow_checks E) t chain (blockchain n)"
    using inv by (auto simp: node_inv_def)
  have "\<exists>t chain. chain_inv (overflow_checks E) t chain (snd (pop_block E (blockchain n)))"
  proof (cases chain rule: rev_cases)
    case Nil
    then have "store_represents (block_store (blockchain n)) []" using chain by (simp add: chain_inv_def)
    then show ?thesis using chain by (auto simp: pop_block_empty)
  next
    case (snoc ch e)
    then have "chain_inv (overflow_checks E) t (ch @ [e]) (blockchain n)" using chain by simp
    from pop_block_Ok [OF this] enc show ?thesis by (metis snd_conv)
  qed
  then show ?thesis using node_inv_on_chain [OF inv _ run] by blast
qed

lemma accept_synced_chain:
  assumes "accept_synced E b n = (r, n')"
  shows "\<exists>r'. on_chain (add_block E b False False) n = (r', n'\<lparr>node_state := node_state n\<rparr>)
    \<and> mempool (node_state n') = mempool (node_state n)
    \<and> last_seen_transactions (node_state n') = last_seen_transactions (node_state n)
    \<and> (chain_events (node_state n') = chain_events (node_state n)
       \<or> chain_events (node_state n') = chain_events (node_state n) @ [BlockEvent b])"
  using assms by (auto simp: accept_synced_def on_chain_eq bind_run_def split: result.splits prod.splits)

lemma accept_synced_inv:
  assumes "node_inv (overflow_checks E) n" and "block_appends E b (blockchain n)" and "accept_synced E b n = (r, n')"
  shows "node_inv (overflow_checks E) n'"
proof -
  obtain r' where r': "on_chain (add_block E b False False) n = (r', n'\<lparr>node_state := node_state n\<rparr>)"
    "mempool (node_state n') = mempool (node_state n)"
    "last_seen_transactions (node_state n') = last_seen_transactions (node_state n)"
    using accept_synced_chain [OF assms(3)] by blast
  from add_block_node_inv [OF assms(1,2) r'(1)] r'(2,3) show ?thesis by (simp add: node_inv_def)
qed

lemma accept_block_inv:
  assumes inv: "node_inv (overflow_checks E) n"
    and app: "\<And>t chain. chain_inv (overflow_checks E) t chain (blockchain n) \<Longrightarrow> appendable E chain b"
  shows "node_inv (overflow_checks E) (snd (accept_block E now now' b n))"
proof (cases "hash (meta b)")
  case None
  with inv show ?thesis by (simp add: accept_block_def check_completeness_def)
next
  case (Some h)
  obtain t chain where chain: "chain_inv (overflow_checks E) t chain (blockchain n)"
    using inv by (auto simp: node_inv_def)
  consider "h = last_seen_block (node_state n)"
    | "h \<noteq> last_seen_block (node_state n)" "validate_block_timestamp (overflow_checks E) now now' b = Ok ()"
      "check_block E b False False (blockchain n) = Ok ()"
    | "h \<noteq> last_seen_block (node_state n)" "validate_block_timestamp (overflow_checks E) now now' b \<noteq> Ok ()
      \<or> check_block E b False False (blockchain n) \<noteq> Ok ()" by blast
  then show ?thesis
  proof cases
    case 1
    with Some inv show ?thesis by (simp add: accept_block_seen)
  next
    case 2
    from accept_block_new [OF Some 2 chain app [OF chain]] obtain ids n' where
      "accept_block E now now' b n = (Ok (), n')"
      "\<exists>t chain. chain_inv (overflow_checks E) t chain (blockchain n')"
      "mempool (node_state n') = spend_transactions ids (mempool (node_state n))"
      "last_seen_transactions (node_state n') = last_seen_transactions (node_state n)" by metis
    with inv show ?thesis by (simp add: node_inv_def mempool_inv_spend)
  next
    case 3
    from accept_block_rejected [OF Some 3] inv show ?thesis by (auto intro: node_inv_cong)
  qed
qed

lemma accept_transaction_inv:
  assumes inv: "node_inv (overflow_checks E) n"
  shows "node_inv (overflow_checks E) (snd (accept_transaction E now now' now'' tx n))" (is "node_inv _ ?n'")
proof -
  have "blockchain ?n' = blockchain n" by (rule accept_transaction_chain)
  moreover have "mempool (node_state ?n') = mempool (node_state n) \<or>
      mempool_validate_transaction (mempool (node_state n)) tx
      \<and> mempool_add_transaction (overflow_checks E) now'' tx (mempool (node_state n)) =
        (Ok (mempool (node_state ?n')) :: (MemPool, BlockchainError) result)"
    by (auto simp: accept_transaction_def Let_def bind_run_def split: result.splits if_splits prod.splits)
  then have "mempool_inv (mempool (node_state ?n'))"
    using inv mempool_inv_add by (auto simp: node_inv_def)
  moreover have "last_seen_transactions (node_state ?n') = last_seen_transactions (node_state n) \<or>
      (\<exists>i. last_seen_transactions (node_state ?n') = add_recent i (last_seen_transactions (node_state n)))"
    by (auto simp: accept_transaction_def Let_def bind_run_def split: result.splits if_splits prod.splits)
  then have "recent_inv (last_seen_transactions (node_state ?n'))"
    using inv recent.ok_add by (auto simp: node_inv_def)
  ultimately show ?thesis using inv by (simp add: node_inv_def)
qed

lemma handle_command_inv:
  assumes inv: "node_inv (overflow_checks E) (node s)"
    and app: "offered_blocks_append E m (blockchain (node s))"
  shows "node_inv (overflow_checks E) (node (snd (handle_command E now now' now'' peer m s)))"
proof -
  have ping: "node_inv (overflow_checks E) (node (handle_ping p h s))" for p h
    using inv by (auto simp: handle_ping_def Let_def set_syncing_def intro: node_inv_cong)
  have block: "node_inv (overflow_checks E) (snd (accept_block E now now' b (node s)))"
    if "command m = NewBlock b" for b
    using accept_block_inv [OF inv] app that by (auto simp: offered_blocks_append_def block_appends_def)
  show ?thesis
    using inv by (cases "command m")
      (auto simp: handle_command_def Let_def ping block accept_transaction_inv)
qed

lemma status_response_node: "snd (status_response f r) = snd r"
  by (cases r; cases "fst r") (simp_all add: status_response_def)

lemma handle_request_inv:
  assumes inv: "node_inv (overflow_checks E) n"
    and app: "\<forall>b. q = NewBlockQ b \<longrightarrow> block_appends E b (blockchain n)"
  shows "node_inv (overflow_checks E) (snd (handle_request E clocks q n))"
proof (cases clocks)
  case (fields now now' now'')
  have "node_inv (overflow_checks E) (snd (accept_block E now now' b n))" if "q = NewBlockQ b" for b
    using accept_block_inv [OF inv] app that by (auto simp: block_appends_def)
  then show ?thesis
    using inv by (cases q) (simp_all add: fields status_response_node accept_transaction_inv)
qed

lemma expire_mempool_inv:
  assumes "node_inv chk n" shows "node_inv chk (expire_mempool now n)"
proof -
  have events: "mempool (fold (\<lambda>i. send_event (TransactionExpiration i)) ids s) = mempool s
      \<and> last_seen_transactions (fold (\<lambda>i. send_event (TransactionExpiration i)) ids s) = last_seen_transactions s"
    for ids s by (induction ids arbitrary: s) simp_all
  obtain pool expired where x: "expire_transactions now (mempool (node_state n)) = (pool, expired)"
    by (cases "expire_transactions now (mempool (node_state n))")
  with mempool_inv_expire [of "mempool (node_state n)" now] assms have "mempool_inv pool"
    by (simp add: node_inv_def)
  with assms x events show ?thesis by (simp add: node_inv_def expire_mempool_def)
qed

lemma node_step_inv:
  assumes "node_step E s s'" and inv: "node_inv (overflow_checks E) (node s)"
  shows "node_inv (overflow_checks E) (node s')"
  using assms(1)
proof cases
  case (handled now now' now'' peer m r)
  with handle_command_inv [OF inv] show ?thesis by (metis snd_conv)
next
  case (asked clocks q x n)
  with handle_request_inv [OF inv, of q clocks] show ?thesis by simp
next
  case (killed peer st)
  with node_inv_peers [OF inv] peers_only(1) show ?thesis by fastforce
next
  case (connected net attempt random a r st)
  with node_inv_peers [OF inv] peers_only(2) show ?thesis by fastforce
next
  case (accepted net a shutdown_ok stream random r st)
  with node_inv_peers [OF inv] peers_only(3) show ?thesis by fastforce
next
  case (discovered reserved interfaces random' ask connect st)
  with node_inv_peers [OF inv] peers_only(4) show ?thesis by fastforce
next
  case (taken_back r' n)
  with pop_block_node_inv [OF inv] show ?thesis by simp
next
  case (caught_up b r'' n)
  with accept_synced_inv [OF inv] show ?thesis by simp
next
  case (downloaded b fast r' n)
  with add_block_node_inv [OF inv] show ?thesis by simp
qed (use inv expire_mempool_inv [OF inv] mempool_inv_new in
    \<open>auto simp: forgive_round_def set_syncing_def mempool_clear_def mempool_new_def node_inv_def\<close>)

lemma reachable_node_inv:
  assumes "(node_step E)\<^sup>*\<^sup>* s s'" and "node_inv (overflow_checks E) (node s)"
  shows "node_inv (overflow_checks E) (node s')"
  using assms by (induction rule: rtranclp_induct) (simp_all add: node_step_inv)

end
