(* ===== verification/Node_Properties.thy ===== *)
theory Node_Properties
  imports Demo_Payment Node_Invariant Messages
begin

text \<open>
  The properties of a running full node: what every state it reaches satisfies, what it does with blocks
  and transactions, what it serves to its peers, how it bans, and how messages travel.
\<close>

section \<open>A concrete node\<close>

definition demo_empty_node :: FullNode where
  "demo_empty_node =
     \<lparr>blockchain = fresh_chain [], node_state = node_state_new_empty None, forwarded = []\<rparr>"

definition demo_node :: FullNode where
  "demo_node = \<lparr>blockchain = demo_state, node_state = node_state_new_empty None, forwarded = []\<rparr>"

definition demo_peer :: PeerHandle where
  "demo_peer = \<lparr>address = \<lparr>ip = V4 1, port = 8003\<rparr>, is_client = False, flags = FULL_NODE_CAPABILITY\<rparr>"

lemma demo_block_hash: "hash (meta demo_block) = Some (demo_stamp 1000)"
  by (simp add: demo_block_def demo_block_of_def demo_stamp_def)

lemma demo_block_in_time: "validate_block_timestamp True 1000 1000 demo_block = Ok ()"
  by (simp add: validate_block_timestamp_def validate_timestamp_def demo_block_def demo_block_of_def econ
      add_u_def sub_u_def checked_add_def word_le_nat_alt word_less_nat_alt)

section \<open>Reachable states\<close>

text \<open>
  Whatever messages and requests a node handles, in whatever order, with connections made, accepted, discovered and
  gone, peers banned and forgiven, the pool's watchdog running, and synchronisations and downloads taking
  blocks back and adding blocks between any of these: its chain is a chain, no two pending transactions
  spend one output, and it remembers at most 500 transactions.  (A block that is offered must be one that
  can be appended: a new hash, new transaction ids, and encodable.)
\<close>

theorem running_node_invariant:
  assumes "(node_step E)\<^sup>*\<^sup>* s s'" and "node s = \<lparr>blockchain = fresh_chain path,
      node_state = node_state_new_empty advertised, forwarded = []\<rparr>"
  shows "(\<exists>t chain. chain_inv (overflow_checks E) t chain (blockchain (node s')))
    \<and> (\<forall>out. spenders out (get_mempool (mempool (node_state (node s')))) \<le> 1)
    \<and> length (last_seen_transactions (node_state (node s'))) \<le> 500"
  using reachable_node_inv [OF assms(1)] node_inv_new assms(2)
  by (simp add: node_inv_def mempool_inv_def recent_inv_def)

lemma demo_append_once:
  assumes "chain_inv True t chain (fresh_chain [])" shows "appendable demo chain demo_block"
proof -
  have "store_represents (block_store (fresh_chain [])) chain" "store_represents (block_store (fresh_chain [])) []"
    using assms fresh_chain_inv [of True "[]"] by (simp_all add: chain_inv_def)
  then have "chain = []" by (simp add: store_represents_def)
  with demo_appendable show ?thesis by simp
qed

theorem running_node_invariant_witness:
  "\<exists>s'. handle_command demo 1000 1000 1000 demo_peer \<lparr>version = 4, message_id = 1, command = NewBlock demo_block\<rparr>
      \<lparr>node = demo_empty_node, sync_tasks = []\<rparr> = (Ok NewBlockResolved, s')
    \<and> get_height (block_store (blockchain (node s'))) = 1
    \<and> (\<exists>t chain. chain_inv True t chain (blockchain (node s')))"
proof -
  let ?m = "\<lparr>version = 4, message_id = 1, command = NewBlock demo_block\<rparr>"
  let ?s = "\<lparr>node = demo_empty_node, sync_tasks = []\<rparr>"
  have seen: "demo_stamp 1000 \<noteq> last_seen_block (node_state demo_empty_node)"
    by (simp add: demo_empty_node_def node_state_new_empty_def demo_stamp_nonzero)
  have "validate_block_timestamp (overflow_checks demo) 1000 1000 demo_block = Ok ()"
    "chain_inv (overflow_checks demo) 0 [] (blockchain demo_empty_node)"
    "check_block demo demo_block False False (blockchain demo_empty_node) = Ok ()"
    using demo_block_in_time fresh_chain_inv demo_check_block by (simp_all add: demo_empty_node_def)
  from accept_block_new [OF demo_block_hash seen this(1,3,2) demo_appendable] obtain n' where
    n': "accept_block demo 1000 1000 demo_block demo_empty_node = (Ok (), n')"
    "chain_inv True 0 ([] @ [(demo_block, block_diff (ledger_of_chain []) (transactions demo_block))]) (blockchain n')"
    by (metis demo_simps(7))
  then have step: "handle_command demo 1000 1000 1000 demo_peer ?m ?s = (Ok NewBlockResolved, ?s\<lparr>node := n'\<rparr>)"
    by (simp add: handle_command_def resolved_def) (simp add: demo_empty_node_def node_state_new_empty_def)
  moreover have "offered_blocks_append demo ?m (blockchain (node ?s))"
    using demo_append_once by (simp add: offered_blocks_append_def block_appends_def demo_empty_node_def)
  ultimately have "(node_step demo)\<^sup>*\<^sup>* ?s (?s\<lparr>node := n'\<rparr>)" by (blast intro: node_step.handled)
  from running_node_invariant [OF this] have "\<exists>t chain. chain_inv True t chain (blockchain n')"
    by (simp add: demo_empty_node_def)
  moreover have "get_height (block_store (blockchain n')) = 1"
    using n'(2) by (simp add: chain_inv_def store_represents_def get_height_def)
  ultimately show ?thesis using step by auto
qed

text \<open>
  Validating a transaction against the pool and adding it are two steps, and two tasks may take the
  first before either takes the second: then two pending transactions spend one output.
\<close>

theorem concurrent_tasks_double_spend:
  assumes "outpoints tx \<inter> outpoints tx' \<noteq> {}" and "tx \<noteq> tx'" and "unat (now :: u64) + 350 < 2 ^ 64"
  shows "\<exists>p out. (mempool_race chk)\<^sup>*\<^sup>* (mempool_new, {}) (p, {}) \<and> 1 < spenders out (get_mempool p)"
  using race_breaks_inv [OF assms, of chk] by (auto simp: mempool_inv_def not_le)

theorem concurrent_tasks_double_spend_witness:
  "\<exists>p out. (mempool_race True)\<^sup>*\<^sup>* (mempool_new, {}) (p, {}) \<and> 1 < spenders out (get_mempool p)"
  by (rule concurrent_tasks_double_spend [of demo_paid "demo_paid\<lparr>outputs := []\<rparr>" 1000])
    (simp_all add: outpoints_def demo_paid_def demo_payment_def)

section \<open>Blocks and transactions that are offered\<close>



text \<open>
  C12. A new transaction that is accepted is a valid transfer on the chain, meets the live target and
  spends nothing that a pending transaction spends; it joins the pool, is forwarded, and the chain stays
  as it is.
\<close>

theorem accepted_transaction_is_valid:
  assumes "accept_transaction E now now' now'' tx n = (Ok (), n')"
    and "transaction_id tx = Some i" and "i \<notin> set (last_seen_transactions (node_state n))"
  shows "valid_transfer E (ledger_of (utxos (blockchain n)))
      (unat (chain_transaction_difficulty (blockchain n))) False tx
    \<and> unat (hash_buf i) \<le> unat (get_live_transaction_difficulty
        (chain_transaction_difficulty (blockchain n)) (node_state n))
    \<and> (\<forall>t \<in> set (get_mempool (mempool (node_state n))). outpoints t \<inter> outpoints tx = {})
    \<and> set (get_mempool (mempool (node_state n'))) = insert tx (set (get_mempool (mempool (node_state n))))
    \<and> blockchain n' = blockchain n \<and> forwarded n' = forwarded n @ [NewTransaction tx]"
  using accept_transaction_Ok [OF assms] by (auto simp: mempool_validate_iff in_mempool_add)

lemma demo_accepts:
  "\<exists>n'. accept_transaction demo 1200 1200 1200 demo_paid demo_node = (Ok (), n')"
proof -
  have "tx_check_completeness demo_paid = Ok ()"
    by (simp add: tx_check_completeness_Ok_iff demo_paid_def demo_payment_def)
  moreover have "transaction_id demo_paid = Some (demo_stamp 1200)" by (simp add: demo_paid_def)
  moreover have "validate_transaction demo (utxos demo_state) demo_paid (unat (- 1 :: buf32)) False = Ok ()"
    using demo_valid by (simp add: validate_transaction_Ok_iff)
  moreover have "validate_transaction_timestamp True 1200 1200 demo_paid = Ok ()"
    by (simp add: validate_transaction_timestamp_def validate_timestamp_def demo_paid_def demo_payment_def econ
        add_u_def sub_u_def checked_add_def word_le_nat_alt word_less_nat_alt)
  moreover have "get_live_transaction_difficulty (- 1) (add_last_seen_transaction i (node_state_new_empty None)) = - 1" for i
    by (simp add: get_live_transaction_difficulty_def node_state_new_empty_def mempool_size_length
        get_mempool_new live_difficulty_0)
  moreover have "mempool_validate_transaction mempool_new demo_paid"
    by (simp add: mempool_validate_iff get_mempool_new)
  moreover have "\<exists>p. mempool_add_transaction True 1200 demo_paid mempool_new = (Ok p :: (_, BlockchainError) result)"
    by (simp add: mempool_add_transaction_def add_u_def checked_add_def econ)
  ultimately show ?thesis
    using unat_buf32_le_max [of "hash_buf (demo_stamp 1200)"]
    by (auto simp: accept_transaction_def demo_node_def demo_state_targets Let_def biguint_of_unat not_less
        below_all_ones node_state_new_empty_def)
qed

theorem accepted_transaction_is_valid_witness:
  "\<exists>n'. accept_transaction demo 1200 1200 1200 demo_paid demo_node = (Ok (), n')
    \<and> set (get_mempool (mempool (node_state n'))) = {demo_paid} \<and> forwarded n' = [NewTransaction demo_paid]"
proof -
  obtain n' where n': "accept_transaction demo 1200 1200 1200 demo_paid demo_node = (Ok (), n')"
    using demo_accepts by blast
  from accepted_transaction_is_valid [OF this, of "demo_stamp 1200"] n' show ?thesis
    by (simp add: demo_paid_def) (simp add: demo_node_def node_state_new_empty_def get_mempool_new)
qed

section \<open>Serving\<close>

text \<open>
  A node answers a peer from its chain: the hashes and the metadata of a range of heights in order,
  and a block by its hash exactly if the chain has it; and none of these questions changes the node.
\<close>

theorem peers_are_served_from_the_chain:
  assumes "store_represents (block_store (blockchain (node s))) chain"
    and "a < b" and "b - a \<le> METADATA_FETCH_MAX_COUNT" and "b \<le> length chain"
  shows "handle_command E now now' now'' peer \<lparr>version = v, message_id = i, command = GetBlockHashes a b\<rparr> s =
      (Ok (GetBlockHashesResponse (map entry_hash (take (b - a) (drop a chain)))), s)
    \<and> handle_command E now now' now'' peer \<lparr>version = v, message_id = i, command = GetBlockMetadatas a b\<rparr> s =
      (Ok (GetBlockMetadatasResponse (map (meta \<circ> fst) (take (b - a) (drop a chain)))), s)
    \<and> handle_command E now now' now'' peer \<lparr>version = v, message_id = i, command = GetBlock h\<rparr> s =
      (Ok (GetBlockResponse (map_option fst (find (\<lambda>e. entry_hash e = h) chain))), s)"
proof -
  have "b \<le> 2 ^ 64" "b - a \<le> HASHES_FETCH_MAX_COUNT"
    using assms by (simp_all add: store_represents_def HASHES_FETCH_MAX_COUNT_def METADATA_FETCH_MAX_COUNT_def)
  then show ?thesis
    using assms by (simp add: handle_command_def Let_def serve_hashes_represents serve_metadatas_represents
        get_block_by_hash_represents)
qed

theorem peers_are_served_from_the_chain_witness:
  "handle_command demo 0 0 0 demo_peer \<lparr>version = 4, message_id = 1, command = GetBlockHashes 0 1\<rparr>
      \<lparr>node = demo_node, sync_tasks = []\<rparr> =
    (Ok (GetBlockHashesResponse [demo_stamp 1000]), \<lparr>node = demo_node, sync_tasks = []\<rparr>)"
proof -
  have "store_represents (block_store (blockchain (node \<lparr>node = demo_node, sync_tasks = []\<rparr>))) demo_chain"
    by (simp add: demo_node_def demo_state_inv)
  from peers_are_served_from_the_chain [OF this, of 0 1 demo 0 0 0 demo_peer 4 1] show ?thesis
    by (simp add: demo_chain_def METADATA_FETCH_MAX_COUNT_def entry_hash_def demo_block_hash)
qed

text \<open>
  C39. The Merkle proof that a node serves for a transaction of a block is one for the tree over the ids
  themselves: it validates against that root and no other, and so not against the root in the block's
  metadata, which is over the hashes of the ids, unless the two collide.
\<close>

theorem served_proof_is_over_raw_ids:
  assumes "store_represents st chain" and "e \<in> set chain"
    and "map transaction_id (transactions (fst e)) = map Some ids" and "i \<in> set ids"
  shows "\<exists>p. serve_proof E st (entry_hash e) i = (Ok (GetTransactionMerkleProofResponse (Some p)) :: (Command, PeerError) result)
    \<and> (\<forall>r. proof_validate E p r \<longleftrightarrow> r = layer_root E (map hash_buf ids))"
  by (rule served_proof [OF assms, of E, where ?'e = PeerError]) blast

theorem served_proof_is_over_raw_ids_witness:
  "\<exists>p. serve_proof demo (block_store demo_state) (demo_stamp 1000) reward_id =
      (Ok (GetTransactionMerkleProofResponse (Some p)) :: (Command, PeerError) result)
    \<and> \<not> proof_validate demo p (merkle_tree_root (meta demo_block))"
proof -
  have "entry_hash (demo_block, block_diff empty_ledger [demo_reward]) = demo_stamp 1000"
    by (simp add: entry_hash_def demo_block_hash)
  moreover have "map transaction_id (transactions demo_block) = map Some [reward_id]"
    by (simp add: demo_block_def demo_block_of_def reward_id)
  ultimately obtain p where p: "serve_proof demo (block_store demo_state) (demo_stamp 1000) reward_id =
      (Ok (GetTransactionMerkleProofResponse (Some p)) :: (Command, PeerError) result)"
    "\<And>r. proof_validate demo p r \<longleftrightarrow> r = layer_root demo (map hash_buf [reward_id])"
    using served_proof_is_over_raw_ids [OF demo_state_inv(3), of "(demo_block, block_diff empty_ledger [demo_reward])"
        "[reward_id]" reward_id demo] by (auto simp: demo_chain_def)
  have "merkle_tree_root (meta demo_block) = 32" "hash_buf reward_id = 900"
    by (simp_all add: demo_block_def demo_block_of_def layer_root.simps leaf_hash_def hash_dump_buf_def
        reward_id_def demo_stamp_def hash_new_def randomx_hash_def word_from_be_bytes_def
        word_to_be_bytes_def from_bytes_be_be_bytes reward_id [unfolded reward_id_def])
  with p show ?thesis by (auto simp: layer_root.simps)
qed

section \<open>Health scores\<close>

text \<open>
  C34. A disconnect costs an address 4 points, and 40 more once it has more than 10, which bans it; it is
  banned for exactly as many rounds of forgiveness as leave more than 10 points at 4 a round, and no other
  address is touched.
\<close>

theorem disconnects_lead_to_bans:
  assumes "unat (score_of a scores) < 212"
  shows "\<exists>scores'. punish_on_kill chk a scores = (Ok scores' :: (_, 'e) result)
    \<and> (let score = unat (score_of a scores); score' = score + (if 6 < score then 44 else 4)
       in unat (score_of a scores') = score'
         \<and> (\<forall>n. a \<in> get_banned_ips ((decrement_punishments ^^ n) scores') \<longleftrightarrow> 10 + 4 * n < score'))
    \<and> (\<forall>b. b \<noteq> a \<longrightarrow> score_of b scores' = score_of b scores)"
  using punish_on_kill_score [OF assms, of chk, where ?'e = 'e]
  by (auto simp: Let_def banned_iff score_decrements)

theorem disconnects_lead_to_bans_witness:
  "\<exists>scores. punish_on_kill True (V4 1) (fmupd (V4 1) 8 fmempty) = (Ok scores :: (_, unit) result)
    \<and> V4 1 \<in> get_banned_ips ((decrement_punishments ^^ 10) scores)
    \<and> V4 1 \<notin> get_banned_ips ((decrement_punishments ^^ 11) scores)"
proof -
  have "unat (score_of (V4 1) (fmupd (V4 1) 8 fmempty)) = 8" by (simp add: score_of_def)
  then show ?thesis
    using disconnects_lead_to_bans [of "V4 1" "fmupd (V4 1) 8 fmempty" True, where ?'e = unit] by (auto simp: Let_def)
qed

end
