(* ===== verification/Wire_Properties.thy ===== *)
theory Wire_Properties
  imports Demo_Payment Messages Requests
begin

text \<open>
  The properties of the two wire formats: the messages between peers and the requests of clients.
\<close>

section \<open>A concrete codec\<close>

text \<open>A command \<open>Ping n\<close> is \<open>n\<close> zeroes, and nothing else can be sent.\<close>

definition demo_wire :: message_env where
  "demo_wire = chain_env.extend demo (message_env.fields
     (\<lambda>c. case c of Ping n \<Rightarrow> Inr (replicate n 0) | _ \<Rightarrow> Inl ''unsupported'')
     (\<lambda>bs. if list_all (\<lambda>b. b = 0) bs then Inr (Ping (length bs)) else Inl ''malformed''))"

lemma demo_wire_simps [simp]:
  "encode_command demo_wire (Ping n) = Inr (replicate n 0)"
  "decode_command demo_wire bs =
     (if list_all (\<lambda>b. b = 0) bs then Inr (Ping (length bs)) else Inl ''malformed'')"
  by (simp_all add: demo_wire_def chain_env.extend_def message_env.fields_def)

lemma demo_wire_faithful: "n < 2 ^ 32 \<Longrightarrow> faithful_codec demo_wire (Ping n)"
  by (simp add: faithful_codec_def list_all_iff)

definition demo_ping :: "nat \<Rightarrow> Message" where
  "demo_ping n = \<lparr>version = 4, message_id = 7, command = Ping n\<rparr>"

section \<open>Messages between peers\<close>

text \<open>
  Messages that are written to a stream one after the other are read back as they were, and the
  reader stops exactly where the last one ends.
\<close>

theorem messages_travel:
  assumes "list_all2 (\<lambda>m bytes. faithful_codec E (command m) \<and> serialize E m = Ok bytes) ms written"
  shows "read_messages E (length ms) (concat written @ rest) = (Ok ms, rest)"
  using assms by (rule read_messages_serialized)

theorem messages_travel_witness:
  "\<exists>a b. serialize demo_wire (demo_ping 3) = Ok a \<and> serialize demo_wire (demo_ping 0) = Ok b
    \<and> read_messages demo_wire 2 (a @ b @ [9]) = (Ok [demo_ping 3, demo_ping 0], [9])"
proof -
  obtain a b where ab: "serialize demo_wire (demo_ping 3) = Ok a" "serialize demo_wire (demo_ping 0) = Ok b"
    by (simp add: serialize_def demo_ping_def Let_def encoded_def)
  moreover have "faithful_codec demo_wire (Ping 3)" "faithful_codec demo_wire (Ping 0)"
    by (rule demo_wire_faithful; simp)+
  ultimately have "list_all2 (\<lambda>m bytes. faithful_codec demo_wire (command m) \<and> serialize demo_wire m = Ok bytes)
      [demo_ping 3, demo_ping 0] [a, b]"
    by (simp add: demo_ping_def)
  from messages_travel [OF this, of "[9]"] ab show ?thesis by (simp del: read_messages.simps add: numeral_2_eq_2)
qed

text \<open>
  What a reader refuses: a stream that ends within a header or a body, a header of another network
  (whose body it leaves unread), and a body that does not decode (which it has read).  What it accepts
  has a header of this network and a body of the length the header states.
\<close>

theorem frames_are_checked:
  "(length stream < 14 \<longrightarrow> from_stream E stream = (Err (StreamM early_eof), []))
    \<and> (network \<noteq> CURRENT_NETWORK_ID \<longrightarrow>
         from_stream E (header v network i sz @ stream) = (Err IncorrectNetwork, stream))
    \<and> (length stream < unat sz \<longrightarrow>
         from_stream E (header v CURRENT_NETWORK_ID i sz @ stream) = (Err (StreamM early_eof), []))
    \<and> (length body = unat sz \<and> decode_command E body = Inl e \<longrightarrow>
         from_stream E (header v CURRENT_NETWORK_ID i sz @ body @ stream) = (Err (DecodingM e), stream))
    \<and> (from_stream E stream = (Ok m, rest) \<longrightarrow> (\<exists>sz body.
         stream = header (version m) CURRENT_NETWORK_ID (message_id m) sz @ body @ rest
         \<and> length body = unat sz \<and> decode_command E body = Inr (command m)))"
  by (intro conjI impI; (rule from_stream_Ok, assumption)?)
    (auto simp: from_stream_header, auto simp: from_stream_def read_exact_def)

theorem frames_are_checked_witness:
  "from_stream demo_wire [1, 2, 3] = (Err (StreamM early_eof), [])
    \<and> from_stream demo_wire (header 4 5 7 3 @ [1, 2, 3]) = (Err IncorrectNetwork, [1, 2, 3])
    \<and> from_stream demo_wire (header 4 CURRENT_NETWORK_ID 7 2 @ [8, 8] @ [1, 2, 3]) =
        (Err (DecodingM ''malformed''), [1, 2, 3])"
  using frames_are_checked [of "[1, 2, 3]" demo_wire 5 4 7 3 "[8, 8]"]
    frames_are_checked [of "[1, 2, 3]" demo_wire 5 4 7 2 "[8, 8]" "''malformed''"]
  by (simp add: CURRENT_NETWORK_ID_def)

section \<open>Requests of clients\<close>

text \<open>
  A request and a response that the JSON library carries are read back as they were written, and
  the reader stops where they end; text of \<open>2 ^ 32\<close> bytes or more is refused when it is written.
\<close>

theorem requests_travel:
  assumes "json_request E r" and "json_response E s" and "2 ^ 32 \<le> length bytes"
  shows "\<exists>f g. request_encode E r = Ok f \<and> (\<forall>rest. request_decode E (f @ rest) = (Ok r, rest))
    \<and> response_encode E s = Ok g \<and> (\<forall>rest. response_decode E (g @ rest) = (Ok s, rest))
    \<and> frame bytes = Err MalformedData"
  using request_roundtrip [OF assms(1)] response_roundtrip [OF assms(2)] frame_too_long [OF assms(3)] by metis

definition demo_json :: request_env where
  "demo_json = chain_env.extend demo (request_env.fields
     (\<lambda>r. case r of HeightQ \<Rightarrow> Some [1] | _ \<Rightarrow> None) (\<lambda>bs. if bs = [1] then Some HeightQ else None)
     (\<lambda>r. case r of HeightR h \<Rightarrow> Some (word_to_be_bytes 8 h) | _ \<Rightarrow> None)
     (\<lambda>bs. Some (HeightR (word_from_be_bytes bs))))"

theorem requests_travel_witness:
  "\<exists>f g. request_encode demo_json HeightQ = Ok f \<and> request_decode demo_json (f @ [5]) = (Ok HeightQ, [5])
    \<and> response_encode demo_json (HeightR 77) = Ok g \<and> response_decode demo_json (g @ [6]) = (Ok (HeightR 77), [6])
    \<and> frame (replicate (2 ^ 32) 0) = Err MalformedData"
proof -
  have "json_request demo_json HeightQ" "json_response demo_json (HeightR 77)"
    by (simp_all add: json_request_def json_response_def demo_json_def chain_env.extend_def request_env.fields_def
        word_be_bytes_inverse)
  moreover have "2 ^ 32 \<le> length (replicate (2 ^ 32) (0 :: u8))" unfolding length_replicate by (rule order_refl)
  ultimately show ?thesis using requests_travel by blast
qed

end
