(* ===== verification/Client.thy ===== *)
theory Client
  imports Full_Api Builders
begin

text \<open>
  \<open>client.rs\<close>: a client asks a node over a connection.  The node is a function from the bytes of one
  request and its state to the bytes it writes and its next state.  Listings are fetched page by page
  until there is no next page: they are given a number of pages to fetch at most, and \<open>None\<close> is a listing
  that has not ended by then.
\<close>

section \<open>Asking\<close>

type_synonym 's node_server = "u8 list \<Rightarrow> 's \<Rightarrow> u8 list \<times> 's"

definition fetch ::
  "'z request_env_scheme \<Rightarrow> 's node_server \<Rightarrow> Request \<Rightarrow> 's \<Rightarrow> (Response, RequestResponseError, 's) run"
where
  "fetch E server request s =
     bind_run (request_encode E request, s) (\<lambda>request_bytes s.
       case server request_bytes s of (bytes, s) \<Rightarrow> (fst (response_decode E bytes), s))"

definition incorrect_response :: BlockchainDataProviderError where
  "incorrect_response = RequestResponseErrorP (request_error_to_string IncorrectResponse)"

text \<open>What every question does with the response: \<open>f\<close> is its match on the constructor.\<close>

definition ask ::
  "'z request_env_scheme \<Rightarrow> 's node_server \<Rightarrow> Request \<Rightarrow> (Response \<Rightarrow> 'a option) \<Rightarrow> 's
     \<Rightarrow> ('a, BlockchainDataProviderError, 's) run"
where
  "ask E server request f s =
     (case fetch E server request s of
        (r, s) \<Rightarrow> bind_run (map_err (\<lambda>e. RequestResponseErrorP (request_error_to_string e)) r, s)
          (\<lambda>response s. (ok_or (f response) incorrect_response, s)))"

section \<open>Single questions\<close>

definition submit_block ::
  "'z request_env_scheme \<Rightarrow> 's node_server \<Rightarrow> Block \<Rightarrow> 's
     \<Rightarrow> (BlockchainError + unit, BlockchainDataProviderError, 's) run"
where
  "submit_block E server b =
     ask E server (NewBlockQ b) (\<lambda>r. case r of NewBlockR x \<Rightarrow> Some x | _ \<Rightarrow> None)"

definition submit_transaction ::
  "'z request_env_scheme \<Rightarrow> 's node_server \<Rightarrow> Transaction \<Rightarrow> 's
     \<Rightarrow> (BlockchainError + unit, BlockchainDataProviderError, 's) run"
where
  "submit_transaction E server tx =
     ask E server (NewTransactionQ tx) (\<lambda>r. case r of NewTransactionR x \<Rightarrow> Some x | _ \<Rightarrow> None)"

definition get_balance ::
  "'z request_env_scheme \<Rightarrow> 's node_server \<Rightarrow> Public \<Rightarrow> 's
     \<Rightarrow> (u64, BlockchainDataProviderError, 's) run"
where
  "get_balance E server a =
     ask E server (BalanceQ a) (\<lambda>r. case r of BalanceR x \<Rightarrow> Some x | _ \<Rightarrow> None)"

definition client_get_peers ::
  "'z request_env_scheme \<Rightarrow> 's node_server \<Rightarrow> 's
     \<Rightarrow> (SocketAddr list, BlockchainDataProviderError, 's) run"
where
  "client_get_peers E server =
     ask E server PeersQ (\<lambda>r. case r of PeersR x \<Rightarrow> Some x | _ \<Rightarrow> None)"

definition client_get_transaction ::
  "'z request_env_scheme \<Rightarrow> 's node_server \<Rightarrow> TransactionId \<Rightarrow> 's
     \<Rightarrow> (Transaction option, BlockchainDataProviderError, 's) run"
where
  "client_get_transaction E server i =
     ask E server (TransactionQ i) (\<lambda>r. case r of TransactionR x \<Rightarrow> Some x | _ \<Rightarrow> None)"

definition client_get_transaction_and_info ::
  "'z request_env_scheme \<Rightarrow> 's node_server \<Rightarrow> TransactionId \<Rightarrow> 's
     \<Rightarrow> (TransactionAndInfo option, BlockchainDataProviderError, 's) run"
where
  "client_get_transaction_and_info E server i =
     ask E server (TransactionAndInfoQ i) (\<lambda>r. case r of TransactionAndInfoR x \<Rightarrow> Some x | _ \<Rightarrow> None)"

definition client_live_transaction_difficulty ::
  "'z request_env_scheme \<Rightarrow> 's node_server \<Rightarrow> 's
     \<Rightarrow> (buf32, BlockchainDataProviderError, 's) run"
where
  "client_live_transaction_difficulty E server =
     ask E server LiveTransactionDifficultyQ (\<lambda>r. case r of LiveTransactionDifficultyR x \<Rightarrow> Some x | _ \<Rightarrow> None)"

definition client_get_height ::
  "'z request_env_scheme \<Rightarrow> 's node_server \<Rightarrow> 's
     \<Rightarrow> (usize, BlockchainDataProviderError, 's) run"
where
  "client_get_height E server =
     ask E server HeightQ (\<lambda>r. case r of HeightR x \<Rightarrow> Some (unat x) | _ \<Rightarrow> None)"

definition client_get_reward ::
  "'z request_env_scheme \<Rightarrow> 's node_server \<Rightarrow> 's
     \<Rightarrow> (u64, BlockchainDataProviderError, 's) run"
where
  "client_get_reward E server =
     ask E server RewardQ (\<lambda>r. case r of RewardR x \<Rightarrow> Some x | _ \<Rightarrow> None)"

definition client_get_block_by_hash ::
  "'z request_env_scheme \<Rightarrow> 's node_server \<Rightarrow> Hash \<Rightarrow> 's
     \<Rightarrow> (Block option, BlockchainDataProviderError, 's) run"
where
  "client_get_block_by_hash E server h =
     ask E server (BlockQ h) (\<lambda>r. case r of BlockR x \<Rightarrow> Some x | _ \<Rightarrow> None)"

definition client_get_height_by_hash ::
  "'z request_env_scheme \<Rightarrow> 's node_server \<Rightarrow> Hash \<Rightarrow> 's
     \<Rightarrow> (usize option, BlockchainDataProviderError, 's) run"
where
  "client_get_height_by_hash E server h =
     ask E server (BlockHeightQ h) (\<lambda>r. case r of BlockHeightR x \<Rightarrow> Some x | _ \<Rightarrow> None)"

definition client_get_block_hash_by_height ::
  "'z request_env_scheme \<Rightarrow> 's node_server \<Rightarrow> usize \<Rightarrow> 's
     \<Rightarrow> (Hash option, BlockchainDataProviderError, 's) run"
where
  "client_get_block_hash_by_height E server height =
     ask E server (BlockHashQ (word_of_nat height)) (\<lambda>r. case r of BlockHashR x \<Rightarrow> Some x | _ \<Rightarrow> None)"

definition client_get_transaction_difficulty ::
  "'z request_env_scheme \<Rightarrow> 's node_server \<Rightarrow> 's
     \<Rightarrow> (buf32, BlockchainDataProviderError, 's) run"
where
  "client_get_transaction_difficulty E server =
     ask E server DifficultyQ (\<lambda>r. case r of DifficultyR x y \<Rightarrow> Some x | _ \<Rightarrow> None)"

definition client_get_block_difficulty ::
  "'z request_env_scheme \<Rightarrow> 's node_server \<Rightarrow> 's
     \<Rightarrow> (buf32, BlockchainDataProviderError, 's) run"
where
  "client_get_block_difficulty E server =
     ask E server DifficultyQ (\<lambda>r. case r of DifficultyR x y \<Rightarrow> Some y | _ \<Rightarrow> None)"

text \<open>The hash at the height first, then its block.\<close>

definition client_get_block_by_height ::
  "'z request_env_scheme \<Rightarrow> 's node_server \<Rightarrow> usize \<Rightarrow> 's
     \<Rightarrow> (Block option, BlockchainDataProviderError, 's) run"
where
  "client_get_block_by_height E server height s =
     bind_run (ask E server (BlockHashQ (word_of_nat height))
         (\<lambda>r. case r of BlockHashR x \<Rightarrow> Some x | _ \<Rightarrow> None) s) (\<lambda>h s.
       case h of
         None \<Rightarrow> (Ok None, s)
       | Some h \<Rightarrow> ask E server (BlockQ h) (\<lambda>r. case r of BlockR x \<Rightarrow> Some x | _ \<Rightarrow> None) s)"

section \<open>Listings\<close>

text \<open>The loop over the pages; \<open>enough\<close> tells whether the next page is still wanted.\<close>

primrec fetch_pages ::
  "nat \<Rightarrow> (u32 \<Rightarrow> 's \<Rightarrow> ('a list \<times> u32 option, 'e, 's) run) \<Rightarrow> (u32 \<Rightarrow> bool) \<Rightarrow> u32 \<Rightarrow> 'a list \<Rightarrow> 's
     \<Rightarrow> ('a list, 'e, 's) run option"
where
  "fetch_pages 0 ask_page enough page acc s = None"
| "fetch_pages (Suc pages) ask_page enough page acc s =
     (case ask_page page s of
        (Ok (xs, Some next_page), s) \<Rightarrow>
          if enough next_page then Some (Ok (acc @ xs), s)
          else fetch_pages pages ask_page enough next_page (acc @ xs) s
      | (Ok (xs, None), s) \<Rightarrow> Some (Ok (acc @ xs), s)
      | (Err e, s) \<Rightarrow> Some (Err e, s) | (Panic, s) \<Rightarrow> Some (Panic, s))"

definition client_get_mempool ::
  "nat \<Rightarrow> 'z request_env_scheme \<Rightarrow> 's node_server \<Rightarrow> 's
     \<Rightarrow> (Transaction list, BlockchainDataProviderError, 's) run option"
where
  "client_get_mempool pages E server =
     fetch_pages pages (\<lambda>page. ask E server (MempoolQ page)
         (\<lambda>r. case r of MempoolR xs n \<Rightarrow> Some (xs, n) | _ \<Rightarrow> None))
       (\<lambda>_. False) 0 []"

definition client_get_available_transaction_outputs ::
  "nat \<Rightarrow> 'z request_env_scheme \<Rightarrow> 's node_server \<Rightarrow> Public \<Rightarrow> 's
     \<Rightarrow> ((TransactionId \<times> TransactionOutput \<times> usize) list, BlockchainDataProviderError, 's) run option"
where
  "client_get_available_transaction_outputs pages E server a =
     fetch_pages pages (\<lambda>page. ask E server (AvailableUTXOsQ a page)
         (\<lambda>r. case r of AvailableUTXOsR xs n \<Rightarrow> Some (xs, n) | _ \<Rightarrow> None))
       (\<lambda>_. False) 0 []"

definition get_transactions_of_address ::
  "nat \<Rightarrow> 'z request_env_scheme \<Rightarrow> 's node_server \<Rightarrow> Public \<Rightarrow> u32 option \<Rightarrow> 's
     \<Rightarrow> (TransactionId list, BlockchainDataProviderError, 's) run option"
where
  "get_transactions_of_address pages E server a max_pages =
     fetch_pages pages (\<lambda>page. ask E server (TransactionsOfAddressQ a page)
         (\<lambda>r. case r of TransactionsOfAddressR xs n \<Rightarrow> Some (xs, n) | _ \<Rightarrow> None))
       (\<lambda>next_page. case max_pages of None \<Rightarrow> False | Some m \<Rightarrow> m \<le> next_page) 0 []"

text \<open>
  The client as a provider, for a node whose state the questions leave alone; a listing that has not
  ended is no answer, which the record has to give some value.
\<close>

definition client_provider :: "nat \<Rightarrow> 'z request_env_scheme \<Rightarrow> 's node_server \<Rightarrow> 's \<Rightarrow> data_provider" where
  "client_provider pages E server s =
     \<lparr>p_height = fst (client_get_height E server s),
      p_reward = fst (client_get_reward E server s),
      p_block_by_height = (\<lambda>h. fst (client_get_block_by_height E server h s)),
      p_block_by_hash = (\<lambda>h. fst (client_get_block_by_hash E server h s)),
      p_height_by_hash = (\<lambda>h. fst (client_get_height_by_hash E server h s)),
      p_block_hash_by_height = (\<lambda>h. fst (client_get_block_hash_by_height E server h s)),
      p_transaction_difficulty = fst (client_get_transaction_difficulty E server s),
      p_block_difficulty = fst (client_get_block_difficulty E server s),
      p_available_outputs = (\<lambda>a.
        case client_get_available_transaction_outputs pages E server a s of
          Some (r, _) \<Rightarrow> r | None \<Rightarrow> Panic)\<rparr>"

section \<open>Listening\<close>

text \<open>
  A subscription: the bytes the node writes are decoded one event at a time until the stream ends in an
  error, and the events before it have been handed to the callback.
\<close>

function listen_events ::
  "'z request_env_scheme \<Rightarrow> u8 list \<Rightarrow> ChainEvent list \<times> BlockchainDataProviderError"
where
  "listen_events E stream =
     (case response_decode E stream of
        (Ok (ChainEventR event), rest) \<Rightarrow> (case listen_events E rest of (es, e) \<Rightarrow> (event # es, e))
      | (Ok _, rest) \<Rightarrow> ([], incorrect_response)
      | (Err e, rest) \<Rightarrow> ([], RequestResponseErrorP (request_error_to_string e))
      | (Panic, rest) \<Rightarrow> ([], incorrect_response))"
  by pat_completeness auto
termination
  by (relation "measure (\<lambda>(E, stream). length stream)")
    (auto dest!: sym [of _ "response_decode _ _"] dest: response_decode_shorter)

declare listen_events.simps [simp del]

end
