(* ===== verification/Client_Node.thy ===== *)
theory Client_Node
  imports Client Full_Sync
begin

text \<open>
  A client of a full node: what the loop of the connection answers to one request, and that the client
  as a provider gives what the node's chain gives.
\<close>

section \<open>Pages\<close>

lemma PAGE_SIZE_unat [simp]: "unat PAGE_SIZE = 200"
  by (simp add: PAGE_SIZE_def)

definition page_slice :: "'a list \<Rightarrow> nat \<Rightarrow> 'a list \<times> u32 option" where
  "page_slice xs i =
     (take 200 (drop (200 * i) xs),
      if 200 * (i + 1) \<le> length xs then Some (word_of_nat (i + 1)) else None)"

lemma page_number:
  assumes "200 * (i + 1) < 2 ^ 32"
  shows "mul_u chk (word_of_nat i :: u32) PAGE_SIZE = (Ok (word_of_nat (200 * i)) :: (_, 'e) result)"
    and "add_u chk (word_of_nat i :: u32) 1 = (Ok (word_of_nat (i + 1)) :: (_, 'e) result)"
    and "unat (word_of_nat (200 * i) :: u32) = 200 * i"
proof -
  have i: "unat (word_of_nat i :: u32) = i" using assms by (simp add: unat_of_nat take_bit_nat_eq_self)
  have prod: "(word_of_nat i :: u32) * PAGE_SIZE = word_of_nat (200 * i)" by (simp add: PAGE_SIZE_def)
  have "\<not> 2 ^ LENGTH(32) \<le> i * 200" using assms by simp
  then show "mul_u chk (word_of_nat i :: u32) PAGE_SIZE = (Ok (word_of_nat (200 * i)) :: (_, 'e) result)"
    unfolding mul_u_def i PAGE_SIZE_unat prod by simp
  have small: "unat (word_of_nat i :: u32) + unat (1 :: u32) < 2 ^ LENGTH(32)" unfolding i using assms by simp
  show "add_u chk (word_of_nat i :: u32) 1 = (Ok (word_of_nat (i + 1)) :: (_, 'e) result)"
    by (simp only: add_u_no_overflow [OF small] of_nat_add of_nat_1)
  show "unat (word_of_nat (200 * i) :: u32) = 200 * i"
    unfolding unat_of_nat using assms by (simp add: take_bit_nat_eq_self)
qed

lemma page_of_slice:
  assumes "200 * (i + 2) < 2 ^ 32"
  shows "page_of chk xs (word_of_nat i) = (Ok (page_slice xs i) :: (_, 'e) result)"
proof -
  have a: "200 * (i + 1) < 2 ^ 32" "200 * ((i + 1) + 1) < 2 ^ 32" using assms by simp_all
  note n = page_number [OF a(1)] page_number [OF a(2)]
  have slice: "slice_vec xs (200 * i) (200 * (i + 1)) = (Ok (take 200 (drop (200 * i) xs)) :: (_, 'e) result)"
    using slice_vec_ordered [of "200 * i" "200 * (i + 1)" xs] by simp
  have full: "length (take 200 (drop (200 * i) xs)) \<noteq> 200 \<longleftrightarrow> \<not> 200 * (i + 1) \<le> length xs"
    by (cases "200 * (i + 1) \<le> length xs") auto
  show ?thesis
    unfolding page_of_def n(1,2,4) bind_res.simps n(3,6) slice PAGE_SIZE_unat full
    by (simp add: page_slice_def)
qed

text \<open>The transactions of an address, newest block first.\<close>

definition involving :: "Public \<Rightarrow> log_entry list \<Rightarrow> Transaction list" where
  "involving a chain =
     concat (map (\<lambda>e. List.filter (\<lambda>tx. contains_address tx a) (transactions (fst e))) (rev chain))"

definition ids_from :: "usize \<Rightarrow> usize \<Rightarrow> usize \<Rightarrow> Transaction list \<Rightarrow> TransactionId list" where
  "ids_from start stop seen txs =
     map (\<lambda>tx. the (transaction_id tx)) (take (stop - max start seen) (drop (start - seen) txs))"

lemma scan_page_spec:
  assumes "\<forall>tx \<in> set txs. transaction_id tx \<noteq> None" and "seen < stop" and "start < stop"
  shows "scan_page a start stop txs ids seen =
    (let ys = List.filter (\<lambda>tx. contains_address tx a) txs
     in if stop \<le> seen + length ys then Ok (Inl (ids @ ids_from start stop seen ys))
        else Ok (Inr (ids @ ids_from start stop seen ys, seen + length ys)))"
  using assms(1,2)
proof (induction txs arbitrary: ids seen)
  case Nil
  then show ?case using assms(3) by (simp add: ids_from_def)
next
  case (Cons tx txs)
  show ?case
  proof (cases "contains_address tx a")
    case False
    with Cons show ?thesis by simp
  next
    case True
    obtain i where i: "transaction_id tx = Some i" using Cons.prems(1) by auto
    let ?ys = "List.filter (\<lambda>tx. contains_address tx a) txs"
    have push: "(if start \<le> seen \<and> seen < stop
         then bind_res (ok_or (transaction_id tx) (TransactionF MissingId)) (\<lambda>i. Ok (ids @ [i]))
         else Ok ids) = Ok (ids @ (if start \<le> seen then [i] else []))"
      using Cons.prems(2) by (simp add: i)
    have head: "ids_from start stop seen (tx # ?ys) =
        (if start \<le> seen then [i] else []) @ ids_from start stop (seen + 1) ?ys"
    proof (cases "start \<le> seen")
      case True
      have "stop - seen = Suc (stop - Suc seen)" using Cons.prems(2) by simp
      with True show ?thesis by (simp add: ids_from_def i max_def)
    next
      case False
      then have "start - seen = Suc (start - Suc seen)" "max start seen = start" "max start (Suc seen) = start"
        by simp_all
      with False show ?thesis by (simp add: ids_from_def)
    qed
    show ?thesis
    proof (cases "stop \<le> seen + 1")
      case True
      have "ids_from start stop (seen + 1) ?ys = []" using True assms(3) by (simp add: ids_from_def)
      with True \<open>contains_address tx a\<close> head push show ?thesis by (simp add: Let_def)
    next
      case False
      have "\<forall>tx \<in> set txs. transaction_id tx \<noteq> None" using Cons.prems(1) by simp
      from Cons.IH [OF this, of "seen + 1"] False \<open>contains_address tx a\<close> head push show ?thesis
        by (simp add: Let_def)
    qed
  qed
qed

lemma ids_from_append:
  assumes "seen + length xs < stop"
  shows "ids_from start stop seen (xs @ ys) =
    ids_from start stop seen xs @ ids_from start stop (seen + length xs) ys"
proof -
  have len: "length (drop (start - seen) xs) \<le> stop - max start seen"
    using assms by (cases "start \<le> seen") (simp_all add: max_def)
  then have "take (stop - max start seen) (drop (start - seen) xs) = drop (start - seen) xs" by simp
  moreover have "drop (start - seen) (xs @ ys) = drop (start - seen) xs @ drop (start - (seen + length xs)) ys"
    by simp
  moreover have "take (stop - max start seen) (drop (start - seen) xs @ drop (start - (seen + length xs)) ys) =
      drop (start - seen) xs @ take (stop - max start (seen + length xs)) (drop (start - (seen + length xs)) ys)"
  proof -
    have "stop - max start seen - length (drop (start - seen) xs) = stop - max start (seen + length xs)"
      using assms by (cases "start \<le> seen") (simp_all add: max_def add.commute)
    with len show ?thesis by simp
  qed
  ultimately show ?thesis by (simp add: ids_from_def)
qed

lemma scan_blocks_spec:
  assumes "\<forall>b \<in> set bs. \<forall>tx \<in> set (transactions b). transaction_id tx \<noteq> None"
    and "seen < stop" and "start < stop"
  shows "scan_blocks a start stop (map Ok bs) ids seen =
    (let ys = concat (map (\<lambda>b. List.filter (\<lambda>tx. contains_address tx a) (transactions b)) bs)
     in if stop \<le> seen + length ys then Ok (Inl (ids @ ids_from start stop seen ys))
        else Ok (Inr (ids @ ids_from start stop seen ys, seen + length ys)))"
  using assms(1,2)
proof (induction bs arbitrary: ids seen)
  case Nil
  then show ?case using assms(3) by (simp add: ids_from_def)
next
  case (Cons b bs)
  let ?ys = "List.filter (\<lambda>tx. contains_address tx a) (transactions b)"
  let ?zs = "concat (map (\<lambda>b. List.filter (\<lambda>tx. contains_address tx a) (transactions b)) bs)"
  have "\<forall>tx \<in> set (transactions b). transaction_id tx \<noteq> None" using Cons.prems(1) by simp
  note page = scan_page_spec [OF this Cons.prems(2) assms(3), of a ids]
  show ?case
  proof (cases "stop \<le> seen + length ?ys")
    case True
    have "ids_from start stop seen (?ys @ ?zs) = ids_from start stop seen ?ys"
    proof -
      have "stop - max start seen \<le> length (drop (start - seen) ?ys)" using True assms(3)
        by (cases "start \<le> seen") (simp_all add: max_def)
      then show ?thesis by (simp add: ids_from_def)
    qed
    with True page show ?thesis by (simp add: Let_def)
  next
    case False
    then have lt: "seen + length ?ys < stop" by simp
    have "\<forall>b \<in> set bs. \<forall>tx \<in> set (transactions b). transaction_id tx \<noteq> None" using Cons.prems(1) by simp
    from Cons.IH [OF this lt] lt page ids_from_append [OF lt, of start ?zs] show ?thesis
      by (simp add: Let_def add.assoc)
  qed
qed

lemma transactions_of_address_page:
  assumes st: "store_represents st chain"
    and ids: "\<forall>e \<in> set chain. \<forall>tx \<in> set (transactions (fst e)). transaction_id tx \<noteq> None"
    and i: "200 * (i + 2) < 2 ^ 32"
  shows "transactions_of_address chk st a (word_of_nat i) =
    (case page_slice (map (\<lambda>tx. the (transaction_id tx)) (involving a chain)) i of
       (xs, next_page) \<Rightarrow> Ok (TransactionsOfAddressR xs next_page))"
proof -
  have "200 * (i + 1) < 2 ^ 32" using i by simp
  note n = page_number [OF this]
  have blocks: "rev (iter_blocks st) = map Ok (map fst (rev chain))"
    by (simp add: iter_blocks_represents [OF st] rev_map comp_def)
  have "\<forall>b \<in> set (map fst (rev chain)). \<forall>tx \<in> set (transactions b). transaction_id tx \<noteq> None"
    using ids by simp
  from scan_blocks_spec [OF this, of 0 "200 * i + 200" "200 * i" a "[]"]
  have "scan_blocks a (200 * i) (200 * i + 200) (rev (iter_blocks st)) [] 0 =
    (let ys = involving a chain
     in if 200 * i + 200 \<le> length ys then Ok (Inl (ids_from (200 * i) (200 * i + 200) 0 ys))
        else Ok (Inr (ids_from (200 * i) (200 * i + 200) 0 ys, length ys)))"
    unfolding blocks by (simp add: involving_def comp_def Let_def)
  moreover have "ids_from (200 * i) (200 * i + 200) 0 ys =
      take 200 (drop (200 * i) (map (\<lambda>tx. the (transaction_id tx)) ys))" for ys
    by (simp add: ids_from_def take_map drop_map)
  ultimately show ?thesis
    unfolding transactions_of_address_def n(1) bind_res.simps Let_def n(3) PAGE_SIZE_unat page_slice_def
    by (cases "200 * (i + 1) \<le> length (involving a chain)") (simp_all add: n(2) [simplified])
qed

section \<open>The loop over the pages\<close>

lemma fetch_pages_whole:
  assumes "\<And>i. 200 * (i + 2) < 2 ^ 32 \<Longrightarrow> ask_page (word_of_nat i) s = (Ok (page_slice xs i), s)"
    and "length xs < 200 * (i + pages)" and "200 * (i + pages + 1) < 2 ^ 32" and "200 * i \<le> length xs"
  shows "fetch_pages pages ask_page (\<lambda>_. False) (word_of_nat i) acc s = Some (Ok (acc @ drop (200 * i) xs), s)"
  using assms(2-4)
proof (induction pages arbitrary: i acc)
  case 0
  then show ?case by simp
next
  case (Suc pages)
  have "200 * (i + 2) < 2 ^ 32" using Suc.prems(2) by simp
  note page = assms(1) [OF this]
  show ?case
  proof (cases "200 * (i + 1) \<le> length xs")
    case False
    then have "take 200 (drop (200 * i) xs) = drop (200 * i) xs" by simp
    with False page show ?thesis by (simp add: page_slice_def)
  next
    case True
    have "take 200 (drop (200 * i) xs) @ drop (200 * (i + 1)) xs = drop (200 * i) xs"
      using append_take_drop_id [of 200 "drop (200 * i) xs"] by (simp add: add.commute)
    moreover have "fetch_pages pages ask_page (\<lambda>_. False) (word_of_nat (i + 1))
        (acc @ take 200 (drop (200 * i) xs)) s =
      Some (Ok ((acc @ take 200 (drop (200 * i) xs)) @ drop (200 * (i + 1)) xs), s)"
      using Suc.prems True by (intro Suc.IH) simp_all
    ultimately show ?thesis using True page by (simp add: page_slice_def)
  qed
qed

section \<open>One request on a connection\<close>

definition node_server ::
  "'z request_env_scheme \<Rightarrow> (nat \<Rightarrow> u64 \<times> u64 \<times> u64) \<Rightarrow> (nat \<Rightarrow> ChainEvent list) \<Rightarrow> FullNode node_server"
where
  "node_server E clock events bytes n = connection E clock events 0 bytes n"

text \<open>
  The codec is faithful on the questions (they are finitely many, other than the blocks and transactions
  that a client may submit) and on everything the node answers to them.
\<close>

fun is_question :: "Request \<Rightarrow> bool" where
  "is_question (NewBlockQ b) = False"
| "is_question (NewTransactionQ tx) = False"
| "is_question SubscribeToChainEventsQ = False"
| "is_question r = True"

definition api_codec ::
  "'z request_env_scheme \<Rightarrow> (nat \<Rightarrow> u64 \<times> u64 \<times> u64) \<Rightarrow> FullNode \<Rightarrow> bool"
where
  "api_codec E clock n \<longleftrightarrow>
     (\<forall>r. is_question r \<longrightarrow> json_request E r
        \<and> (\<forall>response n'. handle_request E (clock 0) r n = (Ok response, n') \<longrightarrow> json_response E response))"

lemma read_nothing: "request_decode E [] = (Err StreamR, [])"
  by (simp add: request_decode_def read_frame_def read_bytes_def)

lemma fetch_node:
  assumes codec: "api_codec E clock n" and h: "handle_request E (clock 0) r n = (Ok response, n')"
    and r: "is_question r"
  shows "fetch E (node_server E clock events) r n = (Ok response, n')"
proof -
  obtain bytes where req: "request_encode E r = Ok bytes" "request_decode E (bytes @ []) = (Ok r, [])"
    using codec r request_roundtrip [of E r] by (metis api_codec_def)
  have "r \<noteq> SubscribeToChainEventsQ" using r by auto
  moreover have "json_response E response" using codec h r by (auto simp: api_codec_def)
  then obtain out where res: "response_encode E response = Ok out" "response_decode E (out @ []) = (Ok response, [])"
    using response_roundtrip by metis
  moreover have last: "connection E clock events 1 [] n' = ([], n')"
    by (simp add: connection.simps read_nothing)
  ultimately have "connection E clock events 0 bytes n = (out, n')"
    using req(2) h by (simp add: connection.simps [of E clock events 0 bytes])
  then show ?thesis using req(1) res(2) by (simp add: fetch_def node_server_def)
qed

lemma ask_node:
  assumes "api_codec E clock n" and "handle_request E (clock 0) r n = (Ok response, n)"
    and "is_question r" and "f response = Some x"
  shows "ask E (node_server E clock events) r f n = (Ok x, n)"
  using assms by (simp add: ask_def fetch_node)

section \<open>The client is as good as the chain\<close>

text \<open>The questions about a height are asked for heights that fit the 64 bits they travel in.\<close>

definition same_provider :: "data_provider \<Rightarrow> data_provider \<Rightarrow> bool" where
  "same_provider p q \<longleftrightarrow>
     p_height p = p_height q \<and> p_reward p = p_reward q
     \<and> (\<forall>h < 2 ^ 64. p_block_by_height p h = p_block_by_height q h
          \<and> p_block_hash_by_height p h = p_block_hash_by_height q h)
     \<and> p_block_by_hash p = p_block_by_hash q \<and> p_height_by_hash p = p_height_by_hash q
     \<and> p_transaction_difficulty p = p_transaction_difficulty q
     \<and> p_block_difficulty p = p_block_difficulty q
     \<and> p_available_outputs p = p_available_outputs q"

lemma reward_at_every_error:
  assumes "height < 64000000"
  obtains x where "get_block_reward chk height = (Ok x :: (u64, 'e) result)"
    and "get_block_reward chk height = (Ok x :: (u64, 'f) result)"
proof -
  obtain x where x: "get_block_reward chk height = (Ok x :: (u64, 'e) result)" "unat x = reward_spec height"
    using get_block_reward_spec [OF assms, of chk] by metis
  obtain y where y: "get_block_reward chk height = (Ok y :: (u64, 'f) result)" "unat y = reward_spec height"
    using get_block_reward_spec [OF assms, of chk] by metis
  from x(2) y(2) have "x = y" by (simp add: word_unat_eqI)
  with x y show ?thesis by (intro that) simp_all
qed

lemma client_heights:
  assumes codec: "api_codec E clock n" and st: "store_represents (block_store (blockchain n)) chain"
  shows "client_get_height E (node_server E clock events) n = (Ok (length chain), n)"
    and "client_get_height_by_hash E (node_server E clock events) k n =
      (Ok (position (\<lambda>e. entry_hash e = k) chain), n)"
    and "client_get_block_by_hash E (node_server E clock events) k n =
      (Ok (map_option fst (find (\<lambda>e. entry_hash e = k) chain)), n)"
    and "h < 2 ^ 64 \<Longrightarrow> client_get_block_hash_by_height E (node_server E clock events) h n =
      (Ok (if h < length chain then Some (entry_hash (chain ! h)) else None), n)"
    and "h < 2 ^ 64 \<Longrightarrow> client_get_block_by_height E (node_server E clock events) h n =
      (Ok (if h < length chain then Some (fst (chain ! h)) else None), n)"
proof -
  let ?st = "block_store (blockchain n)" and ?server = "node_server E clock events"
  note ask = ask_node [OF codec]
  have len: "length chain < 2 ^ 64" "get_height ?st = length chain"
    using st by (simp_all add: store_represents_def get_height_def)
  have word: "unat (word_of_nat m :: u64) = m" if "m < 2 ^ 64" for m
    unfolding unat_of_nat using that by (simp add: take_bit_nat_eq_self)
  show "client_get_height E ?server n = (Ok (length chain), n)"
    unfolding client_get_height_def
    by (rule ask [of _ "HeightR (word_of_nat (length chain))"]) (simp_all only: handle_request.simps len(2) Response.case word [OF len(1)], simp_all)
  show "client_get_height_by_hash E ?server k n = (Ok (position (\<lambda>e. entry_hash e = k) chain), n)"
    unfolding client_get_height_by_hash_def
    by (rule ask [of _ "BlockHeightR (position (\<lambda>e. entry_hash e = k) chain)"])
      (simp_all add: get_block_height_by_hash_represents [OF st])
  have block: "ask E ?server (BlockQ k) (\<lambda>r. case r of BlockR x \<Rightarrow> Some x | _ \<Rightarrow> None) n =
      (Ok (map_option fst (find (\<lambda>e. entry_hash e = k) chain)), n)" for k
    by (rule ask [of _ "BlockR (map_option fst (find (\<lambda>e. entry_hash e = k) chain))"])
      (simp_all add: get_block_by_hash_represents [OF st])
  then show "client_get_block_by_hash E ?server k n = (Ok (map_option fst (find (\<lambda>e. entry_hash e = k) chain)), n)"
    by (simp add: client_get_block_by_hash_def)
  have hash_at: "ask E ?server (BlockHashQ (word_of_nat h)) (\<lambda>r. case r of BlockHashR x \<Rightarrow> Some x | _ \<Rightarrow> None) n =
      (Ok (if h < length chain then Some (entry_hash (chain ! h)) else None), n)" if "h < 2 ^ 64"
    by (rule ask [of _ "BlockHashR (if h < length chain then Some (entry_hash (chain ! h)) else None)"])
      (simp_all only: handle_request.simps word [OF that] get_block_hash_by_height_represents [OF st that], simp_all)
  then show "h < 2 ^ 64 \<Longrightarrow> client_get_block_hash_by_height E ?server h n =
      (Ok (if h < length chain then Some (entry_hash (chain ! h)) else None), n)"
    by (simp add: client_get_block_hash_by_height_def)
  have found: "map_option fst (find (\<lambda>e. entry_hash e = entry_hash (chain ! h)) chain) = Some (fst (chain ! h))"
    if "h < length chain"
    using st that by (simp add: find_distinct_key store_represents_def)
  show "h < 2 ^ 64 \<Longrightarrow> client_get_block_by_height E ?server h n =
      (Ok (if h < length chain then Some (fst (chain ! h)) else None), n)"
    using hash_at block found by (simp add: client_get_block_by_height_def)
qed

lemma fetch_all_pages:
  assumes "\<And>i. 200 * (i + 2) < 2 ^ 32 \<Longrightarrow> ask_page (word_of_nat i) n = (Ok (page_slice xs i), n)"
    and "length xs < 200 * pages" and "200 * (pages + 1) < 2 ^ 32"
  shows "fetch_pages pages ask_page (\<lambda>_. False) 0 [] n = Some (Ok xs, n)"
  using fetch_pages_whole [of ask_page n xs 0 pages "[]"] assms by simp

lemma client_available:
  assumes codec: "api_codec E clock n" and xs: "get_available_transaction_outputs (blockchain n) a = Ok xs"
    and pages: "length xs < 200 * pages" "200 * (pages + 1) < 2 ^ 32"
  shows "client_get_available_transaction_outputs pages E (node_server E clock events) a n = Some (Ok xs, n)"
  unfolding client_get_available_transaction_outputs_def
proof (rule fetch_all_pages [OF _ pages])
  fix i :: nat assume "200 * (i + 2) < 2 ^ 32"
  then have "page_of (overflow_checks E) xs (word_of_nat i) = (Ok (page_slice xs i) :: (_, ApiFailure) result)"
    by (rule page_of_slice)
  with xs show "ask E (node_server E clock events) (AvailableUTXOsQ a (word_of_nat i))
      (\<lambda>r. case r of AvailableUTXOsR xs n \<Rightarrow> Some (xs, n) | _ \<Rightarrow> None) n = (Ok (page_slice xs i), n)"
    by (intro ask_node [OF codec, of _ "case page_slice xs i of (ys, m) \<Rightarrow> AvailableUTXOsR ys m"])
      (simp_all split: prod.split)
qed

lemma client_mempool:
  assumes codec: "api_codec E clock n"
    and pages: "length (get_mempool (mempool (node_state n))) < 200 * pages" "200 * (pages + 1) < 2 ^ 32"
  shows "client_get_mempool pages E (node_server E clock events) n =
    Some (Ok (get_mempool (mempool (node_state n))), n)"
  unfolding client_get_mempool_def
proof (rule fetch_all_pages [OF _ pages])
  let ?xs = "get_mempool (mempool (node_state n))"
  fix i :: nat assume "200 * (i + 2) < 2 ^ 32"
  then have "page_of (overflow_checks E) ?xs (word_of_nat i) = (Ok (page_slice ?xs i) :: (_, ApiFailure) result)"
    by (rule page_of_slice)
  then show "ask E (node_server E clock events) (MempoolQ (word_of_nat i))
      (\<lambda>r. case r of MempoolR xs n \<Rightarrow> Some (xs, n) | _ \<Rightarrow> None) n = (Ok (page_slice ?xs i), n)"
    by (intro ask_node [OF codec, of _ "case page_slice ?xs i of (ys, m) \<Rightarrow> MempoolR ys m"])
      (simp_all split: prod.split)
qed

lemma client_transactions:
  assumes codec: "api_codec E clock n"
    and st: "store_represents (block_store (blockchain n)) chain"
    and ids: "\<forall>e \<in> set chain. \<forall>tx \<in> set (transactions (fst e)). transaction_id tx \<noteq> None"
    and pages: "length (involving a chain) < 200 * pages" "200 * (pages + 1) < 2 ^ 32"
  shows "get_transactions_of_address pages E (node_server E clock events) a None n =
    Some (Ok (map (\<lambda>tx. the (transaction_id tx)) (involving a chain)), n)"
proof -
  let ?xs = "map (\<lambda>tx. the (transaction_id tx)) (involving a chain)"
  have len: "length ?xs < 200 * pages" using pages(1) by simp
  have "fetch_pages pages (\<lambda>page. ask E (node_server E clock events) (TransactionsOfAddressQ a page)
         (\<lambda>r. case r of TransactionsOfAddressR xs n \<Rightarrow> Some (xs, n) | _ \<Rightarrow> None)) (\<lambda>_. False) 0 [] n =
      Some (Ok ?xs, n)"
  proof (rule fetch_all_pages [OF _ len pages(2)])
    fix i :: nat assume "200 * (i + 2) < 2 ^ 32"
    from transactions_of_address_page [OF st ids this, of "overflow_checks E" a]
    show "ask E (node_server E clock events) (TransactionsOfAddressQ a (word_of_nat i))
        (\<lambda>r. case r of TransactionsOfAddressR xs n \<Rightarrow> Some (xs, n) | _ \<Rightarrow> None) n = (Ok (page_slice ?xs i), n)"
      by (intro ask_node [OF codec, of _ "case page_slice ?xs i of (ys, m) \<Rightarrow> TransactionsOfAddressR ys m"])
        (simp_all split: prod.split)
  qed
  then show ?thesis by (simp add: get_transactions_of_address_def)
qed

lemma client_same_provider:
  assumes codec: "api_codec E clock n" and inv: "chain_inv (overflow_checks E) t0 chain (blockchain n)"
    and h: "length chain < 64000000"
    and pages: "\<And>a xs. get_available_transaction_outputs (blockchain n) a = Ok xs \<Longrightarrow> length xs < 200 * pages"
      "200 * (pages + 1) < 2 ^ 32"
  shows "same_provider (client_provider pages E (node_server E clock events) n)
    (chain_provider (overflow_checks E) (blockchain n))"
proof -
  let ?bc = "blockchain n" and ?server = "node_server E clock events"
  have st: "store_represents (block_store ?bc) chain" using inv by (simp add: chain_inv_def)
  then have height: "get_height (block_store ?bc) = length chain"
    by (simp add: store_represents_def get_height_def)
  note heights = client_heights [OF codec st]
  obtain x where reward: "get_block_reward (overflow_checks E) (length chain) = (Ok x :: (u64, ApiFailure) result)"
    "get_block_reward (overflow_checks E) (length chain) = (Ok x :: (u64, BlockchainDataProviderError) result)"
    by (rule reward_at_every_error [OF h, of "overflow_checks E",
          where ?'e = ApiFailure and ?'f = BlockchainDataProviderError])
  have "client_get_reward E ?server n = (Ok x, n)"
    unfolding client_get_reward_def
    by (rule ask_node [OF codec, of _ "RewardR x"]) (simp_all add: height reward(1))
  moreover have "client_get_transaction_difficulty E ?server n = (Ok (chain_transaction_difficulty ?bc), n)"
    "client_get_block_difficulty E ?server n = (Ok (chain_block_difficulty ?bc), n)"
    unfolding client_get_transaction_difficulty_def client_get_block_difficulty_def
    by (rule ask_node [OF codec, of _ "DifficultyR (chain_transaction_difficulty ?bc) (chain_block_difficulty ?bc)"];
        simp)+
  moreover have "(case client_get_available_transaction_outputs pages E ?server a n of
      Some (r, _) \<Rightarrow> r | None \<Rightarrow> Panic) = get_available_transaction_outputs ?bc a" for a
  proof -
    have "utxos_wf (utxos ?bc)" using inv by (simp add: chain_inv_def)
    then obtain xs where xs: "get_available_transaction_outputs ?bc a = Ok xs"
      using available_outputs_ledger by metis
    then show ?thesis using client_available [OF codec xs pages(1) [OF xs] pages(2)] by simp
  qed
  ultimately show ?thesis
    using heights reward(2)
    by (simp add: same_provider_def client_provider_def chain_provider_def height fun_eq_iff
        get_block_by_height_represents [OF st] get_block_hash_by_height_represents [OF st]
        get_block_by_hash_represents [OF st] get_block_height_by_hash_represents [OF st])
qed

text \<open>A client honours the contract of a provider of outputs as the chain it asks for does.\<close>

definition client_good ::
  "nat \<Rightarrow> 'z request_env_scheme \<Rightarrow> (nat \<Rightarrow> u64 \<times> u64 \<times> u64) \<Rightarrow> FullNode \<Rightarrow> bool"
where
  "client_good pages E clock n \<longleftrightarrow>
     api_codec E clock n \<and> provides_outputs (blockchain n) \<and> 200 * (pages + 1) < 2 ^ 32
     \<and> (\<forall>a xs. get_available_transaction_outputs (blockchain n) a = Ok xs \<longrightarrow> length xs < 200 * pages)"

lemma client_outputs_of_chain:
  assumes "client_good pages E clock n"
  shows "p_available_outputs (client_provider pages E (node_server E clock events) n) a =
    p_available_outputs (chain_provider chk (blockchain n)) a"
proof -
  have good: "api_codec E clock n" "utxos_wf (utxos (blockchain n))" "200 * (pages + 1) < 2 ^ 32"
    "\<And>a xs. get_available_transaction_outputs (blockchain n) a = Ok xs \<Longrightarrow> length xs < 200 * pages"
    using assms by (auto simp: client_good_def provides_outputs_def)
  obtain xs where xs: "get_available_transaction_outputs (blockchain n) a = Ok xs"
    using available_outputs_ledger [OF good(2)] by metis
  then show ?thesis
    using client_available [OF good(1) xs good(4) [OF xs] good(3)]
    by (simp add: client_provider_def chain_provider_def)
qed

interpretation client_outputs: output_provider "client_good pages E clock"
  "client_provider pages E (node_server E clock events)" "\<lambda>n. ledger_of (utxos (blockchain n))"
  for pages E clock events
proof (unfold_locales, goal_cases)
  case (1 n a)
  then show ?case
    unfolding client_outputs_of_chain [OF 1, of events a True]
    by (intro chain_outputs.lists_outputs) (simp add: client_good_def)
next
  case (2 n)
  then show ?case by (intro chain_outputs.finite_unspent) (simp add: client_good_def)
next
  case (3 n)
  then show ?case by (intro chain_outputs.unspent_fits) (simp add: client_good_def)
qed

text \<open>So what a client builds is what the node would build itself.\<close>

lemma build_transaction_outputs:
  assumes "p_available_outputs p = p_available_outputs q"
  shows "build_transaction E now p sender receivers ignore_inputs =
    build_transaction E now q sender receivers ignore_inputs"
  using assms by (simp add: build_transaction_def)

lemma build_transaction_same:
  assumes "same_provider p q"
  shows "build_transaction E now p sender receivers ignore_inputs =
    build_transaction E now q sender receivers ignore_inputs"
  using assms by (intro build_transaction_outputs) (simp add: same_provider_def)

lemma build_block_same:
  assumes "same_provider p q" and "p_height q = Ok h" and "h < 2 ^ 64"
  shows "build_block E now now' nonces p txs miner = build_block E now now' nonces q txs miner"
proof -
  have "p_block_hash_by_height p (h - 1) = p_block_hash_by_height q (h - 1)"
    using assms by (auto simp: same_provider_def)
  then have finish: "finish_block E now' p = finish_block E now' q"
    using assms(1,2) by (simp add: finish_block_def same_provider_def fun_eq_iff)
  have reward: "build_reward E now p txs miner = build_reward E now q txs miner"
  proof -
    have "p_height p = p_height q" "p_transaction_difficulty p = p_transaction_difficulty q"
      using assms(1) by (simp_all add: same_provider_def)
    then show ?thesis by (simp only: build_reward_def)
  qed
  show ?thesis unfolding build_block_def finish reward by (rule refl)
qed

end
