(* ===== verification/Demo_Api.thy ===== *)
theory Demo_Api
  imports Demo_Payment Client_Node
begin

text \<open>
  A codec for the questions of a client and for the answers of one node: its chain is the one-block
  chain.  A question is a tag with its arguments; an answer is its number in the table of all answers that
  the node gives.
\<close>

section \<open>Questions\<close>

fun put_question :: "Request \<Rightarrow> u8 list option" where
  "put_question HeightQ = Some [0]"
| "put_question (BlockQ h) = Some (1 # word_to_be_bytes 32 (hash_buf h))"
| "put_question DifficultyQ = Some [2]"
| "put_question (BlockHashQ n) = Some (3 # word_to_be_bytes 8 n)"
| "put_question (BlockHeightQ h) = Some (4 # word_to_be_bytes 32 (hash_buf h))"
| "put_question (TransactionQ h) = Some (5 # word_to_be_bytes 32 (hash_buf h))"
| "put_question (TransactionAndInfoQ h) = Some (6 # word_to_be_bytes 32 (hash_buf h))"
| "put_question (TransactionsOfAddressQ a p) = Some (7 # word_to_be_bytes 4 p @ word_to_be_bytes 32 (public_buf a))"
| "put_question (AvailableUTXOsQ a p) = Some (8 # word_to_be_bytes 4 p @ word_to_be_bytes 32 (public_buf a))"
| "put_question (BalanceQ a) = Some (9 # word_to_be_bytes 32 (public_buf a))"
| "put_question RewardQ = Some [10]"
| "put_question PeersQ = Some [11]"
| "put_question (MempoolQ p) = Some (12 # word_to_be_bytes 4 p)"
| "put_question LiveTransactionDifficultyQ = Some [13]"
| "put_question SubscribeToChainEventsQ = Some [14]"
| "put_question _ = None"

definition get_question :: "u8 list \<Rightarrow> Request option" where
  "get_question bs =
     (case bs of [] \<Rightarrow> None
      | t # arg \<Rightarrow>
         let h = Hash (word_from_be_bytes arg); a = Public (word_from_be_bytes arg);
             p = word_from_be_bytes (take 4 arg); b = Public (word_from_be_bytes (drop 4 arg))
         in if t = 0 then Some HeightQ else if t = 1 then Some (BlockQ h)
         else if t = 2 then Some DifficultyQ else if t = 3 then Some (BlockHashQ (word_from_be_bytes arg))
         else if t = 4 then Some (BlockHeightQ h) else if t = 5 then Some (TransactionQ h)
         else if t = 6 then Some (TransactionAndInfoQ h) else if t = 7 then Some (TransactionsOfAddressQ b p)
         else if t = 8 then Some (AvailableUTXOsQ b p) else if t = 9 then Some (BalanceQ a)
         else if t = 10 then Some RewardQ else if t = 11 then Some PeersQ
         else if t = 12 then Some (MempoolQ p) else if t = 13 then Some LiveTransactionDifficultyQ
         else if t = 14 then Some SubscribeToChainEventsQ else None)"

lemma get_put_question: "is_question r \<Longrightarrow> \<exists>bs. put_question r = Some bs \<and> length bs \<le> 37 \<and> get_question bs = Some r"
  by (cases r) (simp_all add: get_question_def word_be_bytes_inverse)

lemma get_put_subscription:
  "put_question SubscribeToChainEventsQ = Some [14]" "get_question [14] = Some SubscribeToChainEventsQ"
  by (simp_all add: get_question_def)

section \<open>Answers\<close>

definition put_answer :: "Response list \<Rightarrow> Response \<Rightarrow> u8 list option" where
  "put_answer answers r = map_option (\<lambda>i. [word_of_nat i]) (position (\<lambda>x. x = r) answers)"

definition get_answer :: "Response list \<Rightarrow> u8 list \<Rightarrow> Response option" where
  "get_answer answers bs =
     (case bs of [w] \<Rightarrow> if unat w < length answers then Some (answers ! unat w) else None | _ \<Rightarrow> None)"

definition demo_api :: "Response list \<Rightarrow> request_env" where
  "demo_api answers = chain_env.extend demo
     (request_env.fields put_question get_question (put_answer answers) (get_answer answers))"

lemma demo_api_simps [simp]:
  "overflow_checks (demo_api answers) = True" "encode_request (demo_api answers) = put_question"
  "decode_request (demo_api answers) = get_question" "encode_response (demo_api answers) = put_answer answers"
  "decode_response (demo_api answers) = get_answer answers"
  by (simp_all add: demo_api_def chain_env.extend_def request_env.fields_def)

lemma demo_api_request: "is_question r \<Longrightarrow> json_request (demo_api answers) r"
  using get_put_question [of r] by (auto simp: json_request_def)

lemma demo_api_response:
  assumes "r \<in> set answers" and "length answers \<le> 256"
  shows "json_response (demo_api answers) r"
proof -
  obtain i where i: "position (\<lambda>x. x = r) answers = Some i"
    using assms by (cases "position (\<lambda>x. x = r) answers") (auto simp: position_None)
  have "i < length answers" "answers ! i = r" using position_Some [OF i] by auto
  moreover from this assms(2) have "unat (word_of_nat i :: u8) = i" by (simp add: unat_of_nat take_bit_nat_eq_self)
  ultimately show ?thesis by (simp add: json_response_def put_answer_def get_answer_def i)
qed

section \<open>The node\<close>

definition demo_api_node :: FullNode where
  "demo_api_node = \<lparr>blockchain = demo_state, node_state = node_state_new_empty None, forwarded = []\<rparr>"

definition balance_at :: "Public \<Rightarrow> u64" where
  "balance_at a = (case calculate_confirmed_balance True (utxos demo_state) a of Ok x \<Rightarrow> x | Err (_ :: unit) \<Rightarrow> 0 | Panic \<Rightarrow> 0)"

definition demo_answers :: "Response list" where
  "demo_answers =
     [HeightR 1, BlockR None, BlockR (Some demo_block), DifficultyR (- 1) (- 1), BlockHashR None,
      BlockHashR (Some (demo_stamp 1000)), BlockHeightR None, BlockHeightR (Some 0),
      TransactionR None, TransactionR (Some demo_reward), TransactionAndInfoR None,
      TransactionAndInfoR (Some \<lparr>info_transaction = demo_reward, at_height = 0, in_block = demo_stamp 1000\<rparr>),
      TransactionsOfAddressR [] None, TransactionsOfAddressR [reward_id] None,
      AvailableUTXOsR [] None, AvailableUTXOsR [(reward_id, demo_output, 0)] None,
      AvailableUTXOsR [(reward_id, \<lparr>amount = 200000000, receiver = DEV_WALLET\<rparr>, 1)] None,
      BalanceR (balance_at demo_miner), BalanceR (balance_at DEV_WALLET), BalanceR 0,
      RewardR 10000000000, PeersR [], MempoolR [] None, LiveTransactionDifficultyR (- 1)]"

lemma page_start:
  assumes "mul_u True (page :: u32) PAGE_SIZE = (Ok start :: (_, 'e) result)"
  shows "unat start = 200 * unat page"
proof -
  have "unat page * 200 < 2 ^ 32" "start = page * 200"
    using assms by (auto simp: mul_u_def PAGE_SIZE_def split: if_splits)
  then show ?thesis by (simp add: unat_mult_lem [THEN iffD1])
qed

lemma page_of_short:
  assumes "page_of True xs page = (Ok (ys, m) :: (_, 'e) result)" and "length xs < 200"
  shows "m = None \<and> (ys = xs \<or> ys = [])"
proof -
  obtain start "next" stop where p: "mul_u True page PAGE_SIZE = (Ok start :: (_, 'e) result)"
    "add_u True page 1 = (Ok next :: (_, 'e) result)" "mul_u True next PAGE_SIZE = (Ok stop :: (_, 'e) result)"
    "slice_vec xs (unat start) (unat stop) = (Ok ys :: (_, 'e) result)"
    using assms(1) by (auto simp: page_of_def res_simps split: if_splits)
  have "unat next = unat page + 1"
    using p(2) by (auto simp: add_u_def checked_add_def unat_word_ariths split: if_splits)
  then have n: "unat start = 200 * unat page" "unat stop = 200 * unat page + 200"
    using page_start [OF p(1)] page_start [OF p(3)] by simp_all
  have "ys = take 200 (drop (200 * unat page) xs)"
    using p(4) n by (simp add: slice_vec_ordered)
  then have "ys = xs \<or> ys = []" using assms(2) by (cases "unat page = 0") auto
  with assms p show ?thesis by (auto simp: page_of_def)
qed

section \<open>The answers of the node\<close>

definition dev_output :: TransactionOutput where
  "dev_output = \<lparr>amount = 200000000, receiver = DEV_WALLET\<rparr>"

lemma dev_is_not_miner: "DEV_WALLET \<noteq> demo_miner"
  by (simp add: demo_miner_def DEV_WALLET_def public_new_from_buf_def word_from_be_bytes_def from_bytes_be_def)

lemma demo_state_ledger:
  "ledger_of (utxos demo_state) (t, i) = Some out \<longleftrightarrow>
     t = reward_id \<and> (i = 0 \<and> out = demo_output \<or> i = 1 \<and> out = dev_output)"
  by (auto simp: demo_state_inv demo_ledger row_at_def demo_reward_def demo_output_def dev_output_def
      less_Suc_eq nth_Cons' split: if_splits)

lemma singleton_list: "set xs = {x} \<Longrightarrow> distinct xs \<Longrightarrow> xs = [x]"
  by (cases xs; cases "tl xs") (auto simp: insert_eq_iff)

lemma demo_available_cases:
  obtains av where "get_available_transaction_outputs demo_state a = Ok av"
    and "AvailableUTXOsR av None \<in> set demo_answers" and "length av < 200"
proof -
  obtain av where av: "get_available_transaction_outputs demo_state a = Ok av"
    "\<And>t out i. (t, out, i) \<in> set av \<longleftrightarrow> ledger_of (utxos demo_state) (t, i) = Some out \<and> receiver out = a"
    "distinct (map available_key av)"
    using available_outputs_ledger [OF demo_state_inv(1)] by blast
  have d: "distinct av" using av(3) by (simp add: distinct_map)
  have in_av: "x \<in> set av \<longleftrightarrow> (x = (reward_id, demo_output, 0) \<and> a = demo_miner)
      \<or> (x = (reward_id, dev_output, 1) \<and> a = DEV_WALLET)" for x
    by (cases x) (auto simp: av(2) demo_state_ledger demo_output_def dev_output_def)
  consider "a = demo_miner" | "a = DEV_WALLET" | "a \<noteq> demo_miner" "a \<noteq> DEV_WALLET" by blast
  then have "av = [(reward_id, demo_output, 0)] \<or> av = [(reward_id, dev_output, 1)] \<or> av = []"
  proof cases
    case 1
    then have "set av = {(reward_id, demo_output, 0)}" using in_av dev_is_not_miner by auto
    with d show ?thesis by (simp add: singleton_list)
  next
    case 2
    then have "set av = {(reward_id, dev_output, 1)}" using in_av dev_is_not_miner by auto
    with d show ?thesis by (simp add: singleton_list)
  next
    case 3
    then have "x \<notin> set av" for x by (simp add: in_av)
    then show ?thesis by (cases av) auto
  qed
  with that [OF av(1)] show ?thesis by (auto simp: demo_answers_def dev_output_def)
qed

lemma demo_balance_cases:
  "\<exists>x. calculate_confirmed_balance True (utxos demo_state) a = (Ok x :: (_, 'e) result) \<and> BalanceR x \<in> set demo_answers"
proof -
  have "total_supply (utxos demo_state) \<le> (\<Sum>h<length demo_chain. reward_spec h)"
    using demo_state(2) by (rule chain_supply_bound) (simp add: demo_chain_def)
  then have small: "utxo_sum (\<lambda>p. p = b) (utxos demo_state) < 2 ^ 64" for b
    using balance_le_supply [of "\<lambda>p. p = b" "utxos demo_state"] by (simp add: demo_chain_def reward_spec_def)
  obtain x where x: "calculate_confirmed_balance True (utxos demo_state) a = (Ok x :: (_, 'e) result)"
    "unat x = utxo_sum (\<lambda>p. p = a) (utxos demo_state)"
    using confirmed_balance [OF small] by blast
  obtain y where "calculate_confirmed_balance True (utxos demo_state) a = (Ok y :: (_, unit) result)"
    "unat y = utxo_sum (\<lambda>p. p = a) (utxos demo_state)"
    using confirmed_balance [OF small] by blast
  with x(2) have at: "balance_at a = x" by (simp add: balance_at_def word_unat_eqI)
  have "x = 0" if "a \<noteq> demo_miner" "a \<noteq> DEV_WALLET"
  proof -
    have "value_for (\<lambda>p. p = a) (the (ledger_of (utxos demo_state) k)) = 0"
      if "k \<in> dom (ledger_of (utxos demo_state))" for k
      using that \<open>a \<noteq> demo_miner\<close> \<open>a \<noteq> DEV_WALLET\<close>
      by (cases k) (auto simp: demo_state_ledger value_for_def demo_output_def dev_output_def)
    then have "unat x = 0" by (simp add: x(2) utxo_sum_ledger [OF demo_state_inv(1)] ledger_sum_def)
    then show ?thesis by (simp add: unsigned_eq_0_iff)
  qed
  with x(1) at show ?thesis
    by (cases "a = demo_miner"; cases "a = DEV_WALLET") (auto simp: demo_answers_def)
qed

lemma demo_block_simps:
  "transactions demo_block = [demo_reward]" "hash (meta demo_block) = Some (demo_stamp 1000)"
  by (simp_all add: demo_block_def demo_block_of_def demo_stamp_def)

lemma demo_transactions_cases:
  assumes "transactions_of_address True (block_store demo_state) a page = Ok response"
  shows "response \<in> set demo_answers"
proof -
  have "iter_blocks (block_store demo_state) = [Ok demo_block]"
    by (simp add: iter_blocks_represents [OF demo_state_inv(3)] demo_chain_def)
  with assms show ?thesis
    by (auto simp: transactions_of_address_def res_simps Let_def demo_block_simps reward_id demo_answers_def
        split: if_splits sum.splits)
qed

lemma demo_transaction_lookup:
  "get_transaction_below (block_store demo_state) i (Suc 0) = (if i = reward_id then Some (demo_reward, demo_block, 0) else None)"
  by (simp add: get_block_by_height_represents [OF demo_state_inv(3)] demo_chain_def demo_block_simps reward_id)

lemma demo_api_answers:
  assumes "is_question r" and "handle_request (demo_api answers) now r demo_api_node = (Ok response, n')"
  shows "response \<in> set demo_answers"
proof -
  have height: "get_height (block_store demo_state) = 1"
    using demo_state_inv(3) by (simp add: store_represents_def get_height_def demo_chain_def)
  have entry: "entry_hash (demo_block, ds) = demo_stamp 1000" for ds
    by (simp add: entry_hash_def demo_block_simps)
  have reward: "get_block_reward True (Suc 0) = (Ok 10000000000 :: (u64, 'e) result)"
    by (subst get_block_reward_early) (simp_all add: demo_block_reward)
  have hash_at: "get_block_hash_by_height (block_store demo_state) (unat h) =
      (Ok (if unat h < 1 then Some (demo_stamp 1000) else None) :: (_, 'e) result)" for h :: u64
    using unat_lt [of h]
    by (simp add: get_block_hash_by_height_represents [OF demo_state_inv(3)] demo_chain_def entry)
  note queries = get_block_by_hash_represents [OF demo_state_inv(3)]
    get_block_height_by_hash_represents [OF demo_state_inv(3)]
    hash_at
  show ?thesis
  proof (cases r)
    case (AvailableUTXOsQ a p)
    obtain av where "get_available_transaction_outputs demo_state a = Ok av"
      "AvailableUTXOsR av None \<in> set demo_answers" "length av < 200" by (rule demo_available_cases)
    moreover have "AvailableUTXOsR [] None \<in> set demo_answers" by (simp add: demo_answers_def)
    ultimately show ?thesis
      using assms(2) by (auto simp: AvailableUTXOsQ demo_api_node_def res_simps dest!: page_of_short)
  next
    case (MempoolQ p)
    have "MempoolR [] None \<in> set demo_answers" by (simp add: demo_answers_def)
    then show ?thesis
      using assms(2) by (auto simp: MempoolQ demo_api_node_def node_state_new_empty_def get_mempool_new
          res_simps dest!: page_of_short)
  next
    case (BalanceQ a)
    then show ?thesis
      using assms(2) demo_balance_cases [of a, where ?'e = ApiFailure] by (auto simp: demo_api_node_def res_simps)
  next
    case (TransactionsOfAddressQ a p)
    then show ?thesis using assms(2) demo_transactions_cases by (auto simp: demo_api_node_def)
  qed (use assms in \<open>auto simp: demo_api_node_def res_simps height queries demo_chain_def entry reward
      get_transaction_def get_transaction_and_info_def demo_transaction_lookup demo_block_simps
      node_state_new_empty_def demo_state_targets mempool_size_length get_mempool_new live_difficulty_0
      demo_answers_def simp del: get_transaction_below.simps split: if_splits\<close>)
qed

lemma demo_api_codec: "api_codec (demo_api demo_answers) clock demo_api_node"
proof -
  have "length demo_answers \<le> 256" by (simp add: demo_answers_def)
  then show ?thesis
    using demo_api_answers demo_api_request demo_api_response unfolding api_codec_def by blast
qed

end
