(* ===== verification/Ibd_Pipeline.thy ===== *)
theory Ibd_Pipeline
  imports Ibd
begin

text \<open>
  The tasks of the initial block download (\<open>full_node/ibd.rs\<close>) as they interleave: the downloader sends what
  it has fetched through a channel of 1024 blocks, the applier adds the blocks to the chain and hands those
  whose proof of work it skipped to as many hashing threads as the caller wants, through a channel that holds
  one block for each.  A task that ends drops its ends of the channels.  Every schedule ends as
  \<open>process_downloaded\<close>, which does all this in order, does.
\<close>

section \<open>State\<close>

datatype hasher = Idle | Hashing Block | Stopped "(unit, IbdError) result"

record Pipeline =
  unsent :: "Block list"
  downloader_result :: "(unit, IbdError) result option"
  downloaded :: "Block list"
  ibd_chain :: Blockchain
  processing_height :: usize
  hash_job :: "Block option"
  applier_result :: "(unit, IbdError) result option"
  hash_queue :: "Block list"
  hashers :: "hasher list"

definition MAX_PENDING :: usize where "MAX_PENDING = 1024"

text \<open>A channel needs room for something.\<close>

definition pipeline_new ::
  "Block list \<Rightarrow> Blockchain \<Rightarrow> usize \<Rightarrow> usize \<Rightarrow> (Pipeline, IbdError) result"
where
  "pipeline_new bs bc local_height hashing_threads =
     (if hashing_threads = 0 then Panic
      else Ok \<lparr>unsent = bs, downloader_result = None, downloaded = [], ibd_chain = bc,
        processing_height = local_height, hash_job = None, applier_result = None,
        hash_queue = [], hashers = replicate hashing_threads Idle\<rparr>)"

section \<open>Steps\<close>

definition applied_one :: "usize \<Rightarrow> Pipeline \<Rightarrow> Pipeline" where
  "applied_one remote_height st =
     (let h = processing_height st + 1
      in st\<lparr>processing_height := h, applier_result := if h = remote_height then Some (Ok ()) else None\<rparr>)"

text \<open>One turn of the applier, up to the block that it has to hand over.\<close>

definition applier_turn :: "'z chain_env_scheme \<Rightarrow> bool \<Rightarrow> usize \<Rightarrow> Pipeline \<Rightarrow> Pipeline" where
  "applier_turn E full_ibd remote_height st =
     (case downloaded st of
        [] \<Rightarrow> st
      | b # bs \<Rightarrow>
          (let fast = speed_up full_ibd remote_height (processing_height st)
           in case add_block E b fast fast (ibd_chain st) of (r, bc) \<Rightarrow>
             (let st = st\<lparr>downloaded := bs, ibd_chain := bc\<rparr>
              in case map_err BlockchainI r of
                Ok _ \<Rightarrow> if fast then st\<lparr>hash_job := Some b\<rparr> else applied_one remote_height st
              | Err e \<Rightarrow> st\<lparr>applier_result := Some (Err e)\<rparr>
              | Panic \<Rightarrow> st\<lparr>applier_result := Some Panic\<rparr>)))"

definition hasher_turn :: "'z block_env_scheme \<Rightarrow> Block \<Rightarrow> hasher" where
  "hasher_turn E b =
     (case map_err BlockI (validate_block_hash E b) of Ok _ \<Rightarrow> Idle | Err e \<Rightarrow> Stopped (Err e) | Panic \<Rightarrow> Stopped Panic)"

inductive pipeline_step :: "'z chain_env_scheme \<Rightarrow> bool \<Rightarrow> usize \<Rightarrow> Pipeline \<Rightarrow> Pipeline \<Rightarrow> bool"
for E full_ibd remote_height where
  sends: "downloader_result st = None \<Longrightarrow> applier_result st = None \<Longrightarrow> unsent st = b # bs \<Longrightarrow>
    length (downloaded st) < MAX_PENDING \<Longrightarrow>
    pipeline_step E full_ibd remote_height st (st\<lparr>unsent := bs, downloaded := downloaded st @ [b]\<rparr>)"
| send_fails: "downloader_result st = None \<Longrightarrow> applier_result st \<noteq> None \<Longrightarrow> unsent st \<noteq> [] \<Longrightarrow>
    pipeline_step E full_ibd remote_height st (st\<lparr>downloader_result := Some (Err ChannelClosed)\<rparr>)"
| sent_all: "downloader_result st = None \<Longrightarrow> unsent st = [] \<Longrightarrow>
    pipeline_step E full_ibd remote_height st (st\<lparr>downloader_result := Some (Ok ())\<rparr>)"
| applies: "applier_result st = None \<Longrightarrow> hash_job st = None \<Longrightarrow> downloaded st \<noteq> [] \<Longrightarrow>
    pipeline_step E full_ibd remote_height st (applier_turn E full_ibd remote_height st)"
| applied_all: "applier_result st = None \<Longrightarrow> hash_job st = None \<Longrightarrow> downloaded st = [] \<Longrightarrow>
    downloader_result st \<noteq> None \<Longrightarrow>
    pipeline_step E full_ibd remote_height st (st\<lparr>applier_result := Some (Ok ())\<rparr>)"
| hands_over: "applier_result st = None \<Longrightarrow> hash_job st = Some b \<Longrightarrow> length (hash_queue st) < length (hashers st) \<Longrightarrow>
    pipeline_step E full_ibd remote_height st
      (applied_one remote_height (st\<lparr>hash_job := None, hash_queue := hash_queue st @ [b]\<rparr>))"
| hand_over_fails: "applier_result st = None \<Longrightarrow> hash_job st = Some b \<Longrightarrow> \<forall>x \<in> set (hashers st). \<exists>r. x = Stopped r \<Longrightarrow>
    pipeline_step E full_ibd remote_height st (st\<lparr>hash_job := None, applier_result := Some (Err ChannelClosed)\<rparr>)"
| takes: "i < length (hashers st) \<Longrightarrow> hashers st ! i = Idle \<Longrightarrow> hash_queue st = b # bs \<Longrightarrow>
    pipeline_step E full_ibd remote_height st (st\<lparr>hash_queue := bs, hashers := (hashers st)[i := Hashing b]\<rparr>)"
| hashes: "i < length (hashers st) \<Longrightarrow> hashers st ! i = Hashing b \<Longrightarrow>
    pipeline_step E full_ibd remote_height st (st\<lparr>hashers := (hashers st)[i := hasher_turn E b]\<rparr>)"
| stops: "i < length (hashers st) \<Longrightarrow> hashers st ! i = Idle \<Longrightarrow> hash_queue st = [] \<Longrightarrow> applier_result st \<noteq> None \<Longrightarrow>
    pipeline_step E full_ibd remote_height st (st\<lparr>hashers := (hashers st)[i := Stopped (Ok ())]\<rparr>)"

inductive_cases pipeline_stepE: "pipeline_step E full_ibd remote_height st st'"

section \<open>What the download returns\<close>

text \<open>
  The threads are waited for first, in their order, then the applier, then the downloader; the first that
  ended by an error or a panic decides, whatever the others still do.
\<close>

definition awaits ::
  "(unit, IbdError) result option \<Rightarrow> (unit, IbdError) result option \<Rightarrow> (unit, IbdError) result option"
where
  "awaits r k = (case r of None \<Rightarrow> None | Some x \<Rightarrow> if x = Ok () then k else Some (joined x))"

fun hashers_result :: "hasher list \<Rightarrow> (unit, IbdError) result option" where
  "hashers_result [] = Some (Ok ())"
| "hashers_result (Stopped r # hs) = awaits (Some r) (hashers_result hs)"
| "hashers_result (_ # hs) = None"

definition pipeline_result :: "Pipeline \<Rightarrow> (unit, IbdError) result option" where
  "pipeline_result st =
     awaits (hashers_result (hashers st)) (awaits (applier_result st) (awaits (downloader_result st) (Some (Ok ()))))"

lemma joined_Ok [simp]: "joined r = Ok () \<longleftrightarrow> r = Ok ()"
  by (cases r) simp_all

lemma awaits_Ok [simp]: "awaits r k = Some (Ok ()) \<longleftrightarrow> r = Some (Ok ()) \<and> k = Some (Ok ())"
  by (auto simp: awaits_def split: option.splits)

lemma awaits_None: "awaits r k = None \<longleftrightarrow> r = None \<or> r = Some (Ok ()) \<and> k = None"
  by (auto simp: awaits_def split: option.splits)

lemma hashers_result_Ok: "hashers_result hs = Some (Ok ()) \<longleftrightarrow> (\<forall>x \<in> set hs. x = Stopped (Ok ()))"
  by (induction hs rule: hashers_result.induct) simp_all

lemma hashers_result_None:
  assumes "hashers_result hs = None"
  shows "\<exists>i < length hs. \<forall>r. hs ! i \<noteq> Stopped r"
  using assms
proof (induction hs rule: hashers_result.induct)
  case (2 r hs)
  then obtain i where "i < length hs" "\<forall>r. hs ! i \<noteq> Stopped r" by (auto simp: awaits_None)
  then show ?case by (intro exI [of _ "Suc i"]) simp
qed (auto intro: exI [of _ 0])

lemma hashers_result_bad:
  assumes "hashers_result hs = Some r" and "r \<noteq> Ok ()"
  shows "\<exists>r. Stopped r \<in> set hs \<and> r \<noteq> Ok ()"
  using assms
proof (induction hs rule: hashers_result.induct)
  case (2 x hs)
  then show ?case by (cases "x = Ok ()") (auto simp: awaits_def)
qed simp_all

section \<open>It ends\<close>

primrec hasher_work :: "hasher \<Rightarrow> nat" where
  "hasher_work Idle = 1"
| "hasher_work (Hashing _) = 3"
| "hasher_work (Stopped _) = 0"

definition open_task :: "'a option \<Rightarrow> nat" where
  "open_task r = (if r = None then 1 else 0)"

definition pipeline_work :: "Pipeline \<Rightarrow> nat" where
  "pipeline_work st =
     6 * length (unsent st) + open_task (downloader_result st) + 5 * length (downloaded st)
     + (4 - 4 * open_task (hash_job st)) + open_task (applier_result st)
     + 3 * length (hash_queue st) + sum_list (map hasher_work (hashers st))"

lemma sum_list_update_less:
  assumes "i < length xs" and "f y < f (xs ! i) + k"
  shows "sum_list (map f (xs[i := y])) < sum_list (map f xs) + (k :: nat)"
proof -
  have "xs = take i xs @ xs ! i # drop (Suc i) xs" by (rule id_take_nth_drop [OF assms(1)])
  then have "sum_list (map f xs) = sum_list (map f (take i xs)) + f (xs ! i) + sum_list (map f (drop (Suc i) xs))"
    by (metis append_Cons list.simps(9) map_append sum_list.Cons sum_list_append add.assoc)
  moreover have "sum_list (map f (xs[i := y])) = sum_list (map f (take i xs)) + f y + sum_list (map f (drop (Suc i) xs))"
    using assms(1) by (simp add: upd_conv_take_nth_drop)
  ultimately show ?thesis using assms(2) by simp
qed

lemma pipeline_step_work:
  assumes "pipeline_step E full_ibd remote_height st st'"
  shows "pipeline_work st' < pipeline_work st"
  using assms
proof cases
  case applies
  then show ?thesis
    by (cases "downloaded st"; cases "fst (add_block E (hd (downloaded st))
        (speed_up full_ibd remote_height (processing_height st)) (speed_up full_ibd remote_height (processing_height st)) (ibd_chain st))")
      (auto simp: pipeline_work_def applier_turn_def applied_one_def open_task_def Let_def split: prod.splits)
next
  case (takes i b bs)
  then have "sum_list (map hasher_work ((hashers st)[i := Hashing b])) < sum_list (map hasher_work (hashers st)) + 3"
    by (intro sum_list_update_less) simp_all
  with takes show ?thesis by (simp add: pipeline_work_def)
next
  case (hashes i b)
  have "hasher_work (hasher_turn E b) < 3 + 0" by (simp add: hasher_turn_def split: result.split)
  with hashes have "sum_list (map hasher_work ((hashers st)[i := hasher_turn E b])) < sum_list (map hasher_work (hashers st)) + 0"
    by (intro sum_list_update_less) simp_all
  with hashes show ?thesis by (simp add: pipeline_work_def)
next
  case (stops i)
  then have "sum_list (map hasher_work ((hashers st)[i := Stopped (Ok ())])) < sum_list (map hasher_work (hashers st)) + 0"
    by (intro sum_list_update_less) simp_all
  with stops show ?thesis by (simp add: pipeline_work_def)
qed (auto simp: pipeline_work_def open_task_def applied_one_def Let_def)

text \<open>While it has not ended, something can go on.\<close>

definition hashers_inv :: "Pipeline \<Rightarrow> bool" where
  "hashers_inv st \<longleftrightarrow> hashers st \<noteq> [] \<and> (Stopped (Ok ()) \<in> set (hashers st) \<longrightarrow> applier_result st \<noteq> None \<and> hash_queue st = [])
     \<and> (applier_result st \<noteq> None \<longrightarrow> hash_job st = None)"

lemma hashers_inv_step:
  assumes "pipeline_step E full_ibd remote_height st st'" and "hashers_inv st"
  shows "hashers_inv st'"
  using assms(1)
proof cases
  case applies
  with assms(2) show ?thesis
    by (auto simp: hashers_inv_def applier_turn_def applied_one_def Let_def split: list.split prod.split result.split)
next
  case (hashes i b)
  have "hasher_turn E b \<noteq> Stopped (Ok ())" by (simp add: hasher_turn_def split: result.split)
  then have "Stopped (Ok ()) \<in> set ((hashers st)[i := hasher_turn E b]) \<Longrightarrow> Stopped (Ok ()) \<in> set (hashers st)"
    using set_update_subset_insert by fastforce
  with hashes assms(2) show ?thesis by (auto simp: hashers_inv_def)
next
  case (takes i b bs)
  have "Stopped (Ok ()) \<in> set ((hashers st)[i := Hashing b]) \<Longrightarrow> Stopped (Ok ()) \<in> set (hashers st)"
    using set_update_subset_insert by fastforce
  with takes assms(2) show ?thesis by (auto simp: hashers_inv_def)
next
  case (hand_over_fails b)
  then have "Stopped (Ok ()) \<notin> set (hashers st)" using assms(2) by (auto simp: hashers_inv_def)
  with hand_over_fails assms(2) show ?thesis by (auto simp: hashers_inv_def)
qed (use assms(2) in \<open>auto simp: hashers_inv_def applied_one_def Let_def\<close>)

lemma pipeline_progress:
  assumes inv: "hashers_inv st" and "pipeline_result st = None"
  shows "\<exists>st'. pipeline_step E full_ibd remote_height st st'"
proof -
  consider "hashers_result (hashers st) = None" | "hashers_result (hashers st) = Some (Ok ())" "applier_result st = None"
    | "hashers_result (hashers st) = Some (Ok ())" "applier_result st \<noteq> None" "downloader_result st = None"
    using assms(2) by (auto simp: pipeline_result_def awaits_None)
  then show ?thesis
  proof cases
    case 1
    then obtain i where i: "i < length (hashers st)" "\<forall>r. hashers st ! i \<noteq> Stopped r"
      using hashers_result_None by blast
    show ?thesis
    proof (cases "hashers st ! i")
      case (Hashing b)
      with i show ?thesis by (blast intro: hashes)
    next
      case Idle
      then consider "hash_queue st \<noteq> []" | "hash_queue st = []" "applier_result st \<noteq> None"
        | b where "hash_queue st = []" "applier_result st = None" "hash_job st = Some b"
        | "applier_result st = None" "hash_job st = None" "downloaded st \<noteq> []"
        | "applier_result st = None" "hash_job st = None" "downloaded st = []" "downloader_result st \<noteq> None"
        | "downloader_result st = None" "unsent st = []"
        | b bs where "applier_result st = None" "downloaded st = []" "downloader_result st = None" "unsent st = b # bs"
        by (cases "unsent st"; blast)
      then show ?thesis
      proof cases
        case 1
        with i Idle show ?thesis by (cases "hash_queue st") (blast intro: takes)+
      next
        case 3
        moreover have "length (hash_queue st) < length (hashers st)" using 3(1) i(1) by auto
        ultimately show ?thesis by (blast intro: hands_over)
      next
        case 7
        then have "length (downloaded st) < MAX_PENDING" by (simp add: MAX_PENDING_def)
        with 7 show ?thesis by (blast intro: sends)
      qed (use i Idle in \<open>blast intro: stops applies applied_all sent_all\<close>)+
    qed (use i in blast)
  next
    case 2
    then have "Stopped (Ok ()) \<in> set (hashers st)"
      using inv by (cases "hashers st") (simp_all add: hashers_inv_def hashers_result_Ok)
    with 2 inv show ?thesis by (auto simp: hashers_inv_def)
  next
    case 3
    then show ?thesis by (cases "unsent st = []") (blast intro: sent_all send_fails)+
  qed
qed

section \<open>It does what the sequential download does\<close>

text \<open>What is left for the applier, when the blocks given to the threads so far are \<open>sent\<close>.\<close>

definition left_to_apply ::
  "'z chain_env_scheme \<Rightarrow> bool \<Rightarrow> usize \<Rightarrow> Pipeline \<Rightarrow> Block list \<Rightarrow> (unit, IbdError, Blockchain \<times> Block list) run"
where
  "left_to_apply E full_ibd remote_height st sent =
     (let rest = downloaded st @ unsent st
      in case hash_job st of
        None \<Rightarrow> apply_downloaded E full_ibd remote_height (processing_height st) rest (ibd_chain st, sent)
      | Some _ \<Rightarrow>
          if processing_height st + 1 = remote_height then (Ok (), (ibd_chain st, sent))
          else apply_downloaded E full_ibd remote_height (processing_height st + 1) rest (ibd_chain st, sent))"

definition thread_failed :: "Pipeline \<Rightarrow> bool" where
  "thread_failed st \<longleftrightarrow> (\<exists>r. Stopped r \<in> set (hashers st) \<and> r \<noteq> Ok ())"

definition in_hand :: "Pipeline \<Rightarrow> Block set" where
  "in_hand st = set (hash_queue st) \<union> {b. Hashing b \<in> set (hashers st)} \<union> set_option (hash_job st)"

text \<open>
  \<open>whole\<close> is what the sequential applier gives.  The applier is on its way there, or got there, or gave up
  because every thread had failed.  What was sent is in hand, or passes the check, or a thread has failed; and a
  thread has failed only on a block that was sent and does not pass.
\<close>

definition sent_ok :: "'z chain_env_scheme \<Rightarrow> Pipeline \<Rightarrow> Block list \<Rightarrow> bool" where
  "sent_ok E st sent \<longleftrightarrow> in_hand st \<subseteq> set sent
     \<and> (\<forall>b \<in> set sent. validate_block_hash E b = Ok () \<or> b \<in> in_hand st \<or> thread_failed st)
     \<and> (thread_failed st \<longrightarrow> (\<exists>b \<in> set sent. validate_block_hash E b \<noteq> Ok ()))"

definition pipeline_inv ::
  "'z chain_env_scheme \<Rightarrow> bool \<Rightarrow> usize \<Rightarrow> (unit, IbdError, Blockchain \<times> Block list) run \<Rightarrow> Pipeline \<Rightarrow> bool"
where
  "pipeline_inv E full_ibd remote_height whole st \<longleftrightarrow>
     (\<exists>sent. sent_ok E st sent \<and> set sent \<subseteq> set (snd (snd whole))
        \<and> (case applier_result st of
             None \<Rightarrow> left_to_apply E full_ibd remote_height st sent = whole
           | Some r \<Rightarrow> whole = (r, (ibd_chain st, sent)) \<or> r \<noteq> Ok () \<and> thread_failed st))
     \<and> (applier_result st = None \<longrightarrow> downloader_result st \<noteq> None \<longrightarrow> unsent st = [])"

lemma apply_downloaded_sent:
  "set sent \<subseteq> set (snd (snd (apply_downloaded E full_ibd remote_height h bs (bc, sent))))"
proof (induction bs arbitrary: h bc sent)
  case (Cons b bs)
  let ?fast = "speed_up full_ibd remote_height h"
  obtain r bc' where add: "add_block E b ?fast ?fast bc = (r, bc')" by force
  have "set sent \<subseteq> set (if ?fast then sent @ [b] else sent)" by auto
  also have "\<dots> \<subseteq> set (snd (snd (apply_downloaded E full_ibd remote_height (h + 1) bs
      (bc', if ?fast then sent @ [b] else sent))))" by (rule Cons.IH)
  finally show ?case by (cases r) (auto simp: add Let_def bind_run_def)
qed simp

lemma kept_in_update: "x \<in> set xs \<Longrightarrow> x \<noteq> xs ! i \<Longrightarrow> x \<in> set (xs[i := y])"
  by (metis in_set_conv_nth length_list_update nth_list_update_neq)

lemma in_updated: "x \<in> set (xs[i := y]) \<Longrightarrow> x = y \<or> x \<in> set xs"
  using set_update_subset_insert by fastforce

lemma set_updated: "x \<noteq> y \<Longrightarrow> x \<noteq> xs ! i \<Longrightarrow> x \<in> set (xs[i := y]) \<longleftrightarrow> x \<in> set xs"
  using in_updated kept_in_update by metis

lemma sent_ok_cong:
  assumes "sent_ok E st sent" and "in_hand st' = in_hand st" and "thread_failed st' = thread_failed st"
  shows "sent_ok E st' sent"
  using assms by (simp add: sent_ok_def)

text \<open>Turns of the threads.\<close>

lemma takes_in_hand:
  assumes "i < length (hashers st)" and "hashers st ! i = Idle" and "hash_queue st = b # bs"
  defines "st' \<equiv> st\<lparr>hash_queue := bs, hashers := (hashers st)[i := Hashing b]\<rparr>"
  shows "in_hand st' = in_hand st" and "thread_failed st' = thread_failed st"
proof -
  have "Hashing b \<in> set (hashers st')" using assms(1) by (simp add: st'_def set_update_memI)
  moreover have "Hashing c \<in> set (hashers st') \<longleftrightarrow> c = b \<or> Hashing c \<in> set (hashers st)" for c
    using calculation assms(2) by (auto simp: st'_def dest: in_updated intro: kept_in_update)
  ultimately show "in_hand st' = in_hand st" using assms(3) by (auto simp: in_hand_def st'_def)
  have "Stopped r \<in> set (hashers st') \<longleftrightarrow> Stopped r \<in> set (hashers st)" if "r \<noteq> Ok ()" for r
    using that assms(2) by (simp add: st'_def set_updated)
  then show "thread_failed st' = thread_failed st" unfolding thread_failed_def by blast
qed

lemma stops_in_hand:
  assumes "i < length (hashers st)" and "hashers st ! i = Idle"
  defines "st' \<equiv> st\<lparr>hashers := (hashers st)[i := Stopped (Ok ())]\<rparr>"
  shows "in_hand st' = in_hand st" and "thread_failed st' = thread_failed st"
proof -
  have "Hashing c \<in> set (hashers st') \<longleftrightarrow> Hashing c \<in> set (hashers st)" for c
    using assms(2) by (auto simp: st'_def dest: in_updated intro: kept_in_update)
  then show "in_hand st' = in_hand st" by (simp add: in_hand_def st'_def)
  have "Stopped r \<in> set (hashers st') \<longleftrightarrow> Stopped r \<in> set (hashers st)" if "r \<noteq> Ok ()" for r
    using that assms(2) by (simp add: st'_def set_updated)
  then show "thread_failed st' = thread_failed st" unfolding thread_failed_def by blast
qed

lemma thread_failed_update:
  assumes "thread_failed st" and "\<forall>r. hashers st ! i \<noteq> Stopped r"
  shows "thread_failed (st\<lparr>hashers := (hashers st)[i := y]\<rparr>)"
proof -
  obtain r where r: "Stopped r \<in> set (hashers st)" "r \<noteq> Ok ()" using assms(1) by (auto simp: thread_failed_def)
  have "Stopped r \<noteq> hashers st ! i" using assms(2) by metis
  with r(1) have "Stopped r \<in> set ((hashers st)[i := y])" by (rule kept_in_update)
  with r(2) show ?thesis by (auto simp: thread_failed_def)
qed

lemma hashes_sent_ok:
  assumes ok: "sent_ok E st sent" and i: "i < length (hashers st)" "hashers st ! i = Hashing b"
  shows "sent_ok E (st\<lparr>hashers := (hashers st)[i := hasher_turn E b]\<rparr>) sent"
proof -
  let ?st' = "st\<lparr>hashers := (hashers st)[i := hasher_turn E b]\<rparr>"
  have new: "hasher_turn E b \<in> set (hashers ?st')" using i(1) by (simp add: set_update_memI)
  have "Hashing b \<in> set (hashers st)" using i nth_mem by metis
  then have b: "b \<in> set sent" using ok by (auto simp: sent_ok_def in_hand_def)
  have other: "c = b \<or> c \<in> in_hand ?st'" if "c \<in> in_hand st" for c
    using that i(2) by (auto simp: in_hand_def intro: kept_in_update)
  have sub: "in_hand ?st' \<subseteq> in_hand st"
    by (auto simp: in_hand_def hasher_turn_def split: result.splits dest: in_updated)
  have failed: "thread_failed ?st'" if "thread_failed st"
    by (rule thread_failed_update [OF that]) (simp add: i(2))
  show ?thesis
  proof (cases "validate_block_hash E b = Ok ()")
    case True
    then have "hasher_turn E b = Idle" by (simp add: hasher_turn_def)
    then have "thread_failed ?st' \<longrightarrow> thread_failed st" by (auto simp: thread_failed_def dest: in_updated)
    with ok True other sub failed show ?thesis unfolding sent_ok_def by blast
  next
    case False
    then have "\<exists>r. hasher_turn E b = Stopped r \<and> r \<noteq> Ok ()"
      by (cases "validate_block_hash E b") (auto simp: hasher_turn_def)
    with new have "thread_failed ?st'" by (auto simp: thread_failed_def)
    with ok False b sub show ?thesis unfolding sent_ok_def by blast
  qed
qed

text \<open>Every step keeps the invariant.\<close>

lemma pipeline_invI:
  assumes "sent_ok E st sent" and "set sent \<subseteq> set (snd (snd whole))"
    and "applier_result st = None \<Longrightarrow> left_to_apply E full_ibd remote_height st sent = whole"
    and "\<And>r. applier_result st = Some r \<Longrightarrow> whole = (r, (ibd_chain st, sent)) \<or> r \<noteq> Ok () \<and> thread_failed st"
    and "applier_result st = None \<Longrightarrow> downloader_result st \<noteq> None \<Longrightarrow> unsent st = []"
  shows "pipeline_inv E full_ibd remote_height whole st"
  unfolding pipeline_inv_def using assms by (cases "applier_result st") auto

lemma pipeline_invE:
  assumes "pipeline_inv E full_ibd remote_height whole st"
  obtains sent where "sent_ok E st sent" and "set sent \<subseteq> set (snd (snd whole))"
    and "applier_result st = None \<Longrightarrow> left_to_apply E full_ibd remote_height st sent = whole"
    and "\<And>r. applier_result st = Some r \<Longrightarrow> whole = (r, (ibd_chain st, sent)) \<or> r \<noteq> Ok () \<and> thread_failed st"
    and "applier_result st = None \<Longrightarrow> downloader_result st \<noteq> None \<Longrightarrow> unsent st = []"
proof -
  have "\<exists>sent. sent_ok E st sent \<and> set sent \<subseteq> set (snd (snd whole))
      \<and> (applier_result st = None \<longrightarrow> left_to_apply E full_ibd remote_height st sent = whole)
      \<and> (\<forall>r. applier_result st = Some r \<longrightarrow> whole = (r, (ibd_chain st, sent)) \<or> r \<noteq> Ok () \<and> thread_failed st)
      \<and> (applier_result st = None \<longrightarrow> downloader_result st \<noteq> None \<longrightarrow> unsent st = [])"
    using assms unfolding pipeline_inv_def by (cases "applier_result st") auto
  then show ?thesis using that by (elim exE conjE) simp
qed

lemma applied_one_inv:
  assumes "sent_ok E st sent" and "set sent \<subseteq> set (snd (snd whole))" and "hash_job st = None"
    and "applier_result st = None"
    and "(if processing_height st + 1 = remote_height then (Ok (), (ibd_chain st, sent))
      else apply_downloaded E full_ibd remote_height (processing_height st + 1) (downloaded st @ unsent st)
        (ibd_chain st, sent)) = whole"
    and "downloader_result st \<noteq> None \<Longrightarrow> unsent st = []"
  shows "pipeline_inv E full_ibd remote_height whole (applied_one remote_height st)"
proof (rule pipeline_invI [OF _ assms(2)])
  show "sent_ok E (applied_one remote_height st) sent"
    by (rule sent_ok_cong [OF assms(1)]) (simp_all add: applied_one_def Let_def in_hand_def thread_failed_def)
qed (use assms(3-) in \<open>auto simp: applied_one_def Let_def left_to_apply_def split: if_splits\<close>)

lemma left_to_apply_cong:
  assumes "downloaded st' @ unsent st' = downloaded st @ unsent st" and "hash_job st' = hash_job st"
    and "processing_height st' = processing_height st" and "ibd_chain st' = ibd_chain st"
  shows "left_to_apply E full_ibd remote_height st' sent = left_to_apply E full_ibd remote_height st sent"
  unfolding left_to_apply_def assms ..

lemma left_to_apply_sent: "set sent \<subseteq> set (snd (snd (left_to_apply E full_ibd remote_height st sent)))"
  by (cases "hash_job st") (simp_all add: left_to_apply_def apply_downloaded_sent)

lemma applies_inv:
  assumes inv: "pipeline_inv E full_ibd remote_height whole st"
    and st: "applier_result st = None" "hash_job st = None" "downloaded st = b # bs"
  shows "pipeline_inv E full_ibd remote_height whole (applier_turn E full_ibd remote_height st)"
proof -
  let ?h = "processing_height st" and ?fast = "speed_up full_ibd remote_height (processing_height st)"
  obtain sent where ok: "sent_ok E st sent" "set sent \<subseteq> set (snd (snd whole))"
    and left: "left_to_apply E full_ibd remote_height st sent = whole"
    and down: "downloader_result st \<noteq> None \<Longrightarrow> unsent st = []"
    by (rule pipeline_invE [OF inv]) (use st(1) that in simp)
  obtain r bc where add: "add_block E b ?fast ?fast (ibd_chain st) = (r, bc)" by force
  let ?st = "st\<lparr>downloaded := bs, ibd_chain := bc\<rparr>"
  have ok': "sent_ok E (?st\<lparr>applier_result := x\<rparr>) sent" "sent_ok E ?st sent" for x
    by (rule sent_ok_cong [OF ok(1)]; simp add: in_hand_def thread_failed_def)+
  show ?thesis
  proof (cases r)
    case (Ok u)
    show ?thesis
    proof (cases ?fast)
      case False
      then have "(if processing_height ?st + 1 = remote_height then (Ok (), (ibd_chain ?st, sent))
          else apply_downloaded E full_ibd remote_height (processing_height ?st + 1) (downloaded ?st @ unsent ?st)
            (ibd_chain ?st, sent)) = whole"
        using Ok add st(2,3) left
        by (cases "?h + 1 = remote_height") (simp_all add: left_to_apply_def Let_def bind_run_def)
      then have "pipeline_inv E full_ibd remote_height whole (applied_one remote_height ?st)"
        by (intro applied_one_inv [OF ok'(2) ok(2)]) (use st(1,2) down in \<open>assumption | simp\<close>)+
      with False Ok add st(3) show ?thesis by (simp add: applier_turn_def Let_def)
    next
      case True
      let ?st' = "?st\<lparr>hash_job := Some b\<rparr>"
      have left': "left_to_apply E full_ibd remote_height ?st' (sent @ [b]) = whole"
        using True Ok add st left
        by (cases "?h + 1 = remote_height") (simp_all add: left_to_apply_def Let_def bind_run_def)
      have "sent_ok E ?st' (sent @ [b])"
        using ok(1) st(2) by (auto simp: sent_ok_def in_hand_def thread_failed_def)
      moreover have "set (sent @ [b]) \<subseteq> set (snd (snd whole))"
        unfolding left' [symmetric] by (rule left_to_apply_sent)
      ultimately have "pipeline_inv E full_ibd remote_height whole ?st'"
        by (rule pipeline_invI) (use left' down st(1) in auto)
      with True Ok add st show ?thesis by (simp add: applier_turn_def Let_def)
    qed
  qed (use add st left ok(2) ok' in
      \<open>auto simp: applier_turn_def left_to_apply_def Let_def bind_run_def intro!: pipeline_invI\<close>)
qed

lemma pipeline_inv_step:
  assumes "pipeline_step E full_ibd remote_height st st'" and inv: "pipeline_inv E full_ibd remote_height whole st"
    and h: "hashers_inv st"
  shows "pipeline_inv E full_ibd remote_height whole st'"
proof -
  obtain sent where ok: "sent_ok E st sent" "set sent \<subseteq> set (snd (snd whole))"
    and left: "applier_result st = None \<Longrightarrow> left_to_apply E full_ibd remote_height st sent = whole"
    and ended: "\<And>r. applier_result st = Some r \<Longrightarrow> whole = (r, (ibd_chain st, sent)) \<or> r \<noteq> Ok () \<and> thread_failed st"
    and down: "applier_result st = None \<Longrightarrow> downloader_result st \<noteq> None \<Longrightarrow> unsent st = []"
    by (rule pipeline_invE [OF inv]) (rule that)
  note cong = sent_ok_cong [OF ok(1)]
  show ?thesis
    using assms(1)
  proof cases
    case (sends b bs)
    have "left_to_apply E full_ibd remote_height st' sent = left_to_apply E full_ibd remote_height st sent"
      by (rule left_to_apply_cong) (simp_all add: sends)
    with sends left show ?thesis
      by (intro pipeline_invI [OF cong ok(2)]) (simp_all add: in_hand_def thread_failed_def)
  next
    case send_fails
    show ?thesis
      unfolding send_fails(1)
      by (rule pipeline_invI [OF cong ok(2)])
        (use send_fails ended in \<open>auto simp: in_hand_def thread_failed_def\<close>)
  next
    case sent_all
    have "left_to_apply E full_ibd remote_height st' sent = left_to_apply E full_ibd remote_height st sent"
      by (rule left_to_apply_cong) (simp_all add: sent_all)
    with sent_all left ended show ?thesis
      by (intro pipeline_invI [OF cong ok(2)]) (simp_all add: in_hand_def thread_failed_def)
  next
    case applies
    then obtain b bs where "downloaded st = b # bs" by (cases "downloaded st") auto
    with applies applies_inv [OF inv] show ?thesis by simp
  next
    case applied_all
    then have "whole = (Ok (), (ibd_chain st, sent))" using left down by (simp add: left_to_apply_def)
    then show ?thesis
      unfolding applied_all(1)
      by (intro pipeline_invI [OF cong ok(2)]) (auto simp: in_hand_def thread_failed_def)
  next
    case (hands_over b)
    let ?st = "st\<lparr>hash_job := None, hash_queue := hash_queue st @ [b]\<rparr>"
    have "sent_ok E ?st sent"
      by (rule cong) (use hands_over in \<open>auto simp: in_hand_def thread_failed_def\<close>)
    then show ?thesis
      unfolding hands_over(1)
      by (rule applied_one_inv [OF _ ok(2)]) (use hands_over left down in \<open>auto simp: left_to_apply_def Let_def\<close>)
  next
    case (hand_over_fails b)
    obtain r where r: "Stopped r \<in> set (hashers st)"
      using h hand_over_fails(4) by (cases "hashers st") (auto simp: hashers_inv_def)
    have "Stopped (Ok ()) \<notin> set (hashers st)" using h hand_over_fails(2) by (auto simp: hashers_inv_def)
    with r have failed: "thread_failed st" by (auto simp: thread_failed_def)
    then have "sent_ok E st' sent"
      using ok(1) hand_over_fails by (auto simp: sent_ok_def in_hand_def thread_failed_def)
    then show ?thesis
      by (rule pipeline_invI [OF _ ok(2)])
        (use hand_over_fails failed in \<open>auto simp: thread_failed_def\<close>)
  next
    case (takes i b bs)
    note k = takes_in_hand [OF takes(2-4)]
    have "left_to_apply E full_ibd remote_height st' sent = left_to_apply E full_ibd remote_height st sent"
      by (rule left_to_apply_cong) (simp_all add: takes)
    with k takes(1) left ended down show ?thesis by (intro pipeline_invI [OF cong ok(2)]) simp_all
  next
    case (hashes i b)
    note k = hashes_sent_ok [OF ok(1) hashes(2,3)]
    have "thread_failed (st\<lparr>hashers := (hashers st)[i := hasher_turn E b]\<rparr>)" if "thread_failed st"
      by (rule thread_failed_update [OF that]) (simp add: hashes(3))
    moreover have "left_to_apply E full_ibd remote_height st' sent = left_to_apply E full_ibd remote_height st sent"
      by (rule left_to_apply_cong) (simp_all add: hashes)
    moreover note k [folded hashes(1)]
    ultimately show ?thesis
      by (intro pipeline_invI [OF _ ok(2)]) (use hashes(1) left ended down in auto)
  next
    case (stops i)
    note k = stops_in_hand [OF stops(2,3)]
    have "left_to_apply E full_ibd remote_height st' sent = left_to_apply E full_ibd remote_height st sent"
      by (rule left_to_apply_cong) (simp_all add: stops)
    with k stops(1) left ended down show ?thesis by (intro pipeline_invI [OF cong ok(2)]) simp_all
  qed
qed

text \<open>
  The downloader does not meet a closed channel when there are no more blocks than the applier waits for.
\<close>

definition count_inv :: "usize \<Rightarrow> Pipeline \<Rightarrow> bool" where
  "count_inv expected st \<longleftrightarrow>
     (applier_result st = None \<longrightarrow> processing_height st + (1 - open_task (hash_job st))
        + length (downloaded st) + length (unsent st) = expected)
     \<and> (applier_result st = Some (Ok ()) \<longrightarrow> unsent st = [])
     \<and> (\<forall>r. downloader_result st = Some r \<longrightarrow> r \<noteq> Ok () \<longrightarrow> unsent st \<noteq> [])
     \<and> (applier_result st = None \<longrightarrow> downloader_result st \<noteq> None \<longrightarrow> unsent st = [])"

lemma count_inv_applied:
  assumes "count_inv expected st" and "applier_result st = None" and "hash_job st \<noteq> None" and "expected \<le> remote_height"
    and "hash_job st' = None" and "processing_height st' = processing_height st" and "downloaded st' = downloaded st"
    and "unsent st' = unsent st" and "downloader_result st' = downloader_result st"
  shows "count_inv expected (applied_one remote_height st')"
  using assms by (auto simp: count_inv_def applied_one_def Let_def open_task_def split: if_splits)

lemma count_inv_step:
  assumes "pipeline_step E full_ibd remote_height st st'" and inv: "count_inv expected st" and "expected \<le> remote_height"
  shows "count_inv expected st'"
  using assms(1)
proof cases
  case applies
  then obtain b bs where d: "downloaded st = b # bs" by (cases "downloaded st") auto
  let ?fast = "speed_up full_ibd remote_height (processing_height st)"
  obtain r bc where add: "add_block E b ?fast ?fast (ibd_chain st) = (r, bc)" by force
  have "count_inv expected (st\<lparr>downloaded := bs, ibd_chain := x, hash_job := Some b\<rparr>)" for x
    using inv applies d by (auto simp: count_inv_def open_task_def)
  note held = this
  have "count_inv expected (applied_one remote_height (st\<lparr>downloaded := bs, ibd_chain := x\<rparr>))" for x
    by (rule count_inv_applied [OF held [of x]]) (use applies assms(3) in simp_all)
  moreover have "count_inv expected (st\<lparr>downloaded := bs, ibd_chain := x, applier_result := Some y\<rparr>)" if "y \<noteq> Ok ()" for x y
    using inv applies that by (auto simp: count_inv_def)
  ultimately show ?thesis
    using held applies d add by (cases r) (simp_all add: applier_turn_def Let_def)
next
  case (hands_over b)
  then show ?thesis
    unfolding hands_over(1) by (intro count_inv_applied [OF inv _ _ assms(3)]) simp_all
qed (use inv in \<open>auto simp: count_inv_def open_task_def\<close>)

lemma reachable_pipeline:
  assumes start: "pipeline_new bs bc local_height hashing_threads = Ok st0"
    and run: "(pipeline_step E full_ibd remote_height)\<^sup>*\<^sup>* st0 st"
  shows "hashers_inv st \<and> pipeline_inv E full_ibd remote_height
      (apply_downloaded E full_ibd remote_height local_height bs (bc, [])) st
    \<and> (local_height + length bs \<le> remote_height \<longrightarrow> count_inv (local_height + length bs) st)"
  using run
proof (induction rule: rtranclp_induct)
  case base
  have st0: "st0 = \<lparr>unsent = bs, downloader_result = None, downloaded = [], ibd_chain = bc,
      processing_height = local_height, hash_job = None, applier_result = None,
      hash_queue = [], hashers = replicate hashing_threads Idle\<rparr>" and "hashing_threads \<noteq> 0"
    using start by (auto simp: pipeline_new_def split: if_splits)
  have "pipeline_inv E full_ibd remote_height (apply_downloaded E full_ibd remote_height local_height bs (bc, [])) st0"
    by (rule pipeline_invI [of _ _ "[]"])
      (auto simp: st0 sent_ok_def in_hand_def thread_failed_def left_to_apply_def)
  then show ?case
    using \<open>hashing_threads \<noteq> 0\<close> by (auto simp: st0 hashers_inv_def count_inv_def open_task_def)
next
  case (step y z)
  then show ?case using hashers_inv_step pipeline_inv_step count_inv_step by blast
qed

lemma check_hashes_Ok_iff: "check_hashes E bs = Ok () \<longleftrightarrow> (\<forall>b \<in> set bs. validate_block_hash E b = Ok ())"
  by (induction bs) (auto simp: res_simps)

lemma process_downloaded_Ok:
  "process_downloaded E full_ibd remote_height local_height bs bc = (Ok (), bc') \<longleftrightarrow>
     (\<exists>sent. apply_downloaded E full_ibd remote_height local_height bs (bc, []) = (Ok (), (bc', sent))
       \<and> (\<forall>b \<in> set sent. validate_block_hash E b = Ok ()))"
  by (auto simp: process_downloaded_def res_simps check_hashes_Ok_iff split: prod.split)

lemma pipeline_ends_ok:
  assumes start: "pipeline_new bs bc local_height hashing_threads = Ok st0"
    and run: "(pipeline_step E full_ibd remote_height)\<^sup>*\<^sup>* st0 st" and "pipeline_result st = Some (Ok ())"
  shows "process_downloaded E full_ibd remote_height local_height bs bc = (Ok (), ibd_chain st)"
proof -
  let ?whole = "apply_downloaded E full_ibd remote_height local_height bs (bc, [])"
  have hs: "\<forall>x \<in> set (hashers st). x = Stopped (Ok ())" and ar: "applier_result st = Some (Ok ())"
    using assms(3) by (simp_all add: pipeline_result_def hashers_result_Ok)
  have inv: "hashers_inv st" "pipeline_inv E full_ibd remote_height ?whole st"
    using reachable_pipeline [OF start run] by blast+
  then have "Stopped (Ok ()) \<in> set (hashers st)" using hs by (cases "hashers st") (simp_all add: hashers_inv_def)
  then have "hash_queue st = []" "hash_job st = None" using inv(1) by (simp_all add: hashers_inv_def ar)
  moreover have "Hashing b \<notin> set (hashers st)" for b using hs by blast
  ultimately have "in_hand st = {}" by (simp add: in_hand_def)
  moreover have "\<not> thread_failed st" using hs unfolding thread_failed_def by blast
  moreover obtain sent where "sent_ok E st sent" "?whole = (Ok (), (ibd_chain st, sent)) \<or> Ok () \<noteq> Ok () \<and> thread_failed st"
    by (rule pipeline_invE [OF inv(2)]) (use ar that in blast)
  ultimately show ?thesis unfolding process_downloaded_Ok sent_ok_def by blast
qed

lemma pipeline_ends_as_sequential:
  assumes start: "pipeline_new bs bc local_height hashing_threads = Ok st0"
    and run: "(pipeline_step E full_ibd remote_height)\<^sup>*\<^sup>* st0 st" and ended: "pipeline_result st = Some r"
    and few: "local_height + length bs \<le> remote_height"
    and ok: "process_downloaded E full_ibd remote_height local_height bs bc = (Ok (), bc')"
  shows "r = Ok ()"
proof -
  let ?whole = "apply_downloaded E full_ibd remote_height local_height bs (bc, [])"
  obtain sent' where whole: "?whole = (Ok (), (bc', sent'))" and valid: "\<forall>b \<in> set sent'. validate_block_hash E b = Ok ()"
    using ok by (auto simp: process_downloaded_Ok)
  have inv: "pipeline_inv E full_ibd remote_height ?whole st" "count_inv (local_height + length bs) st"
    using reachable_pipeline [OF start run] few by blast+
  obtain sent where sent: "sent_ok E st sent" "set sent \<subseteq> set (snd (snd ?whole))"
    and ar: "\<And>r. applier_result st = Some r \<Longrightarrow> ?whole = (r, (ibd_chain st, sent)) \<or> r \<noteq> Ok () \<and> thread_failed st"
    by (rule pipeline_invE [OF inv(1)]) (rule that)
  have failed: "\<not> thread_failed st" using sent valid whole by (auto simp: sent_ok_def)
  obtain h where h: "hashers_result (hashers st) = Some h"
    using ended by (cases "hashers_result (hashers st)") (simp_all add: pipeline_result_def awaits_def)
  with failed hashers_result_bad [OF h] have hs: "hashers_result (hashers st) = Some (Ok ())"
    unfolding thread_failed_def by auto
  obtain a where a: "applier_result st = Some a"
    using ended hs by (cases "applier_result st") (simp_all add: pipeline_result_def awaits_def)
  have "a = Ok ()" using ar [OF a] failed whole by auto
  with a inv(2) have "d = Ok ()" if "downloader_result st = Some d" for d using that by (auto simp: count_inv_def)
  with hs a \<open>a = Ok ()\<close> ended show ?thesis
    by (cases "downloader_result st") (simp_all add: pipeline_result_def awaits_def)
qed

lemma pipeline_runs_end: "\<nexists>f. \<forall>i. pipeline_step E full_ibd remote_height (f i) (f (Suc i))"
proof
  assume "\<exists>f. \<forall>i. pipeline_step E full_ibd remote_height (f i) (f (Suc i))"
  then obtain f where f: "\<And>i. pipeline_work (f (Suc i)) < pipeline_work (f i)"
    using pipeline_step_work by blast
  have "pipeline_work (f i) + i \<le> pipeline_work (f 0)" for i
  proof (induction i)
    case (Suc i)
    with f [of i] show ?case by simp
  qed simp
  from this [of "Suc (pipeline_work (f 0))"] show False by simp
qed

lemma pipeline_completes:
  assumes "hashers_inv st"
  shows "\<exists>st' r. (pipeline_step E full_ibd remote_height)\<^sup>*\<^sup>* st st' \<and> pipeline_result st' = Some r"
  using assms
proof (induction "pipeline_work st" arbitrary: st rule: less_induct)
  case less
  show ?case
  proof (cases "pipeline_result st")
    case None
    then obtain st1 where step: "pipeline_step E full_ibd remote_height st st1"
      using pipeline_progress [OF less.prems] by blast
    then obtain st' r where "(pipeline_step E full_ibd remote_height)\<^sup>*\<^sup>* st1 st'" "pipeline_result st' = Some r"
      using less.hyps pipeline_step_work hashers_inv_step less.prems by blast
    with step show ?thesis by (blast intro: converse_rtranclp_into_rtranclp)
  qed blast
qed

end
