(* ===== verification/Sync_Properties.thy ===== *)
theory Sync_Properties
  imports Demo_Api Ibd_Pipeline
begin

text \<open>
  The properties of catching up with other nodes, of building payments and blocks, and of clients that
  do so over a connection.
\<close>

section \<open>Catching up\<close>

lemma demo_blocks_take: "m \<le> n \<Longrightarrow> take m (demo_blocks n) = demo_blocks m"
proof (induction n)
  case (Suc n)
  then show ?case
    by (cases "m = Suc n") (simp_all add: demo_grow_def le_Suc_eq take_append)
qed simp

text \<open>
  C13. A full node that synchronises with another one whose chain parted from its own fewer than 30 blocks
  ago, at a common block above the first, ends with that node's chain, whatever was on its own branch: the
  branch is taken back, the other node's blocks are added and announced, and the pool is left alone.
\<close>

theorem synchronisation_catches_up:
  assumes "and peer_flags FULL_NODE_CAPABILITY = FULL_NODE_CAPABILITY" and "node_holds server P"
    and "chain_inv (overflow_checks E) t0 chain (blockchain n)"
    and "0 < f" and "f < length chain" and "length chain < f + MAX_REORG" and "f < length P"
    and "take (Suc f) chain = take (Suc f) P"
    and "\<And>h. f < h \<Longrightarrow> h < length chain \<Longrightarrow> entry_hash (chain ! h) \<notin> entry_hash ` set P"
    and "acceptable_from E t0 P f" and "\<And>d. \<exists>bs. encode_data E d = Inr bs"
  shows "\<exists>n'. sync_to_peer E peer_flags (node_replies E' asker server) (length P) n = (Ok (), n')
    \<and> chain_inv (overflow_checks E) t0 P (blockchain n')
    \<and> chain_events (node_state n') = chain_events (node_state n) @ map (BlockEvent \<circ> fst) (drop f P)
    \<and> mempool (node_state n') = mempool (node_state n)"
  using assms by (rule full_node.sync_with_server)

text \<open>Two branches over two common blocks.\<close>

definition demo_branch :: "log_entry list" where
  "demo_branch = demo_grow [] 200 (demo_blocks 2)"

theorem synchronisation_catches_up_witness:
  "\<exists>s bc. node_holds s (demo_blocks 5) \<and> chain_inv True 0 demo_branch bc \<and> (\<exists>n'. sync_to_peer demo FULL_NODE_CAPABILITY
        (node_replies demo demo_handle s) 5
      \<lparr>blockchain = bc, node_state = node_state_new_empty None, forwarded = []\<rparr> = (Ok (), n')
    \<and> chain_inv True 0 (demo_blocks 5) (blockchain n'))"
proof -
  let ?P = "demo_blocks 5"
  have "demo_good (word_of_nat (35 * 2)) (demo_blocks 2)" by (rule demo_blocks_good) simp
  then have good: "demo_good 70 (demo_blocks 2)" by simp
  have "demo_good 200 demo_branch"
    unfolding demo_branch_def using good by (rule demo_good_grow) (simp_all add: econ word_le_nat_alt)
  then obtain bc where bc: "chain_inv True 0 demo_branch bc" by (auto simp: demo_good_def)
  let ?n = "\<lparr>blockchain = bc, node_state = node_state_new_empty None, forwarded = []\<rparr>"
  have len: "length demo_branch = 3" by (simp add: demo_branch_def demo_grow_def)
  have common: "take 2 demo_branch = take 2 ?P"
    using demo_blocks_take [of 2 5] by (simp add: demo_branch_def demo_grow_def)
  have "entry_hash (demo_branch ! 2) = demo_stamp 200"
    by (simp add: demo_branch_def demo_grow_def nth_append entry_hash_demo)
  moreover have "demo_good (word_of_nat (35 * 5)) ?P" by (rule demo_blocks_good) simp
  then have "\<exists>s \<le> 175. entry_hash e = demo_stamp s" if "e \<in> set ?P" for e
    using that by (simp add: demo_good_def)
  ultimately have "entry_hash (demo_branch ! 2) \<notin> entry_hash ` set ?P"
    by (fastforce simp: demo_stamp_inject word_le_nat_alt)
  moreover have "h = 2" if "1 < h" "h < 3" for h :: nat using that by simp
  ultimately have above: "entry_hash (demo_branch ! h) \<notin> entry_hash ` set ?P" if "1 < h" "h < 3" for h
    using that by metis
  obtain bc5 where "chain_inv True 0 ?P bc5" using demo_blocks_facts(4) [of 5] by auto
  then have s: "node_holds (serving bc5) ?P" by (rule serving_holds)
  have "\<exists>n'. sync_to_peer demo FULL_NODE_CAPABILITY (node_replies demo demo_handle (serving bc5)) (length ?P) ?n = (Ok (), n')
    \<and> chain_inv (overflow_checks demo) 0 ?P (blockchain n')
    \<and> chain_events (node_state n') = chain_events (node_state ?n) @ map (BlockEvent \<circ> fst) (drop 1 ?P)
    \<and> mempool (node_state n') = mempool (node_state ?n)"
  proof (rule synchronisation_catches_up)
    show "chain_inv (overflow_checks demo) 0 demo_branch (blockchain ?n)" using bc by simp
    show "take (Suc 1) demo_branch = take (Suc 1) ?P" using common by (simp add: numeral_2_eq_2)
  qed (use len above demo_blocks_facts [of 5] s in \<open>simp_all add: MAX_REORG_def\<close>)
  with bc s show ?thesis by auto
qed

text \<open>
  C14. The initial block download from full nodes that hold one longer chain ends, as long as in every
  round some peer is asked for something, after at most as many rounds as there are blocks missing, and
  leaves a node whose chain is a prefix of theirs with their whole chain, whether the proof of work is
  checked first or by other threads.
\<close>

theorem initial_download_catches_up:
  assumes "chain_inv (overflow_checks E) t0 chain bc" and "take (length chain) P = chain"
    and "length chain < length P" and "length P - length chain \<le> HASHES_FETCH_MAX_COUNT"
    and "acceptable_from E t0 P (length chain)"
    and "p \<in> set peers" and "and (flags p) FULL_NODE_CAPABILITY = FULL_NODE_CAPABILITY"
    and "node_holds first P" and "\<And>i. node_holds (server i) P"
    and "length P - length chain \<le> length rounds"
    and "\<forall>cs \<in> set rounds. \<exists>c \<in> set cs. 0 < peer_share (length peers) c"
  shows "\<exists>bc'. ibd_blockchain E full_ibd peers (node_replies E' asker first 0)
      (\<lambda>k i h. node_replies E' asker (server i) k (GetBlock h)) rounds bc = Some (Ok (), bc')
    \<and> chain_inv (overflow_checks E) t0 P bc'"
  using assms by (rule full_node.ibd_with_servers)

text \<open>Two peers with equal shares, and enough blocks that the first are added without their hashes checked.\<close>

theorem initial_download_catches_up_witness:
  "\<exists>s bc'. ibd_blockchain demo False [demo_handle, demo_handle] (node_replies demo demo_handle s 0)
      (\<lambda>k i h. node_replies demo demo_handle s k (GetBlock h)) (replicate 510 [1, 1]) (fresh_chain []) = Some (Ok (), bc')
    \<and> chain_inv True 0 (demo_blocks 510) bc'"
proof -
  let ?P = "demo_blocks 510"
  obtain bc where "chain_inv True 0 ?P bc" using demo_blocks_facts(4) [of 510] by auto
  then have "node_holds (serving bc) ?P" by (rule serving_holds)
  moreover have "0 < peer_share 2 1"
    by (simp add: peer_share_def DOWNLOAD_BATCH_def fmul_def f64_of_nat_def fl_numeral f64_as_nat_def)
  then have "0 < peer_share (Suc (Suc 0)) 1" by (simp only: numeral_2_eq_2)
  moreover have "chain_inv (overflow_checks demo) 0 [] (fresh_chain [])" by (rule fresh_chain_inv)
  ultimately have "\<exists>bc'. ibd_blockchain demo False [demo_handle, demo_handle] (node_replies demo demo_handle (serving bc) 0)
      (\<lambda>k i h. node_replies demo demo_handle (serving bc) k (GetBlock h)) (replicate 510 [1, 1]) (fresh_chain []) = Some (Ok (), bc')
    \<and> chain_inv (overflow_checks demo) 0 ?P bc'"
    using demo_blocks_facts [of 510]
    by (intro initial_download_catches_up [where p = demo_handle and chain = "[]"])
      (simp_all add: demo_handle_def HASHES_FETCH_MAX_COUNT_def)
  then show ?thesis by auto
qed

text \<open>
  C15. The tasks of the first download, which fetch, apply and hash at the same time, do what one after the
  other would: no schedule goes on for ever or gets stuck; a download that returns without an error has added
  the blocks as the sequential one does, and every block whose proof of work was skipped has been hashed; and
  when the sequential one succeeds (with no more blocks than were asked for), every schedule does.
\<close>

theorem parallel_download_is_sequential:
  assumes "pipeline_new bs bc local_height hashing_threads = Ok st0"
    and "(pipeline_step E full_ibd remote_height)\<^sup>*\<^sup>* st0 st"
  shows "(\<nexists>f. \<forall>i. pipeline_step E full_ibd remote_height (f i) (f (Suc i)))
    \<and> (pipeline_result st = None \<longrightarrow> (\<exists>st'. pipeline_step E full_ibd remote_height st st'))
    \<and> (pipeline_result st = Some (Ok ()) \<longrightarrow>
         process_downloaded E full_ibd remote_height local_height bs bc = (Ok (), ibd_chain st))
    \<and> (\<forall>r. pipeline_result st = Some r \<longrightarrow> local_height + length bs \<le> remote_height \<longrightarrow>
         fst (process_downloaded E full_ibd remote_height local_height bs bc) = Ok () \<longrightarrow> r = Ok ())"
proof (intro conjI allI impI)
  show "\<nexists>f. \<forall>i. pipeline_step E full_ibd remote_height (f i) (f (Suc i))" by (rule pipeline_runs_end)
  show "\<exists>st'. pipeline_step E full_ibd remote_height st st'" if "pipeline_result st = None"
    using pipeline_progress [OF _ that] reachable_pipeline [OF assms] by blast
  show "process_downloaded E full_ibd remote_height local_height bs bc = (Ok (), ibd_chain st)"
    if "pipeline_result st = Some (Ok ())"
    using pipeline_ends_ok [OF assms that] .
  fix r assume r: "pipeline_result st = Some r" "local_height + length bs \<le> remote_height"
    and "fst (process_downloaded E full_ibd remote_height local_height bs bc) = Ok ()"
  then show "r = Ok ()" using pipeline_ends_as_sequential [OF assms r] by (metis prod.collapse)
qed

text \<open>Ten blocks skip the check of their proof of work, and four threads make up for it.\<close>

theorem parallel_download_is_sequential_witness:
  "\<exists>st0 st. pipeline_new (map fst (demo_blocks 510)) (fresh_chain []) 0 4 = Ok st0
    \<and> (pipeline_step demo False 510)\<^sup>*\<^sup>* st0 st \<and> pipeline_result st = Some (Ok ())
    \<and> chain_inv True 0 (demo_blocks 510) (ibd_chain st)"
proof -
  let ?P = "demo_blocks 510" and ?bc = "fresh_chain []"
  obtain st0 where st0: "pipeline_new (map fst ?P) ?bc 0 4 = Ok st0" by (simp add: pipeline_new_def)
  have "hashers_inv st0" using reachable_pipeline [OF st0 rtranclp.rtrancl_refl] by blast
  from pipeline_completes [OF this] obtain st r where st: "(pipeline_step demo False 510)\<^sup>*\<^sup>* st0 st"
    "pipeline_result st = Some r" by blast
  have "chain_inv (overflow_checks demo) 0 (take 0 ?P) ?bc" using fresh_chain_inv by simp
  moreover have "acceptable_from demo 0 ?P 0" "length ?P = 510" using demo_blocks_facts(1) [of 510] by simp_all
  ultimately obtain bc sent where
    "apply_downloaded demo False 510 0 (map fst ?P) (?bc, []) = (Ok (), (bc, sent))"
    "chain_inv True 0 ?P bc" "\<forall>b \<in> set sent. validate_block_hash demo b = Ok ()"
    using apply_downloaded_Ok [of demo 0 ?P 0 0 ?bc "[]" False] by auto
  then have seq: "process_downloaded demo False 510 0 (map fst ?P) ?bc = (Ok (), bc)" "chain_inv True 0 ?P bc"
    by (auto simp: process_downloaded_Ok)
  note all = parallel_download_is_sequential [OF st0 st(1)]
  have "r = Ok ()" using all st(2) seq(1) demo_blocks_facts [of 510] by auto
  with all st(2) seq have "ibd_chain st = bc" by auto
  with st0 st \<open>r = Ok ()\<close> seq(2) show ?thesis by blast
qed

section \<open>Building\<close>

text \<open>
  C18. A payment that is built from a chain whose supply fits 64 bits, by the node itself or by a client
  over the wire, for payments that are not empty and whose sum fits too, is a valid transfer on that chain
  once it is mined, whatever inputs were to be ignored: it spends only what the sender owns, nothing twice,
  and gives change.
\<close>

theorem built_payment_is_valid:
  assumes p: "provider = chain_provider chk (blockchain n) \<and> provides_outputs (blockchain n)
      \<or> provider = client_provider pages E' (node_server E' clock events) n \<and> client_good pages E' clock n"
    and built: "build_transaction E now provider sender receivers ignore_inputs = Ok tx"
    and "(\<Sum>r \<leftarrow> receivers. unat (snd r)) < 2 ^ 64" and "\<forall>r \<in> set receivers. snd r \<noteq> 0"
    and "receivers \<noteq> []" and "signs_verify E sender"
    and "tx_compute_pow E (unat difficulty) nonces tx = Some (Ok tx')"
  shows "validate_transaction E (utxos (blockchain n)) tx' (unat difficulty) False = Ok ()"
  unfolding validate_transaction_Ok_iff using p
proof
  assume "provider = chain_provider chk (blockchain n) \<and> provides_outputs (blockchain n)"
  with built show "valid_transfer E (ledger_of (utxos (blockchain n))) (unat difficulty) False tx'"
    using chain_outputs.built_transfer_valid [OF _ _ assms(3-)] by blast
next
  assume "provider = client_provider pages E' (node_server E' clock events) n \<and> client_good pages E' clock n"
  with built show "valid_transfer E (ledger_of (utxos (blockchain n))) (unat difficulty) False tx'"
    using client_outputs.built_transfer_valid [OF _ _ assms(3-)] by blast
qed

text \<open>Over the wire, from a node with the one-block chain.\<close>

theorem built_payment_is_valid_witness:
  "build_transaction demo 1200 (client_provider 1 (demo_api demo_answers)
      (node_server (demo_api demo_answers) (\<lambda>_. (0, 0, 0)) (\<lambda>_. [])) demo_api_node)
      (Private 7) [(Public 9, 5000000000)] [] = Ok demo_payment
    \<and> tx_compute_pow demo (unat (- 1 :: buf32)) [5] demo_payment = Some (Ok demo_paid)
    \<and> validate_transaction demo (utxos demo_state) demo_paid (unat (- 1 :: buf32)) False = Ok ()"
proof (intro conjI demo_mined)
  have "total_supply (utxos demo_state) \<le> (\<Sum>h<length demo_chain. reward_spec h)"
    using demo_state(2) by (rule chain_supply_bound) (simp add: demo_chain_def)
  then have "total_supply (utxos demo_state) < 2 ^ 64" by (simp add: demo_chain_def reward_spec_def)
  moreover have "length xs < 200 * 1" if "get_available_transaction_outputs demo_state a = Ok xs" for a xs
    using that demo_available_cases [of a] by auto
  ultimately have good: "client_good 1 (demo_api demo_answers) (\<lambda>_. (0, 0, 0)) demo_api_node"
    using demo_api_codec demo_state_inv(1) by (simp add: client_good_def provides_outputs_def demo_api_node_def)
  let ?p = "client_provider 1 (demo_api demo_answers) (node_server (demo_api demo_answers) (\<lambda>_. (0, 0, 0)) (\<lambda>_. [])) demo_api_node"
  show built: "build_transaction demo 1200 ?p (Private 7) [(Public 9, 5000000000)] [] = Ok demo_payment"
    by (rule trans [OF build_transaction_outputs [OF ext, OF client_outputs_of_chain [OF good, of _ _ True]]])
      (simp add: demo_api_node_def demo_built)
  have "validate_transaction demo (utxos (blockchain demo_api_node)) demo_paid (unat (- 1 :: buf32)) False = Ok ()"
    by (rule built_payment_is_valid [OF disjI2 [OF conjI [OF refl good]] built _ _ _ demo_sender(2) demo_mined])
      simp_all
  then show "validate_transaction demo (utxos demo_state) demo_paid (unat (- 1 :: buf32)) False = Ok ()"
    by (simp add: demo_api_node_def)
qed

text \<open>
  C17. A block that is built from a chain and valid transfers that spend nothing twice passes the checks
  of that chain once it is mined: its reward, its filter, its root, its targets and its link are right.
\<close>

theorem built_block_is_valid:
  assumes "store_represents (block_store bc) chain" and "length chain < 64000000"
    and "build_block E now now' nonces (chain_provider (overflow_checks E) bc) txs miner = Some (Ok b)"
    and "\<forall>tx \<in> set txs. valid_transfer E (ledger_of (utxos bc))
        (unat (chain_transaction_difficulty bc)) False tx
      \<and> validate_transaction_timestamp_in_block (overflow_checks E) tx b = Ok ()"
    and "distinct (map input_key (all_inputs txs))"
    and "block_compute_pow E (block_pow_target b) nonces' b = Some (Ok b')"
  shows "check_block E b' False False bc = Ok ()"
  using assms by (rule built_block_valid)

lemma full_target: "calculate_block_difficulty (- 1) n = - 1"
  by (rule order.antisym [OF buf32_le_max block_difficulty_ge])

lemma demo_builds_block:
  "\<exists>b b'. build_block demo 1300 1400 [5] (chain_provider True demo_state) [demo_paid] demo_miner = Some (Ok b)
    \<and> timestamp b = 1400 \<and> block_compute_pow demo (block_pow_target b) [0] b = Some (Ok b')"
proof -
  have height: "get_height (block_store demo_state) = 1"
    using demo_state_inv(3) by (simp add: store_represents_def get_height_def demo_chain_def)
  have reward: "get_block_reward True 1 = (Ok 10000000000 :: (u64, 'e) result)"
    by (subst get_block_reward_early) (simp_all add: demo_block_reward)
  define r where "r = \<lparr>inputs = [], outputs = reward_outputs 10000000000 demo_miner, transaction_id = None,
      tx_nonce = 0, tx_timestamp = 1300\<rparr>"
  define m where "m = r\<lparr>tx_nonce := 5, transaction_id := Some (demo_stamp 1300)\<rparr>"
  have new: "new_transaction_now demo 1300 [] outs [] = Ok \<lparr>inputs = [], outputs = outs, transaction_id = None,
      tx_nonce = 0, tx_timestamp = 1300\<rparr>" for outs
    by (simp add: new_transaction_now_def get_input_signing_buf_def)
  have sub: "sub_u True (10000000000 :: u64) 200000000 = (Ok 9800000000 :: (u64, 'e) result)"
    by (simp add: sub_u_def word_less_nat_alt)
  have prov: "p_height (chain_provider True demo_state) = Ok 1"
     "p_transaction_difficulty (chain_provider True demo_state) = Ok (chain_transaction_difficulty demo_state)"
    by (simp_all add: chain_provider_def height)
  have rew: "build_reward demo 1300 (chain_provider True demo_state) [demo_paid] demo_miner =
      Ok (r, chain_transaction_difficulty demo_state)"
    unfolding build_reward_def prov map_err.simps bind_res.simps demo_simps reward dev_fee_initial sub new r_def
    by (simp add: MAX_TRANSACTIONS_PER_BLOCK_def)
  have mined: "tx_compute_pow demo (pow_target (- 1) None) [5] r = Some (Ok m)"
    by (simp add: pow_target_def biguint_of_unat get_tx_hashing_buf_def r_def m_def Let_def demo_stamp_def below_all_ones)
  have ids: "completed_ids [demo_paid, m] = Ok [demo_stamp 1200, demo_stamp 1300]"
    unfolding completed_ids_Ok_iff
    by (simp add: tx_check_completeness_Ok_iff demo_paid_def demo_payment_def m_def r_def)
  obtain filt where filt: "create_filter demo [demo_paid, m] = Ok filt"
    using create_filter_spec [OF demo_ln_signs] by blast
  have prev: "p_block_hash_by_height (chain_provider True demo_state) 0 = Ok (Some (entry_hash (demo_chain ! 0)))"
    "p_block_difficulty (chain_provider True demo_state) = Ok (chain_block_difficulty demo_state)"
    by (simp_all add: chain_provider_def get_block_hash_by_height_represents [OF demo_state_inv(3)] demo_chain_def)
  define b where "b = new_block_now 1400 [demo_paid, m] (chain_block_difficulty demo_state)
    (chain_transaction_difficulty demo_state) (entry_hash (demo_chain ! 0))
    (root_hash (merkle_build demo [demo_stamp 1200, demo_stamp 1300])) filt"
  have "finish_block demo 1400 (chain_provider True demo_state) [demo_paid, m] = Ok b"
    by (simp add: finish_block_def ids filt prov prev b_def del: completed_ids.simps)
  then have "build_block demo 1300 1400 [5] (chain_provider True demo_state) [demo_paid] demo_miner = Some (Ok b)"
    by (simp add: build_block_def rew demo_state_targets mined del: tx_compute_pow.simps)
  moreover have "\<exists>buf. get_hashing_buf demo (b\<lparr>nonce := 0\<rparr>) = Ok buf"
    by (simp add: get_hashing_buf_def b_def new_block_now_def encoded_def)
  moreover have "block_pow_target b = unat (- 1 :: buf32)"
    by (simp add: block_pow_target_def b_def new_block_now_def demo_state_targets biguint_of_unat full_target)
  ultimately show ?thesis
    by (auto simp: b_def new_block_now_def Let_def below_all_ones biguint_of_unat)
qed

theorem built_block_is_valid_witness:
  "\<exists>b b'. build_block demo 1300 1400 [5] (chain_provider True demo_state) [demo_paid] demo_miner = Some (Ok b)
    \<and> block_compute_pow demo (block_pow_target b) [0] b = Some (Ok b')
    \<and> check_block demo b' False False demo_state = Ok ()"
proof -
  obtain b b' where b: "build_block demo 1300 1400 [5] (chain_provider True demo_state) [demo_paid] demo_miner = Some (Ok b)"
    "timestamp b = 1400" "block_compute_pow demo (block_pow_target b) [0] b = Some (Ok b')"
    using demo_builds_block by blast
  have "validate_transaction_timestamp_in_block True demo_paid b = Ok ()"
    by (simp add: validate_transaction_timestamp_in_block_def b(2) demo_paid_def demo_payment_def econ
        add_u_def checked_add_def word_less_nat_alt)
  then have "check_block demo b' False False demo_state = Ok ()"
    using b demo_valid
    by (intro built_block_is_valid [OF demo_state_inv(3), of demo 1300 1400 "[5]" "[demo_paid]" demo_miner b "[0]" b'])
      (simp_all add: demo_chain_def demo_state_targets all_inputs_def demo_paid_def demo_payment_def
        del: block_compute_pow.simps)
  with b show ?thesis by blast
qed

end
