(* ===== verification/Client_Properties.thy ===== *)
theory Client_Properties
  imports Demo_Api
begin

text \<open>
  The properties of clients of a full node: over the wire they see the node's chain as the node does.
\<close>

text \<open>
  C24. A client of a full node is as good a provider of chain data as the node's own chain: every question
  has the answer the chain gives, the listings that come in pages included, and so it builds the same
  payments.  (Enough pages: the client is given so many that the last one is not full.)
\<close>

theorem client_sees_the_chain:
  assumes "api_codec E clock n" and "chain_inv (overflow_checks E) t0 chain (blockchain n)"
    and "length chain < 64000000"
    and "\<And>a xs. get_available_transaction_outputs (blockchain n) a = Ok xs \<Longrightarrow> length xs < 200 * pages"
    and "200 * (pages + 1) < 2 ^ 32"
  shows "same_provider (client_provider pages E (node_server E clock events) n)
      (chain_provider (overflow_checks E) (blockchain n))
    \<and> build_transaction E now (client_provider pages E (node_server E clock events) n) sender receivers ignored =
      build_transaction E now (chain_provider (overflow_checks E) (blockchain n)) sender receivers ignored"
proof -
  have "same_provider (client_provider pages E (node_server E clock events) n)
      (chain_provider (overflow_checks E) (blockchain n))"
    using assms by (rule client_same_provider)
  then show ?thesis using build_transaction_same by blast
qed

theorem client_sees_the_chain_witness:
  "p_block_by_hash (client_provider 1 (demo_api demo_answers)
      (node_server (demo_api demo_answers) (\<lambda>_. (0, 0, 0)) (\<lambda>_. [])) demo_api_node) (demo_stamp 1000) = Ok (Some demo_block)"
proof -
  have "chain_inv (overflow_checks (demo_api demo_answers)) 0 demo_chain (blockchain demo_api_node)"
    using demo_state(2) by (simp add: demo_api_node_def)
  moreover have "length xs < 200 * 1"
    if "get_available_transaction_outputs (blockchain demo_api_node) a = Ok xs" for a xs
    using that demo_available_cases [of a] by (auto simp: demo_api_node_def)
  ultimately have "same_provider (client_provider 1 (demo_api demo_answers)
      (node_server (demo_api demo_answers) (\<lambda>_. (0, 0, 0)) (\<lambda>_. [])) demo_api_node)
      (chain_provider True (blockchain demo_api_node))"
    using client_sees_the_chain [OF demo_api_codec, of 0 demo_chain 1] by (simp add: demo_chain_def)
  then show ?thesis
    by (simp add: same_provider_def chain_provider_def demo_api_node_def demo_chain_def entry_hash_def
        get_block_by_hash_represents [OF demo_state_inv(3)] demo_block_simps)
qed

text \<open>
  C32. The listing of the transactions of an address, page by page, is all of them from the newest block
  to the oldest, each once, whatever the sizes of the blocks and the pages.
\<close>

theorem client_lists_all_transactions:
  assumes "api_codec E clock n" and "store_represents (block_store (blockchain n)) chain"
    and "\<forall>e \<in> set chain. \<forall>tx \<in> set (transactions (fst e)). transaction_id tx \<noteq> None"
    and "length (involving a chain) < 200 * pages" and "200 * (pages + 1) < 2 ^ 32"
  shows "get_transactions_of_address pages E (node_server E clock events) a None n =
    Some (Ok (map (\<lambda>tx. the (transaction_id tx)) (involving a chain)), n)"
  using assms by (rule client_transactions)

theorem client_lists_all_transactions_witness:
  "get_transactions_of_address 1 (demo_api demo_answers)
     (node_server (demo_api demo_answers) (\<lambda>_. (0, 0, 0)) (\<lambda>_. [])) demo_miner None demo_api_node =
   Some (Ok [reward_id], demo_api_node)"
proof -
  have "store_represents (block_store (blockchain demo_api_node)) demo_chain"
    by (simp add: demo_api_node_def demo_state_inv)
  moreover have "involving demo_miner demo_chain = [demo_reward]"
    by (simp add: involving_def demo_chain_def demo_block_simps contains_address_iff demo_reward_def)
  ultimately show ?thesis
    using client_lists_all_transactions [OF demo_api_codec, of demo_chain demo_miner 1]
    by (simp add: demo_chain_def demo_block_simps reward_id)
qed

end
