(* ===== verification/Light_Steps.thy ===== *)
theory Light_Steps
  imports Light_Tracking
begin

text \<open>
  Everything that can happen to a light node, as a step relation, and what no sequence of steps changes:
  the list of block hashes stays empty.  The last section is about the task a ping starts.
\<close>

section \<open>Operations that keep the list of hashes\<close>

lemma bind_light_keeps:
  assumes "bind_light m f = Some (r, t)" and "\<And>x u. m = Some (x, u) \<Longrightarrow> g u = g s"
    and "\<And>x u. m = Some (Ok x, u) \<Longrightarrow> f x u = Some (r, t) \<Longrightarrow> g t = g u"
  shows "g t = g s"
  using assms by (auto simp: bind_light_def split: option.splits prod.splits result.splits)

lemma map_light_err_Some: "map_light_err f m = Some (r, t) \<longleftrightarrow> (\<exists>x. m = Some (x, t) \<and> r = map_err f x)"
  by (cases m) (auto simp: map_light_err_def)

lemma light_accept_block_hashes:
  assumes "light_accept_block E held b is_historical s = Some (r, t)"
  shows "stored_block_hashes t = stored_block_hashes s"
proof -
  have apply_keeps: "stored_block_hashes t = stored_block_hashes u"
    if "apply_light_block E b is_historical u = (r, t)" for r u t
    using apply_light_block_hashes [of E b is_historical u] that by simp
  have set_keeps: "stored_block_hashes (light_set_last_seen_block h u) = stored_block_hashes u" for h u
    by (simp add: light_set_last_seen_block_def)
  show ?thesis
    using assms unfolding light_accept_block_def
    by (rule bind_light_keeps)
      (auto simp: with_lock_def set_keeps dest: apply_keeps split: if_splits)
qed

lemma light_accept_transaction_hashes:
  "light_accept_transaction E text now now' now'' tx trusted s = (r, t)
     \<Longrightarrow> stored_block_hashes t = stored_block_hashes s"
  by (auto simp: light_accept_transaction_def light_add_last_seen_transaction_def bind_run_def Let_def
      split: prod.splits result.splits if_splits)

lemma light_pop_block_hashes:
  "light_pop_block chk held s = Some (r, t) \<Longrightarrow> stored_block_hashes t = stored_block_hashes s"
  by (auto simp: light_pop_block_def with_lock_def bind_run_def decrement_height_def res_simps Let_def
      set_height_def split: prod.splits result.splits if_splits)

lemma pop_times_hashes:
  "pop_times n chk held s = Some (r, t) \<Longrightarrow> stored_block_hashes t = stored_block_hashes s"
proof (induction n arbitrary: s)
  case (Suc n)
  from Suc.prems show ?case
    unfolding pop_times.simps
    by (rule bind_light_keeps) (auto simp: map_light_err_Some dest: light_pop_block_hashes Suc.IH)
qed simp

lemma sync_metadatas_hashes:
  "sync_metadatas E held net k ms s = Some (r, t) \<Longrightarrow> stored_block_hashes t = stored_block_hashes s"
proof (induction ms arbitrary: k s)
  case (Cons m ms)
  show ?case
    using Cons.prems
    by (auto simp: bind_light_def map_light_err_Some dest!: light_accept_block_hashes Cons.IH
        split: option.splits prod.splits result.splits if_splits)
qed simp

lemma sync_from_hashes:
  "sync_from E held net probe s = Some (r, t) \<Longrightarrow> stored_block_hashes t = stored_block_hashes s"
  by (auto simp: sync_from_def Let_def bind_light_def dest: sync_metadatas_hashes
      split: result.splits Command.splits if_splits)

lemma start_sync_hashes:
  assumes "start_sync E held net probe s = Some (r, t)"
  shows "stored_block_hashes t = stored_block_hashes s"
  using assms unfolding start_sync_def Let_def
  by (rule bind_light_keeps)
    (auto dest: pop_times_hashes sync_from_hashes split: option.splits if_splits)

lemma run_light_sync_hashes:
  assumes "run_light_sync E net probe s = Some (r, t)"
  shows "stored_block_hashes t = stored_block_hashes s"
proof -
  obtain x n where "start_sync E True net probe (s\<lparr>ln_mempool := mempool_clear (ln_mempool s)\<rparr>) = Some (x, n)"
    and t: "t = n \<or> t = n\<lparr>ln_is_syncing := False\<rparr>"
    using assms by (cases "start_sync E True net probe (s\<lparr>ln_mempool := mempool_clear (ln_mempool s)\<rparr>)")
      (auto simp: run_light_sync_def split: result.splits)
  from start_sync_hashes [OF this(1)] t show ?thesis by auto
qed

lemma light_resolved_Some:
  "light_resolved c m s = Some (r, t) \<Longrightarrow> \<exists>x. m = Some (x, light t)"
  by (auto simp: light_resolved_def)

lemma light_handle_command_hashes:
  assumes "light_handle_command E text now now' now'' peer m s = Some (r, t)"
  shows "stored_block_hashes (light t) = stored_block_hashes (light s)"
proof -
  have "stored_block_hashes (light (light_ping peer h s)) = stored_block_hashes (light s)" for h
    by (simp add: light_ping_def)
  with assms show ?thesis
    by (cases "command m")
      (auto simp: light_handle_command_def Let_def split: if_splits dest!: light_resolved_Some
        dest: light_accept_block_hashes light_accept_transaction_hashes)
qed

lemma light_on_kill_hashes:
  assumes "light_on_kill chk peer s = (Ok t :: (_, 'e) result)"
  shows "stored_block_hashes t = stored_block_hashes s"
proof -
  have punish: "stored_block_hashes t = stored_block_hashes s"
    if "light_punish_ip chk a s = (Ok t :: (_, 'e) result)" for a s t
    using that by (auto simp: light_punish_ip_def res_simps)
  have times: "stored_block_hashes t = stored_block_hashes s"
    if "light_punish_times chk n a s = (Ok t :: (_, 'e) result)" for n a s t
    using that
  proof (induction n arbitrary: s)
    case (Suc n)
    then obtain u where "light_punish_ip chk a s = (Ok u :: (_, 'e) result)"
      "light_punish_times chk n a u = (Ok t :: (_, 'e) result)" by (auto simp: res_simps)
    then show ?case using Suc.IH punish by metis
  qed simp
  show ?thesis
    using assms by (auto simp: light_on_kill_def res_simps dest!: punish times split: if_splits)
qed

section \<open>Steps\<close>

inductive light_step :: "'z block_env_scheme \<Rightarrow> LightPeer \<Rightarrow> LightPeer \<Rightarrow> bool" for E where
  message: "light_handle_command E text now now' now'' peer m s = Some (r, s') \<Longrightarrow> light_step E s s'"
| synced: "run_light_sync E net probe (light s) = Some (r, n) \<Longrightarrow> light_step E s (s\<lparr>light := n\<rparr>)"
| tracked: "start_tracking E net probe a restore_height (light s) = Some (r, n)
    \<Longrightarrow> light_step E s (s\<lparr>light := n\<rparr>)"
| untracked: "stop_tracking a (light s) = (r :: (unit, unit) result, n) \<Longrightarrow> light_step E s (s\<lparr>light := n\<rparr>)"
| submitted: "light_accept_transaction E text now now' now'' tx True (light s) = (r, n)
    \<Longrightarrow> light_step E s (s\<lparr>light := n\<rparr>)"
| connected: "light_step E s (s\<lparr>light := light_register_peer a peer (light s)\<rparr>)"
| killed: "light_on_kill chk peer (light s) = (Ok n :: (_, unit) result) \<Longrightarrow> light_step E s (s\<lparr>light := n\<rparr>)"
| forgiven: "light_step E s (s\<lparr>light := light_decrement_punishments (light s)\<rparr>)"
| expired: "expire_transactions now (ln_mempool (light s)) = (pool, ids)
    \<Longrightarrow> light_step E s (s\<lparr>light := (light s)\<lparr>ln_mempool := pool\<rparr>\<rparr>)"

inductive_cases light_stepE: "light_step E s s'"

lemma light_step_hashes:
  assumes "light_step E s s'"
  shows "stored_block_hashes (light s') = stored_block_hashes (light s)"
  using assms
proof (cases rule: light_step.cases)
  case (tracked net probe a restore_height r n)
  have "stored_block_hashes (snd (begin_tracking a restore_height (light s))) = stored_block_hashes (light s)"
    by (simp add: begin_tracking_def set_height_def)
  with tracked show ?thesis
    by (auto simp: start_tracking_def dest: start_sync_hashes split: prod.splits bool.splits)
next
  case (untracked a r n)
  then show ?thesis by (auto simp: stop_tracking_def split: prod.splits)
next
  case connected
  then show ?thesis by (simp add: light_register_peer_def)
next
  case forgiven
  then show ?thesis by (simp add: light_decrement_punishments_def Let_def)
qed (auto dest: light_handle_command_hashes run_light_sync_hashes light_accept_transaction_hashes
    light_on_kill_hashes)

lemma light_reachable_hashes:
  assumes "(light_step E)\<^sup>*\<^sup>* s0 s" and "stored_block_hashes (light s0) = None"
  shows "stored_block_hashes (light s) = None"
  using assms by (induction rule: rtranclp_induct) (simp_all add: light_step_hashes)

text \<open>
  So a valid block is accepted whatever its parent is, unless the parent hash is zero, as that of the
  first block of the chain is.
\<close>

lemma light_parent_unchecked:
  assumes "(light_step E)\<^sup>*\<^sup>* s0 s" and "stored_block_hashes (light s0) = None"
    and v: "validate_block_hash E b = Ok ()" "hash (meta b) = Some h" "h \<noteq> ln_last_seen_block (light s)"
    and ids: "map transaction_id (transactions b) = map Some ids"
  obtains r n where "light_accept_block E False b is_historical (light s) = Some (r, n)"
    and "r = (if previous_block (meta b) = hash_new_from_buf 0 then Err InvalidPreviousBlockHash else Ok ())"
proof -
  let ?t = "light_set_last_seen_block h (light s)"
  have newest: "newest_hash ?t = hash_new_from_buf 0"
    using light_reachable_hashes [OF assms(1,2)]
    by (simp add: newest_hash_def last_seen_block_hashes_def light_set_last_seen_block_def)
  have accept: "light_accept_block E False b is_historical (light s) =
      Some (apply_light_block E b is_historical ?t)"
    using light_accept_block_new [OF v, where held = False and is_historical = is_historical] by simp
  show ?thesis
  proof (cases "previous_block (meta b) = hash_new_from_buf 0")
    case True
    then have "apply_light_block E b is_historical ?t = (Err InvalidPreviousBlockHash, ?t)"
      using newest by (simp add: apply_light_block_def)
    with True accept show ?thesis by (intro that) auto
  next
    case False
    then have "newest_hash ?t \<noteq> previous_block (meta b)" using newest by simp
    from apply_light_block_Ok [OF this v(1) ids, of is_historical] obtain n where
      "apply_light_block E b is_historical ?t = (Ok (), n)" by metis
    with False accept show ?thesis by (intro that) auto
  qed
qed

section \<open>The task a ping starts\<close>

text \<open>
  It holds the \<open>processing\<close> lock while it synchronises, and accepting a block waits for that lock: with
  a block of interest to scan, the task never ends.
\<close>

lemma sync_metadatas_held:
  assumes net: "network_serves net P" and P: "light_valid E P" and ln: "ln_signs E"
    and peers: "full_peers s \<noteq> []" and seen: "ln_last_seen_block s \<notin> entry_hash ` set (drop i P)"
    and j: "i \<le> j" "j < length P" "a |\<in>| watched (ln_utxos s)"
      "tx \<in> set (transactions (fst (P ! j)))" "contains_address tx a"
  shows "sync_metadatas E True net k (map (meta \<circ> fst) (drop i P)) s = None"
  using peers seen j
proof (induction "length P - i" arbitrary: i k s)
  case 0
  then show ?case by simp
next
  case (Suc m)
  then have i: "i < length P" by simp
  let ?b = "fst (P ! i)"
  have v: "validate_block_hash E ?b = Ok ()"
    "create_filter E (transactions ?b) = Ok (address_inclusion_filter (meta ?b))"
    and d: "distinct (map entry_hash P)"
    using P i by (auto simp: light_valid_def Let_def)
  have h: "hash (meta ?b) = Some (entry_hash (P ! i))"
    using v(1) by (auto simp: validate_block_hash_Ok_iff entry_hash_def)
  obtain x where x: "any_interested E (address_inclusion_filter (meta ?b)) (get_watched (ln_utxos s)) = Ok x"
    "\<not> x \<Longrightarrow> \<forall>a \<in> set (get_watched (ln_utxos s)).
      List.filter (\<lambda>tx. contains_address tx a) (transactions ?b) = []"
    using any_interested_created [OF ln v(2)] by metis
  note drop = entry_hash_drop [OF d i]
  show ?case
  proof (cases x)
    case True
    have "entry_hash (P ! i) \<noteq> ln_last_seen_block s" using Suc.prems(2) by (auto simp: drop(1))
    from light_accept_block_new [OF v(1) h this, where held = True and is_historical = True]
    have "light_accept_block E True ?b True s = None" by simp
    moreover have "quorum_request (length (full_peers s)) net k (GetBlock (entry_hash (P ! i))) reply_block
        = Some ?b"
      using served_block_request [OF net d i] Suc.prems(1) by simp
    ultimately show ?thesis using True by (simp add: drop(1) h x(1) map_light_err_def)
  next
    case False
    have "a \<in> set (get_watched (ln_utxos s))"
      using Suc.prems(5) by (simp add: get_watched_def sorted_list_of_fset.rep_eq)
    with x(2) False have "List.filter (\<lambda>tx. contains_address tx a) (transactions ?b) = []" by blast
    with Suc.prems(6,7) have "j \<noteq> i" by (auto simp: filter_empty_conv)
    then have "Suc i \<le> j" using Suc.prems(3) by simp
    moreover have "m = length P - Suc i" using Suc.hyps(2) by simp
    moreover have "full_peers (increment_height s) \<noteq> []" using Suc.prems(1) by (simp add: full_peers_def)
    moreover have "ln_last_seen_block (increment_height s) \<notin> entry_hash ` set (drop (Suc i) P)"
      using Suc.prems(2) by (auto simp: drop(1))
    ultimately have "sync_metadatas E True net k (map (meta \<circ> fst) (drop (Suc i) P)) (increment_height s) = None"
      using Suc.hyps(1) [of "Suc i" "increment_height s" k] Suc.prems(4-7) by simp
    then show ?thesis using False by (simp add: drop(1) h x(1))
  qed
qed

lemma ping_sync_never_ends:
  assumes net: "network_serves net P" and probe: "probe (Ping 0) = Ok (Pong (length P))"
    and P: "light_valid E P" and ln: "ln_signs E" and peers: "full_peers s \<noteq> []"
    and height: "light_get_height s = 0" and seen: "ln_last_seen_block s \<notin> entry_hash ` set P"
    and j: "e \<in> set P" "a |\<in>| watched (ln_utxos s)"
      "tx \<in> set (transactions (fst e))" "contains_address tx a"
  shows "run_light_sync E net probe s = None"
proof -
  let ?s = "s\<lparr>ln_mempool := mempool_clear (ln_mempool s)\<rparr>"
  have fields: "light_get_height ?s = 0" "full_peers ?s = full_peers s" "ln_utxos ?s = ln_utxos s"
    "ln_last_seen_block ?s = ln_last_seen_block s" "ln_connected_peers ?s \<noteq> []"
    using height peers by (auto simp: light_get_height_def full_peers_def)
  obtain j where j': "j < length P" "e = P ! j" using j(1) by (metis in_set_conv_nth)
  have "sync_metadatas E True net (1 + length (chunk_ranges 0 (length P))) (map (meta \<circ> fst) (drop 0 P)) ?s = None"
    using sync_metadatas_held [OF net P ln, of ?s 0 j a tx] peers seen j j' by (simp add: fields)
  moreover have "0 < length P" "P \<noteq> []" using j'(1) by auto
  ultimately have "start_sync E True net probe ?s = None"
    using fetched_chunks [OF net, of "length (full_peers s)" 0 1] peers fields(5)
    by (simp add: start_sync_def sync_from_def fields(1-4) probe Let_def split: option.split)
  then show ?thesis by (simp add: run_light_sync_def)
qed

context chain_server
begin

lemma ping_sync_with_servers:
  assumes p: "p \<in> set peers" and servers: "\<forall>p \<in> set peers. holds p P"
    and "light_valid E P" and "ln_signs E" and "full_peers s \<noteq> []"
    and "light_get_height s = 0" and "ln_last_seen_block s \<notin> entry_hash ` set P"
    and "e \<in> set P" and "a |\<in>| watched (ln_utxos s)"
    and "tx \<in> set (transactions (fst e))" and "contains_address tx a"
  shows "run_light_sync E (network_of answer peers) (answer p 0) s = None"
proof -
  have "peers \<noteq> []" "holds p P" using p servers by auto
  then have "network_serves (network_of answer peers) P" "answer p 0 (Ping 0) = Ok (Pong (length P))"
    using servers by (auto intro: network_of_servers answer_ping)
  then show ?thesis using assms(3-) by (rule ping_sync_never_ends)
qed

end

end
