(* ===== verification/Light_Api.thy ===== *)
theory Light_Api
  imports Client_Node Light_Steps
begin

text \<open>
  \<open>light_node/api_server.rs\<close>: how a light node answers the requests of a client.  Questions that it
  cannot answer end the connection with an error that is only logged.
\<close>

datatype LightApiFailure = RequestL RequestResponseError | NotSupported string

section \<open>Pages of transactions\<close>

text \<open>\<open>unwrap\<close> on every id of the transactions of an address, newest key first.\<close>

fun unwrap_info_ids :: "TransactionAndInfo list \<Rightarrow> (TransactionId list, 'e) result" where
  "unwrap_info_ids [] = Ok []"
| "unwrap_info_ids (tx # txs) =
     bind_res (expect (transaction_id (info_transaction tx))) (\<lambda>i.
     bind_res (unwrap_info_ids txs) (\<lambda>ids. Ok (i # ids)))"

definition light_page_of :: "bool \<Rightarrow> TransactionId list \<Rightarrow> u32 \<Rightarrow> (Response, 'e) result" where
  "light_page_of chk all requested_page =
     bind_res (mul_u chk requested_page PAGE_SIZE) (\<lambda>s.
     bind_res (add_u chk requested_page 1) (\<lambda>n.
     bind_res (mul_u chk n PAGE_SIZE) (\<lambda>e.
     let start = unat s; stop = unat e
     in bind_res
          (if length all \<le> start then Ok []
           else if length all < stop then Ok (drop start all)
           else if stop < start then Panic else Ok (take (stop - start) (drop start all))) (\<lambda>page_slice.
        if stop < length all
        then bind_res (add_u chk requested_page 1) (\<lambda>n. Ok (TransactionsOfAddressR page_slice (Some n)))
        else Ok (TransactionsOfAddressR page_slice None)))))"

definition light_transactions_of_address ::
  "bool \<Rightarrow> TransactionStore \<Rightarrow> Public \<Rightarrow> u32 \<Rightarrow> (Response, 'e) result"
where
  "light_transactions_of_address chk ts a requested_page =
     bind_res (unwrap_info_ids (List.filter (\<lambda>tx. contains_address (info_transaction tx) a)
         (rev (iter_transactions ts)))) (\<lambda>all.
       light_page_of chk all requested_page)"

section \<open>Answering\<close>

definition light_status ::
  "(unit, BlockchainError, LightNodeState) run \<Rightarrow> (Response, LightApiFailure, LightNodeState) run"
where
  "light_status r =
     (case r of
        (Ok _, n) \<Rightarrow> (Ok (NewTransactionR (Inr ())), n)
      | (Err e, n) \<Rightarrow> (Ok (NewTransactionR (Inl e)), n)
      | (Panic, n) \<Rightarrow> (Panic, n))"

fun light_handle_request ::
  "'z chain_env_scheme \<Rightarrow> string \<Rightarrow> u64 \<times> u64 \<times> u64 \<Rightarrow> Request \<Rightarrow> LightNodeState
     \<Rightarrow> (Response, LightApiFailure, LightNodeState) run"
where
  "light_handle_request E text now HeightQ n = (Ok (HeightR (word_of_nat (light_get_height n))), n)"
| "light_handle_request E text now (BlockQ h) n =
     (Err (NotSupported ''Fetching blocks is not supported on a light node''), n)"
| "light_handle_request E text now (BlockHashQ height) n =
     (Err (NotSupported ''Fetching block hashes is not supported on a light node''), n)"
| "light_handle_request E text now (TransactionQ i) n =
     (Ok (TransactionR (map_option info_transaction (ts_get_transaction_and_info (transaction_store n) i))), n)"
| "light_handle_request E text now (TransactionAndInfoQ i) n =
     (Ok (TransactionAndInfoR (ts_get_transaction_and_info (transaction_store n) i)), n)"
| "light_handle_request E text now (TransactionsOfAddressQ a page) n =
     (light_transactions_of_address (overflow_checks E) (transaction_store n) a page, n)"
| "light_handle_request E text now (AvailableUTXOsQ a page) n =
     (bind_res (page_of (overflow_checks E)
         (case light_get_utxos (ln_utxos n) a of None \<Rightarrow> [] | Some available \<Rightarrow> available) page)
       (\<lambda>(xs, next_page). Ok (AvailableUTXOsR xs next_page)), n)"
| "light_handle_request E text now (BalanceQ a) n =
     (bind_res (light_confirmed_balance (overflow_checks E) (ln_utxos n) a) (\<lambda>x. Ok (BalanceR x)), n)"
| "light_handle_request E text now RewardQ n =
     (bind_res (get_block_reward (overflow_checks E) (light_get_height n)) (\<lambda>x. Ok (RewardR x)), n)"
| "light_handle_request E text now PeersQ n = (Ok (PeersR (map fst (ln_connected_peers n))), n)"
| "light_handle_request E text now (MempoolQ page) n =
     (bind_res (page_of (overflow_checks E) (get_mempool (ln_mempool n)) page) (\<lambda>(xs, next_page).
        Ok (MempoolR xs next_page)), n)"
| "light_handle_request E text now (NewBlockQ b) n =
     (Err (NotSupported ''Submitting blocks is not supported on a light node''), n)"
| "light_handle_request E text (now, now', now'') (NewTransactionQ tx) n =
     light_status (light_accept_transaction E text now now' now'' tx True n)"
| "light_handle_request E text now DifficultyQ n = (Ok (DifficultyR 0 0), n)"
| "light_handle_request E text now (BlockHeightQ h) n =
     (Err (NotSupported ''Getting block height by hash is not supported on a light node''), n)"
| "light_handle_request E text now LiveTransactionDifficultyQ n =
     (Ok (LiveTransactionDifficultyR (calculate_live_transaction_difficulty
        (ln_transaction_difficulty n) (mempool_size (ln_mempool n)))), n)"
| "light_handle_request E text now SubscribeToChainEventsQ n =
     (Err (NotSupported ''Subscribing to chain events is not supported on a light node''), n)"

function light_connection ::
  "'z request_env_scheme \<Rightarrow> string \<Rightarrow> (nat \<Rightarrow> u64 \<times> u64 \<times> u64) \<Rightarrow> nat \<Rightarrow> u8 list
     \<Rightarrow> LightNodeState \<Rightarrow> u8 list \<times> LightNodeState"
where
  "light_connection E text clock k stream n =
     (case request_decode E stream of
        (Ok r, rest) \<Rightarrow>
          (case light_handle_request E text (clock k) r n of
            (Ok response, n) \<Rightarrow>
              (case response_encode E response of
                 Ok bytes \<Rightarrow>
                   (case light_connection E text clock (k + 1) rest n of (out, n) \<Rightarrow> (bytes @ out, n))
               | _ \<Rightarrow> ([], n))
          | (_, n) \<Rightarrow> ([], n))
      | _ \<Rightarrow> ([], n))"
  by pat_completeness auto
termination
  by (relation "measure (\<lambda>(E, text, clock, k, stream, n). length stream)")
    (auto dest!: sym [of _ "request_decode _ _"] dest: request_decode_shorter)

declare light_connection.simps [simp del]

definition light_server ::
  "'z request_env_scheme \<Rightarrow> string \<Rightarrow> (nat \<Rightarrow> u64 \<times> u64 \<times> u64) \<Rightarrow> LightNodeState node_server"
where
  "light_server E text clock bytes n = light_connection E text clock 0 bytes n"

section \<open>What a client of a light node gets\<close>

lemma light_fetch:
  assumes req: "json_request E r" and h: "light_handle_request E text (clock 0) r n = (Ok response, n')"
    and res: "json_response E response"
  shows "fetch E (light_server E text clock) r n = (Ok response, n')"
proof -
  obtain bytes where bytes: "request_encode E r = Ok bytes" "request_decode E (bytes @ []) = (Ok r, [])"
    using request_roundtrip [OF req] by metis
  obtain out where out: "response_encode E response = Ok out" "response_decode E (out @ []) = (Ok response, [])"
    using response_roundtrip [OF res] by metis
  have last: "light_connection E text clock 1 [] n' = ([], n')"
    by (simp add: light_connection.simps read_nothing)
  have "light_connection E text clock 0 bytes n = (out, n')"
    using bytes(2) h out(1) last by (simp add: light_connection.simps [of E "text" clock 0 bytes])
  then show ?thesis using bytes(1) out(2) by (simp add: fetch_def light_server_def)
qed

text \<open>A question that is not supported looks to the client like a broken stream.\<close>

lemma light_fetch_refused:
  assumes req: "json_request E r" and h: "light_handle_request E text (clock 0) r n = (Err e, n')"
  shows "fetch E (light_server E text clock) r n = (Err StreamR, n')"
proof -
  obtain bytes where bytes: "request_encode E r = Ok bytes" "request_decode E (bytes @ []) = (Ok r, [])"
    using request_roundtrip [OF req] by metis
  have "light_connection E text clock 0 bytes n = ([], n')"
    using bytes(2) h by (simp add: light_connection.simps [of E "text" clock 0 bytes])
  moreover have "response_decode E [] = (Err StreamR, [])"
    by (simp add: response_decode_def read_frame_def read_bytes_def)
  ultimately show ?thesis using bytes(1) by (simp add: fetch_def light_server_def)
qed

definition light_codec ::
  "'z request_env_scheme \<Rightarrow> string \<Rightarrow> (nat \<Rightarrow> u64 \<times> u64 \<times> u64) \<Rightarrow> LightNodeState \<Rightarrow> bool"
where
  "light_codec E text clock n \<longleftrightarrow>
     (\<forall>r. is_question r \<longrightarrow> json_request E r
        \<and> (\<forall>response n'. light_handle_request E text (clock 0) r n = (Ok response, n')
             \<longrightarrow> json_response E response))"

lemma light_available:
  assumes codec: "light_codec E text clock n"
    and xs: "light_get_utxos (ln_utxos n) a = Some xs"
    and pages: "length xs < 200 * pages" "200 * (pages + 1) < 2 ^ 32"
  shows "client_get_available_transaction_outputs pages E (light_server E text clock) a n = Some (Ok xs, n)"
  unfolding client_get_available_transaction_outputs_def
proof (rule fetch_all_pages [OF _ pages])
  fix i :: nat assume "200 * (i + 2) < 2 ^ 32"
  then have page: "page_of (overflow_checks E) xs (word_of_nat i) = (Ok (page_slice xs i) :: (_, LightApiFailure) result)"
    by (rule page_of_slice)
  obtain ys m where ym: "page_slice xs i = (ys, m)" by (cases "page_slice xs i")
  have "light_handle_request E text (clock 0) (AvailableUTXOsQ a (word_of_nat i)) n = (Ok (AvailableUTXOsR ys m), n)"
    using page xs ym by simp
  with codec light_fetch have
    "fetch E (light_server E text clock) (AvailableUTXOsQ a (word_of_nat i)) n = (Ok (AvailableUTXOsR ys m), n)"
    unfolding light_codec_def by (metis is_question.simps)
  then show "ask E (light_server E text clock) (AvailableUTXOsQ a (word_of_nat i))
      (\<lambda>r. case r of AvailableUTXOsR xs n \<Rightarrow> Some (xs, n) | _ \<Rightarrow> None) n = (Ok (page_slice xs i), n)"
    by (simp add: ask_def ym)
qed

text \<open>
  After a synchronisation the client of a light node lists, for a watched address, exactly the outputs
  that the chain's ledger holds for it.
\<close>

lemma light_available_ledger:
  assumes codec: "light_codec E text clock n"
    and view: "light_view (ln_utxos n) a = ledger_view L a" and a: "a |\<in>| watched (ln_utxos n)"
    and pages: "\<And>xs. light_get_utxos (ln_utxos n) a = Some xs \<Longrightarrow> length xs < 200 * pages"
      "200 * (pages + 1) < 2 ^ 32"
  obtains xs where
    "client_get_available_transaction_outputs pages E (light_server E text clock) a n = Some (Ok xs, n)"
    and "\<And>t out i. (t, out, i) \<in> set xs \<longleftrightarrow> L (t, i) = Some out \<and> receiver out = a"
proof -
  obtain xs where xs: "light_get_utxos (ln_utxos n) a = Some xs" "set xs = light_view (ln_utxos n) a"
    using light_get_utxos_view [OF a] by blast
  show ?thesis
    by (rule that [OF light_available [OF codec xs(1) pages(1) [OF xs(1)] pages(2)]])
      (simp add: xs(2) view ledger_view_def)
qed

end
