(* ===== verification/Light_Properties.thy ===== *)
theory Light_Properties
  imports Demo_Api Light_Api
begin

text \<open>
  The properties of a light node: that the rows it keeps can be taken back, that a synchronisation makes
  them the outputs on the chain, and two things its code does not do: check the parent of a block, and end
  the task that a ping starts.
\<close>

section \<open>A concrete chain and a light node\<close>

text \<open>An empty block and one with the reward; the light node watches the miner.\<close>

definition demo_two :: "log_entry list" where
  "demo_two = demo_grow [demo_reward] 1000 (demo_blocks 1)"

definition demo_light :: LightNodeState where
  "demo_light = light_register_peer \<lparr>ip = V4 1, port = 8003\<rparr>
     \<lparr>address = \<lparr>ip = V4 1, port = 8003\<rparr>, is_client = False, flags = FULL_NODE_CAPABILITY\<rparr>
     (light_node_state_new\<lparr>ln_utxos := add_address demo_miner light_utxos_new\<rparr>)"

lemma demo_light_simps:
  "light_get_height demo_light = 0" "full_peers demo_light \<noteq> []" "watched (ln_utxos demo_light) = {|demo_miner|}"
  "lu_utxos (ln_utxos demo_light) = fmempty" "stored_block_hashes demo_light = None"
  "ln_last_seen_block demo_light = hash_new_from_buf 0" "get_watched (ln_utxos demo_light) = [demo_miner]"
  by (simp_all add: demo_light_def light_register_peer_def light_node_state_new_def add_address_def
      light_utxos_new_def light_get_height_def full_peers_def get_watched_def sorted_list_of_fset.rep_eq)

lemma demo_two_split: "demo_blocks 1 @ [last demo_two] = demo_two" "length demo_two = 2"
  "transactions (fst (demo_two ! 0)) = []" "transactions (fst (demo_two ! 1)) = [demo_reward]"
  by (simp_all add: demo_two_def demo_grow_def demo_block_of_def nth_append)


lemma demo_one_good: "demo_good 35 (demo_blocks 1)"
proof -
  have "demo_good (word_of_nat (35 * 1)) (demo_blocks 1)" by (rule demo_blocks_good) simp
  then show ?thesis by (simp only: mult_1_right of_nat_numeral)
qed

lemma demo_two_take: "take 1 demo_two = demo_blocks 1"
  by (simp add: demo_two_def demo_grow_def)

lemma demo_two_good: "demo_good 1000 demo_two"
  unfolding demo_two_def
proof (rule demo_good_grow [OF demo_one_good])
  show "unused (ledger_of_chain (demo_blocks 1)) t" for t
    by (simp add: unused_def demo_grow_def ledger_of_chain_def ledger_block_def demo_block_of_def empty_ledger_def)
  show "length (demo_blocks 1) < 1000000" unfolding length_demo_blocks by simp
qed (simp_all add: econ word_le_nat_alt)

lemma demo_two_held: obtains p where "node_holds p demo_two"
proof -
  obtain bc where "chain_inv True 0 demo_two bc" using demo_two_good by (auto simp: demo_good_def)
  then show ?thesis using that serving_holds by blast
qed

lemma demo_two_valid: "light_valid demo demo_two"
proof -
  have good: "demo_good 1000 demo_two" by (rule demo_two_good)
  then obtain bc where "chain_inv True 0 demo_two bc" by (auto simp: demo_good_def)
  then have distinct: "distinct (map entry_hash demo_two)" by (simp add: chain_inv_def store_represents_def)
  have acc: "acceptable_from demo 0 demo_two 0" using good by (simp add: demo_good_def)
  have "validate_block_hash demo b = Ok () \<and> create_filter demo (transactions b) = Ok (address_inclusion_filter (meta b))
      \<and> runnable (transactions b) (ledger_of_chain (take i demo_two))"
    if "i < 2" "b = fst (demo_two ! i)" for i b
  proof -
    obtain bc1 where "chain_inv True 0 (demo_blocks 1) bc1" using demo_one_good by (auto simp: demo_good_def)
    moreover have "take i demo_two = [] \<or> take i demo_two = demo_blocks 1"
      using that(1) demo_two_take by (cases "i = 0") (simp_all add: less_2_cases_iff)
    ultimately obtain bc where "chain_inv True 0 (take i demo_two) bc" using fresh_chain_inv by metis
    then have bc: "chain_inv (overflow_checks demo) 0 (take i demo_two) bc" by simp
    then have "check_block demo b False False bc = Ok ()" and app: "appendable demo (take i demo_two) b"
      using acc that demo_two_split(2) by (auto simp: acceptable_from_def)
    then have c: "check_meta demo b = Ok ()"
      and v: "valid_transactions demo (ledger_of (utxos bc)) (get_height (block_store bc))
        (chain_transaction_difficulty bc) False b (transactions b)"
      by (simp_all add: check_block_Ok_iff)
    have "ledger_of (utxos bc) = ledger_of_chain (take i demo_two)" using bc by (simp add: chain_inv_def)
    with v app have "runnable (transactions b) (ledger_of_chain (take i demo_two))"
      using valid_transactions_runnable by (metis appendable_def)
    with c show ?thesis using check_meta_ignores_hash [of demo b] by (auto simp: check_meta_Ok_iff)
  qed
  moreover have "previous_block (meta (fst (demo_two ! 1))) \<noteq> hash_new_from_buf 0"
    using demo_stamp_nonzero [of 35]
    by (simp add: demo_two_def demo_grow_def demo_block_of_def nth_append tip_hash_def entry_hash_def demo_stamp_def)
  moreover have "owners_match (transactions (fst (demo_two ! i))) L" if "i < 2" for i L
    using that demo_two_split(3,4) by (cases i) (auto simp: owners_match_def all_inputs_def demo_reward_def)
  ultimately show ?thesis
    using distinct demo_two_split(2) by (auto simp: light_valid_def Let_def less_Suc_eq numeral_2_eq_2)
qed



section \<open>Taking a block back\<close>


text \<open>The miner's row, from which the payment spends.\<close>

definition demo_rows :: LightNodeUTXOs where
  "demo_rows = \<lparr>lu_utxos = fmupd (demo_miner, 0) [(reward_id, demo_output, 0)] fmempty,
     watched = {|demo_miner|}, spends = fmempty\<rparr>"

lemma demo_scan_prefix: "scan_prefix demo_miner demo_rows = [((demo_miner, 0), [(reward_id, demo_output, 0)])]"
  by (simp add: scan_prefix_def demo_rows_def sorted_list_of_fmap_def sorted_list_of_fset.rep_eq)




section \<open>What is not checked, and what does not end\<close>

text \<open>
  C37. In every state that a light node reaches from an empty database its list of recent block hashes is
  empty, so a block with a valid hash is accepted whatever its parent is, except if the parent's hash is
  zero, which is that of the first block.
\<close>

theorem light_node_never_checks_parents:
  assumes "(light_step E)\<^sup>*\<^sup>* s0 s" and "stored_block_hashes (light s0) = None"
    and "validate_block_hash E b = Ok ()" and "hash (meta b) = Some h" and "h \<noteq> ln_last_seen_block (light s)"
    and "map transaction_id (transactions b) = map Some ids"
  shows "\<exists>n. light_accept_block E False b is_historical (light s) =
    Some (if previous_block (meta b) = hash_new_from_buf 0 then Err InvalidPreviousBlockHash else Ok (), n)"
  by (rule light_parent_unchecked [OF assms]) blast

theorem light_node_never_checks_parents_witness:
  "\<exists>n. light_accept_block demo False (demo_block_of [] difficulty_new_default (demo_stamp 77) 500) False demo_light =
    Some (Ok (), n)"
proof -
  let ?b = "demo_block_of [] difficulty_new_default (demo_stamp 77) 500"
  have "check_meta demo ?b = Ok ()" by (rule demo_block_meta) (simp_all add: econ word_le_nat_alt)
  then have "validate_block_hash demo ?b = Ok ()" using check_meta_ignores_hash [of demo ?b] by simp
  moreover have "hash (meta ?b) = Some (demo_stamp 500)" "previous_block (meta ?b) = demo_stamp 77"
    "transactions ?b = []"
    by (simp_all add: demo_block_of_def demo_stamp_def)
  ultimately show ?thesis
    using light_node_never_checks_parents [OF rtranclp.rtrancl_refl, of "\<lparr>light = demo_light, light_sync_tasks = []\<rparr>" demo ?b
        "demo_stamp 500" "[]" False] demo_stamp_nonzero [of 77] demo_stamp_nonzero [of 500]
    by (simp add: demo_light_simps)
qed

text \<open>
  C38. The task that a ping starts never ends on a light node that starts from an empty database when the
  chain involves a watched address: it holds the lock that accepting the block of interest waits for.
\<close>

theorem light_ping_task_never_ends:
  assumes "p \<in> set peers" and "\<forall>p \<in> set peers. node_holds p P"
    and "light_valid E P" and "ln_signs E" and "full_peers s \<noteq> []" and "light_get_height s = 0"
    and "ln_last_seen_block s \<notin> entry_hash ` set P"
    and "e \<in> set P" and "a |\<in>| watched (ln_utxos s)"
    and "tx \<in> set (transactions (fst e))" and "contains_address tx a"
  shows "run_light_sync E (network_of (node_replies E' asker) peers) (node_replies E' asker p 0) s = None"
  using assms by (rule full_node.ping_sync_with_servers)

theorem light_ping_task_never_ends_witness:
  "\<exists>p. node_holds p demo_two
    \<and> run_light_sync demo (network_of (node_replies demo demo_handle) [p]) (node_replies demo demo_handle p 0) demo_light = None"
proof -
  obtain p where p: "node_holds p demo_two" by (rule demo_two_held)
  have "run_light_sync demo (network_of (node_replies demo demo_handle) [p]) (node_replies demo demo_handle p 0) demo_light = None"
  proof (rule light_ping_task_never_ends [OF _ _ demo_two_valid demo_ln_signs])
  show "ln_last_seen_block demo_light \<notin> entry_hash ` set demo_two"
    using demo_stamp_nonzero [of 35] demo_stamp_nonzero [of 1000]
    by (auto simp: demo_light_simps demo_two_def demo_grow_def entry_hash_demo)
  show "demo_two ! 1 \<in> set demo_two" by (simp add: demo_two_split(2))
  show "demo_reward \<in> set (transactions (fst (demo_two ! 1)))" by (simp add: demo_two_split(4) [simplified])
  show "contains_address demo_reward demo_miner" by (simp add: contains_address_iff demo_reward_def)
qed (use p in \<open>simp_all add: demo_light_simps\<close>)
  with p show ?thesis by blast
qed

section \<open>Clients\<close>

text \<open>
  C31. When the rows of a watched address are its unspent outputs on a ledger, as after a synchronisation,
  a client of the light node lists over the wire exactly these.
\<close>

theorem light_client_lists_the_ledger:
  assumes "light_codec E log_text clock n"
    and "light_view (ln_utxos n) a = ledger_view L a" and "a |\<in>| watched (ln_utxos n)"
    and "\<And>xs. light_get_utxos (ln_utxos n) a = Some xs \<Longrightarrow> length xs < 200 * pages"
    and "200 * (pages + 1) < 2 ^ 32"
  shows "\<exists>xs. client_get_available_transaction_outputs pages E (light_server E log_text clock) a n = Some (Ok xs, n)
    \<and> (\<forall>t out i. (t, out, i) \<in> set xs \<longleftrightarrow> L (t, i) = Some out \<and> receiver out = a)"
  by (rule light_available_ledger [OF assms]) blast+

definition demo_rows_node :: LightNodeState where
  "demo_rows_node = light_node_state_new\<lparr>ln_utxos := demo_rows\<rparr>"

definition light_answers :: "Response list" where
  "light_answers =
     [HeightR 0, TransactionR None, TransactionAndInfoR None, TransactionsOfAddressR [] None,
      AvailableUTXOsR [] None, AvailableUTXOsR [(reward_id, demo_output, 0)] None, BalanceR 0,
      BalanceR 9800000000, RewardR 10000000000, PeersR [], MempoolR [] None, DifficultyR 0 0,
      LiveTransactionDifficultyR (- 1)]"

lemma demo_rows_listing:
  "light_get_utxos demo_rows a = (if a = demo_miner then Some [(reward_id, demo_output, 0)] else None)"
  using demo_scan_prefix by (simp add: light_get_utxos_def) (simp add: demo_rows_def)

lemma light_page_of_nothing: "light_page_of True [] page = (Ok response :: (_, 'e) result) \<Longrightarrow> response \<in> set light_answers"
  by (auto simp: light_page_of_def res_simps Let_def light_answers_def split: if_splits)

lemma light_api_answers:
  assumes "is_question r" and "light_handle_request (demo_api answers) log_text now r demo_rows_node = (Ok response, n')"
  shows "response \<in> set light_answers"
proof (cases r)
  case (AvailableUTXOsQ a p)
  then show ?thesis
    using assms(2) by (auto simp: demo_rows_node_def demo_rows_listing light_answers_def res_simps
        dest!: page_of_short split: if_splits)
next
  case (MempoolQ p)
  then show ?thesis
    using assms(2) by (auto simp: demo_rows_node_def light_node_state_new_def get_mempool_new light_answers_def
        res_simps dest!: page_of_short)
next
  case (TransactionsOfAddressQ a p)
  then show ?thesis
    using assms(2) by (auto simp: demo_rows_node_def light_node_state_new_def light_transactions_of_address_def
        iter_transactions_def sorted_list_of_fmap_def sorted_list_of_fset.rep_eq intro: light_page_of_nothing)
next
  case (BalanceQ a)
  then show ?thesis
    using assms(2) by (auto simp: demo_rows_node_def light_confirmed_balance_def demo_rows_listing light_answers_def
        demo_output_def add_u_def checked_add_def res_simps split: if_splits)
qed (use assms demo_block_reward in \<open>auto simp: demo_rows_node_def light_node_state_new_def light_get_height_def
    ts_get_transaction_and_info_def mempool_size_length get_mempool_new live_difficulty_0
    STARTING_BLOCK_DIFFICULTY_def light_answers_def res_simps demo_block_reward\<close>)

theorem light_client_lists_the_ledger_witness:
  "\<exists>xs. client_get_available_transaction_outputs 1 (demo_api light_answers)
      (light_server (demo_api light_answers) ''tx'' (\<lambda>_. (0, 0, 0))) demo_miner demo_rows_node = Some (Ok xs, demo_rows_node)
    \<and> set xs = {(reward_id, demo_output, 0)}"
proof -
  let ?L = "\<lambda>(t, i). if t = reward_id \<and> i = 0 then Some demo_output else None"
  have "length light_answers \<le> 256" by (simp add: light_answers_def)
  then have "light_codec (demo_api light_answers) ''tx'' (\<lambda>_. (0, 0, 0)) demo_rows_node"
    using light_api_answers demo_api_request demo_api_response unfolding light_codec_def by blast
  moreover have w: "demo_miner |\<in>| watched (ln_utxos demo_rows_node)" by (simp add: demo_rows_node_def demo_rows_def)
  moreover have "light_view (ln_utxos demo_rows_node) demo_miner = ledger_view ?L demo_miner"
  proof -
    obtain xs where xs: "light_get_utxos demo_rows demo_miner = Some xs" "set xs = light_view demo_rows demo_miner"
      using light_get_utxos_view [of demo_miner demo_rows] w by (auto simp: demo_rows_node_def)
    from xs(1) have "xs = [(reward_id, demo_output, 0)]" by (simp add: demo_rows_listing)
    with xs(2) have view: "light_view demo_rows demo_miner = {(reward_id, demo_output, 0)}" by simp
    have "ledger_view ?L demo_miner = {(reward_id, demo_output, 0)}"
      by (auto simp: ledger_view_def demo_output_def split: if_splits)
    with view show ?thesis by (simp add: demo_rows_node_def)
  qed
  ultimately obtain xs where xs: "client_get_available_transaction_outputs 1 (demo_api light_answers)
      (light_server (demo_api light_answers) ''tx'' (\<lambda>_. (0, 0, 0))) demo_miner demo_rows_node = Some (Ok xs, demo_rows_node)"
    "\<forall>t out i. (t, out, i) \<in> set xs \<longleftrightarrow> ?L (t, i) = Some out \<and> receiver out = demo_miner"
    using light_client_lists_the_ledger [of "demo_api light_answers" "''tx''" "\<lambda>_. (0, 0, 0)" demo_rows_node demo_miner ?L 1]
    by (auto simp: demo_rows_node_def demo_rows_listing)
  have "receiver demo_output = demo_miner" by (simp add: demo_output_def)
  then have "x \<in> set xs \<longleftrightarrow> x = (reward_id, demo_output, 0)" for x
    using xs(2) by (cases x) (auto split: if_splits)
  then have "set xs = {(reward_id, demo_output, 0)}" by auto
  with xs(1) show ?thesis by blast
qed

end
