(* ===== verification/Connection_Properties.thy ===== *)
theory Connection_Properties
  imports Peer_Connection Demo_Chain
begin

text \<open>
  The properties of the connection between two peers: which response a request gets, that it gets one from
  a peer that runs the same code, and what the handshake makes of such a peer.
\<close>

section \<open>A concrete codec\<close>

definition demo_net :: message_env where
  "demo_net = chain_env.extend demo (message_env.fields
     (\<lambda>c. case c of Connect \<Rightarrow> Inr [0] | AcknowledgeConnection \<Rightarrow> Inr [3] | Ping n \<Rightarrow> Inr (1 # replicate n 0) | Pong n \<Rightarrow> Inr (2 # replicate n 0)
        | _ \<Rightarrow> Inl ''unsupported'')
     (\<lambda>bs. case bs of [] \<Rightarrow> Inl ''malformed'' | b # n \<Rightarrow>
        Inr (if b = 0 then Connect else if b = 3 then AcknowledgeConnection else if b = 1 then Ping (length n) else Pong (length n))))"

lemma demo_net_simps [simp]:
  "encode_command demo_net Connect = Inr [0]" "encode_command demo_net AcknowledgeConnection = Inr [3]"
  "encode_command demo_net (Ping n) = Inr (1 # replicate n 0)"
  "encode_command demo_net (Pong n) = Inr (2 # replicate n 0)"
  "decode_command demo_net (b # bs) =
     Inr (if b = 0 then Connect else if b = 3 then AcknowledgeConnection else if b = 1 then Ping (length bs) else Pong (length bs))"
  by (simp_all add: demo_net_def chain_env.extend_def message_env.fields_def)

lemma demo_net_faithful:
  "faithful_codec demo_net Connect" "faithful_codec demo_net AcknowledgeConnection" "n < 1000 \<Longrightarrow> faithful_codec demo_net (Ping n)"
  "n < 1000 \<Longrightarrow> faithful_codec demo_net (Pong n)"
  by (simp_all add: faithful_codec_def)

section \<open>Requests and responses\<close>

text \<open>
  C19. On every connection, whatever arrives on it and in whatever order its tasks and the users of its handle
  take turns: a request that waits is either still queued or registered under its id, in exactly one of
  the two, and the connection has not ended; a request that was answered was answered with its own id, and
  that answer stays; and no more than 64 messages are queued.
\<close>

theorem answers_reach_their_requests:
  assumes "(connection_step E height handler)\<^sup>*\<^sup>* (s0, connection_new rest) (s, p)" and "c < length (requests p)"
  shows "length (outgoing p) \<le> 64
    \<and> (case callbacks p ! c of
         Waiting \<Rightarrow> ending p = None
           \<and> (c \<in> set (queued (outgoing p))) \<noteq> (fmlookup (pending p) (message_id (requests p ! c)) = Some c)
       | Replied m \<Rightarrow> message_id m = message_id (requests p ! c)
           \<and> (\<forall>s' p'. (connection_step E height handler)\<^sup>*\<^sup>* (s, p) (s', p') \<longrightarrow> callbacks p' ! c = Replied m)
       | Dropped \<Rightarrow> True)" (is "_ \<and> ?case_of")
proof -
  have inv: "connection_inv p" using reachable_connection_inv [OF assms(1)] by simp
  note d = connection_invD [OF inv]
  have c: "c < length (callbacks p)" using assms(2) d(1) by simp
  have "length (outgoing p) \<le> 64" using d(2) by (simp add: QUEUE_CAPACITY_def)
  moreover have ?case_of if "callbacks p ! c = Waiting"
  proof -
    let ?i = "message_id (requests p ! c)"
    have "c \<in> set (queued (outgoing p)) \<or> fmlookup (pending p) ?i = Some c" using d(6) [OF c that] .
    moreover have "fmlookup (pending p) ?i = Some c \<longrightarrow> c \<notin> set (queued (outgoing p))" using d(5) by blast
    moreover have "ending p = None" using calculation(1) d(8) by (cases "ending p") auto
    ultimately show ?thesis unfolding that reply.case by blast
  qed
  moreover have ?case_of if r: "callbacks p ! c = Replied m" for m
  proof -
    have "callbacks p' ! c = Replied m" if "(connection_step E height handler)\<^sup>*\<^sup>* (s, p) (s', p')" for s' p'
      using keeps_settled_reachable [OF that] inv c r by (simp add: keeps_settled_def)
    then show ?thesis using d(7) [OF c r] unfolding r reply.case by blast
  qed
  moreover have ?case_of if "callbacks p ! c = Dropped" unfolding that by simp
  ultimately show ?thesis by (cases "callbacks p ! c") blast+
qed

definition demo_question :: Message where
  "demo_question = message_new 7 (Ping 0)"

definition demo_answer :: Message where
  "demo_answer = message_new 7 (Pong 1)"

lemma demo_bytes:
  "serialize demo_net demo_question = Ok (header 4 CURRENT_NETWORK_ID 7 1 @ [1])"
  "serialize demo_net demo_answer = Ok (header 4 CURRENT_NETWORK_ID 7 2 @ [2, 0])"
  by (simp_all add: serialize_Ok_iff demo_question_def demo_answer_def message_new_def VERSION_def)

lemma demo_answer_read: "from_stream demo_net (header 4 CURRENT_NETWORK_ID 7 2 @ [2, 0]) = (Ok demo_answer, [])"
  using from_stream_serialize [OF _ demo_bytes(2), of "[]"] demo_net_faithful(4) [of 1]
  by (simp add: demo_answer_def)

text \<open>A question is asked, written and answered.\<close>

theorem answers_reach_their_requests_witness:
  "\<exists>p. (connection_step demo_net (\<lambda>_. 0) (\<lambda>m s. (Panic, s)))\<^sup>*\<^sup>* ((), connection_new []) ((), p)
    \<and> callbacks p ! 0 = Replied demo_answer \<and> message_id demo_answer = message_id (requests p ! 0)"
proof -
  let ?h = "\<lambda>m (s :: unit). (Panic, s) :: (Message, PeerError, unit) run"
  let ?step = "connection_step demo_net (\<lambda>_. 0) ?h"
  let ?b = "header 4 CURRENT_NETWORK_ID 7 2 @ [2, 0]"
  define p1 where "p1 = (connection_new [])\<lparr>outgoing := [OutRequest demo_question 0], callbacks := [Waiting],
    requests := [demo_question]\<rparr>"
  define p2 where "p2 = p1\<lparr>outgoing := [], pending := fmupd 7 0 fmempty, written := header 4 CURRENT_NETWORK_ID 7 1 @ [1]\<rparr>"
  define p3 where "p3 = p2\<lparr>arrived := ?b\<rparr>"
  define p4 where "p4 = p3\<lparr>arrived := [], pending := fmdrop 7 (fmupd 7 0 fmempty), callbacks := [Replied demo_answer]\<rparr>"
  have "send_request demo_question (connection_new []) = Some (Ok 0, p1)"
    by (simp add: send_request_def connection_new_def QUEUE_CAPACITY_def p1_def)
  then have 1: "?step ((), connection_new []) ((), p1)" by (intro connection_step.task task_step.requested)
  have "writer_turn demo_net True p1 = p2"
    by (simp add: writer_turn_def p1_def p2_def connection_new_def write_message_def demo_bytes)
      (simp add: demo_question_def)
  then have 2: "?step ((), p1) ((), p2)"
    using task_step.writes [of p1 demo_net "\<lambda>_. 0" ?h "()" True]
    by (intro connection_step.task) (simp add: p1_def connection_new_def)
  have 3: "?step ((), p2) ((), p3)"
    using connection_step.bytes_arrive [of p2 demo_net "\<lambda>_. 0" ?h "()" ?b]
    by (simp add: p3_def p2_def p1_def connection_new_def)
  have "reader_turn demo_net ?h ((), p3) = ((), p4)"
    by (simp add: reader_turn_def p3_def p2_def p1_def p4_def connection_new_def demo_answer_read del: append_assoc)
      (simp add: demo_answer_def)
  then have "task_step demo_net (\<lambda>_. 0) ?h ((), p3) ((), p4)"
    by (rule task_step.reads [rotated 3])
      (simp_all add: p3_def p2_def p1_def connection_new_def demo_answer_read del: append_assoc)
  then have 4: "?step ((), p3) ((), p4)" by (rule connection_step.task)
  have reach: "?step\<^sup>*\<^sup>* ((), connection_new []) ((), p4)"
    using 1 2 3 4 by (meson converse_rtranclp_into_rtranclp rtranclp.rtrancl_refl)
  moreover have "callbacks p4 ! 0 = Replied demo_answer" "0 < length (requests p4)"
    by (simp_all add: p4_def p3_def p2_def p1_def)
  ultimately show ?thesis using answers_reach_their_requests [OF reach, of 0] by auto
qed



text \<open>
  C35. Two nodes that both run this handshake, as the connecting and the accepting node of this program do,
  refuse each other: each takes the other's \<open>Connect\<close>, the first message on the stream, for the
  acknowledgement, and no connection is made.
\<close>

theorem handshake_refuses_itself:
  assumes "faithful_codec E Connect"
  shows "snd (create_peer E (Inr a) True random client
      (fst (create_peer E (Inr b) True random' client' stream) @ rest)) =
    (Err (UnknownP ''Got unhandled AcknowledgeConnection''), rest)"
  using assms by (rule create_peer_refuses_connect)

theorem handshake_refuses_itself_witness:
  "snd (create_peer demo_net (Inr \<lparr>ip = V4 1, port = 8003\<rparr>) True 5 False
      (fst (create_peer demo_net (Inr \<lparr>ip = V4 2, port = 8003\<rparr>) True 6 True []))) =
    (Err (UnknownP ''Got unhandled AcknowledgeConnection''), [])"
  using handshake_refuses_itself [OF demo_net_faithful(1), of _ 5 False _ 6 True "[]" "[]"] by simp

end
