(* ===== verification/Discovery_Properties.thy ===== *)
theory Discovery_Properties
  imports Peer_Discovery Connection_Properties
begin

text \<open>
  The properties of the discovery of peers and of the reconnection to a seed.
\<close>

section \<open>Discovery\<close>

text \<open>
  C23. A round of discovery of a node that has fewer than 24 outbound connections, when the connected peer it
  chooses is a full node: the connections it adds are those to the addresses among the first 24 that the
  peer knows that are not connected yet, are not the node's own or reserved, and accept; each is added once
  and outbound, with the handle that was made for it, and nothing is removed.
\<close>

theorem discovery_connects_to_referred_peers:
  assumes "outbound ps < TARGET_PEERS" and "choose_peer random ps = Some p"
    and "\<And>a. dialled E dial a \<noteq> Some Panic"
  shows "\<exists>new. auto_peer_round (try_connect reserved (Some interfaces) (dialled E dial)) random
        (\<lambda>p. node_replies E' asker (server p) k GetPeers) ps = (Ok (ps @ new) :: (_, 'e) result)
    \<and> outbound (ps @ new) = outbound ps + length new \<and> length new \<le> 24 \<and> distinct (map fst new)
    \<and> fst ` set new = {a \<in> set (take 24 (known_addresses (node_state (node (server p))))). a \<notin> fst ` set ps
        \<and> \<not> own_address reserved interfaces (ip a) \<and> (\<exists>h. dialled E dial a = Some (Ok h))}
    \<and> (\<forall>(a, h) \<in> set new. dialled E dial a = Some (Ok h))"
proof -
  obtain new where new: "auto_peer_round (try_connect reserved (Some interfaces) (dialled E dial)) random
        (\<lambda>p. node_replies E' asker (server p) k GetPeers) ps = (Ok (ps @ new) :: (_, 'e) result)"
    "length new \<le> TARGET_PEERS" "distinct (map fst new)"
    "fst ` set new = {a \<in> set (take TARGET_PEERS (known_addresses (node_state (node (server p))))).
      reached reserved interfaces (dialled E dial) a \<and> a \<notin> fst ` set ps}"
    "\<forall>(a, h) \<in> set new. dialled E dial a = Some (Ok h)"
    using auto_peer_round_reaches [where ask = "\<lambda>p. node_replies E' asker (server p) k GetPeers" and
        reserved = reserved and interfaces = interfaces and connect = "dialled E dial", OF assms(1,2) referrals_of_node assms(3)]
    by (elim exE conjE) (rule that)
  have "\<forall>(a, h) \<in> set new. \<not> is_client h"
    using new(5) made_peer_outbound by (fastforce simp: dialled_def)
  then have "outbound (ps @ new) = outbound ps + length new" by (rule outbound_append)
  moreover have "fst ` set new = {a \<in> set (take 24 (known_addresses (node_state (node (server p))))). a \<notin> fst ` set ps
        \<and> \<not> own_address reserved interfaces (ip a) \<and> (\<exists>h. dialled E dial a = Some (Ok h))}"
    unfolding new(4) reached_def TARGET_PEERS_def by blast
  ultimately show ?thesis
    using new(1-3,5) unfolding TARGET_PEERS_def by (intro exI [of _ new] conjI)
qed

definition demo_peer_address :: SocketAddr where
  "demo_peer_address = \<lparr>ip = V4 5, port = 8003\<rparr>"

text \<open>A server that has two peers, one of them the asking node's own address, and a network where the other accepts.\<close>

definition demo_referrer :: FullPeer where
  "demo_referrer = (serving demo_state)\<lparr>node := on_node_state
     (register_peer demo_peer_address (demo_handle\<lparr>address := demo_peer_address\<rparr>)
        \<circ> register_peer \<lparr>ip = V4 6, port = 8003\<rparr> (demo_handle\<lparr>address := \<lparr>ip = V4 6, port = 8003\<rparr>\<rparr>))
     (node (serving demo_state))\<rparr>"

lemma demo_referrer_knows:
  "known_addresses (node_state (node demo_referrer)) = [\<lparr>ip = V4 6, port = 8003\<rparr>, demo_peer_address]"
  by (simp add: demo_referrer_def known_addresses_def register_peer_insert insert_peer_def on_node_state_def
      serving_def node_state_new_empty_def demo_handle_def demo_peer_address_def)

text \<open>An attempt that the other end acknowledges.\<close>

definition demo_attempt :: attempt where
  "demo_attempt = Inr (Inr demo_peer_address, True, header 4 CURRENT_NETWORK_ID 7 1 @ [3])"

lemma demo_attempt_peer: "make_peer demo_net demo_attempt 9 = Ok (demo_handle\<lparr>address := demo_peer_address\<rparr>)"
proof -
  have ack: "serialize demo_net (message_new 7 AcknowledgeConnection) = Ok (header 4 CURRENT_NETWORK_ID 7 1 @ [3])"
    by (simp add: serialize_Ok_iff message_new_def VERSION_def)
  have "serialize demo_net (message_new 9 Connect) = Ok (header 4 CURRENT_NETWORK_ID 9 1 @ [0])"
    by (simp add: serialize_Ok_iff message_new_def VERSION_def)
  moreover have "from_stream demo_net (header 4 CURRENT_NETWORK_ID 7 1 @ [3]) = (Ok (message_new 7 AcknowledgeConnection), [])"
    using from_stream_serialize [OF _ ack, of "[]"] demo_net_faithful(2) by simp
  ultimately show ?thesis
    by (simp add: make_peer_def demo_attempt_def create_peer_def demo_handle_def del: append_assoc)
qed

theorem discovery_connects_to_referred_peers_witness:
  "\<exists>new. auto_peer_round (try_connect [] (Some [V4 6])
        (dialled demo_net (\<lambda>a. if a = demo_peer_address then Some (demo_attempt, 9) else None)))
      0 (\<lambda>p. node_replies demo demo_handle demo_referrer 0 GetPeers)
      [(address demo_handle, demo_handle)] = (Ok ((address demo_handle, demo_handle) # new) :: (_, unit) result)
    \<and> fst ` set new = {demo_peer_address}"
proof -
  let ?ps = "[(address demo_handle, demo_handle)]"
  let ?dial = "\<lambda>a. if a = demo_peer_address then Some (demo_attempt, 9) else None"
  have dialled: "dialled demo_net ?dial a =
      (if a = demo_peer_address then Some (Ok (demo_handle\<lparr>address := demo_peer_address\<rparr>)) else None)" for a
    by (simp add: dialled_def demo_attempt_peer)
  have own: "demo_peer_address \<noteq> address demo_handle" "\<not> own_address [] [V4 6] (ip demo_peer_address)"
    by (simp_all add: demo_peer_address_def demo_handle_def own_address_def)
  have new: "{a \<in> set (take 24 (known_addresses (node_state (node demo_referrer)))). a \<notin> fst ` set ?ps
      \<and> \<not> own_address [] [V4 6] (ip a) \<and> (\<exists>h. dialled demo_net ?dial a = Some (Ok h))} = {demo_peer_address}"
    using own by (auto simp: dialled demo_referrer_knows)
  have "\<exists>new. auto_peer_round (try_connect [] (Some [V4 6]) (dialled demo_net ?dial)) 0
      (\<lambda>p. node_replies demo demo_handle demo_referrer 0 GetPeers) ?ps = (Ok (?ps @ new) :: (_, unit) result)
    \<and> outbound (?ps @ new) = outbound ?ps + length new \<and> length new \<le> 24 \<and> distinct (map fst new)
    \<and> fst ` set new = {demo_peer_address} \<and> (\<forall>(a, h) \<in> set new. dialled demo_net ?dial a = Some (Ok h))"
    unfolding new [symmetric]
    by (rule discovery_connects_to_referred_peers [where server = "\<lambda>_. demo_referrer" and p = demo_handle])
      (simp_all add: outbound_def TARGET_PEERS_def choose_peer_def dialled demo_handle_def)
  then obtain new where "auto_peer_round (try_connect [] (Some [V4 6]) (dialled demo_net ?dial)) 0
      (\<lambda>p. node_replies demo demo_handle demo_referrer 0 GetPeers) ?ps = (Ok (?ps @ new) :: (_, unit) result)" "fst ` set new = {demo_peer_address}"
    by (elim exE conjE) (rule that)
  then show ?thesis by (intro exI [of _ new]) simp
qed

section \<open>Reconnecting\<close>



text \<open>
  C36. When that seed is not a full node: the round panics, and the node no longer takes a block from any
  peer; it answers each as resolved and leaves its state as it is.
\<close>

theorem light_seed_ends_block_acceptance:
  assumes "connected_peers (node_state (node s)) = []" and "connect seed = Some (Ok peer)"
    and "and (flags peer) FULL_NODE_CAPABILITY \<noteq> FULL_NODE_CAPABILITY"
  shows "\<exists>n. reconnect_round (seed # seeds) connect (ibd_blockchain E full_ibd [peer] initial reply rounds) (node s) =
      (Some (Panic, n) :: (unit, 'e, FullNode) run option)
    \<and> handle_command E' now now' now'' sender \<lparr>version = v, message_id = i, command = NewBlock b\<rparr> (s\<lparr>node := n\<rparr>) =
        (Ok NewBlockResolved, s\<lparr>node := n\<rparr>)"
proof -
  obtain n where n: "reconnect_round (seed # seeds) connect (ibd_blockchain E full_ibd [peer] initial reply rounds) (node s) =
      (Some (Panic, n) :: (unit, 'e, FullNode) run option)" "is_syncing (node_state n)"
    using reconnect_to_light_seed [of "node s" connect seed peer, OF assms] by blast
  then show ?thesis by (intro exI [of _ n] conjI syncing_ignores_blocks) simp_all
qed

text \<open>A seed without capabilities.\<close>

theorem light_seed_ends_block_acceptance_witness:
  "\<exists>n. reconnect_round [address demo_handle] (\<lambda>_. Some (Ok (demo_handle\<lparr>flags := 0\<rparr>)))
      (ibd_blockchain demo False [demo_handle\<lparr>flags := 0\<rparr>] (\<lambda>_. Panic) (\<lambda>_ _ _. Panic) []) (node (serving demo_state)) =
      (Some (Panic, n) :: (unit, unit, FullNode) run option)
    \<and> handle_command demo_net 0 0 0 demo_handle \<lparr>version = 4, message_id = 1, command = NewBlock demo_block\<rparr>
        ((serving demo_state)\<lparr>node := n\<rparr>) = (Ok NewBlockResolved, (serving demo_state)\<lparr>node := n\<rparr>)"
  by (rule light_seed_ends_block_acceptance)
    (simp_all add: serving_def node_state_new_empty_def FULL_NODE_CAPABILITY_def)

end
