(* ===== verification/Startup.thy ===== *)
theory Startup
  imports Full_Node Light_Node
begin

text \<open>
  Creating nodes (\<open>create_full_node\<close> of \<open>full_node/mod.rs\<close>, \<open>create_light_node\<close> of \<open>light_node/mod.rs\<close>) on what is on
  the disk, and the address an API server listens on.  The path of the log file is an argument: \<open>None\<close> is a
  logger that could not be started, for instance because the process has another one.
\<close>

section \<open>Full nodes\<close>

definition path_join :: "string \<Rightarrow> string \<Rightarrow> string" where
  "path_join path name = (if path = [] \<or> last path = CHR ''/'' then path @ name else path @ ''/'' @ name)"

definition create_full_node ::
  "string option \<Rightarrow> string \<Rightarrow> disk \<Rightarrow> SocketAddr option \<Rightarrow> (FullNode \<times> string, 'e) result"
where
  "create_full_node logger_path node_path d advertised =
     (let state = node_state_new_empty advertised;
          bc = blockchain_new (path_join node_path ''blockchain'') d
      in bind_res (expect logger_path) (\<lambda>log_path.
           Ok (\<lparr>blockchain = bc, node_state = state, forwarded = []\<rparr>, log_path)))"

section \<open>Light nodes\<close>

text \<open>The database of a light node: the trees of its outputs, its transactions, and two entries.\<close>

record light_disk =
  disk_rows :: LightNodeUTXOs
  disk_transactions :: TransactionStore
  disk_height :: "usize option"
  disk_block_hashes :: "Hash list option"

definition light_node_state_open :: "light_disk \<Rightarrow> LightNodeState" where
  "light_node_state_open d =
     \<lparr>ln_utxos = disk_rows d, transaction_store = disk_transactions d, ln_connected_peers = [],
      ln_mempool = mempool_new, ln_client_health_scores = fmempty, ln_is_syncing = False,
      ln_transaction_difficulty = STARTING_BLOCK_DIFFICULTY, ln_last_seen_block = hash_new_from_buf 0,
      ln_last_seen_transactions = [], stored_height = disk_height d, stored_block_hashes = disk_block_hashes d,
      ln_forwarded = []\<rparr>"

definition create_light_node :: "string option \<Rightarrow> light_disk \<Rightarrow> (LightNodeState \<times> string, 'e) result" where
  "create_light_node logger_path d =
     (let state = light_node_state_open d in bind_res (expect logger_path) (\<lambda>log_path. Ok (state, log_path)))"

definition light_disk_of :: "LightNodeState \<Rightarrow> light_disk" where
  "light_disk_of s =
     \<lparr>disk_rows = ln_utxos s, disk_transactions = transaction_store s, disk_height = stored_height s,
      disk_block_hashes = stored_block_hashes s\<rparr>"

lemma light_node_state_open_empty:
  "light_node_state_open \<lparr>disk_rows = light_utxos_new, disk_transactions = fmempty, disk_height = None,
     disk_block_hashes = None\<rparr> = light_node_state_new"
  by (simp add: light_node_state_open_def light_node_state_new_def)

section \<open>Listening\<close>

text \<open>
  Where the API servers listen: \<open>binds\<close> is what the operating system makes of an address, the port it was
  bound to or an error.  A port that cannot be bound, or is none, is replaced by a free one.
\<close>

definition listen_on :: "(string \<Rightarrow> string + u16) \<Rightarrow> u32 \<Rightarrow> (u16, string) result" where
  "listen_on binds wanted =
     (case binds (''0.0.0.0:'' @ dec (unat wanted)) of
        Inr p \<Rightarrow> Ok p
      | Inl _ \<Rightarrow> (case binds ''0.0.0.0:0'' of Inr p \<Rightarrow> Ok p | Inl e \<Rightarrow> Err e))"

definition light_listen_on :: "(string \<Rightarrow> string + u16) \<Rightarrow> u32 \<Rightarrow> (u16, string) result" where
  "light_listen_on binds wanted = listen_on binds wanted"

lemma listening_fails_only_without_ports:
  "listen_on binds wanted = Err e \<longleftrightarrow> (\<exists>e'. binds (''0.0.0.0:'' @ dec (unat wanted)) = Inl e') \<and> binds ''0.0.0.0:0'' = Inl e"
  by (auto simp: listen_on_def split: sum.splits)

section \<open>Restarts\<close>

lemma restart_full_node:
  assumes "restartable (path_join node_path ''blockchain'') (blockchain n)"
  shows "create_full_node (Some file) node_path (disk_of (blockchain n)) advertised =
    Ok (\<lparr>blockchain = blockchain n, node_state = node_state_new_empty advertised, forwarded = []\<rparr>, file)"
  using restart_restartable [OF assms] by (simp add: create_full_node_def expect_def)

lemma restart_light_node:
  "create_light_node (Some file) (light_disk_of s) =
    Ok (s\<lparr>ln_connected_peers := [], ln_mempool := mempool_new, ln_client_health_scores := fmempty,
      ln_is_syncing := False, ln_transaction_difficulty := STARTING_BLOCK_DIFFICULTY,
      ln_last_seen_block := hash_new_from_buf 0, ln_last_seen_transactions := [], ln_forwarded := []\<rparr>, file)"
  by (simp add: create_light_node_def light_node_state_open_def light_disk_of_def expect_def)

end
