(* ===== verification/Startup_Properties.thy ===== *)
theory Startup_Properties
  imports Startup Node_Invariant Demo_Chain
begin

text \<open>
  The property of restarts of both kinds of node.
\<close>

text \<open>
  C4. A full node that is created on the disk of any chain reached from a new one, by any sequence of blocks
  added, refused and taken back, has exactly that chain, targets and outputs, and satisfies the invariant
  of a running node; its pool, peers and scores are empty.  A light node that is created again has its rows,
  transactions and height, but the starting transaction target.
\<close>

theorem restart_restores_nodes:
  assumes "(chain_step E)\<^sup>*\<^sup>* ([], fresh_chain (path_join node_path ''blockchain'')) (chain, blockchain n)"
  shows "\<exists>n'. create_full_node (Some file) node_path (disk_of (blockchain n)) advertised = (Ok (n', file) :: (_, 'e) result)
    \<and> blockchain n' = blockchain n \<and> node_state n' = node_state_new_empty advertised
    \<and> node_inv (overflow_checks E) n'
    \<and> create_light_node (Some file) (light_disk_of s) = (Ok (s\<lparr>ln_connected_peers := [], ln_mempool := mempool_new,
        ln_client_health_scores := fmempty, ln_is_syncing := False, ln_transaction_difficulty := STARTING_BLOCK_DIFFICULTY,
        ln_last_seen_block := hash_new_from_buf 0, ln_last_seen_transactions := [], ln_forwarded := []\<rparr>, file)
        :: (_, 'e) result)"
proof -
  let ?n = "\<lparr>blockchain = blockchain n, node_state = node_state_new_empty advertised, forwarded = []\<rparr>"
  have "create_full_node (Some file) node_path (disk_of (blockchain n)) advertised = (Ok (?n, file) :: (_, 'e) result)"
    by (rule restart_full_node) (rule reachable_restartable [OF assms])
  moreover have "node_inv (overflow_checks E) ?n"
    using reachable_inv [OF assms] mempool_inv_new recent_inv_new
    by (auto simp: node_inv_def node_state_new_empty_def)
  ultimately show ?thesis using restart_light_node by (intro exI [of _ ?n]) simp
qed

text \<open>A node that has one block.\<close>

definition demo_saved :: Blockchain where
  "demo_saved = snd (add_block demo demo_block False False (fresh_chain (path_join ''node'' ''blockchain'')))"

theorem restart_restores_nodes_witness:
  "\<exists>n'. create_full_node (Some ''log'') ''node'' (disk_of demo_saved) None = (Ok (n', ''log'') :: (_, unit) result)
    \<and> blockchain n' = demo_saved \<and> get_height (block_store demo_saved) = 1"
proof -
  let ?path = "path_join ''node'' ''blockchain''"
  have "chain_inv (overflow_checks demo) 0 [] (fresh_chain ?path)" by (rule fresh_chain_inv)
  from add_block_Ok [OF this demo_check_block_at demo_appendable]
  have added: "add_block demo demo_block False False (fresh_chain ?path) = (Ok (), demo_saved)"
    "chain_inv (overflow_checks demo) 0 ([] @ [(demo_block, block_diff (ledger_of_chain []) (transactions demo_block))]) demo_saved"
    by (auto simp: demo_saved_def)
  then have "get_height (block_store demo_saved) = 1"
    by (simp add: chain_inv_def store_represents_def get_height_def)
  moreover have "(chain_step demo)\<^sup>*\<^sup>* ([], fresh_chain ?path)
      ([] @ [(demo_block, block_diff (ledger_of_chain []) (transactions demo_block))], demo_saved)"
    using added(1) demo_appendable by (intro r_into_rtranclp chain_step.added)
  ultimately show ?thesis
    using restart_restores_nodes [of demo "''node''" _ "\<lparr>blockchain = demo_saved, node_state = node_state_new_empty None,
        forwarded = []\<rparr>" "''log''" None light_node_state_new, where ?'e = unit] by auto
qed

end
