(* ===== verification/Subscriptions.thy ===== *)
theory Subscriptions
  imports Client_Node Node_Invariant
begin

text \<open>
  Subscriptions to chain events: the broadcast channel of a node (\<open>full_node/node_state.rs\<close>), the loop of a
  connection that forwards what it receives (\<open>full_node/api_server.rs\<close>), and the client that listens
  (\<open>client.rs\<close>).  The channel keeps the last 64 events; a receiver that is behind by more gets an error.
\<close>

section \<open>The channel and its receivers\<close>

definition CHANNEL_CAPACITY :: nat where "CHANNEL_CAPACITY = 64"

text \<open>\<open>backlog\<close> is what was sent and not received yet, \<open>ended\<close> that receiving has failed.\<close>

record Subscriber =
  backlog :: "ChainEvent list"
  heard :: "ChainEvent list"
  ended :: bool

definition subscribe :: Subscriber where
  "subscribe = \<lparr>backlog = [], heard = [], ended = False\<rparr>"

definition receive :: "Subscriber \<Rightarrow> Subscriber" where
  "receive r =
     (if CHANNEL_CAPACITY < length (backlog r) then r\<lparr>ended := True\<rparr>
      else case backlog r of [] \<Rightarrow> r | e # es \<Rightarrow> r\<lparr>backlog := es, heard := heard r @ [e]\<rparr>)"

text \<open>The node and the connection take turns in any order.\<close>

inductive subscribed_step ::
  "'z chain_env_scheme \<Rightarrow> FullPeer \<times> Subscriber \<Rightarrow> FullPeer \<times> Subscriber \<Rightarrow> bool"
for E where
  sends: "node_step E s s' \<Longrightarrow> chain_events (node_state (node s')) = chain_events (node_state (node s)) @ new \<Longrightarrow>
    subscribed_step E (s, r) (s', r\<lparr>backlog := backlog r @ new\<rparr>)"
| receives: "\<not> ended r \<Longrightarrow> backlog r \<noteq> [] \<Longrightarrow> subscribed_step E (s, r) (s, receive r)"

inductive_cases subscribed_stepE: "subscribed_step E x x'"

section \<open>Events are only appended\<close>

lemma accept_block_events:
  "\<exists>new. chain_events (node_state (snd (accept_block E now now' b n))) = chain_events (node_state n) @ new"
  by (auto simp: accept_block_def on_chain_def Let_def bind_run_def split: result.splits if_splits prod.splits option.splits)

lemma accept_transaction_events:
  "\<exists>new. chain_events (node_state (snd (accept_transaction E now now' now'' tx n))) = chain_events (node_state n) @ new"
  by (auto simp: accept_transaction_def Let_def bind_run_def split: result.splits if_splits prod.splits option.splits)

lemma handle_command_events:
  "\<exists>new. chain_events (node_state (node (snd (handle_command E now now' now'' peer m s)))) =
    chain_events (node_state (node s)) @ new"
proof -
  have "chain_events (node_state (node (handle_ping p h s))) = chain_events (node_state (node s))" for p h
    by (simp add: handle_ping_def Let_def set_syncing_def)
  then show ?thesis
    using accept_block_events [of E now now' _ "node s"] accept_transaction_events [of E now now' now'' _ "node s"]
    by (cases "command m") (auto simp: handle_command_def Let_def)
qed

lemma expire_mempool_events:
  "\<exists>new. chain_events (node_state (expire_mempool now n)) = chain_events (node_state n) @ new"
proof -
  have "chain_events (fold (\<lambda>i. send_event (TransactionExpiration i)) ids s) =
      chain_events s @ map TransactionExpiration ids" for ids s
    by (induction ids arbitrary: s) simp_all
  then show ?thesis by (auto simp: expire_mempool_def split: prod.split)
qed

lemma handle_request_events:
  "\<exists>new. chain_events (node_state (snd (handle_request E clocks q n))) = chain_events (node_state n) @ new"
  using accept_block_events accept_transaction_events
  by (cases clocks; cases q) (simp_all add: status_response_node)

lemma node_step_events:
  assumes "node_step E s s'"
  shows "\<exists>new. chain_events (node_state (node s')) = chain_events (node_state (node s)) @ new"
  using assms
proof cases
  case (handled now now' now'' peer m r)
  then show ?thesis using handle_command_events [of E now now' now'' peer m s] by simp
next
  case (asked clocks q x n)
  then show ?thesis using handle_request_events [of E clocks q "node s"] by simp
next
  case (killed peer st)
  with peers_only(1) show ?thesis by fastforce
next
  case (connected net attempt random a r st)
  with peers_only(2) show ?thesis by fastforce
next
  case (accepted net a shutdown_ok stream random r st)
  with peers_only(3) show ?thesis by fastforce
next
  case (discovered reserved interfaces random' ask connect st)
  with peers_only(4) show ?thesis by fastforce
next
  case (caught_up b r'' n)
  with accept_synced_chain show ?thesis by fastforce
qed (use expire_mempool_events in \<open>auto simp: forgive_round_def set_syncing_def on_chain_eq\<close>)

section \<open>What a subscriber hears\<close>

lemma subscribed_step_events:
  assumes "subscribed_step E (s, r) (s', r')"
    and "chain_events (node_state (node s)) = before @ heard r @ backlog r"
    and "ended r \<Longrightarrow> CHANNEL_CAPACITY < length (backlog r)"
  shows "chain_events (node_state (node s')) = before @ heard r' @ backlog r'
    \<and> (ended r' \<longrightarrow> CHANNEL_CAPACITY < length (backlog r'))"
  using assms by (auto elim!: subscribed_stepE simp: receive_def split: list.splits if_splits)

lemma subscribed_events:
  assumes "(subscribed_step E)\<^sup>*\<^sup>* (s0, subscribe) (s, r)"
  shows "chain_events (node_state (node s)) = chain_events (node_state (node s0)) @ heard r @ backlog r
    \<and> (ended r \<longrightarrow> CHANNEL_CAPACITY < length (backlog r))"
  using assms
proof (induction "(s, r)" arbitrary: s r rule: rtranclp_induct)
  case base
  then show ?case by (simp add: subscribe_def)
next
  case (step y)
  obtain t q where "y = (t, q)" by (cases y)
  with step show ?case using subscribed_step_events by blast
qed

lemma subscribed_node_steps:
  assumes "(subscribed_step E)\<^sup>*\<^sup>* (s0, r0) (s, r)"
  shows "(node_step E)\<^sup>*\<^sup>* s0 s"
  using assms
proof (induction "(s, r)" arbitrary: s r rule: rtranclp_induct)
  case (step y)
  then show ?case by (auto elim!: subscribed_stepE intro: rtranclp.rtrancl_into_rtrancl)
qed simp

lemma backlog_is_received:
  assumes "\<not> ended r" and "length (backlog r) \<le> CHANNEL_CAPACITY"
  shows "(subscribed_step E)\<^sup>*\<^sup>* (s, r) (s, r\<lparr>backlog := [], heard := heard r @ backlog r\<rparr>)"
  using assms
proof (induction "backlog r" arbitrary: r)
  case Nil
  then have "r\<lparr>backlog := [], heard := heard r @ backlog r\<rparr> = r" by simp
  then show ?case by simp
next
  case (Cons e es)
  let ?r = "r\<lparr>backlog := es, heard := heard r @ [e]\<rparr>"
  have r: "receive r = ?r" using Cons.hyps(2) Cons.prems by (simp add: receive_def flip: Cons.hyps(2))
  have "subscribed_step E (s, r) (s, ?r)"
    using subscribed_step.receives [of r E s] Cons.prems(1) unfolding r by (simp flip: Cons.hyps(2))
  moreover have "(subscribed_step E)\<^sup>*\<^sup>* (s, ?r) (s, ?r\<lparr>backlog := [], heard := heard ?r @ backlog ?r\<rparr>)"
    using Cons.hyps(1) [of ?r] Cons.prems by (simp flip: Cons.hyps(2))
  ultimately have "(subscribed_step E)\<^sup>*\<^sup>* (s, r) (s, ?r\<lparr>backlog := [], heard := heard ?r @ backlog ?r\<rparr>)"
    by (rule converse_rtranclp_into_rtranclp)
  then show ?case by (simp flip: Cons.hyps(2))
qed

lemma listen_nothing: "fst (listen_events E []) = []"
  by (simp add: listen_events.simps response_decode_def read_frame_def read_bytes_def)

lemma written_events_are_heard:
  assumes "\<forall>e \<in> set es. json_response E (ChainEventR e)"
  shows "\<exists>out. write_events E es = (out, True) \<and> fst (listen_events E out) = es"
  using assms
proof (induction es)
  case Nil
  then show ?case by (simp add: listen_nothing)
next
  case (Cons e es)
  then obtain out where out: "write_events E es = (out, True)" "fst (listen_events E out) = es" by auto
  obtain bytes where b: "response_encode E (ChainEventR e) = Ok bytes"
    "response_decode E (bytes @ out) = (Ok (ChainEventR e), out)"
    using Cons.prems response_roundtrip by (metis list.set_intros(1))
  then have "fst (listen_events E (bytes @ out)) = e # es"
    using out(2) by (cases "listen_events E out") (simp add: listen_events.simps [of E "bytes @ out"])
  then show ?case using out(1) b(1) by simp
qed

text \<open>The connection of a client that subscribes, with what it writes to it.\<close>

lemma subscription_is_served:
  assumes "json_request E SubscribeToChainEventsQ" and "\<forall>e \<in> set es. json_response E (ChainEventR e)"
  shows "\<exists>bytes out. request_encode E SubscribeToChainEventsQ = Ok bytes
    \<and> connection E clock (\<lambda>_. es) k bytes n = (out, n) \<and> fst (listen_events E out) = es"
proof -
  obtain bytes where req: "request_encode E SubscribeToChainEventsQ = Ok bytes"
    "request_decode E (bytes @ []) = (Ok SubscribeToChainEventsQ, [])"
    using assms(1) request_roundtrip by metis
  obtain out where out: "write_events E es = (out, True)" "fst (listen_events E out) = es"
    using written_events_are_heard [OF assms(2)] by blast
  have "connection E clock (\<lambda>_. es) (k + 1) [] n = ([], n)"
    by (simp add: connection.simps read_nothing)
  then have "connection E clock (\<lambda>_. es) k bytes n = (out, n)"
    using req(2) out(1) by (simp add: connection.simps [of E clock _ k bytes])
  then show ?thesis using req(1) out(2) by blast
qed

end
