(* ===== verification/Subscription_Properties.thy ===== *)
theory Subscription_Properties
  imports Subscriptions Demo_Api
begin

text \<open>
  The property of subscriptions: from a running node through its channel, the connection and the bytes on
  it to the client.
\<close>

text \<open>
  C25. A client subscribes to a running node, and the steps of the node and of the connection interleave in
  any way: the events that the client decodes from the bytes are, in order and without a gap, the first of
  those that the node sent since; when the subscription has ended more than 64 more were sent, of which the
  client hears none, and while it has not, and no more than 64 are missing, turns of the connection alone
  bring all of them.
\<close>

theorem subscribers_hear_what_happens:
  assumes "(subscribed_step E)\<^sup>*\<^sup>* (s0, subscribe) (s, r)"
    and "json_request E SubscribeToChainEventsQ" and "\<forall>e \<in> set (heard r). json_response E (ChainEventR e)"
  shows "\<exists>missed bytes out. chain_events (node_state (node s)) = chain_events (node_state (node s0)) @ heard r @ missed
    \<and> request_encode E SubscribeToChainEventsQ = Ok bytes
    \<and> connection E clock (\<lambda>_. heard r) k bytes (node s) = (out, node s) \<and> fst (listen_events E out) = heard r
    \<and> (if ended r then 64 < length missed
       else length missed \<le> 64 \<longrightarrow> (\<exists>r'. (subscribed_step E)\<^sup>*\<^sup>* (s, r) (s, r') \<and> heard r' = heard r @ missed))"
proof -
  obtain bytes out where served: "request_encode E SubscribeToChainEventsQ = Ok bytes"
    "connection E clock (\<lambda>_. heard r) k bytes (node s) = (out, node s)" "fst (listen_events E out) = heard r"
    using subscription_is_served [OF assms(2,3)] by blast
  have events: "chain_events (node_state (node s)) = chain_events (node_state (node s0)) @ heard r @ backlog r"
    "ended r \<Longrightarrow> 64 < length (backlog r)"
    using subscribed_events [OF assms(1)] by (simp_all add: CHANNEL_CAPACITY_def)
  have "\<exists>r'. (subscribed_step E)\<^sup>*\<^sup>* (s, r) (s, r') \<and> heard r' = heard r @ backlog r"
    if "\<not> ended r" "length (backlog r) \<le> 64"
    using backlog_is_received [of r E s] that by (fastforce simp: CHANNEL_CAPACITY_def)
  with events served show ?thesis by (intro exI [of _ "backlog r"] exI [of _ bytes] exI [of _ out]) simp
qed

text \<open>A pending transaction expires.\<close>

definition demo_waiting :: FullPeer where
  "demo_waiting = \<lparr>node = \<lparr>blockchain = demo_state,
     node_state = (node_state_new_empty None)\<lparr>mempool := fmupd 1000 [demo_paid] fmempty\<rparr>, forwarded = []\<rparr>,
     sync_tasks = []\<rparr>"

definition demo_expiry :: ChainEvent where
  "demo_expiry = TransactionExpiration (demo_stamp 1200)"

lemma demo_waiting_expires:
  "chain_events (node_state (expire_mempool 1000 (node demo_waiting))) = [demo_expiry]"
proof -
  have "expired_keys 1000 (fmupd 1000 txs fmempty) = [1000]" for txs
    by (simp add: expired_keys_def sorted_list_of_fmap_def sorted_list_of_fset.rep_eq)
  then show ?thesis
    by (simp add: expire_mempool_def demo_waiting_def expire_transactions_def on_node_state_def
        node_state_new_empty_def demo_expiry_def demo_paid_def)
qed

theorem subscribers_hear_what_happens_witness:
  "\<exists>s r bytes out. (subscribed_step (demo_api [ChainEventR demo_expiry]))\<^sup>*\<^sup>* (demo_waiting, subscribe) (s, r)
    \<and> request_encode (demo_api [ChainEventR demo_expiry]) SubscribeToChainEventsQ = Ok bytes
    \<and> connection (demo_api [ChainEventR demo_expiry]) (\<lambda>_. (0, 0, 0)) (\<lambda>_. heard r) 0 bytes (node s) = (out, node s)
    \<and> fst (listen_events (demo_api [ChainEventR demo_expiry]) out) = [demo_expiry]"
proof -
  let ?E = "demo_api [ChainEventR demo_expiry]"
  define s where "s = demo_waiting\<lparr>node := expire_mempool 1000 (node demo_waiting)\<rparr>"
  define r where "r = subscribe\<lparr>backlog := [demo_expiry]\<rparr>"
  have "node_step ?E demo_waiting s" unfolding s_def by (rule node_step.expired)
  moreover have "chain_events (node_state (node s)) = chain_events (node_state (node demo_waiting)) @ [demo_expiry]"
    by (simp add: s_def demo_waiting_expires) (simp add: demo_waiting_def node_state_new_empty_def)
  ultimately have "subscribed_step ?E (demo_waiting, subscribe) (s, r)"
    using subscribed_step.sends [of ?E demo_waiting s "[demo_expiry]" subscribe] by (simp add: r_def subscribe_def)
  moreover have "subscribed_step ?E (s, r) (s, receive r)"
    by (rule subscribed_step.receives) (simp_all add: r_def subscribe_def)
  ultimately have run: "(subscribed_step ?E)\<^sup>*\<^sup>* (demo_waiting, subscribe) (s, receive r)" by simp
  have heard: "heard (receive r) = [demo_expiry]"
    by (simp add: receive_def r_def subscribe_def CHANNEL_CAPACITY_def)
  have "json_request ?E SubscribeToChainEventsQ"
    by (simp add: json_request_def get_put_subscription)
  moreover have "\<forall>e \<in> set (heard (receive r)). json_response ?E (ChainEventR e)"
    by (simp add: heard demo_api_response)
  ultimately obtain bytes out where "request_encode ?E SubscribeToChainEventsQ = Ok bytes"
    "connection ?E (\<lambda>_. (0, 0, 0)) (\<lambda>_. heard (receive r)) 0 bytes (node s) = (out, node s)"
    "fst (listen_events ?E out) = heard (receive r)"
    using subscribers_hear_what_happens [OF run, of "\<lambda>_. (0, 0, 0)" 0] by blast
  with run heard show ?thesis by (intro exI [of _ s] exI [of _ "receive r"]) auto
qed

end
