(* ===== verification/Peer_Behavior.thy ===== *)
theory Peer_Behavior
  imports Node_Invariant Light_Steps
begin

text \<open>
  \<open>node/peer_behavior.rs\<close>: the behaviour of a node as its connections see it, for both kinds of node, and
  a host that runs any number of connections at once.  The tasks of all connections interleave over the
  state of the one node.  A connection starts when its handshake succeeds; it is registered by the task
  that made it, later; when it has ended by an error, another task tells the behaviour, once.
\<close>

section \<open>The behaviours\<close>

text \<open>The readings of the clock that handling a message may take.\<close>

type_synonym clocks = "u64 \<times> u64 \<times> u64"

record 's PeerBehavior =
  behavior_on_message :: "clocks \<Rightarrow> Message \<Rightarrow> PeerHandle \<Rightarrow> 's \<Rightarrow> (Message, PeerError, 's) run"
  behavior_on_kill :: "PeerHandle \<Rightarrow> 's \<Rightarrow> (unit, PeerError, 's) run"
  behavior_get_height :: "'s \<Rightarrow> usize"

text \<open>Punishing as it goes: a panic leaves the scores as they are then.\<close>

primrec punish_run :: "bool \<Rightarrow> nat \<Rightarrow> IpAddr \<Rightarrow> ClientHealthScores \<Rightarrow> (unit, 'e, ClientHealthScores) run" where
  "punish_run chk 0 a scores = (Ok (), scores)"
| "punish_run chk (Suc n) a scores =
     (case punish_ip chk a scores of
        Ok scores' \<Rightarrow> punish_run chk n a scores'
      | Err e \<Rightarrow> (Err e, scores)
      | Panic \<Rightarrow> (Panic, scores))"

definition punish_killed :: "bool \<Rightarrow> IpAddr \<Rightarrow> ClientHealthScores \<Rightarrow> (unit, 'e, ClientHealthScores) run" where
  "punish_killed chk a scores =
     bind_run (punish_run chk 1 a scores) (\<lambda>_ scores.
       if BAN_SCORE_THRESHOLD < score_of a scores then punish_run chk 10 a scores else (Ok (), scores))"

definition full_on_kill :: "bool \<Rightarrow> PeerHandle \<Rightarrow> FullPeer \<Rightarrow> (unit, 'e, FullPeer) run" where
  "full_on_kill chk peer s =
     (let st = node_state (node s)
      in case punish_killed chk (ip (address peer)) (client_health_scores st) of (r, scores) \<Rightarrow>
        (r, s\<lparr>node := on_node_state (\<lambda>_. st
          \<lparr>connected_peers := List.filter (\<lambda>(a, _). a \<noteq> address peer) (connected_peers st),
           client_health_scores := scores\<rparr>) (node s)\<rparr>))"

definition light_behavior_on_kill :: "bool \<Rightarrow> PeerHandle \<Rightarrow> LightPeer \<Rightarrow> (unit, 'e, LightPeer) run" where
  "light_behavior_on_kill chk peer s =
     (case punish_killed chk (ip (address peer)) (ln_client_health_scores (light s)) of (r, scores) \<Rightarrow>
        (r, s\<lparr>light := (light s)
          \<lparr>ln_connected_peers := List.filter (\<lambda>(a, _). a \<noteq> address peer) (ln_connected_peers (light s)),
           ln_client_health_scores := scores\<rparr>\<rparr>))"

definition full_behavior :: "'z chain_env_scheme \<Rightarrow> FullPeer PeerBehavior" where
  "full_behavior E =
     \<lparr>behavior_on_message = (\<lambda>(now, now', now'') m peer. on_message E now now' now'' peer m),
      behavior_on_kill = full_on_kill (overflow_checks E), behavior_get_height = full_get_height\<rparr>"

text \<open>A light node's handlers return, so \<open>the\<close> is of what there is.\<close>

definition light_behavior :: "'z block_env_scheme \<Rightarrow> string \<Rightarrow> LightPeer PeerBehavior" where
  "light_behavior E ed25519_text =
     \<lparr>behavior_on_message = (\<lambda>(now, now', now'') m peer s. the (light_on_message E ed25519_text now now' now'' peer m s)),
      behavior_on_kill = light_behavior_on_kill (overflow_checks E), behavior_get_height = light_behavior_get_height\<rparr>"

lemma light_on_message_returns: "light_on_message E ed25519_text now now' now'' peer m s \<noteq> None"
proof -
  have "light_accept_block E False b is_historical n \<noteq> None" for b is_historical n
    by (auto simp: light_accept_block_def bind_light_def split: result.splits option.splits)
  then have "light_handle_command E ed25519_text now now' now'' peer m s \<noteq> None"
    by (cases "command m") (simp_all add: light_handle_command_def Let_def light_resolved_def)
  then show ?thesis by (simp add: light_on_message_def)
qed

text \<open>The two forms of \<open>on_kill\<close> agree.\<close>

lemma punish_run_Ok:
  "punish_times chk n a scores = (Ok t :: (_, 'e) result) \<longleftrightarrow> punish_run chk n a scores = (Ok () :: (_, 'e) result, t)"
  by (induction n arbitrary: scores) (auto simp: res_simps split: result.split)

lemma punish_killed_Ok:
  "punish_on_kill chk a scores = (Ok t :: (_, 'e) result) \<longleftrightarrow> punish_killed chk a scores = (Ok () :: (_, 'e) result, t)"
proof -
  have one: "punish_run chk 1 a scores = (case punish_ip chk a scores of
      Ok s \<Rightarrow> (Ok (), s) | Err e \<Rightarrow> (Err e, scores) | Panic \<Rightarrow> (Panic :: (_, 'e) result, scores))"
    by (simp split: result.split)
  show ?thesis
    unfolding punish_on_kill_def punish_killed_def one
    by (cases "punish_ip chk a scores :: (_, 'e) result") (simp_all add: bind_run_def punish_run_Ok)
qed

lemma full_on_kill_Ok:
  "on_kill chk peer (node_state (node s)) = (Ok t :: (_, 'e) result)
     \<longleftrightarrow> full_on_kill chk peer s = (Ok () :: (_, 'e) result, s\<lparr>node := on_node_state (\<lambda>_. t) (node s)\<rparr>)"
proof -
  obtain r scores where k: "punish_killed chk (ip (address peer)) (client_health_scores (node_state (node s))) =
      (r :: (unit, 'e) result, scores)" by force
  have inj: "s\<lparr>node := on_node_state (\<lambda>_. t) (node s)\<rparr> = s\<lparr>node := on_node_state (\<lambda>_. u) (node s)\<rparr> \<longleftrightarrow> t = u" for t u
    by (metis FullPeer.select_convs(1) FullPeer.surjective FullPeer.update_convs(1) node_simps(2))
  show ?thesis
    using punish_killed_Ok [of chk "ip (address peer)" "client_health_scores (node_state (node s))", where ?'e = 'e] k
    by (auto simp: on_kill_def full_on_kill_def Let_def res_simps inj)
qed

section \<open>A host of many connections\<close>

text \<open>\<open>told\<close>: the behaviour has been told that the connection is gone.\<close>

record PeerTask =
  task_handle :: PeerHandle
  task_connection :: Connection
  task_told :: bool

record 's Host =
  host_node :: 's
  host_tasks :: "PeerTask list"

text \<open>
  \<open>others\<close> are the steps of the node's other tasks, registering a connection among them.  A message that
  changes the node has to be \<open>admissible\<close>, which a theorem about all hosts can leave open.
\<close>

inductive host_step ::
  "'z message_env_scheme \<Rightarrow> 's PeerBehavior \<Rightarrow> (Message \<Rightarrow> 's \<Rightarrow> bool) \<Rightarrow> ('s \<Rightarrow> 's \<Rightarrow> bool) \<Rightarrow> 's Host \<Rightarrow> 's Host \<Rightarrow> bool"
for E B admissible others where
  opened: "create_peer E peer_addr writable random client stream = (bytes, Ok peer, rest) \<Longrightarrow>
    host_step E B admissible others h (h\<lparr>host_tasks := host_tasks h @
      [\<lparr>task_handle = peer, task_connection = connection_new rest, task_told = False\<rparr>]\<rparr>)"
| turn: "i < length (host_tasks h) \<Longrightarrow> t = host_tasks h ! i \<Longrightarrow>
    task_step E (behavior_get_height B) (\<lambda>m. behavior_on_message B clocks m (task_handle t))
      (host_node h, task_connection t) (s', p') \<Longrightarrow>
    (\<And>m rest. s' \<noteq> host_node h \<Longrightarrow> from_stream E (arrived (task_connection t)) = (Ok m, rest) \<Longrightarrow>
      admissible m (host_node h)) \<Longrightarrow>
    host_step E B admissible others h
      \<lparr>host_node = s', host_tasks = (host_tasks h)[i := t\<lparr>task_connection := p'\<rparr>]\<rparr>"
| arrives: "i < length (host_tasks h) \<Longrightarrow> t = host_tasks h ! i \<Longrightarrow> \<not> stream_closed (task_connection t) \<Longrightarrow>
    host_step E B admissible others h (h\<lparr>host_tasks := (host_tasks h)[i := t\<lparr>task_connection :=
      (task_connection t)\<lparr>arrived := arrived (task_connection t) @ bytes\<rparr>\<rparr>]\<rparr>)"
| closes: "i < length (host_tasks h) \<Longrightarrow> t = host_tasks h ! i \<Longrightarrow>
    host_step E B admissible others h (h\<lparr>host_tasks := (host_tasks h)[i := t\<lparr>task_connection :=
      (task_connection t)\<lparr>stream_closed := True\<rparr>\<rparr>]\<rparr>)"
| told: "i < length (host_tasks h) \<Longrightarrow> t = host_tasks h ! i \<Longrightarrow> ending (task_connection t) = Some (Err e) \<Longrightarrow>
    \<not> task_told t \<Longrightarrow> behavior_on_kill B (task_handle t) (host_node h) = (r, s') \<Longrightarrow>
    host_step E B admissible others h
      \<lparr>host_node = s', host_tasks = (host_tasks h)[i := t\<lparr>task_told := True\<rparr>]\<rparr>"
| elsewhere: "others (host_node h) s' \<Longrightarrow> host_step E B admissible others h (h\<lparr>host_node := s'\<rparr>)"

inductive_cases host_stepE: "host_step E B admissible others h h'"

definition host_new :: "'s \<Rightarrow> 's Host" where
  "host_new s = \<lparr>host_node = s, host_tasks = []\<rparr>"

definition task_inv :: "PeerTask \<Rightarrow> bool" where
  "task_inv t \<longleftrightarrow> connection_inv (task_connection t)
     \<and> (task_told t \<longrightarrow> (\<exists>e. ending (task_connection t) = Some (Err e)))"

definition host_inv :: "('s \<Rightarrow> bool) \<Rightarrow> 's Host \<Rightarrow> bool" where
  "host_inv I h \<longleftrightarrow> I (host_node h) \<and> (\<forall>t \<in> set (host_tasks h). task_inv t)"

text \<open>Nothing happens to a connection that has ended, and only the reader touches the node.\<close>

lemma task_step_ended:
  assumes "task_step E height handler (s, p) (s', p')" and "ending p = Some r"
  shows "ending p' = Some r"
  using assms
  by cases (auto simp: send_request_def send_message_def kill_def request_timed_out_def bind_run_def
      split: if_splits)

lemma task_step_node:
  assumes "task_step E height handler (s, p) (s', p')"
  shows "s' = s \<or> (\<exists>m r rest. from_stream E (arrived p) = (Ok m, rest) \<and> handler m s = (r, s'))"
  using assms
proof cases
  case reads
  then show ?thesis
    by (auto simp: reader_turn_def split: prod.splits result.splits option.splits)
qed simp_all

locale peer_host =
  fixes E :: "'z message_env_scheme" and B :: "'s PeerBehavior"
    and admissible :: "Message \<Rightarrow> 's \<Rightarrow> bool" and others :: "'s \<Rightarrow> 's \<Rightarrow> bool" and I :: "'s \<Rightarrow> bool"
  assumes message_keeps:
      "I s \<Longrightarrow> admissible m s \<Longrightarrow> behavior_on_message B clocks m peer s = (r, s') \<Longrightarrow> I s'"
    and kill_keeps: "I s \<Longrightarrow> behavior_on_kill B peer s = (r', s') \<Longrightarrow> I s'"
    and others_keep: "I s \<Longrightarrow> others s s' \<Longrightarrow> I s'"
begin

lemma turn_keeps:
  assumes "task_step E (behavior_get_height B) (\<lambda>m. behavior_on_message B clocks m peer) (s, p) (s', p')"
    and "\<And>m rest. s' \<noteq> s \<Longrightarrow> from_stream E (arrived p) = (Ok m, rest) \<Longrightarrow> admissible m s" and "I s"
  shows "I s'"
proof (cases "s' = s")
  case False
  with task_step_node [OF assms(1)] obtain m r rest where
    "from_stream E (arrived p) = (Ok m, rest)" "behavior_on_message B clocks m peer s = (r, s')" by blast
  with message_keeps assms(2,3) False show ?thesis by blast
qed (use assms(3) in simp)

lemma host_step_inv:
  assumes "host_step E B admissible others h h'" and inv: "host_inv I h"
  shows "host_inv I h'"
proof -
  have node: "I (host_node h)" and tasks: "\<And>t. t \<in> set (host_tasks h) \<Longrightarrow> task_inv t"
    using inv by (auto simp: host_inv_def)
  have update: "host_inv I \<lparr>host_node = s, host_tasks = (host_tasks h)[i := t]\<rparr>" if "I s" "task_inv t" for s i t
    using that tasks set_update_subset_insert [of "host_tasks h" i t] by (auto simp: host_inv_def)
  have update': "host_inv I (h\<lparr>host_tasks := (host_tasks h)[i := t]\<rparr>)" if "task_inv t" for i t
    using that node tasks set_update_subset_insert [of "host_tasks h" i t] by (auto simp: host_inv_def)
  have cong: "connection_inv (p\<lparr>arrived := x\<rparr>)" "connection_inv (p\<lparr>stream_closed := y\<rparr>)"
    if "connection_inv p" for p x y
    by (rule connection_inv_cong [OF that]; simp)+
  show ?thesis
    using assms(1)
  proof cases
    case (opened peer_addr writable random client stream bytes peer rest)
    then show ?thesis using node tasks by (auto simp: host_inv_def task_inv_def connection_inv_new)
  next
    case (turn i t clocks s' p')
    have t: "task_inv t" using turn(2,3) tasks by simp
    then have "connection_inv p'" using task_step_inv [OF turn(4)] by (simp add: task_inv_def)
    moreover have "I s'" by (rule turn_keeps [OF turn(4) _ node]) (rule turn(5))
    ultimately show ?thesis
      using t task_step_ended [OF turn(4)] turn(1) by (auto intro!: update simp: task_inv_def)
  next
    case (arrives i t bytes)
    then have "task_inv t" using tasks by simp
    then show ?thesis using arrives(1) cong by (auto intro!: update' simp: task_inv_def)
  next
    case (closes i t)
    then have "task_inv t" using tasks by simp
    then show ?thesis using closes(1) cong by (auto intro!: update' simp: task_inv_def)
  next
    case (told i t e r s')
    then have "task_inv t" using tasks by simp
    then show ?thesis using told kill_keeps [OF node told(6)] by (auto intro!: update simp: task_inv_def)
  next
    case (elsewhere s')
    then show ?thesis using others_keep [OF node] tasks by (simp add: host_inv_def)
  qed
qed

lemma reachable_host_inv:
  assumes "(host_step E B admissible others)\<^sup>*\<^sup>* (host_new s) h" and "I s"
  shows "host_inv I h"
  using assms(1)
proof (induction rule: rtranclp_induct)
  case base
  show ?case using assms(2) by (simp add: host_inv_def host_new_def)
next
  case (step y z)
  then show ?case using host_step_inv by blast
qed

end


section \<open>The full node as a host\<close>

text \<open>The addresses under which peers are registered; no task of the node but \<open>on_kill\<close> takes one away.\<close>

definition registered :: "FullPeer \<Rightarrow> SocketAddr set" where
  "registered s = fst ` set (connected_peers (node_state (node s)))"

definition own_step :: "'z chain_env_scheme \<Rightarrow> FullPeer \<Rightarrow> FullPeer \<Rightarrow> bool" where
  "own_step E s s' \<longleftrightarrow> node_step E s s' \<and> registered s \<subseteq> registered s'"

lemma on_message_node:
  "snd (on_message E now now' now'' peer m s) = snd (handle_command E now now' now'' peer m s)"
  by (cases "handle_command E now now' now'' peer m s"; cases "fst (handle_command E now now' now'' peer m s)")
    (auto simp: on_message_def bind_run_def)

lemma full_on_kill_inv:
  assumes "full_on_kill chk peer s = (r, s')" and "node_inv chk' (node s)"
  shows "node_inv chk' (node s')"
  using assms(1) by (intro node_inv_cong [OF assms(2)]) (auto simp: full_on_kill_def Let_def split: prod.splits)

interpretation full_host: peer_host E "full_behavior E"
  "\<lambda>m s. offered_blocks_append E m (blockchain (node s))" "own_step E" "\<lambda>s. node_inv (overflow_checks E) (node s)"
  for E
proof (unfold_locales, goal_cases)
  case (1 s m clocks peer r s')
  obtain now now' now'' where c: "clocks = (now, now', now'')" by (cases clocks)
  with 1(3) have "s' = snd (on_message E now now' now'' peer m s)" by (simp add: full_behavior_def)
  then show ?case unfolding on_message_node using handle_command_inv [OF 1(1,2)] by simp
next
  case (2 s peer r' s')
  then show ?case using full_on_kill_inv by (simp add: full_behavior_def)
next
  case (3 s s')
  then show ?case using node_step_inv by (auto simp: own_step_def)
qed

section \<open>The light node as a host\<close>

text \<open>The hashes that \<open>accept_block\<close> compares with are never stored.\<close>

interpretation light_host: peer_host E "light_behavior E ed25519_text" "\<lambda>_ _. True" "light_step E"
  "\<lambda>s. stored_block_hashes (light s) = None"
  for E ed25519_text
proof (unfold_locales, goal_cases)
  case (1 s m clocks peer r s')
  obtain now now' now'' where c: "clocks = (now, now', now'')" by (cases clocks)
  obtain x where x: "light_handle_command E ed25519_text now now' now'' peer m s = Some x"
    and "(r, s') = bind_run x (\<lambda>c s. (Ok (make_response m c), s))"
    using 1(3) light_on_message_returns [of E ed25519_text now now' now'' peer m s]
    by (auto simp: light_behavior_def c light_on_message_def)
  then have "x = (fst x, s')"
    by (cases x; cases "fst x") (auto simp: bind_run_def)
  with x light_handle_command_hashes 1(1) show ?case by metis
next
  case (2 s peer r' s')
  then show ?case by (auto simp: light_behavior_def light_behavior_on_kill_def split: prod.splits)
next
  case (3 s s')
  then show ?case by (simp add: light_step_hashes)
qed

section \<open>Connections that nobody tells of\<close>

text \<open>A connection that ended by a panic, or whose end was told, is not told again.\<close>

definition dead_task :: "PeerTask \<Rightarrow> bool" where
  "dead_task t \<longleftrightarrow> ending (task_connection t) = Some Panic \<or> task_told t"

definition address_used_once :: "nat \<Rightarrow> 's Host \<Rightarrow> bool" where
  "address_used_once i h \<longleftrightarrow>
     (\<forall>j < length (host_tasks h). address (task_handle (host_tasks h ! j)) = address (task_handle (host_tasks h ! i)) \<longrightarrow> j = i)"

lemma host_step_tasks:
  assumes "host_step E B admissible others h h'" and "i < length (host_tasks h)"
  shows "i < length (host_tasks h')" and "task_handle (host_tasks h' ! i) = task_handle (host_tasks h ! i)"
    and "dead_task (host_tasks h ! i) \<Longrightarrow> dead_task (host_tasks h' ! i)"
proof -
  show "i < length (host_tasks h')" using assms by cases auto
  show "task_handle (host_tasks h' ! i) = task_handle (host_tasks h ! i)"
    using assms by cases (auto simp: nth_append nth_list_update)
  show "dead_task (host_tasks h ! i) \<Longrightarrow> dead_task (host_tasks h' ! i)"
    using assms
  proof cases
    case (turn j t clocks s' p')
    then show "dead_task (host_tasks h ! i) \<Longrightarrow> ?thesis"
      using assms(2) task_step_ended [OF turn(4)] by (auto simp: nth_list_update dead_task_def)
  qed (use assms(2) in \<open>auto simp: nth_append nth_list_update dead_task_def\<close>)
qed

lemma registered_kill:
  assumes "full_on_kill chk peer s = (r, s')" and "a \<in> registered s" and "a \<noteq> address peer"
  shows "a \<in> registered s'"
  using assms by (force simp: full_on_kill_def Let_def registered_def split: prod.splits)

lemma registered_told:
  assumes "full_on_kill chk peer s = (r, s')"
  shows "address peer \<notin> registered s'"
  using assms by (auto simp: full_on_kill_def Let_def registered_def split: prod.splits)

text \<open>Handling a message leaves the peers alone.\<close>

abbreviation peers_of :: "FullNode \<Rightarrow> (SocketAddr \<times> PeerHandle) list" where
  "peers_of n \<equiv> connected_peers (node_state n)"

lemma bind_run_keeps:
  assumes "g (snd r) = x" and "\<And>a s. g s = x \<Longrightarrow> g (snd (f a s)) = x"
  shows "g (snd (bind_run r f)) = x"
  using assms by (cases r; cases "fst r") (auto simp: bind_run_def)

lemma accept_block_peers: "peers_of (snd (accept_block E now now' b n)) = peers_of n"
  unfolding accept_block_def
  by (intro bind_run_keeps [where g = peers_of])
    (auto intro!: bind_run_keeps [where g = peers_of] simp: set_last_seen_block_def on_chain_eq send_event_def on_mempool_def)

lemma accept_transaction_peers: "peers_of (snd (accept_transaction E now now' now'' tx n)) = peers_of n"
  unfolding accept_transaction_def Let_def
  by (intro bind_run_keeps [where g = peers_of])
    (auto intro!: bind_run_keeps [where g = peers_of]
      simp: add_last_seen_transaction_def send_event_def on_mempool_def split: result.split)

lemma handle_command_peers:
  "peers_of (node (snd (handle_command E now now' now'' peer m s))) = peers_of (node s)"
  by (cases "command m")
    (simp_all add: handle_command_def Let_def handle_ping_def set_syncing_def accept_block_peers
      accept_transaction_peers)

lemma registered_message: "registered (snd (on_message E now now' now'' peer m s)) = registered s"
  unfolding registered_def on_message_node handle_command_peers ..

lemma registered_step:
  assumes "host_step E (full_behavior E) admissible (own_step E) h h'"
    and i: "i < length (host_tasks h)" and dead: "dead_task (host_tasks h ! i)" "address_used_once i h"
    and a: "address (task_handle (host_tasks h ! i)) \<in> registered (host_node h)"
  shows "address (task_handle (host_tasks h ! i)) \<in> registered (host_node h')"
  using assms(1)
proof cases
  case (turn j t clocks s' p')
  obtain now now' now'' where "clocks = (now, now', now'')" by (cases clocks)
  with task_step_node [OF turn(4)] have "s' = host_node h
      \<or> (\<exists>m. s' = snd (on_message E now now' now'' (task_handle t) m (host_node h)))"
    by (auto simp: full_behavior_def dest!: arg_cong [where f = snd])
  with a turn(1) show ?thesis by (auto simp: registered_message)
next
  case (told j t e r s')
  have "j \<noteq> i" using dead(1) told(3-5) by (auto simp: dead_task_def)
  then have "address (task_handle (host_tasks h ! i)) \<noteq> address (task_handle t)"
    using dead(2) told(2,3) by (auto simp: address_used_once_def)
  with told a show ?thesis by (auto simp: full_behavior_def intro: registered_kill)
next
  case elsewhere
  with a show ?thesis by (auto simp: own_step_def)
qed (use a in simp_all)

lemma host_steps_tasks:
  assumes "(host_step E B admissible others)\<^sup>*\<^sup>* h h'" and "i < length (host_tasks h)"
  shows "i < length (host_tasks h') \<and> task_handle (host_tasks h' ! i) = task_handle (host_tasks h ! i)
    \<and> (dead_task (host_tasks h ! i) \<longrightarrow> dead_task (host_tasks h' ! i))"
  using assms(1)
proof (induction rule: rtranclp_induct)
  case (step y z)
  then show ?case using host_step_tasks [OF step.hyps(2)] by metis
qed (use assms(2) in simp)

lemma address_used_once_step:
  assumes "host_step E B admissible others h h'" and "i < length (host_tasks h)" and "address_used_once i h'"
  shows "address_used_once i h"
  using assms(2,3) host_step_tasks(1,2) [OF assms(1)] by (metis address_used_once_def)

lemma registered_reachable:
  assumes run: "(host_step E (full_behavior E) admissible (own_step E))\<^sup>*\<^sup>* h h'"
    and i: "i < length (host_tasks h)" and dead: "dead_task (host_tasks h ! i)" and once: "address_used_once i h'"
    and a: "address (task_handle (host_tasks h ! i)) \<in> registered (host_node h)"
  shows "address (task_handle (host_tasks h ! i)) \<in> registered (host_node h')"
  using run once
proof (induction rule: rtranclp_induct)
  case (step y z)
  note y = host_steps_tasks [OF step.hyps(1) i]
  then have "address_used_once i y" using address_used_once_step [OF step.hyps(2)] step.prems by blast
  with registered_step [OF step.hyps(2)] y step.IH dead show ?case by metis
qed (rule a)

end
