(* ===== verification/Host_Properties.thy ===== *)
theory Host_Properties
  imports Peer_Behavior Node_Properties Connection_Properties
begin

text \<open>
  The properties of a host: a full node with any number of connections, whose tasks interleave.
\<close>

section \<open>A concrete host\<close>







section \<open>Every reachable state\<close>






section \<open>Peers that are gone\<close>



end
