(* ===== verification/Api_Server.thy ===== *)
theory Api_Server
  imports Node_Invariant Requests
begin

text \<open>
  The server for clients (\<open>full_node/api_server.rs\<close>): a full node with any number of clients, whose connections
  are tasks of their own and take turns.  A turn is one pass of the loop in \<open>connection\<close>, so the loop of
  \<open>Full_Api\<close> is the turns of a client that is alone.  A client that fails to connect is only logged.
\<close>

section \<open>Clients\<close>

record ApiClient =
  unread :: "u8 list"
  answered :: "u8 list"
  gone :: bool

definition api_client :: ApiClient where
  "api_client = \<lparr>unread = [], answered = [], gone = False\<rparr>"

definition api_turn ::
  "'z request_env_scheme \<Rightarrow> u64 \<times> u64 \<times> u64 \<Rightarrow> ChainEvent list \<Rightarrow> ApiClient \<Rightarrow> FullNode \<Rightarrow> ApiClient \<times> FullNode"
where
  "api_turn E now events c n =
     (case request_decode E (unread c) of
        (Ok r, rest) \<Rightarrow>
          (let c = c\<lparr>unread := rest\<rparr>
           in if r = SubscribeToChainEventsQ
              then case write_events E events of (out, go_on) \<Rightarrow>
                (c\<lparr>answered := answered c @ out, gone := \<not> go_on\<rparr>, n)
              else case handle_request E now r n of
                (Ok answer, n) \<Rightarrow>
                  (case response_encode E answer of
                     Ok bytes \<Rightarrow> (c\<lparr>answered := answered c @ bytes\<rparr>, n)
                   | _ \<Rightarrow> (c\<lparr>gone := True\<rparr>, n))
              | (_, n) \<Rightarrow> (c\<lparr>gone := True\<rparr>, n))
      | (_, rest) \<Rightarrow> (c\<lparr>unread := rest, gone := True\<rparr>, n))"

text \<open>A client that is served alone, until it is gone.\<close>

primrec api_turns ::
  "nat \<Rightarrow> 'z request_env_scheme \<Rightarrow> (nat \<Rightarrow> u64 \<times> u64 \<times> u64) \<Rightarrow> (nat \<Rightarrow> ChainEvent list) \<Rightarrow> nat
     \<Rightarrow> ApiClient \<Rightarrow> FullNode \<Rightarrow> ApiClient \<times> FullNode"
where
  "api_turns 0 E clock events k c n = (c, n)"
| "api_turns (Suc m) E clock events k c n =
     (if gone c then (c, n)
      else case api_turn E (clock k) (events k) c n of (c, n) \<Rightarrow> api_turns m E clock events (k + 1) c n)"

lemma api_turns_gone [simp]: "gone c \<Longrightarrow> api_turns m E clock events k c n = (c, n)"
  by (cases m) simp_all

text \<open>As many turns as there are bytes are enough.\<close>

lemma connection_is_turns:
  assumes "\<not> gone c" and "length (unread c) < m"
  shows "\<exists>c'. api_turns m E clock events k c n = (c', snd (connection E clock events k (unread c) n))
    \<and> gone c' \<and> answered c' = answered c @ fst (connection E clock events k (unread c) n)"
  using assms
proof (induction m arbitrary: c k n)
  case (Suc m)
  obtain q rest where q: "request_decode E (unread c) = (q, rest)" by force
  show ?case
  proof (cases q)
    case (Ok r)
    have "length rest < length (unread c)" using q Ok by (auto dest: request_decode_shorter)
    then have fits: "length rest < m" using Suc.prems(2) by simp
    have go_on: "\<exists>c'. api_turns m E clock events (Suc k) (c\<lparr>unread := rest, answered := answered c @ out\<rparr>) n' =
          (c', snd (connection E clock events (Suc k) rest n'))
        \<and> gone c' \<and> answered c' = answered c @ out @ fst (connection E clock events (Suc k) rest n')" for out n'
      using Suc.IH [of "c\<lparr>unread := rest, answered := answered c @ out\<rparr>" "Suc k" n'] fits Suc.prems(1) by simp
    show ?thesis
    proof (cases "r = SubscribeToChainEventsQ")
      case True
      obtain out again where w: "write_events E (events k) = (out, again)" by force
      let ?c = "c\<lparr>unread := rest, answered := answered c @ out, gone := False\<rparr>"
      have "\<exists>c'. api_turns m E clock events (Suc k) ?c n = (c', snd (connection E clock events (Suc k) rest n))
          \<and> gone c' \<and> answered c' = answered c @ out @ fst (connection E clock events (Suc k) rest n)"
        using Suc.IH [of ?c "Suc k" n] fits by simp
      then show ?thesis
        using Suc.prems(1) q Ok True w
        by (cases again; subst (1 2) connection.simps)
          (auto simp: api_turn_def Let_def split: prod.splits)
    next
      case False
      then show ?thesis
        using Suc.prems(1) q Ok
        by (subst (1 2) connection.simps)
          (auto simp: api_turn_def Let_def split: prod.splits result.splits, metis go_on fst_conv snd_conv)
    qed
  qed (use Suc.prems(1) q in \<open>simp_all add: api_turn_def connection.simps\<close>)
qed simp

section \<open>Many clients\<close>

inductive api_step ::
  "'z request_env_scheme \<Rightarrow> FullPeer \<times> ApiClient list \<Rightarrow> FullPeer \<times> ApiClient list \<Rightarrow> bool"
for E where
  accepts: "api_step E (s, cs) (s, cs @ [api_client])"
| arrives: "i < length cs \<Longrightarrow> api_step E (s, cs) (s, cs[i := (cs ! i)\<lparr>unread := unread (cs ! i) @ bytes\<rparr>])"
| serves: "i < length cs \<Longrightarrow> \<not> gone (cs ! i) \<Longrightarrow> api_turn E now events (cs ! i) (node s) = (c, n) \<Longrightarrow>
    \<forall>b. fst (request_decode E (unread (cs ! i))) = Ok (NewBlockQ b) \<longrightarrow> block_appends E b (blockchain (node s)) \<Longrightarrow>
    api_step E (s, cs) (s\<lparr>node := n\<rparr>, cs[i := c])"
| elsewhere: "node_step E s s' \<Longrightarrow> api_step E (s, cs) (s', cs)"

inductive_cases api_stepE: "api_step E x x'"

text \<open>Whatever clients do is a step of the node, or nothing to it: what holds of nodes holds with clients.\<close>

lemma api_turn_node:
  assumes "api_turn E now events c n = (c', n')"
  shows "n' = n \<or> (\<exists>r x. fst (request_decode E (unread c)) = Ok r \<and> handle_request E now r n = (x, n'))"
  using assms by (auto simp: api_turn_def Let_def split: prod.splits result.splits if_splits)

lemma api_step_node:
  assumes "api_step E (s, cs) (s', cs')"
  shows "s' = s \<or> node_step E s s'"
  using assms
proof cases
  case (serves i now events c n)
  from api_turn_node [OF serves(5)] show ?thesis
  proof
    assume "\<exists>r x. fst (request_decode E (unread (cs ! i))) = Ok r \<and> handle_request E now r (node s) = (x, n)"
    then obtain r x where r: "fst (request_decode E (unread (cs ! i))) = Ok r" "handle_request E now r (node s) = (x, n)"
      by blast
    then have "node_step E s (s\<lparr>node := n\<rparr>)" using serves(6) by (intro node_step.asked [OF r(2)]) auto
    with serves(1) show ?thesis by simp
  qed (use serves(1) in simp)
qed auto

lemma api_reachable:
  assumes "(api_step E)\<^sup>*\<^sup>* (s, cs) (s', cs')"
  shows "(node_step E)\<^sup>*\<^sup>* s s'"
  using assms
proof (induction rule: rtranclp_induct2)
  case (step s1 cs1 s2 cs2)
  then show ?case using api_step_node by (metis rtranclp.rtrancl_into_rtrancl)
qed simp

end
