(* ===== verification/Source_Tests.thy ===== *)
theory Source_Tests
  imports Address_Filter
begin

text \<open>
  The tests that the source files \<open>crypto/merkle_tree.rs\<close> and \<open>crypto/address_inclusion_filter.rs\<close> contain, as
  functions of the model that end by a panic when an assertion fails, and what they depend on: those that
  assert that something is there pass with any SHA-256, those that assert that something is absent pass unless
  digests collide.  The random keys of the tests are arguments.
\<close>

section \<open>Assertions\<close>

fun assert_all :: "bool list \<Rightarrow> (unit, 'e) result" where
  "assert_all [] = Ok ()"
| "assert_all (a # as) = (if a then assert_all as else Panic)"

lemma assert_all_Ok [simp]: "assert_all as = Ok () \<longleftrightarrow> (\<forall>a \<in> set as. a)"
  by (induction as) simp_all

section \<open>Merkle tree\<close>

definition dummy_tx_id :: "u8 \<Rightarrow> TransactionId" where
  "dummy_tx_id byte = hash_new_from_buf (word_from_be_bytes (replicate 32 byte))"

definition test_merkle_tree_basic :: "'z crypto_scheme \<Rightarrow> (unit, 'e) result" where
  "test_merkle_tree_basic C =
     (let tx_ids = map dummy_tx_id [1, 2, 3, 4, 5];
          tree = merkle_build C tx_ids;
          fake = dummy_tx_id 255
      in assert_all ([root_hash tree \<noteq> 0] @ map (\<lambda>tx. verify_inclusion tree (leaf_hash C tx)) tx_ids
           @ [\<not> verify_inclusion tree (leaf_hash C fake)]))"

definition proof_is_served :: "'z crypto_scheme \<Rightarrow> MerkleTree \<Rightarrow> TransactionId \<Rightarrow> (unit, 'e) result" where
  "proof_is_served C tree tx =
     bind_res (generate_proof tree (leaf_hash C tx)) (\<lambda>p.
     bind_res (expect p) (\<lambda>p. assert_all [proof_validate C p (root_hash tree)]))"

definition test_merkle_proof :: "'z crypto_scheme \<Rightarrow> (unit, 'e) result" where
  "test_merkle_proof C =
     (let tx_ids = map dummy_tx_id [10, 11, 12, 13];
          tree = merkle_build C tx_ids
      in bind_res (for_each (\<lambda>tx _. proof_is_served C tree tx) tx_ids ()) (\<lambda>_.
           bind_res (generate_proof tree (leaf_hash C (dummy_tx_id 99))) (\<lambda>p. assert_all [p = None])))"

text \<open>The root is computed by hand: the loop is \<open>layer_root\<close>.  The first byte of the hash is flipped.\<close>

definition flip_first_byte :: "buf32 \<Rightarrow> buf32" where
  "flip_first_byte h = word_from_be_bytes (case bytes32 h of [] \<Rightarrow> [] | b # bs \<Rightarrow> (b XOR 255) # bs)"

definition test_merkle_tree_proof_creation :: "'z crypto_scheme \<Rightarrow> (unit, 'e) result" where
  "test_merkle_tree_proof_creation C =
     (let tx_hashes = map (leaf_hash C \<circ> dummy_tx_id) [20, 21, 22, 23, 24];
          target = tx_hashes ! 3;
          root = layer_root C tx_hashes
      in bind_res (expect (create_proof C tx_hashes target)) (\<lambda>pf.
           assert_all [proof_validate C pf root,
             \<not> proof_validate C (pf\<lparr>proof_tx_hash := flip_first_byte (proof_tx_hash pf)\<rparr>) root]))"

lemma test_merkle_tree_basic_passes:
  "test_merkle_tree_basic C = (Ok () :: (unit, 'e) result) \<longleftrightarrow>
     root_hash (merkle_build C (map dummy_tx_id [1, 2, 3, 4, 5])) \<noteq> 0
     \<and> leaf_hash C (dummy_tx_id 255) \<notin> leaf_hash C ` dummy_tx_id ` {1, 2, 3, 4, 5}"
proof -
  let ?ids = "map dummy_tx_id [1, 2, 3, 4, 5]"
  have "verify_inclusion (merkle_build C ?ids) h \<longleftrightarrow> h \<in> leaf_hash C ` set ?ids" for h
    by (rule verify_inclusion_build) simp
  then show ?thesis by (simp add: test_merkle_tree_basic_def Let_def del: list.map)
qed

lemma test_merkle_proof_passes:
  "test_merkle_proof C = (Ok () :: (unit, 'e) result) \<longleftrightarrow>
     leaf_hash C (dummy_tx_id 99) \<notin> leaf_hash C ` dummy_tx_id ` {10, 11, 12, 13}"
proof -
  let ?ids = "map dummy_tx_id [10, 11, 12, 13]"
  let ?tree = "merkle_build C ?ids"
  have made: "\<exists>p. generate_proof ?tree h = (Ok p :: (_, 'e) result)
      \<and> (p \<noteq> None \<longleftrightarrow> h \<in> leaf_hash C ` set ?ids)
      \<and> (\<forall>q. p = Some q \<longrightarrow> proof_tx_hash q = h \<and> proof_validate C q (root_hash ?tree))" for h
    by (rule generate_proof_build) simp
  have one: "proof_is_served C ?tree tx = (Ok () :: (unit, 'e) result)"
    if tx: "tx \<in> set ?ids" for tx
  proof -
    obtain p where "generate_proof ?tree (leaf_hash C tx) = (Ok p :: (_, 'e) result)"
      "p \<noteq> None" "\<forall>q. p = Some q \<longrightarrow> proof_validate C q (root_hash ?tree)"
      using made [of "leaf_hash C tx"] tx by blast
    then show ?thesis by (auto simp: proof_is_served_def)
  qed
  have all: "for_each (\<lambda>tx _. proof_is_served C ?tree tx) txs () = (Ok () :: (unit, 'e) result)"
    if "set txs \<subseteq> set ?ids" for txs
    using that by (induction txs) (auto simp: one simp del: list.map)
  obtain p where p: "generate_proof ?tree (leaf_hash C (dummy_tx_id 99)) = (Ok p :: (_, 'e) result)"
    "p \<noteq> None \<longleftrightarrow> leaf_hash C (dummy_tx_id 99) \<in> leaf_hash C ` set ?ids"
    using made by blast
  then show ?thesis
    unfolding test_merkle_proof_def Let_def by (simp add: all del: list.map) auto
qed

lemma flip_first_byte_differs: "flip_first_byte h \<noteq> h"
proof -
  have "length (bytes32 h) = 32" by simp
  then obtain b bs where b: "bytes32 h = b # bs" "length bs = 31" by (cases "bytes32 h") auto
  then have "length ((b XOR 255) # bs) = 32" by simp
  from b(1) have "flip_first_byte h = word_from_be_bytes ((b XOR 255) # bs)" by (simp add: flip_first_byte_def)
  then have "bytes32 (flip_first_byte h) = (b XOR 255) # bs"
    using word_to_be_bytes_inverse [of "(b XOR 255) # bs", where ?'a = 256] \<open>length ((b XOR 255) # bs) = 32\<close>
    by (simp add: bytes32_def)
  moreover have "b XOR 255 \<noteq> b"
  proof
    assume "b XOR 255 = b"
    then have "b XOR (b XOR 255) = b XOR b" by simp
    then show False by (simp flip: xor.assoc)
  qed
  ultimately have "bytes32 (flip_first_byte h) \<noteq> bytes32 h" by (simp add: b(1))
  then show ?thesis by auto
qed

lemma test_merkle_tree_proof_creation_passes:
  assumes "\<And>pf. create_proof C (map (leaf_hash C \<circ> dummy_tx_id) [20, 21, 22, 23, 24]) target = Some pf \<Longrightarrow>
      path_collision C (proof_path pf) target (proof_path pf) (flip_first_byte target) = None"
    and target: "target = leaf_hash C (dummy_tx_id 23)"
  shows "test_merkle_tree_proof_creation C = (Ok () :: (unit, 'e) result)"
proof -
  let ?hs = "map (leaf_hash C \<circ> dummy_tx_id) [20, 21, 22, 23, 24]"
  have nth: "?hs ! 3 = target" by (simp add: target)
  then have "target \<in> set ?hs" by (simp add: target)
  then obtain pf where pf: "create_proof C ?hs target = Some pf" "proof_tx_hash pf = target"
    "proof_validate C pf (layer_root C ?hs)"
    using create_proof_root [where hs = ?hs and h = target and C = C] by (auto split: option.splits simp del: list.map)
  have "\<not> proof_validate C (pf\<lparr>proof_tx_hash := flip_first_byte target\<rparr>) (layer_root C ?hs)"
  proof
    assume "proof_validate C (pf\<lparr>proof_tx_hash := flip_first_byte target\<rparr>) (layer_root C ?hs)"
    then have "fold (path_step C) (proof_path pf) target = fold (path_step C) (proof_path pf) (flip_first_byte target)"
      using pf(2,3) by (simp add: proof_validate_def)
    with path_collision_complete [of "proof_path pf" "proof_path pf" target "flip_first_byte target" C]
      flip_first_byte_differs [of target] assms(1) [OF pf(1)] show False by metis
  qed
  with pf show ?thesis
    unfolding test_merkle_tree_proof_creation_def Let_def nth by (simp add: expect_def del: list.map)
qed

section \<open>Filter\<close>

fun unwrap_test :: "('a, 'f) result \<Rightarrow> ('a, 'e) result" where
  "unwrap_test (Ok x) = Ok x"
| "unwrap_test _ = Panic"

definition create_dummy_tx :: "Public list \<Rightarrow> Transaction" where
  "create_dummy_tx addresses =
     \<lparr>inputs = map (\<lambda>a. \<lparr>input_tx_id = Hash 0, output_index = 0, signature = None, output_owner = a\<rparr>) addresses,
      outputs = map (\<lambda>a. \<lparr>amount = 1, receiver = a\<rparr>) addresses,
      transaction_id = None, tx_nonce = 0, tx_timestamp = 0\<rparr>"

definition test_filter_creation_and_contains ::
  "'z crypto_scheme \<Rightarrow> Public \<Rightarrow> Public \<Rightarrow> Public \<Rightarrow> (unit, 'e) result"
where
  "test_filter_creation_and_contains C addr1 addr2 unknown_addr =
     bind_res (unwrap_test (create_filter C [create_dummy_tx [addr1], create_dummy_tx [addr2]])) (\<lambda>f.
     bind_res (filter_contains C f addr1) (\<lambda>x.
     bind_res (filter_contains C f addr2) (\<lambda>y.
     bind_res (filter_contains C f unknown_addr) (\<lambda>z. assert_all [x, y, \<not> z]))))"

definition test_search_filter :: "'z crypto_scheme \<Rightarrow> Public \<Rightarrow> Public \<Rightarrow> (unit, 'e) result" where
  "test_search_filter C addr unknown_addr =
     bind_res (unwrap_test (create_filter C [create_dummy_tx [addr]])) (\<lambda>f.
     bind_res (unwrap_test (search_filter C f addr)) (\<lambda>x.
     bind_res (unwrap_test (search_filter C f unknown_addr)) (\<lambda>z. assert_all [x = True, z = False])))"

definition test_multiple_addresses_in_one_tx :: "'z crypto_scheme \<Rightarrow> Public \<Rightarrow> Public \<Rightarrow> (unit, 'e) result" where
  "test_multiple_addresses_in_one_tx C addr1 addr2 =
     bind_res (unwrap_test (create_filter C [create_dummy_tx [addr1, addr2]])) (\<lambda>f.
     bind_res (filter_contains C f addr1) (\<lambda>x.
     bind_res (filter_contains C f addr2) (\<lambda>y. assert_all [x, y])))"

definition test_empty_transactions :: "'z crypto_scheme \<Rightarrow> Public \<Rightarrow> (unit, 'e) result" where
  "test_empty_transactions C addr =
     bind_res (unwrap_test (create_filter C [])) (\<lambda>f.
     bind_res (filter_contains C f addr) (\<lambda>z. assert_all [\<not> z]))"

text \<open>What is put into a filter is found; the two tests of unknown keys fail exactly on a false positive.\<close>

lemma dummy_tx_contains: "contains_address (create_dummy_tx as) a \<longleftrightarrow> a \<in> set as"
  by (auto simp: contains_address_iff create_dummy_tx_def)

lemma dummy_filter:
  assumes "ln_signs C" and "create_filter C txs = Ok f"
  shows "\<exists>x. filter_contains C f a = (Ok x :: (_, AddressInclusionFilterError) result)"
    and "tx \<in> set txs \<Longrightarrow> contains_address tx a \<Longrightarrow> search_filter C f a = Ok True"
  using created_filter_search [OF assms] by (simp_all add: search_filter_def)

lemma filter_test_positive:
  assumes "ln_signs C"
  shows "test_multiple_addresses_in_one_tx C addr1 addr2 = (Ok () :: (unit, AddressInclusionFilterError) result)"
    and "test_empty_transactions C addr = (Ok () :: (unit, AddressInclusionFilterError) result)"
proof -
  obtain f where f: "create_filter C [create_dummy_tx [addr1, addr2]] = Ok f"
    using create_filter_spec [OF assms] by blast
  have "filter_contains C f a = (Ok True :: (_, AddressInclusionFilterError) result)" if "a \<in> {addr1, addr2}" for a
    using dummy_filter(2) [OF assms f, of "create_dummy_tx [addr1, addr2]" a] that
    by (auto simp: dummy_tx_contains search_filter_def)
  with f show "test_multiple_addresses_in_one_tx C addr1 addr2 = (Ok () :: (unit, AddressInclusionFilterError) result)"
    by (simp add: test_multiple_addresses_in_one_tx_def)
  show "test_empty_transactions C addr = (Ok () :: (unit, AddressInclusionFilterError) result)"
    by (simp add: test_empty_transactions_def create_filter_def filter_contains_def)
qed

lemma filter_test_unknown:
  assumes ln: "ln_signs C"
  shows "create_filter C [create_dummy_tx [addr1], create_dummy_tx [addr2]] = Ok f \<Longrightarrow>
      test_filter_creation_and_contains C addr1 addr2 unknown_addr = (Ok () :: (unit, AddressInclusionFilterError) result)
        \<longleftrightarrow> search_filter C f unknown_addr = Ok False"
    and "create_filter C [create_dummy_tx [addr1]] = Ok f \<Longrightarrow>
      test_search_filter C addr1 unknown_addr = (Ok () :: (unit, AddressInclusionFilterError) result)
        \<longleftrightarrow> search_filter C f unknown_addr = Ok False"
proof -
  assume f: "create_filter C [create_dummy_tx [addr1], create_dummy_tx [addr2]] = Ok f"
  have "filter_contains C f a = (Ok True :: (_, AddressInclusionFilterError) result)" if "a \<in> {addr1, addr2}" for a
    using dummy_filter(2) [OF ln f, of "create_dummy_tx [a]" a] that by (auto simp: dummy_tx_contains search_filter_def)
  moreover obtain x where "filter_contains C f unknown_addr = (Ok x :: (_, AddressInclusionFilterError) result)"
    using dummy_filter(1) [OF ln f] by blast
  ultimately show "test_filter_creation_and_contains C addr1 addr2 unknown_addr = (Ok () :: (unit, AddressInclusionFilterError) result)
      \<longleftrightarrow> search_filter C f unknown_addr = Ok False"
    using f by (simp add: test_filter_creation_and_contains_def search_filter_def)
next
  assume f: "create_filter C [create_dummy_tx [addr1]] = Ok f"
  have "search_filter C f addr1 = Ok True"
    using dummy_filter(2) [OF ln f, of "create_dummy_tx [addr1]" addr1] by (simp add: dummy_tx_contains)
  moreover obtain x where "search_filter C f unknown_addr = Ok x"
    using dummy_filter(1) [OF ln f] by (auto simp: search_filter_def)
  ultimately show "test_search_filter C addr1 unknown_addr = (Ok () :: (unit, AddressInclusionFilterError) result)
      \<longleftrightarrow> search_filter C f unknown_addr = Ok False"
    using f by (simp add: test_search_filter_def)
qed

end
