(* ===== verification/Integration_Tests.thy ===== *)
theory Integration_Tests
  imports Source_Tests Builders Chain_Invariant "HOL-Library.Product_Lexorder"
begin

text \<open>
  The integration tests \<open>tests/crypto_primitives_tests.rs\<close> and, of \<open>tests/blockchain_tests.rs\<close>,
  \<open>test_blockchain_rollback\<close>, with the helper \<open>reset_bc\<close> of \<open>tests/node_tests.rs\<close>.  The test of rollbacks passes
  whenever its blocks can be mined and their hashes and ids are new.
\<close>

section \<open>\<open>crypto_primitives_tests.rs\<close>\<close>

definition bytes_of_str :: "string \<Rightarrow> u8 list" where
  "bytes_of_str s = map of_char s"

definition test_hashing :: "'z crypto_scheme \<Rightarrow> (unit, 'e) result" where
  "test_hashing C =
     (let data = bytes_of_str ''Hello, world!''; hash = hash_new C data
      in bind_res (assert_all [compare_with_data C hash data,
           \<not> compare_with_data C hash (bytes_of_str ''Goodbye, world!'')]) (\<lambda>_.
         bind_res (expect (hash_new_from_base36 (hash_dump_base36 hash))) (\<lambda>hash_from_base36.
           assert_all [hash = hash_from_base36])))"

definition test_signing :: "'z crypto_scheme \<Rightarrow> Private \<Rightarrow> buf64 \<Rightarrow> (unit, ed25519_error) result" where
  "test_signing C private random =
     (let public = to_public C private;
          data = bytes_of_str ''Some correct data''; data_bad = bytes_of_str ''Some invalid data'';
          signature = new_signature C private data; signature_bad = Signature random
      in bind_res (validate_with_private C signature private data) (\<lambda>r. bind_res (assert_all [r]) (\<lambda>_.
         bind_res (validate_with_public C signature public data) (\<lambda>r. bind_res (assert_all [r]) (\<lambda>_.
         bind_res (validate_with_private C signature private data_bad) (\<lambda>r. bind_res (assert_all [\<not> r]) (\<lambda>_.
         bind_res (validate_with_public C signature public data_bad) (\<lambda>r. bind_res (assert_all [\<not> r]) (\<lambda>_.
         bind_res (validate_with_private C signature_bad private data) (\<lambda>r. bind_res (assert_all [\<not> r]) (\<lambda>_.
         bind_res (validate_with_public C signature_bad public data) (\<lambda>r. assert_all [\<not> r]))))))))))))"

text \<open>What the two tests say of RandomX and of Ed25519.\<close>

lemma test_hashing_passes:
  "test_hashing C = (Ok () :: (unit, 'e) result) \<longleftrightarrow>
     randomx_hash C (bytes_of_str ''Goodbye, world!'') \<noteq> randomx_hash C (bytes_of_str ''Hello, world!'')"
  by (simp add: test_hashing_def Let_def compare_with_data_def hash_new_def)

lemma test_signing_passes:
  "test_signing C private random = Ok () \<longleftrightarrow>
     (let key = verifying_key C (private_buf private);
          good = bytes_of_str ''Some correct data''; bad = bytes_of_str ''Some invalid data'';
          made = sign_bytes C (private_buf private) good
      in key_valid C key \<and> verify_strict C key good made
         \<and> \<not> verify_strict C key bad made \<and> \<not> verify_strict C key good random)"
  by (auto simp: test_signing_def Let_def validate_with_private_def validate_with_public_def to_public_def
      new_signature_def)

section \<open>\<open>test_blockchain_rollback\<close>\<close>

text \<open>A run that has no result yet is one whose miner has found no nonce so far; errors are \<open>anyhow\<close>'s.\<close>

type_synonym 'a test_run = "('a, unit) result option"

fun bind_test :: "'a test_run \<Rightarrow> ('a \<Rightarrow> 'b test_run) \<Rightarrow> 'b test_run" where
  "bind_test None f = None"
| "bind_test (Some (Ok x)) f = f x"
| "bind_test (Some (Err e)) f = Some (Err e)"
| "bind_test (Some Panic) f = Some Panic"

definition any_error :: "('a, 'e) result \<Rightarrow> ('a, unit) result" where
  "any_error = map_err (\<lambda>_. ())"

lemma any_error_simps [simp]: "any_error (Ok x) = Ok x" "any_error (Err e) = Err ()" "any_error Panic = Panic"
  by (simp_all add: any_error_def)

text \<open>The clock and the nonces that a round of mining reads.\<close>

record test_round =
  reward_time :: u64
  block_time :: u64
  reward_nonces :: "u64 list"
  block_nonces :: "u64 list"

definition mine_block :: "'z chain_env_scheme \<Rightarrow> test_round \<Rightarrow> Public \<Rightarrow> Blockchain \<Rightarrow> Block test_run" where
  "mine_block E r miner bc =
     bind_test (map_option any_error (build_block E (reward_time r) (block_time r) (reward_nonces r)
         (chain_provider (overflow_checks E) bc) [] miner)) (\<lambda>b.
       map_option any_error (block_compute_pow E (block_pow_target b) (block_nonces r) b))"

type_synonym rollback_log =
  "(usize \<rightharpoonup> buf32 \<times> buf32) \<times> (usize \<rightharpoonup> (TransactionId \<times> TransactionOutput \<times> usize) list)"

definition targets_of :: "Blockchain \<Rightarrow> buf32 \<times> buf32" where
  "targets_of bc = (chain_block_difficulty bc, chain_transaction_difficulty bc)"

definition log_state :: "Blockchain \<Rightarrow> rollback_log \<Rightarrow> rollback_log" where
  "log_state bc logs =
     ((fst logs)(get_height (block_store bc) \<mapsto> targets_of bc),
      (snd logs)(get_height (block_store bc) \<mapsto> get_all_utxos (utxos bc)))"

definition filter_is_deterministic :: "'z crypto_scheme \<Rightarrow> Block \<Rightarrow> (unit, unit) result" where
  "filter_is_deterministic C b =
     bind_res (any_error (create_filter C (transactions b))) (\<lambda>f.
     bind_res (any_error (create_filter C (transactions b))) (\<lambda>f'. assert_all [f = f']))"

fun grow_chain ::
  "'z chain_env_scheme \<Rightarrow> Public \<Rightarrow> test_round list \<Rightarrow> Blockchain \<Rightarrow> rollback_log
     \<Rightarrow> (Blockchain \<times> rollback_log) test_run"
where
  "grow_chain E miner [] bc logs = Some (Ok (bc, logs))"
| "grow_chain E miner (r # rounds) bc logs =
     bind_test (mine_block E r miner bc) (\<lambda>b.
     bind_test (Some (filter_is_deterministic E b)) (\<lambda>_.
       case add_block E b False False bc of (added, bc) \<Rightarrow>
         bind_test (Some (any_error added)) (\<lambda>_. grow_chain E miner rounds bc (log_state bc logs))))"

fun pop_and_compare :: "'z chain_env_scheme \<Rightarrow> nat \<Rightarrow> Blockchain \<Rightarrow> rollback_log \<Rightarrow> (Blockchain, unit) result" where
  "pop_and_compare E 0 bc logs = Ok bc"
| "pop_and_compare E (Suc n) bc logs =
     (case pop_block E bc of (popped, bc) \<Rightarrow>
        bind_res (any_error popped) (\<lambda>_.
        bind_res (expect (fst logs (get_height (block_store bc)))) (\<lambda>targets.
        bind_res (assert_all [targets_of bc = targets]) (\<lambda>_.
        bind_res (expect (snd logs (get_height (block_store bc)))) (\<lambda>rows.
        bind_res (assert_all [get_all_utxos (utxos bc) = rows]) (\<lambda>_. pop_and_compare E n bc logs))))))"

definition test_blockchain_rollback ::
  "'z chain_env_scheme \<Rightarrow> string \<Rightarrow> Private \<Rightarrow> test_round list \<Rightarrow> unit test_run"
where
  "test_blockchain_rollback E bc_path miner rounds =
     (let bc = fresh_chain bc_path
      in bind_test (grow_chain E (to_public E miner) rounds bc (log_state bc (Map.empty, Map.empty))) (\<lambda>(bc, logs).
           Some (bind_res (pop_and_compare E (length rounds) bc logs) (\<lambda>bc.
             assert_all [get_all_utxos (utxos bc) = [], get_height (block_store bc) = 0,
               chain_block_difficulty bc = STARTING_BLOCK_DIFFICULTY,
               chain_transaction_difficulty bc = STARTING_TX_DIFFICULTY]))))"

text \<open>\<open>reset_bc\<close> of the node's test.\<close>

definition reset_bc :: "'z chain_env_scheme \<Rightarrow> Blockchain \<Rightarrow> (unit, unit, Blockchain) run" where
  "reset_bc E bc =
     (fold (\<lambda>_ run. bind_run run (\<lambda>_ bc.
          case pop_block E bc of (Ok u, bc) \<Rightarrow> (Ok u, bc) | (_, bc) \<Rightarrow> (Panic, bc)))
       [0..<get_height (block_store bc)] (Ok (), bc))"

section \<open>The test of rollbacks passes\<close>

text \<open>What all unspent outputs are listed as depends on the ledger alone.\<close>

definition row_key :: "TransactionId \<times> TransactionOutput \<times> usize \<Rightarrow> string \<times> usize" where
  "row_key x = (case x of (t, _, i) \<Rightarrow> (hash_dump_base36 t, i))"

lemma rows_sorted:
  "sorted_wrt (<) (map row_key (List.map_filter (\<lambda>(i, x). map_option (\<lambda>out. (t, out, i)) x) (zip [m..<n] outs)))"
proof (induction outs arbitrary: m)
  case (Cons x outs)
  have later: "m < i" if "(t', out, i) \<in> set (List.map_filter (\<lambda>(i, x). map_option (\<lambda>out. (t, out, i)) x)
      (zip [Suc m..<n] outs))" for t' out i
    using that by (auto simp: in_map_filter dest: set_zip_leftD)
  show ?case
    using Cons.IH [of "Suc m"] later
    by (cases "m < n"; cases x)
      (fastforce simp: upt_conv_Cons List.map_filter_simps row_key_def in_map_filter)+
qed (simp add: List.map_filter_simps)

lemma key_of_row:
  "x \<in> set (List.map_filter (\<lambda>(i, x). map_option (\<lambda>out. (t, out, i)) x) rows) \<Longrightarrow> fst (row_key x) = hash_dump_base36 t"
  by (auto simp: row_key_def in_map_filter)

lemma get_all_utxos_sorted:
  assumes "utxos_wf u"
  shows "sorted_wrt (<) (map row_key (get_all_utxos u))"
proof -
  let ?rows = "\<lambda>(k, outs). case hash_new_from_base36 k of None \<Rightarrow> []
    | Some t \<Rightarrow> List.map_filter (\<lambda>(i, x). map_option (\<lambda>out. (t, out, i)) x) (enumerate_list outs)"
  have "sorted_wrt (<) (map row_key (concat (map ?rows kvs)))"
    if "sorted_wrt (<) (map fst kvs)" "\<forall>k \<in> fst ` set kvs. \<exists>t. k = hash_dump_base36 t" for kvs
    using that
  proof (induction kvs)
    case (Cons kv kvs)
    obtain t outs where kv: "kv = (hash_dump_base36 t, outs)" using Cons.prems(2) by (cases kv) auto
    have "fst (row_key x) \<in> fst ` set kvs" if "x \<in> set (concat (map ?rows kvs))" for x
    proof -
      from that obtain kv' where kv': "kv' \<in> set kvs" "x \<in> set (?rows kv')"
        unfolding set_concat set_map by blast
      then obtain t' where "fst kv' = hash_dump_base36 t'" using Cons.prems(2) by auto
      with kv'(2) have "fst (row_key x) = fst kv'" by (cases kv') (simp add: key_of_row)
      with kv'(1) show ?thesis by simp
    qed
    moreover have first: "fst (row_key x) = fst kv" if "x \<in> set (?rows kv)" for x
      using that by (simp add: kv key_of_row)
    moreover have "\<forall>k \<in> fst ` set kvs. fst kv < k" using Cons.prems(1) by simp
    ultimately have "fst (row_key x) < fst (row_key y)"
      if "x \<in> set (?rows kv)" "y \<in> set (concat (map ?rows kvs))" for x y
      using that by metis
    then have "\<forall>x \<in> set (?rows kv). \<forall>y \<in> set (concat (map ?rows kvs)). row_key x < row_key y"
      by (simp only: less_prod_def') blast
    with Cons.IH Cons.prems rows_sorted [of t 0 "length outs" outs] show ?case
      by (simp add: sorted_wrt_append kv enumerate_list_def del: set_concat)
  qed simp
  moreover have "sorted_wrt (<) (map fst (sorted_list_of_fmap u))"
    by (simp add: sorted_list_of_fmap_def comp_def sorted_list_of_fset.rep_eq)
  ultimately show ?thesis
    using assms unfolding get_all_utxos_def utxos_wf_def
    by (simp add: set_sorted_list_of_fmap image_iff)
qed

lemma get_all_utxos_cong:
  assumes "utxos_wf u" and "utxos_wf v" and "ledger_of u = ledger_of v"
  shows "get_all_utxos u = get_all_utxos v"
proof -
  have same: "set (get_all_utxos u) = set (get_all_utxos v)"
    using set_get_all_utxos [OF assms(1)] set_get_all_utxos [OF assms(2)] assms(3) by auto
  then have "map row_key (get_all_utxos u) = map row_key (get_all_utxos v)"
    by (intro strict_sorted_equal get_all_utxos_sorted assms) auto
  moreover have "inj_on row_key (set (get_all_utxos u) \<union> set (get_all_utxos v))"
    using set_get_all_utxos [OF assms(1)]
    by (auto simp: inj_on_def row_key_def same [symmetric] dest!: arg_cong [of _ _ hash_new_from_base36])
  ultimately show ?thesis by (metis inj_on_map_eq_map)
qed

text \<open>Each round finds its nonces and makes a block whose hash and ids are new and which encodes.\<close>

fun rounds_succeed ::
  "'z chain_env_scheme \<Rightarrow> Public \<Rightarrow> test_round list \<Rightarrow> log_entry list \<Rightarrow> Blockchain \<Rightarrow> bool"
where
  "rounds_succeed E miner [] chain bc \<longleftrightarrow> True"
| "rounds_succeed E miner (r # rounds) chain bc \<longleftrightarrow>
     (case mine_block E r miner bc of
        Some (Ok b) \<Rightarrow> appendable E chain b
          \<and> rounds_succeed E miner rounds (chain @ [(b, block_diff (ledger_of_chain chain) (transactions b))])
              (snd (add_block E b False False bc))
      | _ \<Rightarrow> False)"

definition logs_ok :: "bool \<Rightarrow> rollback_log \<Rightarrow> log_entry list \<Rightarrow> bool" where
  "logs_ok chk logs chain \<longleftrightarrow>
     (\<forall>h \<le> length chain. \<exists>bc. chain_inv chk 0 (take h chain) bc
        \<and> fst logs h = Some (targets_of bc) \<and> snd logs h = Some (get_all_utxos (utxos bc)))"

lemma same_chain:
  assumes "chain_inv chk t0 chain bc" and "chain_inv chk t1 chain bc'" and "t0 = t1 \<or> chain = []"
  shows "targets_of bc = targets_of bc'" and "get_all_utxos (utxos bc) = get_all_utxos (utxos bc')"
proof -
  show "targets_of bc = targets_of bc'"
    using assms by (auto simp: chain_inv_def targets_of_def chain_block_difficulty_def
        chain_transaction_difficulty_def difficulty_of_chain_def)
  show "get_all_utxos (utxos bc) = get_all_utxos (utxos bc')"
    using assms by (intro get_all_utxos_cong) (simp_all add: chain_inv_def)
qed

lemma chain_height: "chain_inv chk t0 chain bc \<Longrightarrow> get_height (block_store bc) = length chain"
  by (simp add: chain_inv_def store_represents_def get_height_def)

lemma log_state_ok:
  assumes inv: "chain_inv chk 0 chain bc" and before: "\<And>h. h < length chain \<Longrightarrow>
      \<exists>bc. chain_inv chk 0 (take h chain) bc \<and> fst logs h = Some (targets_of bc)
        \<and> snd logs h = Some (get_all_utxos (utxos bc))"
  shows "logs_ok chk (log_state bc logs) chain"
  unfolding logs_ok_def
proof (intro allI impI)
  fix h assume "h \<le> length chain"
  show "\<exists>bc'. chain_inv chk 0 (take h chain) bc' \<and> fst (log_state bc logs) h = Some (targets_of bc')
      \<and> snd (log_state bc logs) h = Some (get_all_utxos (utxos bc'))"
  proof (cases "h = length chain")
    case True
    with inv show ?thesis by (intro exI [of _ bc]) (simp add: log_state_def chain_height)
  next
    case False
    with \<open>h \<le> length chain\<close> before [of h] inv show ?thesis by (simp add: log_state_def chain_height)
  qed
qed

lemma mined_block_is_valid:
  assumes "chain_inv (overflow_checks E) t0 chain bc" and "length chain < 64000000"
    and "mine_block E r miner bc = Some (Ok b)"
  shows "check_block E b False False bc = Ok ()"
proof -
  obtain b0 where built: "build_block E (reward_time r) (block_time r) (reward_nonces r)
      (chain_provider (overflow_checks E) bc) [] miner = Some (Ok b0)"
    "block_compute_pow E (block_pow_target b0) (block_nonces r) b0 = Some (Ok b)"
    using assms(3)
    by (auto simp: mine_block_def any_error_def res_simps elim!: bind_test.elims dest!: sym [of "Some (Ok b)"])
  show ?thesis
    by (rule built_block_valid [OF _ assms(2) built(1) _ _ built(2)])
      (use assms(1) in \<open>simp_all add: chain_inv_def all_inputs_def\<close>)
qed

lemma checked_filter:
  assumes "check_block E b False False bc = Ok ()"
  shows "filter_is_deterministic E b = Ok ()"
proof -
  have "\<exists>f. create_filter E (transactions b) = Ok f"
    using assms by (auto simp: check_block_def check_meta_def validate_address_inclusion_filter_def res_simps)
  then show ?thesis by (auto simp: filter_is_deterministic_def)
qed

lemma grow_chain_spec:
  assumes "rounds_succeed E miner rounds chain bc" and "chain_inv (overflow_checks E) 0 chain bc"
    and "logs_ok (overflow_checks E) logs chain" and "length chain + length rounds < 64000000"
  shows "\<exists>bc' chain' logs'. grow_chain E miner rounds bc logs = Some (Ok (bc', logs'))
    \<and> chain_inv (overflow_checks E) 0 chain' bc' \<and> logs_ok (overflow_checks E) logs' chain'
    \<and> length chain' = length chain + length rounds"
  using assms
proof (induction rounds arbitrary: chain bc logs)
  case (Cons r rounds)
  obtain b where mined: "mine_block E r miner bc = Some (Ok b)" and new: "appendable E chain b"
    and later: "rounds_succeed E miner rounds (chain @ [(b, block_diff (ledger_of_chain chain) (transactions b))])
      (snd (add_block E b False False bc))"
    using Cons.prems(1) by (auto split: option.splits result.splits)
  let ?chain = "chain @ [(b, block_diff (ledger_of_chain chain) (transactions b))]"
  have checked: "check_block E b False False bc = Ok ()"
    by (rule mined_block_is_valid [OF Cons.prems(2) _ mined]) (use Cons.prems(4) in simp)
  obtain bc' where added: "add_block E b False False bc = (Ok (), bc')" "chain_inv (overflow_checks E) 0 ?chain bc'"
    using add_block_Ok [OF Cons.prems(2) checked new] by auto
  have logs: "logs_ok (overflow_checks E) (log_state bc' logs) ?chain"
    using Cons.prems(3) by (intro log_state_ok [OF added(2)]) (auto simp: logs_ok_def less_Suc_eq_le)
  show ?case
    using Cons.IH [of ?chain bc' "log_state bc' logs"] later added logs Cons.prems(4)
    by (simp add: mined checked_filter [OF checked])
qed auto

lemma pop_and_compare_spec:
  assumes "chain_inv (overflow_checks E) t0 chain bc" and "chain = [] \<or> t0 = 0"
    and "logs_ok (overflow_checks E) logs chain"
    and "chain = [] \<or> (\<forall>d. \<exists>bs. encode_data E d = Inr bs)"
  shows "\<exists>bc' t. pop_and_compare E (length chain) bc logs = Ok bc' \<and> chain_inv (overflow_checks E) t [] bc'"
  using assms
proof (induction chain arbitrary: t0 bc rule: rev_induct)
  case (snoc e chain)
  let ?t = "if chain = [] then timestamp (fst e) else t0"
  obtain bc' where popped: "pop_block E bc = (Ok (), bc')" "chain_inv (overflow_checks E) ?t chain bc'"
    using pop_block_Ok [OF snoc.prems(1)] snoc.prems(4) by auto
  obtain bc0 where logged: "chain_inv (overflow_checks E) 0 chain bc0"
    "fst logs (length chain) = Some (targets_of bc0)" "snd logs (length chain) = Some (get_all_utxos (utxos bc0))"
    using snoc.prems(3) by (auto simp: logs_ok_def dest: spec [of _ "length chain"])
  have "logs_ok (overflow_checks E) logs chain"
    unfolding logs_ok_def
  proof (intro allI impI)
    fix h assume h: "h \<le> length chain"
    with snoc.prems(3) show "\<exists>bc. chain_inv (overflow_checks E) 0 (take h chain) bc
        \<and> fst logs h = Some (targets_of bc) \<and> snd logs h = Some (get_all_utxos (utxos bc))"
      by (auto simp: logs_ok_def dest!: spec [of _ h])
  qed
  moreover have "?t = 0 \<or> chain = []" using snoc.prems(2) by simp
  ultimately show ?case
    using snoc.IH [OF popped(2)] same_chain [OF popped(2) logged(1)] snoc.prems(4) logged(2,3)
    by (auto simp: popped(1) chain_height [OF popped(2)])
qed auto

lemma empty_chain_starts:
  assumes "chain_inv chk t0 [] bc"
  shows "get_all_utxos (utxos bc) = []" and "get_height (block_store bc) = 0"
    and "chain_block_difficulty bc = STARTING_BLOCK_DIFFICULTY"
    and "chain_transaction_difficulty bc = STARTING_TX_DIFFICULTY"
proof -
  have "(t, out, i) \<notin> set (get_all_utxos (utxos bc))" for t out i
    using assms set_get_all_utxos [of "utxos bc" t out i]
    by (simp add: chain_inv_def ledger_of_chain_def empty_ledger_def)
  then have "x \<notin> set (get_all_utxos (utxos bc))" for x by (cases x) blast
  then show "get_all_utxos (utxos bc) = []" by (metis list.set_intros(1) neq_Nil_conv)
  show "get_height (block_store bc) = 0" using chain_height [OF assms] by simp
  show "chain_block_difficulty bc = STARTING_BLOCK_DIFFICULTY"
    and "chain_transaction_difficulty bc = STARTING_TX_DIFFICULTY"
    using assms by (simp_all add: chain_inv_def difficulty_of_chain_def difficulty_new_default_def
        chain_block_difficulty_def chain_transaction_difficulty_def)
qed

lemma test_blockchain_rollback_passes:
  assumes "rounds_succeed E (to_public E miner) rounds [] (fresh_chain path)" and "length rounds < 64000000"
  shows "test_blockchain_rollback E path miner rounds = Some (Ok ())"
proof -
  let ?bc = "fresh_chain path" and ?c = "overflow_checks E"
  have fresh: "chain_inv ?c 0 [] ?bc" by (rule fresh_chain_inv)
  have "logs_ok ?c (log_state ?bc (Map.empty, Map.empty)) []" by (rule log_state_ok [OF fresh]) simp
  from grow_chain_spec [OF assms(1) fresh this] assms(2) obtain bc chain logs where grown:
    "grow_chain E (to_public E miner) rounds ?bc (log_state ?bc (Map.empty, Map.empty)) = Some (Ok (bc, logs))"
    "chain_inv ?c 0 chain bc" "logs_ok ?c logs chain" "length chain = length rounds" by auto
  have "chain = [] \<or> (\<forall>d. \<exists>bs. encode_data E d = Inr bs)"
    using assms(1) grown(4) by (cases rounds) (auto simp: appendable_def split: option.splits result.splits)
  from pop_and_compare_spec [OF grown(2) _ grown(3) this] obtain bc' t where
    "pop_and_compare E (length rounds) bc logs = Ok bc'" "chain_inv ?c t [] bc'" by (auto simp: grown(4))
  with grown(1) empty_chain_starts [OF this(2)] show ?thesis
    by (simp add: test_blockchain_rollback_def Let_def)
qed

lemma reset_bc_empties:
  assumes "chain_inv (overflow_checks E) t0 chain bc" and "\<And>d. \<exists>bs. encode_data E d = Inr bs"
  shows "\<exists>bc' t. reset_bc E bc = (Ok (), bc') \<and> chain_inv (overflow_checks E) t [] bc'"
proof -
  let ?pop = "\<lambda>_ run. bind_run run (\<lambda>_ bc.
      case pop_block E bc of (Ok u, bc) \<Rightarrow> (Ok u, bc) | (_, bc) \<Rightarrow> (Panic, bc))"
  have "\<exists>bc' t. fold ?pop ns (Ok (), bc) = (Ok (), bc' :: Blockchain) \<and> chain_inv (overflow_checks E) t [] bc'"
    if "chain_inv (overflow_checks E) t0 chain bc" "length (ns :: nat list) = length chain" for ns t0 bc
    using that
  proof (induction chain arbitrary: t0 bc ns rule: rev_induct)
    case (snoc e chain)
    obtain n ns' where ns: "ns = n # ns'" "length ns' = length chain" using snoc.prems(2) by (cases ns) auto
    from pop_block_Ok [OF snoc.prems(1) assms(2)] obtain bc' where
      "pop_block E bc = (Ok (), bc')" "chain_inv (overflow_checks E) (if chain = [] then timestamp (fst e) else t0) chain bc'"
      by auto
    with snoc.IH [OF this(2) ns(2)] show ?case by (simp add: ns(1))
  qed auto
  from this [OF assms(1), of "[0..<get_height (block_store bc)]"] show ?thesis
    by (simp add: reset_bc_def chain_height [OF assms(1)])
qed

end
