(* ===== verification/Random_X.thy ===== *)
theory Random_X
  imports Crypto
begin

text \<open>
  The machine behind \<open>randomx_hash\<close> (\<open>crypto/mod.rs\<close>), first in the feature \<open>full\<close>: the two flags of the process, the dataset that
  is made once and shared, and the virtual machine that each thread makes when it hashes first.  The library is a
  record of functions.  What they show is that the field \<open>randomx\<close> of the record \<open>crypto\<close> can stand for all
  of it: whatever the threads do and whenever the mode changes, a hash depends on the input only.  The
  feature \<open>light\<close>, with another library, has one dataset and one machine for each thread.
\<close>

section \<open>The library and the state of the process\<close>

record ('cache, 'dataset, 'vm) randomx_lib =
  recommended_flags :: u32
  flag_full_mem :: u32
  flag_jit :: u32
  flag_large_pages :: u32
  new_cache :: "u32 \<Rightarrow> string \<Rightarrow> 'cache option"
  new_dataset :: "u32 \<Rightarrow> 'cache \<Rightarrow> 'dataset option"
  new_vm :: "u32 \<Rightarrow> 'cache option \<Rightarrow> 'dataset option \<Rightarrow> 'vm option"
  calculate_hash :: "'vm \<Rightarrow> u8 list \<Rightarrow> buf32"

type_synonym thread = nat

record ('dataset, 'vm) randomx_state =
  is_light_mode :: bool
  huge_pages :: bool
  dataset :: "'dataset option"
  thread_vms :: "(thread, 'vm) fmap"

definition RANDOMX_SEED :: string where "RANDOMX_SEED = ''snap-coin-testnet''"

definition randomx_initial :: "('d, 'v) randomx_state" where
  "randomx_initial = \<lparr>is_light_mode = True, huge_pages = False, dataset = None, thread_vms = fmempty\<rparr>"

section \<open>Operations\<close>

definition randomx_optimized_mode :: "bool \<Rightarrow> ('d, 'v) randomx_state \<Rightarrow> ('d, 'v) randomx_state" where
  "randomx_optimized_mode huge s = s\<lparr>is_light_mode := False, huge_pages := huge\<rparr>"

text \<open>The standard library's \<open>trim\<close>, on ASCII, and its reading of a \<open>u32\<close>.\<close>

definition is_space :: "char \<Rightarrow> bool" where
  "is_space c \<longleftrightarrow> c \<in> {CHR '' '', CHR 0x09, CHR 0x0A, CHR 0x0B, CHR 0x0C, CHR 0x0D}"

definition trim :: "string \<Rightarrow> string" where
  "trim s = rev (dropWhile is_space (rev (dropWhile is_space s)))"

definition parse_u32 :: "string \<Rightarrow> nat option" where
  "parse_u32 s =
     (let ds = (case s of CHR ''+'' # ds \<Rightarrow> ds | _ \<Rightarrow> s);
          n = foldl (\<lambda>n c. 10 * n + (of_char c - 48)) 0 ds
      in if ds = [] \<or> \<not> list_all (\<lambda>c. 48 \<le> (of_char c :: nat) \<and> (of_char c :: nat) \<le> 57) ds \<or> 2 ^ 32 \<le> n then None
         else Some n)"

text \<open>On Linux; the argument is what \<open>/proc/sys/vm/nr_hugepages\<close> holds, if it can be read.\<close>

definition has_huge_pages_support :: "string option \<Rightarrow> bool" where
  "has_huge_pages_support pages =
     (case pages of None \<Rightarrow> False
      | Some s \<Rightarrow> (case parse_u32 (trim s) of None \<Rightarrow> False | Some count \<Rightarrow> 2000 \<le> count))"

definition full_flags ::
  "('c, 'd, 'v) randomx_lib \<Rightarrow> string option \<Rightarrow> ('d, 'v) randomx_state \<Rightarrow> u32"
where
  "full_flags L pages s =
     (let flags = or (or (recommended_flags L) (flag_full_mem L)) (flag_jit L)
      in if huge_pages s \<and> has_huge_pages_support pages then or flags (flag_large_pages L) else flags)"

definition get_dataset ::
  "('c, 'd, 'v) randomx_lib \<Rightarrow> string option \<Rightarrow> ('d, 'v) randomx_state \<Rightarrow> ('d, 'e, ('d, 'v) randomx_state) run"
where
  "get_dataset L pages s =
     (case dataset s of
        Some d \<Rightarrow> (Ok d, s)
      | None \<Rightarrow>
          let flags = full_flags L pages s
          in bind_run (expect (new_cache L flags RANDOMX_SEED), s) (\<lambda>cache s.
             bind_run (expect (new_dataset L flags cache), s) (\<lambda>d s. (Ok d, s\<lparr>dataset := Some d\<rparr>))))"

definition thread_vm ::
  "('c, 'd, 'v) randomx_lib \<Rightarrow> string option \<Rightarrow> thread \<Rightarrow> ('d, 'v) randomx_state
     \<Rightarrow> ('v, 'e, ('d, 'v) randomx_state) run"
where
  "thread_vm L pages t s =
     (case fmlookup (thread_vms s) t of
        Some vm \<Rightarrow> (Ok vm, s)
      | None \<Rightarrow>
          bind_run
            (if is_light_mode s
             then let flags = recommended_flags L
               in bind_run (expect (new_cache L flags RANDOMX_SEED), s) (\<lambda>cache s.
                    (expect (new_vm L flags (Some cache) None), s))
             else let flags = full_flags L pages s
               in bind_run (get_dataset L pages s) (\<lambda>d s. (expect (new_vm L flags None (Some d)), s)))
            (\<lambda>vm s. (Ok vm, s\<lparr>thread_vms := fmupd t vm (thread_vms s)\<rparr>)))"

definition hash_on_thread ::
  "('c, 'd, 'v) randomx_lib \<Rightarrow> string option \<Rightarrow> thread \<Rightarrow> u8 list \<Rightarrow> ('d, 'v) randomx_state
     \<Rightarrow> (buf32, 'e, ('d, 'v) randomx_state) run"
where
  "hash_on_thread L pages t input s = bind_run (thread_vm L pages t s) (\<lambda>vm s. (Ok (calculate_hash L vm input), s))"

inductive randomx_step ::
  "('c, 'd, 'v) randomx_lib \<Rightarrow> ('d, 'v) randomx_state \<Rightarrow> ('d, 'v) randomx_state \<Rightarrow> bool"
for L where
  optimized: "randomx_step L s (randomx_optimized_mode huge s)"
| hashed: "hash_on_thread L pages t input s = (r :: (buf32, unit) result, s') \<Longrightarrow> randomx_step L s s'"

inductive_cases randomx_stepE: "randomx_step L s s'"

section \<open>One hash function\<close>

text \<open>
  What RandomX documents: the machines of one seed compute the same function, with a cache or with the
  dataset made from one, whatever the flags.
\<close>

definition one_function :: "('c, 'd, 'v) randomx_lib \<Rightarrow> (u8 list \<Rightarrow> buf32) \<Rightarrow> bool" where
  "one_function L H \<longleftrightarrow>
     (\<forall>fs cache vm. new_cache L fs RANDOMX_SEED = Some cache \<longrightarrow> new_vm L fs (Some cache) None = Some vm \<longrightarrow>
        calculate_hash L vm = H)
     \<and> (\<forall>fs fs' cache d vm. new_cache L fs RANDOMX_SEED = Some cache \<longrightarrow> new_dataset L fs cache = Some d \<longrightarrow>
          new_vm L fs' None (Some d) = Some vm \<longrightarrow> calculate_hash L vm = H)"

definition seeded :: "('c, 'd, 'v) randomx_lib \<Rightarrow> 'd \<Rightarrow> bool" where
  "seeded L d \<longleftrightarrow> (\<exists>fs cache. new_cache L fs RANDOMX_SEED = Some cache \<and> new_dataset L fs cache = Some d)"

lemma one_functionD:
  assumes "one_function L H"
  shows "new_cache L fs RANDOMX_SEED = Some cache \<Longrightarrow> new_vm L fs (Some cache) None = Some vm \<Longrightarrow> calculate_hash L vm = H"
    and "seeded L d \<Longrightarrow> new_vm L fs None (Some d) = Some vm \<Longrightarrow> calculate_hash L vm = H"
  using assms by (auto simp: one_function_def seeded_def)

definition randomx_inv :: "('c, 'd, 'v) randomx_lib \<Rightarrow> (u8 list \<Rightarrow> buf32) \<Rightarrow> ('d, 'v) randomx_state \<Rightarrow> bool" where
  "randomx_inv L H s \<longleftrightarrow>
     (\<forall>d. dataset s = Some d \<longrightarrow> seeded L d) \<and> (\<forall>t vm. fmlookup (thread_vms s) t = Some vm \<longrightarrow> calculate_hash L vm = H)"

lemma randomx_inv_initial: "randomx_inv L H randomx_initial"
  by (simp add: randomx_inv_def randomx_initial_def)

lemma randomx_inv_vm:
  "randomx_inv L H s \<Longrightarrow> calculate_hash L vm = H \<Longrightarrow> randomx_inv L H (s\<lparr>thread_vms := fmupd t vm (thread_vms s)\<rparr>)"
  by (simp add: randomx_inv_def)

lemma get_dataset_inv:
  assumes "get_dataset L pages s = (r, s')" and "randomx_inv L H s"
  shows "randomx_inv L H s' \<and> (\<forall>d. r = Ok d \<longrightarrow> seeded L d)"
proof (cases "dataset s")
  case (Some d)
  then show ?thesis using assms by (auto simp: get_dataset_def randomx_inv_def)
next
  case None
  have "seeded L d" if "new_cache L fs RANDOMX_SEED = Some cache" "new_dataset L fs cache = Some d" for fs cache d
    using that by (auto simp: seeded_def)
  then show ?thesis
    using assms None
    by (auto simp: get_dataset_def Let_def randomx_inv_def bind_run_def expect_Ok_iff split: result.splits)
qed

lemma thread_vm_inv:
  assumes "thread_vm L pages t s = (r :: (_, 'e) result, s')" and inv: "randomx_inv L H s" and lib: "one_function L H"
  shows "randomx_inv L H s' \<and> (\<forall>vm. r = Ok vm \<longrightarrow> calculate_hash L vm = H)"
proof (cases "fmlookup (thread_vms s) t")
  case (Some vm)
  then show ?thesis using assms(1) inv by (auto simp: thread_vm_def randomx_inv_def)
next
  case None
  note vm = one_functionD [OF lib]
  show ?thesis
  proof (cases "is_light_mode s")
    case True
    then show ?thesis
      using assms(1) None inv vm
      by (auto simp: thread_vm_def Let_def bind_run_def expect_Ok_iff intro!: randomx_inv_vm split: result.splits)
  next
    case False
    obtain q s1 where q: "get_dataset L pages s = (q :: (_, 'e) result, s1)" by (rule prod.exhaust)
    from get_dataset_inv [OF q inv] show ?thesis
      using assms(1) None False vm
      by (auto simp: thread_vm_def Let_def bind_run_def expect_Ok_iff q intro!: randomx_inv_vm split: result.splits)
  qed
qed

lemma hash_on_thread_inv:
  assumes "hash_on_thread L pages t input s = (r :: (buf32, 'e) result, s')" and "randomx_inv L H s" and "one_function L H"
  shows "randomx_inv L H s' \<and> (\<forall>h. r = Ok h \<longrightarrow> h = H input)"
proof -
  obtain q s1 where q: "thread_vm L pages t s = (q :: (_, 'e) result, s1)" by (rule prod.exhaust)
  from thread_vm_inv [OF q assms(2,3)] show ?thesis
    using assms(1) by (auto simp: hash_on_thread_def bind_run_def q split: result.splits)
qed

text \<open>Every hash of every run is the one of the function.\<close>

lemma hashes_are_one_function:
  assumes "(randomx_step L)\<^sup>*\<^sup>* randomx_initial s" and lib: "one_function L H"
    and "hash_on_thread L pages t input s = (Ok h, s')"
  shows "h = H input"
proof -
  have "randomx_inv L H s" using assms(1)
  proof (induction rule: rtranclp_induct)
    case (step s s')
    from step(2) show ?case
    proof cases
      case (optimized huge)
      then show ?thesis using step(3) by (simp add: randomx_inv_def randomx_optimized_mode_def)
    next
      case (hashed pages t input r)
      then show ?thesis using hash_on_thread_inv step(3) lib by blast
    qed
  qed (rule randomx_inv_initial)
  then show ?thesis using hash_on_thread_inv [OF assms(3)] lib by blast
qed

text \<open>The mode has no effect on a thread that has hashed.\<close>

lemma optimized_mode_comes_too_late:
  assumes "fmlookup (thread_vms s) t = Some vm"
  shows "thread_vm L pages t (randomx_optimized_mode huge s) = (Ok vm, randomx_optimized_mode huge s)"
  using assms by (simp add: thread_vm_def randomx_optimized_mode_def)

section \<open>The feature \<open>light\<close>\<close>

record ('memory, 'machine) rustdom_lib =
  full_memory :: "string \<Rightarrow> 'memory"
  new_machine :: "'memory \<Rightarrow> 'machine"
  machine_hash :: "'machine \<Rightarrow> u8 list \<Rightarrow> u8 list"

record ('memory, 'machine) rustdom_state =
  shared_memory :: "'memory option"
  thread_machines :: "(thread, 'machine) fmap"

definition rustdom_get_dataset ::
  "('m, 'v) rustdom_lib \<Rightarrow> ('m, 'v) rustdom_state \<Rightarrow> 'm \<times> ('m, 'v) rustdom_state"
where
  "rustdom_get_dataset L s =
     (case shared_memory s of
        Some m \<Rightarrow> (m, s)
      | None \<Rightarrow> let m = full_memory L RANDOMX_SEED in (m, s\<lparr>shared_memory := Some m\<rparr>))"

definition rustdom_machine ::
  "('m, 'v) rustdom_lib \<Rightarrow> thread \<Rightarrow> ('m, 'v) rustdom_state \<Rightarrow> 'v \<times> ('m, 'v) rustdom_state"
where
  "rustdom_machine L t s =
     (case fmlookup (thread_machines s) t of
        Some vm \<Rightarrow> (vm, s)
      | None \<Rightarrow>
          (case rustdom_get_dataset L s of (m, s) \<Rightarrow>
             let vm = new_machine L m in (vm, s\<lparr>thread_machines := fmupd t vm (thread_machines s)\<rparr>)))"

text \<open>A digest that is not 32 bytes long is a panic.\<close>

definition rustdom_hash ::
  "('m, 'v) rustdom_lib \<Rightarrow> thread \<Rightarrow> u8 list \<Rightarrow> ('m, 'v) rustdom_state
     \<Rightarrow> (buf32, 'e, ('m, 'v) rustdom_state) run"
where
  "rustdom_hash L t input s =
     (case rustdom_machine L t s of (vm, s) \<Rightarrow>
        let out = machine_hash L vm input
        in (if length out = 32 then Ok (word_from_be_bytes out) else Panic, s))"

definition rustdom_inv :: "('m, 'v) rustdom_lib \<Rightarrow> ('m, 'v) rustdom_state \<Rightarrow> bool" where
  "rustdom_inv L s \<longleftrightarrow>
     (\<forall>m. shared_memory s = Some m \<longrightarrow> m = full_memory L RANDOMX_SEED)
     \<and> (\<forall>t vm. fmlookup (thread_machines s) t = Some vm \<longrightarrow> vm = new_machine L (full_memory L RANDOMX_SEED))"

lemma rustdom_inv_initial: "rustdom_inv L \<lparr>shared_memory = None, thread_machines = fmempty\<rparr>"
  by (simp add: rustdom_inv_def)

text \<open>Every hash on every thread is that of the one machine.\<close>

lemma rustdom_hash_one_function:
  assumes "rustdom_inv L s" and "rustdom_hash L t input s = (r, s')"
  shows "rustdom_inv L s'"
    and "r = (let out = machine_hash L (new_machine L (full_memory L RANDOMX_SEED)) input
      in if length out = 32 then Ok (word_from_be_bytes out) else Panic)"
proof -
  have m: "fst (rustdom_get_dataset L s) = full_memory L RANDOMX_SEED" "rustdom_inv L (snd (rustdom_get_dataset L s))"
    using assms(1) by (auto simp: rustdom_get_dataset_def rustdom_inv_def Let_def split: option.splits)
  have "fst (rustdom_machine L t s) = new_machine L (full_memory L RANDOMX_SEED) \<and> rustdom_inv L (snd (rustdom_machine L t s))"
  proof (cases "fmlookup (thread_machines s) t")
    case None
    then show ?thesis
      using m by (auto simp: rustdom_machine_def Let_def rustdom_inv_def split: prod.split)
  next
    case (Some vm)
    then show ?thesis using assms(1) by (auto simp: rustdom_machine_def rustdom_inv_def)
  qed
  then show "rustdom_inv L s'" "r = (let out = machine_hash L (new_machine L (full_memory L RANDOMX_SEED)) input
      in if length out = 32 then Ok (word_from_be_bytes out) else Panic)"
    using assms(2) by (auto simp: rustdom_hash_def Let_def split: prod.splits)
qed

end
