(* ===== verification/Spec2Isabelle.thy ===== *)
theory Spec2Isabelle
  imports Chain_Properties Ledger_Properties Data_Properties Node_Properties Wire_Properties
    Sync_Properties Client_Properties Light_Properties Connection_Properties Discovery_Properties
    Startup_Properties Subscription_Properties Host_Properties Api_Server Source_Tests Integration_Tests Random_X
begin

text \<open>
  A verification development for snap-coin, a proof-of-work cryptocurrency in Rust: the data of
  transactions and blocks, the chain of a full node with its ledger and its difficulty, the nodes that
  exchange blocks and transactions, the ways in which they catch up with each other, and the clients that
  ask them.  Paths below are under \<open>src/src\<close>.

  \<^bold>\<open>The parts and how they interact.\<close>  A \<open>Blockchain\<close> (\<open>core/blockchain.rs\<close>) holds a block store, a set of
  unspent outputs and a difficulty state, and adds a block to all three or to none.  A full node
  (\<open>full_node\<close>) holds a chain, a pool of pending transactions and what it knows of its peers; messages of
  peers are handled one at a time (\<open>behavior.rs\<close>), and it catches up by \<open>sync.rs\<close> (searching the fork
  point) or \<open>ibd.rs\<close> (the first download).  A light node (\<open>light_node\<close>) keeps, instead of a chain, the
  rows of the addresses it watches, and fetches only the blocks whose filter names one of them.  Both have
  a server for clients (\<open>api_server.rs\<close>, requests and framing in \<open>requests.rs\<close>); a client (\<open>client.rs\<close>) is
  again a provider of chain data, from which payments and blocks are built (\<open>lib.rs\<close>).

  \<^bold>\<open>Theories of the model\<close>, each with the lemmas that make its component correct:

  \<^item> \<open>Prelude\<close>: outcomes of Rust functions (a value, an error or a panic), checked, saturating and plain
    arithmetic on words, runs (an outcome with a state), loops, finite maps.  \<open>Bytes\<close>: big-endian bytes,
    \<open>BigUint\<close> and base 36.  \<open>Float64\<close>: binary64 arithmetic.  \<open>Utils\<close>: \<open>core/utils.rs\<close>, \<open>bounded_set.rs\<close>.
  \<^item> \<open>Crypto\<close> (\<open>crypto/mod.rs\<close>, \<open>keys.rs\<close>) with \<open>Random_X\<close>, the machine behind its hash, \<open>Economics\<close>, \<open>Transactions\<close>, \<open>Merkle_Tree\<close>, \<open>Address_Filter\<close>,
    \<open>Target\<close> and \<open>Difficulty\<close> (both \<open>core/difficulty.rs\<close>), \<open>Blocks\<close>: the data of the chain.  \<open>Source_Tests\<close>: the
    unit tests that the files of the Merkle tree and of the filter contain, as functions, and when they pass;
    \<open>Integration_Tests\<close>: of \<open>tests/\<close>, those of the primitives and of rollbacks.
  \<^item> \<open>Utxo_Set\<close> (\<open>core/utxo.rs\<close>) with \<open>Utxo_Ledger\<close>, \<open>Block_Ledger\<close> and \<open>Supply\<close>: the abstract ledger, a
    map of outpoints to outputs, of which the stored rows are a refinement; validation as a predicate on it.
  \<^item> \<open>Block_Store\<close> (\<open>core/block_store.rs\<close>) with \<open>Chain_Log\<close>: the files and the two index trees as a list
    of blocks with their differences.
  \<^item> \<open>Blockchain\<close> with \<open>Chain_Validation\<close> and \<open>Chain_Invariant\<close>: the checks as a predicate, the invariant
    of every reachable chain.  \<open>Data_Provider\<close> (\<open>blockchain_data_provider.rs\<close>, \<open>core/blockchain_ext.rs\<close>)
    and \<open>Builders\<close> (\<open>lib.rs\<close>).
  \<^item> \<open>Mem_Pool\<close> (\<open>node/mempool.rs\<close>), \<open>Messages\<close> (\<open>node/message.rs\<close>, \<open>version.rs\<close>), \<open>Node_State\<close>
    (\<open>full_node/node_state.rs\<close>, \<open>node/mod.rs\<close>, \<open>node/chain_events.rs\<close>), \<open>Full_Node\<close> (\<open>full_node/mod.rs\<close>),
    \<open>Full_Behavior\<close>, \<open>Full_Sync\<close>, \<open>Ibd\<close> (the first download, one task after the other) and \<open>Ibd_Pipeline\<close> (its
    tasks and hashing threads as they interleave); \<open>Node_Invariant\<close> is the step relation of a running node.
  \<^item> \<open>Peer_Connection\<close> (\<open>node/peer.rs\<close>): the handshake and the tasks of one connection as a step relation, and
    that of two ends.  \<open>Peer_Behavior\<close> (\<open>node/peer_behavior.rs\<close>): what a connection sees of its node, for both
    kinds of node, and a host: a node with any number of connections.  \<open>Addresses\<close>: reading a socket address, the inverse of the printing in \<open>Node_State\<close>.
    \<open>Peer_Discovery\<close> (\<open>auto_peer.rs\<close> of both nodes, \<open>auto_reconnect.rs\<close>, \<open>p2p_server.rs\<close>): connecting,
    accepting and one round of every daemon.  \<open>Startup\<close>: creating nodes on what is on the disk.
  \<^item> \<open>Light_Utxos\<close> (\<open>light_node/utxos.rs\<close>, \<open>transaction_store.rs\<close>), \<open>Light_Node\<close> (\<open>light_node_state.rs\<close>,
    \<open>mod.rs\<close>), \<open>Light_Sync\<close>, \<open>Light_Behavior\<close>; \<open>Light_Ledger\<close> and \<open>Light_Tracking\<close> relate the rows to the
    ledger of the chain, \<open>Light_Steps\<close> is the step relation of a light node.
  \<^item> \<open>Requests\<close>, \<open>Full_Api\<close>, \<open>Light_Api\<close>, \<open>Client\<close>, and \<open>Client_Node\<close>, which puts a client and a node
    together; \<open>Api_Server\<close> is a node with any number of clients; \<open>Subscriptions\<close> does so for the events of a running node.
  \<^item> \<open>Demo\<close>, \<open>Demo_Chain\<close>, \<open>Demo_Payment\<close>, \<open>Demo_Api\<close>: concrete operations, chains, payments and codecs for
    the witnesses.  The theories \<open>\<dots>_Properties\<close> hold the properties, numbered C1 to C40.

  \<^bold>\<open>Contracts.\<close>  Six locales state what one part relies on in another, each interpreted on the code's own
  definitions: \<open>base36_buffer\<close> (printing and reading, for hashes, signatures and both keys),
  \<open>recency_list\<close> (a bounded memory, for the bounded set and for the last seen transactions), \<open>block_log\<close>
  (a log with indices, for the block store), \<open>chain_server\<close> (a node that serves its chain, for the message
  handler of a full node; synchronisation, first download and light synchronisation are proved for any
  server) and \<open>output_provider\<close> (a lister of unspent outputs, for the chain and for a client over the wire;
  building payments is proved for any), and
  \<open>peer_host\<close> (a behaviour whose handlers keep an invariant of its node; every host then keeps it, which is
  applied to the full node and to the light node).

  \<^bold>\<open>How state and operations correspond to the code.\<close>  A struct is a record with the fields of the source, an
  enum a datatype with its constructors (a suffix where a name would clash).  A function that changes state
  returns its outcome with the state, also when it fails, so that what an error leaves behind is visible.
  Machine integers are words, \<open>usize\<close> is a natural number; plain arithmetic takes the flag
  \<open>overflow_checks\<close>: with it an overflow is a panic, without it the result wraps.  Trees of the database
  are finite maps with decoded values whose operations succeed; the encoders are functions that may fail.
  What is outside the repository (RandomX, SHA-256, signatures, the logarithm, bincode, JSON) is a field of a
  chain of records, \<open>crypto\<close>, \<open>tx_env\<close>, \<open>block_env\<close>, \<open>store_env\<close>, \<open>chain_env\<close>, \<open>message_env\<close> and
  \<open>request_env\<close>, with the laws that a proof relies on as named predicates (\<open>signs_verify\<close>, \<open>ln_signs\<close>,
  \<open>api_codec\<close>).  Clock readings, nonces and random numbers are arguments.  Hash maps of peers are lists in an
  arbitrary order.  Messages that are sent, events and tasks that are spawned are kept in lists of the state,
  in their order.  A connection is a function of bytes, a peer is a function of the number of the request and
  the command, the peers of a quorum are the list of replies before the deadline.

  \<^bold>\<open>Loops, fuel and waiting.\<close>  Mining tries a list of nonces: \<open>None\<close> is a miner that has not found one yet, and
  mining is shown to end when the list has a nonce that meets the target.  Rolling back takes as many steps
  as there are blocks above the fork point, which is all the loop can take.  Listings of a client take a
  number of pages, shown to be enough when the listing is shorter than that many pages.  The first download
  takes the shares of its rounds; one round per missing block is enough if each asks for something.  A light
  node that waits for its processing lock while it holds it is \<open>None\<close>, a task that never ends.

  \<^bold>\<open>What the properties show.\<close>  C1 to C7: the chain (invariant, atomicity of adding, removing, restarting, what
  is accepted, issue and supply).  C8, C9, C26: the ledger and the store.  C10 to C12, C34, C39: the running full
  node.  C13 to C16, C22: catching up.  C17, C18, C24, C25, C32: building and clients.  C19, C20, C21, C23, C35, C36:
  connections between peers and how a node comes to them.  C27 to C29, C33, C40: targets, filter, Merkle proofs,
  mining, hashing.  C30, C31, C37, C38: the light node.

  \<^bold>\<open>Steps and interleavings.\<close>  Ten step relations say what may happen in which order: \<open>chain_step\<close> (blocks added,
  refused, taken back), \<open>node_step\<close> (a running full node), \<open>light_step\<close> (a light node), \<open>connection_step\<close> and
  \<open>link_step\<close> (the tasks of a connection, its users and its socket; two ends), \<open>subscribed_step\<close> (a node and a
  client that listens), \<open>randomx_step\<close> (threads that hash), \<open>host_step\<close> (a node with all its
  connections), \<open>api_step\<close> (a node with all its clients), \<open>pipeline_step\<close> (the tasks of the first download).  Invariants are proved for every state they reach.
  Two tasks that meet in the pool are modelled in \<open>Mem_Pool\<close>, waiting for a lock in \<open>Light_Steps\<close>; elsewhere a
  handler, and a round of a daemon, runs to its end before the next.

  \<^bold>\<open>Not modelled\<close>, and why: what sockets, clocks and the operating system do, which are arguments; sleeping
  between the rounds of a daemon; the logger and progress messages; failures of the disk; the check for huge pages
  outside Linux; the shape of the JSON and bincode bytes, which other crates define; the
  tests of validation, of the mempool and of the client in \<open>tests/\<close>, whose subject the properties cover.
\<close>

end
